(* ===== verification/Prelude.thy ===== *)
theory Prelude
  imports Main "HOL-Library.Word" "HOL-Library.AList" "HOL-Library.Char_ord"
begin

unbundle bit_operations_syntax

text \<open>
  Shared vocabulary of the development: the machine integers and byte buffers of the
  crate, the laws of the finite maps that stand for Rust's \<open>HashMap\<close>, the parts of the
  Rust standard library on strings and integers that the sources call, and the lemma
  collections that carry the component proofs.

  Conventions. A \<open>String\<close> or \<open>&str\<close> is the list of its UTF-8 bytes (\<^typ>\<open>string\<close>),
  so that \<open>len\<close> counts bytes as Rust does. \<open>Bytes\<close>, \<open>Vec<u8>\<close> and \<open>&[u8]\<close> are
  lists of \<open>8 word\<close>. A \<open>usize\<close> is a \<^typ>\<open>nat\<close>: every such value in the crate is a
  length, an offset into a buffer or a configured bound. \<open>Arc<T>\<close> is \<open>T\<close>.
\<close>

type_synonym u8 = "8 word"
type_synonym u16 = "16 word"
type_synonym u32 = "32 word"
type_synonym u64 = "64 word"
type_synonym u128 = "128 word"
type_synonym bytes = "8 word list"

named_theorems codec "evaluation of byte codecs"
named_theorems inv_intros "introduction rules of component invariants"

section \<open>Lists\<close>

lemma take_append_exact [simp]: "length xs = n \<Longrightarrow> take n (xs @ ys) = xs"
  by simp

lemma drop_append_exact [simp]: "length xs = n \<Longrightarrow> drop n (xs @ ys) = ys"
  by simp

lemma list_nonempty_first: "xs \<noteq> [] \<longleftrightarrow> (\<exists>y ys. xs = y # ys)"
  by (cases xs) auto

section \<open>Big-endian integers\<close>

text \<open>
  \<open>u32::from_be_bytes\<close> / \<open>BufMut::put_u32\<close>, and the 16-byte layout of \<open>uuid::Uuid\<close>,
  which is big-endian ("network order").
\<close>

fun le_to_word :: "bytes \<Rightarrow> 'a::len word" where
  "le_to_word [] = 0"
| "le_to_word (b # bs) = ucast b OR push_bit 8 (le_to_word bs)"

fun word_to_le :: "nat \<Rightarrow> 'a::len word \<Rightarrow> bytes" where
  "word_to_le 0 w = []"
| "word_to_le (Suc n) w = ucast w # word_to_le n (drop_bit 8 w)"

definition from_be_bytes :: "bytes \<Rightarrow> 'a::len word" where
  "from_be_bytes bs = le_to_word (rev bs)"

definition u32_to_be :: "u32 \<Rightarrow> bytes" where
  "u32_to_be w = rev (word_to_le 4 w)"

definition u128_to_be :: "u128 \<Rightarrow> bytes" where
  "u128_to_be w = rev (word_to_le 16 w)"

lemma length_word_to_le [simp]: "length (word_to_le n w) = n"
  by (induction n arbitrary: w) auto

lemma bit_le_to_word:
  "bit (le_to_word bs :: 'a::len word) i \<longleftrightarrow>
     i < LENGTH('a) \<and> i div 8 < length bs \<and> bit (bs ! (i div 8)) (i mod 8)"
proof (induction bs arbitrary: i)
  case Nil
  show ?case by simp
next
  case (Cons b bs)
  show ?case
  proof (cases "i < 8")
    case True
    then show ?thesis
      by (auto simp: bit_or_iff bit_push_bit_iff bit_ucast_iff)
  next
    case False
    then have d: "i div 8 = Suc ((i - 8) div 8)" and m: "i mod 8 = (i - 8) mod 8"
      by (simp_all add: le_div_geq le_mod_geq)
    have b: "\<not> bit b i" using False by (auto dest: bit_imp_le_length)
    show ?thesis
      using False b Cons.IH [of "i - 8"] 
      by (auto simp: bit_or_iff bit_push_bit_iff bit_ucast_iff d m)
  qed
qed

lemma le_to_word_to_le: "le_to_word (word_to_le n w) = take_bit (8 * n) (w :: 'a::len word)"
proof (induction n arbitrary: w)
  case 0
  show ?case by simp
next
  case (Suc n)
  show ?case
    by (rule bit_word_eqI)
      (auto simp: Suc.IH bit_or_iff bit_push_bit_iff bit_ucast_iff bit_take_bit_iff bit_drop_bit_eq)
qed

lemma word_to_le_to_word:
  "length bs = n \<Longrightarrow> 8 * n \<le> LENGTH('a) \<Longrightarrow> word_to_le n (le_to_word bs :: 'a::len word) = bs"
proof (induction n arbitrary: bs)
  case 0
  then show ?case by simp
next
  case (Suc n)
  then obtain b bs' where bs: "bs = b # bs'" and len: "length bs' = n"
    by (cases bs) auto
  have hd: "ucast (ucast b OR push_bit 8 (le_to_word bs') :: 'a word) = b"
    using Suc.prems
    by (intro bit_word_eqI) (auto simp: bit_ucast_iff bit_or_iff bit_push_bit_iff)
  have tl: "word_to_le n (drop_bit 8 (ucast b OR push_bit 8 (le_to_word bs') :: 'a word)) =
      word_to_le n (le_to_word bs' :: 'a word)"
  proof -
    have "drop_bit 8 (ucast b OR push_bit 8 (le_to_word bs') :: 'a word) =
        take_bit (LENGTH('a) - 8) (le_to_word bs')"
      by (intro bit_word_eqI)
        (auto simp: bit_ucast_iff bit_or_iff bit_push_bit_iff bit_drop_bit_eq bit_take_bit_iff
          dest: bit_imp_le_length)
    also have "\<dots> = (le_to_word bs' :: 'a word)"
      using Suc.prems len
      by (intro bit_word_eqI) (auto simp: bit_take_bit_iff bit_le_to_word)
    finally show ?thesis by simp
  qed
  show ?case using Suc.IH [OF len] Suc.prems by (simp add: bs hd tl del: drop_bit_or)
qed

lemma length_u32_to_be [simp]: "length (u32_to_be w) = 4"
  by (simp add: u32_to_be_def)

lemma length_u128_to_be [simp]: "length (u128_to_be w) = 16"
  by (simp add: u128_to_be_def)

lemma from_be_u32_to_be [simp]: "from_be_bytes (u32_to_be w) = w"
  by (simp add: from_be_bytes_def u32_to_be_def le_to_word_to_le del: word_to_le.simps)
    (simp add: take_bit_word_eq_self)

lemma from_be_u128_to_be [simp]: "from_be_bytes (u128_to_be w) = w"
  by (simp add: from_be_bytes_def u128_to_be_def le_to_word_to_le del: word_to_le.simps)
    (simp add: take_bit_word_eq_self)

lemma u32_to_be_from_be [simp]: "length bs = 4 \<Longrightarrow> u32_to_be (from_be_bytes bs) = bs"
  by (simp add: from_be_bytes_def u32_to_be_def word_to_le_to_word del: word_to_le.simps)

lemma u128_to_be_from_be [simp]: "length bs = 16 \<Longrightarrow> u128_to_be (from_be_bytes bs) = bs"
  by (simp add: from_be_bytes_def u128_to_be_def word_to_le_to_word del: word_to_le.simps)

text \<open>Evaluation on concrete words.\<close>

lemma word_to_le_numeral [simp]:
  "word_to_le (numeral k) w = ucast w # word_to_le (pred_numeral k) (drop_bit 8 w)"
  by (simp add: numeral_eq_Suc)

lemmas be_codec [codec] = u32_to_be_def u128_to_be_def from_be_bytes_def

end
