(* ===== verification/Rust_Std.thy ===== *)
theory Rust_Std
  imports Prelude
begin

text \<open>
  The parts of the Rust standard library the sources call, as functions on the models of
  \<open>Prelude\<close>: \<open>HashMap\<close> (an association list with distinct keys behind the locale
  \<open>hash_map\<close>), the \<open>str\<close> methods, decimal rendering and \<open>str::parse\<close> for integers.
  Nothing here models code of the repository.
\<close>

section \<open>Hash maps\<close>

text \<open>The interface every component uses: what a lookup returns after an update.\<close>

locale hash_map =
  fixes get :: "'m \<Rightarrow> 'k \<Rightarrow> 'v option"
    and put :: "'k \<Rightarrow> 'v \<Rightarrow> 'm \<Rightarrow> 'm"
    and del :: "'k \<Rightarrow> 'm \<Rightarrow> 'm"
    and len :: "'m \<Rightarrow> nat"
    and wf :: "'m \<Rightarrow> bool"
  assumes get_put: "get (put k v m) k' = (if k' = k then Some v else get m k')"
    and get_del: "get (del k m) k' = (if k' = k then None else get m k')"
    and wf_put: "wf m \<Longrightarrow> wf (put k v m)"
    and wf_del: "wf m \<Longrightarrow> wf (del k m)"
    and finite_keys: "finite (dom (get m))"
    and len_keys: "wf m \<Longrightarrow> len m = card (dom (get m))"
begin

lemma dom_put: "dom (get (put k v m)) = insert k (dom (get m))"
  by (auto simp: get_put split: if_splits)

lemma dom_del: "dom (get (del k m)) = dom (get m) - {k}"
  by (auto simp: get_del split: if_splits)

lemma len_put:
  "wf m \<Longrightarrow> len (put k v m) = (if get m k = None then Suc (len m) else len m)"
  by (simp add: len_keys wf_put dom_put card_insert_if finite_keys domIff)

lemma len_del:
  "wf m \<Longrightarrow> len (del k m) = (if get m k = None then len m else len m - 1)"
  by (simp add: len_keys wf_del dom_del card_Diff_singleton_if finite_keys domIff)

lemma len_zero: "wf m \<Longrightarrow> len m = 0 \<longleftrightarrow> (\<forall>k. get m k = None)"
  by (simp add: len_keys card_eq_0_iff finite_keys dom_eq_empty_conv fun_eq_iff)

end

type_synonym ('k, 'v) hashmap = "('k \<times> 'v) list"

abbreviation (input) hm_get :: "('k, 'v) hashmap \<Rightarrow> 'k \<Rightarrow> 'v option" where
  "hm_get \<equiv> map_of"

abbreviation (input) hm_put :: "'k \<Rightarrow> 'v \<Rightarrow> ('k, 'v) hashmap \<Rightarrow> ('k, 'v) hashmap" where
  "hm_put \<equiv> AList.update"

abbreviation (input) hm_del :: "'k \<Rightarrow> ('k, 'v) hashmap \<Rightarrow> ('k, 'v) hashmap" where
  "hm_del \<equiv> AList.delete"

abbreviation (input) hm_len :: "('k, 'v) hashmap \<Rightarrow> nat" where
  "hm_len \<equiv> length"

abbreviation (input) hm_wf :: "('k, 'v) hashmap \<Rightarrow> bool" where
  "hm_wf m \<equiv> distinct (map fst m)"

lemma hm_del_get: "map_of (AList.delete k m) k' = (if k' = k then None else map_of m k')"
  by (simp add: delete_conv')

lemma hm_put_get: "map_of (AList.update k v m) k' = (if k' = k then Some v else map_of m k')"
  by (simp add: update_conv')

interpretation hm: hash_map hm_get hm_put hm_del hm_len hm_wf
proof unfold_locales
  fix m :: "('k, 'v) hashmap"
  show "finite (dom (hm_get m))" by (rule finite_dom_map_of)
  show "hm_wf m \<Longrightarrow> length m = card (dom (hm_get m))"
    unfolding dom_map_of_conv_image_fst
    by (metis distinct_card image_set length_map)
qed (simp_all add: hm_put_get hm_del_get distinct_update distinct_delete)

lemmas hm_get_simps [simp] = hm.get_put hm.get_del
lemmas hm_wf_intros [simp, inv_intros] = hm.wf_put hm.wf_del

section \<open>Strings\<close>

definition ascii_lower :: "char \<Rightarrow> char" where
  "ascii_lower c =
     (if 65 \<le> (of_char c :: nat) \<and> (of_char c :: nat) \<le> 90 then char_of ((of_char c :: nat) + 32) else c)"

text \<open>\<open>str::eq_ignore_ascii_case\<close>.\<close>

definition eq_ignore_ascii_case :: "string \<Rightarrow> string \<Rightarrow> bool" where
  "eq_ignore_ascii_case s t \<longleftrightarrow> map ascii_lower s = map ascii_lower t"

lemma eq_ignore_ascii_case_refl [simp]: "eq_ignore_ascii_case s s"
  by (simp add: eq_ignore_ascii_case_def)

text \<open>\<open>str::split_once\<close> and \<open>str::rsplit_once\<close> with a one-byte separator.\<close>

fun split_once :: "char \<Rightarrow> string \<Rightarrow> (string \<times> string) option" where
  "split_once c [] = None"
| "split_once c (x # xs) =
     (if x = c then Some ([], xs)
      else case split_once c xs of None \<Rightarrow> None | Some (a, b) \<Rightarrow> Some (x # a, b))"

definition rsplit_once :: "char \<Rightarrow> string \<Rightarrow> (string \<times> string) option" where
  "rsplit_once c s =
     (case split_once c (rev s) of None \<Rightarrow> None | Some (a, b) \<Rightarrow> Some (rev b, rev a))"

lemma split_once_None [simp]: "split_once c s = None \<longleftrightarrow> c \<notin> set s"
  by (induction s) (auto split: option.splits)

lemma split_once_SomeD: "split_once c s = Some (a, b) \<Longrightarrow> s = a @ c # b \<and> c \<notin> set a"
  by (induction s arbitrary: a) (auto split: option.splits if_splits)

lemma split_once_append [simp]: "c \<notin> set a \<Longrightarrow> split_once c (a @ c # b) = Some (a, b)"
  by (induction a) auto

lemma rsplit_once_None [simp]: "rsplit_once c s = None \<longleftrightarrow> c \<notin> set s"
  by (auto simp: rsplit_once_def split: option.splits) (metis not_None_eq set_rev split_once_None)

lemma rsplit_once_SomeD: "rsplit_once c s = Some (a, b) \<Longrightarrow> s = a @ c # b \<and> c \<notin> set b"
  by (auto simp: rsplit_once_def dest!: split_once_SomeD split: option.splits)
    (metis append.assoc append_Cons append_Nil rev.simps(2) rev_append rev_rev_ident)

lemma rsplit_once_append [simp]: "c \<notin> set b \<Longrightarrow> rsplit_once c (a @ c # b) = Some (a, b)"
  by (simp add: rsplit_once_def)

text \<open>\<open>str::split\<close> on a set of one-byte separators: always at least one piece.\<close>

fun split_on :: "(char \<Rightarrow> bool) \<Rightarrow> string \<Rightarrow> string list" where
  "split_on p [] = [[]]"
| "split_on p (x # xs) =
     (if p x then [] # split_on p xs
      else case split_on p xs of [] \<Rightarrow> [[x]] | y # ys \<Rightarrow> (x # y) # ys)"

lemma split_on_nonempty [simp]: "split_on p s \<noteq> []"
  by (induction s) (auto split: list.splits)

lemma split_on_no_sep: "(\<forall>c \<in> set s. \<not> p c) \<Longrightarrow> split_on p s = [s]"
  by (induction s) auto

lemma split_on_append_sep:
  "p c \<Longrightarrow> split_on p (a @ c # b) = split_on p a @ split_on p b"
  by (induction a) (auto split: list.splits simp: Cons_eq_append_conv)

lemma split_on_pieces: "t \<in> set (split_on p s) \<Longrightarrow> c \<in> set t \<Longrightarrow> \<not> p c"
proof (induction s arbitrary: t)
  case Nil
  then show ?case by simp
next
  case (Cons a s)
  then obtain y ys where "split_on p s = y # ys" by (cases "split_on p s") auto
  with Cons show ?case by (auto split: if_splits) (metis list.set_intros)+
qed

text \<open>\<open>str::starts_with\<close>, \<open>ends_with\<close>, \<open>strip_prefix\<close>, \<open>find\<close>, \<open>contains\<close>.\<close>

definition starts_with :: "string \<Rightarrow> string \<Rightarrow> bool" where
  "starts_with s p \<longleftrightarrow> take (length p) s = p"

definition ends_with :: "string \<Rightarrow> string \<Rightarrow> bool" where
  "ends_with s p \<longleftrightarrow> length p \<le> length s \<and> drop (length s - length p) s = p"

definition strip_prefix :: "string \<Rightarrow> string \<Rightarrow> string option" where
  "strip_prefix p s = (if starts_with s p then Some (drop (length p) s) else None)"

fun str_find :: "string \<Rightarrow> string \<Rightarrow> nat option" where
  "str_find p [] = (if p = [] then Some 0 else None)"
| "str_find p (x # xs) =
     (if starts_with (x # xs) p then Some 0
      else case str_find p xs of None \<Rightarrow> None | Some n \<Rightarrow> Some (Suc n))"

definition str_contains :: "string \<Rightarrow> string \<Rightarrow> bool" where
  "str_contains p s \<longleftrightarrow> str_find p s \<noteq> None"

fun find_char :: "(char \<Rightarrow> bool) \<Rightarrow> string \<Rightarrow> nat option" where
  "find_char p [] = None"
| "find_char p (x # xs) = (if p x then Some 0 else case find_char p xs of None \<Rightarrow> None | Some n \<Rightarrow> Some (Suc n))"

lemma find_char_takeWhile:
  "take (case find_char p s of None \<Rightarrow> length s | Some n \<Rightarrow> n) s = takeWhile (\<lambda>c. \<not> p c) s"
  by (induction s) (auto split: option.splits)

definition trim_end_matches :: "char \<Rightarrow> string \<Rightarrow> string" where
  "trim_end_matches c s = rev (dropWhile (\<lambda>x. x = c) (rev s))"

definition ascii_ws :: "char \<Rightarrow> bool" where
  "ascii_ws c \<longleftrightarrow> c = CHR '' '' \<or> (9 \<le> (of_char c :: nat) \<and> (of_char c :: nat) \<le> 13)"

definition str_trim :: "string \<Rightarrow> string" where
  "str_trim s = rev (dropWhile ascii_ws (rev (dropWhile ascii_ws s)))"

section \<open>Decimal numbers\<close>

definition digit_char :: "nat \<Rightarrow> char" where
  "digit_char d = char_of (48 + d)"

fun dec_nat :: "nat \<Rightarrow> string" where
  "dec_nat n = (if n < 10 then [digit_char n] else dec_nat (n div 10) @ [digit_char (n mod 10)])"

declare dec_nat.simps [simp del]

definition dec_int :: "int \<Rightarrow> string" where
  "dec_int i = (if i < 0 then CHR ''-'' # dec_nat (nat (- i)) else dec_nat (nat i))"

definition digit_val :: "char \<Rightarrow> nat option" where
  "digit_val c =
     (if 48 \<le> (of_char c :: nat) \<and> (of_char c :: nat) \<le> 57 then Some ((of_char c :: nat) - 48) else None)"

fun digits_val :: "nat \<Rightarrow> string \<Rightarrow> nat option" where
  "digits_val acc [] = Some acc"
| "digits_val acc (c # cs) =
     (case digit_val c of None \<Rightarrow> None | Some d \<Rightarrow> digits_val (10 * acc + d) cs)"

definition parse_nat_digits :: "string \<Rightarrow> nat option" where
  "parse_nat_digits s = (if s = [] then None else digits_val 0 s)"

text \<open>
  \<open>str::parse::<u64>\<close>: an optional \<open>+\<close>, then at least one digit, in range.
  \<open>str::parse::<i64>\<close> also takes a \<open>-\<close>. The bound is a parameter.
\<close>

definition parse_unsigned :: "nat \<Rightarrow> string \<Rightarrow> nat option" where
  "parse_unsigned bits s =
     (let ds = (case s of [] \<Rightarrow> [] | c # cs \<Rightarrow> if c = CHR ''+'' then cs else s)
      in case parse_nat_digits ds of
           None \<Rightarrow> None
         | Some n \<Rightarrow> if n < 2 ^ bits then Some n else None)"

definition parse_signed :: "nat \<Rightarrow> string \<Rightarrow> int option" where
  "parse_signed bits s =
     (case s of
        [] \<Rightarrow> None
      | c # cs \<Rightarrow>
          if c = CHR ''-'' then
            (case parse_nat_digits cs of
               None \<Rightarrow> None
             | Some n \<Rightarrow> if n \<le> 2 ^ (bits - 1) then Some (- int n) else None)
          else
            (case parse_nat_digits (if c = CHR ''+'' then cs else s) of
               None \<Rightarrow> None
             | Some n \<Rightarrow> if n < 2 ^ (bits - 1) then Some (int n) else None))"

lemma of_char_digit [simp]: "d < 10 \<Longrightarrow> (of_char (digit_char d) :: nat) = 48 + d"
  by (simp add: digit_char_def of_char_of)

lemma digit_val_char [simp]: "d < 10 \<Longrightarrow> digit_val (digit_char d) = Some d"
  by (simp add: digit_val_def)

lemma digits_val_append:
  "digits_val acc (xs @ ys) =
     (case digits_val acc xs of None \<Rightarrow> None | Some a \<Rightarrow> digits_val a ys)"
  by (induction xs arbitrary: acc) (auto split: option.splits)

lemma dec_nat_nonempty [simp]: "dec_nat n \<noteq> []"
  by (subst dec_nat.simps) simp

lemma digits_val_dec: "digits_val 0 (dec_nat n) = Some n"
proof (induction n rule: dec_nat.induct)
  case (1 n)
  show ?case
  proof (cases "n < 10")
    case True
    then show ?thesis by (simp add: dec_nat.simps [of n])
  next
    case False
    with 1 show ?thesis by (simp add: dec_nat.simps [of n] digits_val_append)
  qed
qed

lemma parse_nat_digits_dec [simp]: "parse_nat_digits (dec_nat n) = Some n"
  by (simp add: parse_nat_digits_def digits_val_dec)

lemma dec_nat_digits: "c \<in> set (dec_nat n) \<Longrightarrow> 48 \<le> (of_char c :: nat) \<and> (of_char c :: nat) \<le> 57"
proof (induction n rule: dec_nat.induct)
  case (1 n)
  show ?case
  proof (cases "n < 10")
    case True
    with 1 show ?thesis by (simp add: dec_nat.simps [of n])
  next
    case False
    with 1 show ?thesis by (auto simp: dec_nat.simps [of n])
  qed
qed

lemma dec_nat_hd: "dec_nat n = c # cs \<Longrightarrow> c \<noteq> CHR ''-'' \<and> c \<noteq> CHR ''+''"
  using dec_nat_digits [of c n] by auto

lemma parse_unsigned_dec: "n < 2 ^ bits \<Longrightarrow> parse_unsigned bits (dec_nat n) = Some n"
  using dec_nat_hd [of n] parse_nat_digits_dec [of n]
  by (cases "dec_nat n") (auto simp: parse_unsigned_def Let_def)

lemma parse_signed_dec:
  assumes "- (2 ^ (bits - 1)) \<le> i" and "i < 2 ^ (bits - 1)"
  shows "parse_signed bits (dec_int i) = Some i"
proof (cases "i < 0")
  case True
  then have "nat (- i) \<le> 2 ^ (bits - 1)"
    using assms(1) by (simp add: nat_le_iff)
  with True show ?thesis by (simp add: dec_int_def parse_signed_def)
next
  case False
  then have "nat i < 2 ^ (bits - 1)"
    using assms(2) by (simp add: nat_less_iff)
  with False show ?thesis
    using dec_nat_hd [of "nat i"] parse_nat_digits_dec [of "nat i"]
    by (cases "dec_nat (nat i)") (auto simp: dec_int_def parse_signed_def)
qed

end
