(* ===== verification/Errors.thy ===== *)
theory Errors
  imports Rust_Std
begin

text \<open>
  Errors (\<open>src/error.rs\<close>): the error enum, its predicates and the numeric codes, the
  \<open>Result\<close> alias, and calls with effects.

  Every \<open>format!\<close> of an error message is a constructor of one of the message datatypes
  below, carrying the values the format string interpolates; the English text itself is not
  modelled. \<open>Text\<close> is a message that the code passes on from outside (a response body, an
  error of a dependency). A \<open>u16\<close> HTTP status and an \<open>i32\<close> error code are only ever
  compared with constants: they are \<^typ>\<open>nat\<close> and \<^typ>\<open>int\<close>.
\<close>

section \<open>Messages, by module\<close>

datatype wire_msg =
    EmptyFrame | V0TooShort nat | V1TooShort nat | BadMagic u8
  | NegativeIndex u64 | IndexOverflow u64 | TruncatedVarint | VarintOverflow
  | IndexCountTooLarge u32 | HeaderTrailing nat

datatype glue_msg =
    GlueTooShort nat | GlueBadVersion u8 | GlueBadCompression u8
  | ZlibCompressFailed string | ZlibDecompressFailed string | DecompressionBomb nat
  | ZlibNeedsFeature | InvalidVersionId string string | UnknownDataFormat string
  | MissingDataFormat | MissingDefinition | MissingVersionId string
  | RegistrationFailed | VersionDeleting | NotAvailableAfter nat | UnsupportedSdkFormat string
  | BadRegistryVersionId string string | GlueRequestFailed string

datatype type_msg =
    InvalidGuid string string | UnknownSchemaType string | UnknownCompatibility string
  | RecordNameRequired string

datatype cancel_msg =
    IdLookupCancelled u32 | GuidLookupCancelled u128 | GlueLookupCancelled u128
  | SubjectResolutionCancelled string
  | CodecLookupCancelled string "u32 + u128"
  | WarmCacheFailed nat

datatype client_msg =
    NoNumericId string | NoGuid string | NoMatchingVersion string
  | Unsupported string | NoConfluentBackend | NoGlueBackend
  | MustBeSet string | NoHeaderPlacement

datatype http_msg =
    InvalidMethod string | RequestTooLarge nat | ContentLengthTooLarge nat | BodyTooLarge
  | LimiterClosed | ClientBuildFailed string
  | EmbeddedCredentials | EmptySubject | SubjectTooLong nat | DotSegment
  | AuthNeedsHttps | UnexpectedContentType string | MissingContentType
  | ResponseParseFailed string | StatusOnly nat | EmptyComponent
  | GlobalIdOutOfRange int | ContentNotUtf8 nat "nat option" | SerialiseFailed string
  | ApicurioParseFailed string | ApicurioSerialiseFailed string string

text \<open>Whose schema a message of \<open>src/avro/schema_set.rs\<close> talks about.\<close>

datatype schema_role = WriterLocal | WriterRegistry | Reader

datatype codec_msg =
    TooManyDependencies schema_role nat | InvalidSchema schema_role string
  | InvalidSchemaWith schema_role nat string | InvalidDependency schema_role string
  | ConflictingDefinitions schema_role string | DuplicateDefinition schema_role string
  | MissingTypeDefinition schema_role string "string option" bool
  | NestedTypeDefinition schema_role string "string option"
  | CircularReference schema_role "string list" | EmptySchemaList
  | AvroReferencesTooDeep | AvroTooManyReferences
  | AvroSerializationFailed string | AvroDeserializationFailed string
  | ToAvroFailed string | FromAvroFailed string
  | ReaderDepsWithoutSchema | MixedReaderForms string
  | JsonSchemaParse string | JsonSchemaCompile string | JsonSchemaCompileRefs string
  | DependencyNotJson string string | ReferencedNotJson string string string
  | ConflictingDocuments string | JsonReferencesTooDeep | JsonTooManyReferences
  | ValidationFailed "string list"
  | JsonSerializationFailed string | JsonDeserializationFailed string
  | ToJsonFailed string | FromJsonFailed string
  | BadDescriptorPath string "int list" | NotMessageType string int
  | NotNestedType string nat int | NegativePosition string int
  | IndexMismatch "u32 list" "u32 list" "string option" | ProtobufDeserializationFailed string

datatype msg =
    Text string
  | Wire wire_msg
  | Glue glue_msg
  | Types type_msg
  | Cancel cancel_msg
  | Client client_msg
  | Http_Msg http_msg
  | Codec codec_msg

section \<open>The error type\<close>

datatype sreg_error =
    Network string
  | Auth nat msg
  | Api int msg
  | Http nat msg
  | Config msg
  | WireFormat msg
  | InvalidState msg
  | NotSupported msg

type_synonym 'a res = "sreg_error + 'a"

section \<open>Error codes\<close>

definition SUBJECT_NOT_FOUND :: int where "SUBJECT_NOT_FOUND = 40401"
definition VERSION_NOT_FOUND :: int where "VERSION_NOT_FOUND = 40402"
definition SCHEMA_NOT_FOUND :: int where "SCHEMA_NOT_FOUND = 40403"
definition INCOMPATIBLE_SCHEMA :: int where "INCOMPATIBLE_SCHEMA = 40901"
definition INVALID_SCHEMA :: int where "INVALID_SCHEMA = 42201"
definition SCHEMA_TOO_LARGE :: int where "SCHEMA_TOO_LARGE = 42209"

definition SUBJECT_SOFT_DELETED :: int where "SUBJECT_SOFT_DELETED = 40404"
definition SUBJECT_NOT_SOFT_DELETED :: int where "SUBJECT_NOT_SOFT_DELETED = 40405"
definition VERSION_SOFT_DELETED :: int where "VERSION_SOFT_DELETED = 40406"
definition VERSION_NOT_SOFT_DELETED :: int where "VERSION_NOT_SOFT_DELETED = 40407"
definition SUBJECT_COMPATIBILITY_NOT_CONFIGURED :: int where "SUBJECT_COMPATIBILITY_NOT_CONFIGURED = 40408"
definition SUBJECT_MODE_NOT_CONFIGURED :: int where "SUBJECT_MODE_NOT_CONFIGURED = 40409"
definition INVALID_VERSION :: int where "INVALID_VERSION = 42202"
definition INVALID_COMPATIBILITY_LEVEL :: int where "INVALID_COMPATIBILITY_LEVEL = 42203"
definition STORE_ERROR :: int where "STORE_ERROR = 50001"
definition OPERATION_TIMEOUT :: int where "OPERATION_TIMEOUT = 50002"
definition REQUEST_FORWARDING_FAILED :: int where "REQUEST_FORWARDING_FAILED = 50003"
definition UNKNOWN_LEADER :: int where "UNKNOWN_LEADER = 50004"

definition server_error_range :: "int \<Rightarrow> bool" where
  "server_error_range c \<longleftrightarrow> 50000 \<le> c \<and> c \<le> 50999"

lemmas error_codes =
  SUBJECT_NOT_FOUND_def VERSION_NOT_FOUND_def SCHEMA_NOT_FOUND_def
  INCOMPATIBLE_SCHEMA_def INVALID_SCHEMA_def SCHEMA_TOO_LARGE_def server_error_range_def

lemmas other_error_codes =
  SUBJECT_SOFT_DELETED_def SUBJECT_NOT_SOFT_DELETED_def VERSION_SOFT_DELETED_def VERSION_NOT_SOFT_DELETED_def
  SUBJECT_COMPATIBILITY_NOT_CONFIGURED_def SUBJECT_MODE_NOT_CONFIGURED_def INVALID_VERSION_def
  INVALID_COMPATIBILITY_LEVEL_def STORE_ERROR_def OPERATION_TIMEOUT_def REQUEST_FORWARDING_FAILED_def UNKNOWN_LEADER_def

section \<open>Predicates\<close>

fun is_network_error :: "sreg_error \<Rightarrow> bool" where
  "is_network_error (Network _) = True"
| "is_network_error _ = False"

fun is_auth_error :: "sreg_error \<Rightarrow> bool" where
  "is_auth_error (Auth _ _) = True"
| "is_auth_error _ = False"

fun is_api_error :: "sreg_error \<Rightarrow> bool" where
  "is_api_error (Api _ _) = True"
| "is_api_error _ = False"

fun is_config_error :: "sreg_error \<Rightarrow> bool" where
  "is_config_error (Config _) = True"
| "is_config_error _ = False"

fun is_wire_format_error :: "sreg_error \<Rightarrow> bool" where
  "is_wire_format_error (WireFormat _) = True"
| "is_wire_format_error _ = False"

fun is_not_supported :: "sreg_error \<Rightarrow> bool" where
  "is_not_supported (NotSupported _) = True"
| "is_not_supported _ = False"

fun is_invalid_state :: "sreg_error \<Rightarrow> bool" where
  "is_invalid_state (InvalidState _) = True"
| "is_invalid_state _ = False"

fun error_code :: "sreg_error \<Rightarrow> int option" where
  "error_code (Api c _) = Some c"
| "error_code _ = None"

fun error_status :: "sreg_error \<Rightarrow> nat option" where
  "error_status (Auth s _) = Some s"
| "error_status (Http s _) = Some s"
| "error_status _ = None"

fun is_not_found :: "sreg_error \<Rightarrow> bool" where
  "is_not_found (Api c _) \<longleftrightarrow>
     c = SUBJECT_NOT_FOUND \<or> c = VERSION_NOT_FOUND \<or> c = SCHEMA_NOT_FOUND"
| "is_not_found (Http s _) \<longleftrightarrow> s = 404"
| "is_not_found _ \<longleftrightarrow> False"

definition is_incompatible :: "sreg_error \<Rightarrow> bool" where
  "is_incompatible e \<longleftrightarrow> error_code e = Some INCOMPATIBLE_SCHEMA"

definition is_invalid_schema :: "sreg_error \<Rightarrow> bool" where
  "is_invalid_schema e \<longleftrightarrow>
     error_code e = Some INVALID_SCHEMA \<or> error_code e = Some SCHEMA_TOO_LARGE"

fun is_retryable :: "sreg_error \<Rightarrow> bool" where
  "is_retryable (Network _) \<longleftrightarrow> True"
| "is_retryable (Http s _) \<longleftrightarrow> s = 429 \<or> (500 \<le> s \<and> s < 600)"
| "is_retryable (Api c _) \<longleftrightarrow> server_error_range c"
| "is_retryable _ \<longleftrightarrow> False"

text \<open>Every permanent classification excludes retrying.\<close>

lemma permanent_not_retryable:
  "is_not_found e \<or> is_incompatible e \<or> is_invalid_schema e \<or> is_auth_error e \<or> is_config_error e
     \<or> is_wire_format_error e \<or> is_not_supported e \<or> is_invalid_state e \<Longrightarrow> \<not> is_retryable e"
  by (cases e) (auto simp: is_incompatible_def is_invalid_schema_def error_codes)

text \<open>
  Of the codes the crate names, exactly the three lookups are "not found" (a soft-deleted subject
  is not), one is an incompatibility, two are invalid schemas, and the server codes are retried.
\<close>

definition ERROR_CODES :: "int list" where
  "ERROR_CODES =
     [SUBJECT_NOT_FOUND, VERSION_NOT_FOUND, SCHEMA_NOT_FOUND, SUBJECT_SOFT_DELETED, SUBJECT_NOT_SOFT_DELETED,
      VERSION_SOFT_DELETED, VERSION_NOT_SOFT_DELETED, SUBJECT_COMPATIBILITY_NOT_CONFIGURED, SUBJECT_MODE_NOT_CONFIGURED,
      INCOMPATIBLE_SCHEMA, INVALID_SCHEMA, INVALID_VERSION, INVALID_COMPATIBILITY_LEVEL, SCHEMA_TOO_LARGE,
      STORE_ERROR, OPERATION_TIMEOUT, REQUEST_FORWARDING_FAILED, UNKNOWN_LEADER]"

lemma error_code_classes:
  "distinct ERROR_CODES"
  "filter (\<lambda>c. is_not_found (Api c m)) ERROR_CODES = [SUBJECT_NOT_FOUND, VERSION_NOT_FOUND, SCHEMA_NOT_FOUND]"
  "filter (\<lambda>c. is_incompatible (Api c m)) ERROR_CODES = [INCOMPATIBLE_SCHEMA]"
  "filter (\<lambda>c. is_invalid_schema (Api c m)) ERROR_CODES = [INVALID_SCHEMA, SCHEMA_TOO_LARGE]"
  "filter (\<lambda>c. is_retryable (Api c m)) ERROR_CODES =
     [STORE_ERROR, OPERATION_TIMEOUT, REQUEST_FORWARDING_FAILED, UNKNOWN_LEADER]"
  by (simp_all add: ERROR_CODES_def error_codes other_error_codes is_incompatible_def is_invalid_schema_def)

section \<open>Calls with effects\<close>

text \<open>
  An \<open>async fn\<close> of a backend returns a \<open>Result\<close> and may change the world it talks to
  (the registry, the network): it is a function from a state to a result and the next
  state. Awaiting two calls in sequence and returning early with \<open>?\<close> is \<open>io_bind\<close>.
\<close>

type_synonym ('s, 'a) io = "'s \<Rightarrow> 'a res \<times> 's"

definition io_return :: "'a \<Rightarrow> ('s, 'a) io" where
  "io_return a s = (Inr a, s)"

definition io_fail :: "sreg_error \<Rightarrow> ('s, 'a) io" where
  "io_fail e s = (Inl e, s)"

definition io_bind :: "('s, 'a) io \<Rightarrow> ('a \<Rightarrow> ('s, 'b) io) \<Rightarrow> ('s, 'b) io" where
  "io_bind m f s = (case m s of (Inl e, s') \<Rightarrow> (Inl e, s') | (Inr a, s') \<Rightarrow> f a s')"

definition io_lift :: "'a res \<Rightarrow> ('s, 'a) io" where
  "io_lift r s = (r, s)"

fun res_bind :: "'a res \<Rightarrow> ('a \<Rightarrow> 'b res) \<Rightarrow> 'b res" where
  "res_bind (Inl e) f = Inl e"
| "res_bind (Inr a) f = f a"

fun ok_or :: "'a option \<Rightarrow> sreg_error \<Rightarrow> 'a res" where
  "ok_or None e = Inl e"
| "ok_or (Some a) e = Inr a"

lemma io_simps [simp]:
  "io_return a s = (Inr a, s)"
  "io_fail e s = (Inl e, s)"
  "io_lift r s = (r, s)"
  by (simp_all add: io_return_def io_fail_def io_lift_def)

lemma io_bind_return [simp]: "io_bind (io_return a) f = f a"
  by (simp add: io_bind_def fun_eq_iff)

lemma io_bind_fail [simp]: "io_bind (io_fail e) f = io_fail e"
  by (simp add: io_bind_def fun_eq_iff)

lemma io_bind_Inr: "m s = (Inr a, s') \<Longrightarrow> io_bind m f s = f a s'"
  by (simp add: io_bind_def)

lemma io_bind_Inl: "m s = (Inl e, s') \<Longrightarrow> io_bind m f s = (Inl e, s')"
  by (simp add: io_bind_def)

lemma io_bind_Inr_iff:
  "io_bind m f s = (Inr b, t) \<longleftrightarrow> (\<exists>a s'. m s = (Inr a, s') \<and> f a s' = (Inr b, t))"
  by (auto simp: io_bind_def split: prod.splits sum.splits)

lemma res_bind_Inr_iff [simp]:
  "res_bind r f = Inr b \<longleftrightarrow> (\<exists>a. r = Inr a \<and> f a = Inr b)"
  by (cases r) auto

lemma ok_or_Inr_iff [simp]: "ok_or x e = Inr a \<longleftrightarrow> x = Some a"
  by (cases x) auto

end
