(* ===== verification/Schema_Types.thy ===== *)
theory Schema_Types
  imports Errors
begin

text \<open>
  Core schema types (\<open>src/types.rs\<close>). The newtypes \<open>SchemaId(u32)\<close>,
  \<open>SchemaGuid(uuid::Uuid)\<close> and \<open>SchemaVersion(i32)\<close> are one-constructor datatypes, so
  that the model cannot confuse them either; a \<open>Uuid\<close> is the 128-bit number its sixteen
  big-endian bytes spell.
\<close>

section \<open>Identifiers\<close>

datatype schema_id = SchemaId (as_u32: u32)

datatype schema_guid = SchemaGuid (as_uuid: u128)

definition guid_from_bytes :: "bytes \<Rightarrow> schema_guid" where
  "guid_from_bytes bs = SchemaGuid (from_be_bytes bs)"

definition guid_as_bytes :: "schema_guid \<Rightarrow> bytes" where
  "guid_as_bytes g = u128_to_be (as_uuid g)"

lemma guid_bytes [simp]: "guid_from_bytes (guid_as_bytes g) = g"
  by (cases g) (simp add: guid_from_bytes_def guid_as_bytes_def)

lemma guid_of_bytes [simp]: "length bs = 16 \<Longrightarrow> guid_as_bytes (guid_from_bytes bs) = bs"
  by (simp add: guid_from_bytes_def guid_as_bytes_def)

lemma length_guid_as_bytes [simp]: "length (guid_as_bytes g) = 16"
  by (simp add: guid_as_bytes_def)

text \<open>\<open>FromStr\<close>; \<open>uuid::Uuid::parse_str\<close> is a parameter.\<close>

definition guid_from_str :: "(string \<Rightarrow> string + u128) \<Rightarrow> string \<Rightarrow> schema_guid res" where
  "guid_from_str parse_uuid s =
     (case parse_uuid s of
        Inr u \<Rightarrow> Inr (SchemaGuid u)
      | Inl e \<Rightarrow> Inl (Config (Types (InvalidGuid s e))))"

datatype schema_key = Id schema_id | Guid schema_guid

fun as_id :: "schema_key \<Rightarrow> schema_id option" where
  "as_id (Id i) = Some i"
| "as_id (Guid _) = None"

fun as_guid :: "schema_key \<Rightarrow> schema_guid option" where
  "as_guid (Guid g) = Some g"
| "as_guid (Id _) = None"

definition MAGIC_BYTE_V0 :: u8 where "MAGIC_BYTE_V0 = 0x00"
definition MAGIC_BYTE_V1 :: u8 where "MAGIC_BYTE_V1 = 0x01"
definition UUID_BYTES :: nat where "UUID_BYTES = 16"
definition PREFIX_LEN_V0 :: nat where "PREFIX_LEN_V0 = 1 + 4"
definition PREFIX_LEN_V1 :: nat where "PREFIX_LEN_V1 = 1 + UUID_BYTES"

lemmas wire_consts [codec] =
  MAGIC_BYTE_V0_def MAGIC_BYTE_V1_def UUID_BYTES_def PREFIX_LEN_V0_def PREFIX_LEN_V1_def

fun magic_byte :: "schema_key \<Rightarrow> u8" where
  "magic_byte (Id _) = MAGIC_BYTE_V0"
| "magic_byte (Guid _) = MAGIC_BYTE_V1"

fun encoded_len :: "schema_key \<Rightarrow> nat" where
  "encoded_len (Id _) = PREFIX_LEN_V0"
| "encoded_len (Guid _) = PREFIX_LEN_V1"

fun raw_key :: "schema_key \<Rightarrow> u32 + u128" where
  "raw_key (Id i) = Inl (as_u32 i)"
| "raw_key (Guid g) = Inr (as_uuid g)"

datatype schema_version = SchemaVersion (as_i32: int)

section \<open>Enums and their names\<close>

datatype schema_type = Avro | Protobuf | Json

fun schema_type_str :: "schema_type \<Rightarrow> string" where
  "schema_type_str Avro = ''AVRO''"
| "schema_type_str Protobuf = ''PROTOBUF''"
| "schema_type_str Json = ''JSON''"

definition schema_type_from_str :: "string \<Rightarrow> schema_type res" where
  "schema_type_from_str s =
     (if eq_ignore_ascii_case s ''AVRO'' then Inr Avro
      else if eq_ignore_ascii_case s ''PROTOBUF'' then Inr Protobuf
      else if eq_ignore_ascii_case s ''JSON'' then Inr Json
      else Inl (Config (Types (UnknownSchemaType s))))"

datatype compatibility_level =
    Backward | BackwardTransitive | Forward | ForwardTransitive | Full | FullTransitive | NoCheck

fun compat_str :: "compatibility_level \<Rightarrow> string" where
  "compat_str Backward = ''BACKWARD''"
| "compat_str BackwardTransitive = ''BACKWARD_TRANSITIVE''"
| "compat_str Forward = ''FORWARD''"
| "compat_str ForwardTransitive = ''FORWARD_TRANSITIVE''"
| "compat_str Full = ''FULL''"
| "compat_str FullTransitive = ''FULL_TRANSITIVE''"
| "compat_str NoCheck = ''NONE''"

definition LEVELS :: "(string \<times> compatibility_level) list" where
  "LEVELS =
     [(''BACKWARD'', Backward), (''BACKWARD_TRANSITIVE'', BackwardTransitive),
      (''FORWARD'', Forward), (''FORWARD_TRANSITIVE'', ForwardTransitive),
      (''FULL'', Full), (''FULL_TRANSITIVE'', FullTransitive), (''NONE'', NoCheck)]"

definition compat_from_str :: "string \<Rightarrow> compatibility_level res" where
  "compat_from_str s =
     (case find (\<lambda>(name, _). eq_ignore_ascii_case s name) LEVELS of
        Some (_, level) \<Rightarrow> Inr level
      | None \<Rightarrow> Inl (Config (Types (UnknownCompatibility s))))"

text \<open>The names of a level and of a type determine it, in any ASCII case.\<close>

lemma schema_type_str_lower_inj:
  "map ascii_lower (schema_type_str t) = map ascii_lower (schema_type_str u) \<longleftrightarrow> t = u"
  by (cases t; cases u) (simp_all add: ascii_lower_def)

lemma compat_str_lower_inj:
  "map ascii_lower (compat_str t) = map ascii_lower (compat_str u) \<longleftrightarrow> t = u"
  by (cases t; cases u) (simp_all add: ascii_lower_def)

lemma schema_type_names_disjoint:
  "eq_ignore_ascii_case s (schema_type_str t) \<Longrightarrow> eq_ignore_ascii_case s (schema_type_str u) \<Longrightarrow> t = u"
  by (metis eq_ignore_ascii_case_def schema_type_str_lower_inj)

lemma compat_names_disjoint:
  "eq_ignore_ascii_case s (compat_str t) \<Longrightarrow> eq_ignore_ascii_case s (compat_str u) \<Longrightarrow> t = u"
  by (metis eq_ignore_ascii_case_def compat_str_lower_inj)

lemma schema_type_from_str_alt:
  "schema_type_from_str s =
     (if eq_ignore_ascii_case s (schema_type_str Avro) then Inr Avro
      else if eq_ignore_ascii_case s (schema_type_str Protobuf) then Inr Protobuf
      else if eq_ignore_ascii_case s (schema_type_str Json) then Inr Json
      else Inl (Config (Types (UnknownSchemaType s))))"
  by (simp add: schema_type_from_str_def)

lemma schema_type_from_str_iff:
  "schema_type_from_str s = Inr t \<longleftrightarrow> eq_ignore_ascii_case s (schema_type_str t)"
  unfolding schema_type_from_str_alt
  using schema_type_names_disjoint [of s]
  by (cases t) (auto simp del: schema_type_str.simps)

lemma LEVELS_sound: "\<forall>p \<in> set LEVELS. fst p = compat_str (snd p)"
  by (simp add: LEVELS_def)

lemma LEVELS_complete: "(compat_str t, t) \<in> set LEVELS"
  by (cases t) (simp_all add: LEVELS_def)

lemma compat_from_str_iff:
  "compat_from_str s = Inr t \<longleftrightarrow> eq_ignore_ascii_case s (compat_str t)"
proof (cases "find (\<lambda>(name, _). eq_ignore_ascii_case s name) LEVELS")
  case None
  then have "\<not> eq_ignore_ascii_case s (compat_str t)"
    using LEVELS_complete [of t] by (auto simp: find_None_iff)
  with None show ?thesis by (simp add: compat_from_str_def)
next
  case (Some p)
  then have p: "eq_ignore_ascii_case s (compat_str (snd p))"
    using LEVELS_sound unfolding find_Some_iff by (auto dest!: nth_mem)
  show ?thesis
    using compat_names_disjoint [OF p, of t] p Some
    by (auto simp: compat_from_str_def split: prod.splits)
qed

datatype encode_target = Key | Value

fun is_key :: "encode_target \<Rightarrow> bool" where
  "is_key Key = True"
| "is_key Value = False"

fun target_str :: "encode_target \<Rightarrow> string" where
  "target_str Key = ''key''"
| "target_str Value = ''value''"

text \<open>The identifier an error message prints.\<close>

definition key_words :: "schema_key \<Rightarrow> u32 + u128" where
  "key_words key = (case key of Id i \<Rightarrow> Inl (as_u32 i) | Guid g \<Rightarrow> Inr (as_uuid g))"

section \<open>Schemas\<close>

record schema_reference =
  ref_name :: string
  ref_subject :: string
  ref_version :: schema_version

record schema =
  sch_id :: "schema_id option"
  sch_guid :: "schema_guid option"
  sch_type :: schema_type
  sch_text :: string
  sch_version :: "schema_version option"
  sch_subject :: "string option"
  sch_references :: "schema_reference list"

definition schema_new :: "schema_key \<Rightarrow> schema_type \<Rightarrow> string \<Rightarrow> schema" where
  "schema_new key ty text =
     \<lparr>sch_id = as_id key, sch_guid = as_guid key, sch_type = ty, sch_text = text,
      sch_version = None, sch_subject = None, sch_references = []\<rparr>"

definition with_subject :: "string \<Rightarrow> schema_version \<Rightarrow> schema \<Rightarrow> schema" where
  "with_subject subject version s = s\<lparr>sch_subject := Some subject, sch_version := Some version\<rparr>"

definition with_references :: "schema_reference list \<Rightarrow> schema \<Rightarrow> schema" where
  "with_references refs s = s\<lparr>sch_references := refs\<rparr>"

definition with_guid :: "schema_guid \<Rightarrow> schema \<Rightarrow> schema" where
  "with_guid g s = s\<lparr>sch_guid := Some g\<rparr>"

definition schema_key_of :: "schema \<Rightarrow> schema_key option" where
  "schema_key_of s =
     (case map_option Guid (sch_guid s) of
        Some k \<Rightarrow> Some k
      | None \<Rightarrow> map_option Id (sch_id s))"

lemma schema_key_of_new: "schema_key_of (schema_new k ty text) = Some k"
  by (cases k) (simp_all add: schema_key_of_def schema_new_def)

section \<open>Apicurio artifact identifiers\<close>

record artifact_id =
  art_group :: string
  art_name :: string

definition artifact_from_subject :: "string \<Rightarrow> artifact_id" where
  "artifact_from_subject subject =
     (case split_once CHR ''/'' subject of
        Some (grp, artifact) \<Rightarrow> \<lparr>art_group = grp, art_name = artifact\<rparr>
      | None \<Rightarrow> \<lparr>art_group = ''default'', art_name = subject\<rparr>)"

definition artifact_to_subject :: "artifact_id \<Rightarrow> string" where
  "artifact_to_subject a = art_group a @ ''/'' @ art_name a"

lemma artifact_round_trip:
  "CHR ''/'' \<notin> set (art_group a) \<Longrightarrow> artifact_from_subject (artifact_to_subject a) = a"
  by (simp add: artifact_from_subject_def artifact_to_subject_def)

lemma artifact_subject_round_trip:
  "artifact_to_subject (artifact_from_subject s) = (if CHR ''/'' \<in> set s then s else ''default/'' @ s)"
  by (auto simp: artifact_from_subject_def artifact_to_subject_def dest: split_once_SomeD split: option.splits)

end
