(* ===== verification/Glue_Types.thy ===== *)
theory Glue_Types
  imports Schema_Types
begin

text \<open>
  The data of the AWS Glue framing (\<open>src/glue/mod.rs\<close>): header constants, the version
  UUID, compression and data-format enums, and the schema record.
\<close>

definition GLUE_HEADER_VERSION_BYTE :: u8 where "GLUE_HEADER_VERSION_BYTE = 0x03"
definition GLUE_COMPRESSION_NONE_BYTE :: u8 where "GLUE_COMPRESSION_NONE_BYTE = 0x00"
definition GLUE_COMPRESSION_ZLIB_BYTE :: u8 where "GLUE_COMPRESSION_ZLIB_BYTE = 0x05"
definition GLUE_HEADER_SIZE :: nat where "GLUE_HEADER_SIZE = 18"

lemmas glue_consts [codec] =
  GLUE_HEADER_VERSION_BYTE_def GLUE_COMPRESSION_NONE_BYTE_def GLUE_COMPRESSION_ZLIB_BYTE_def
  GLUE_HEADER_SIZE_def

datatype glue_version_id = GlueVersionId (version_uuid: u128)

definition version_from_bytes :: "bytes \<Rightarrow> glue_version_id" where
  "version_from_bytes bs = GlueVersionId (from_be_bytes bs)"

definition version_as_bytes :: "glue_version_id \<Rightarrow> bytes" where
  "version_as_bytes v = u128_to_be (version_uuid v)"

lemma version_bytes [simp]: "version_from_bytes (version_as_bytes v) = v"
  by (cases v) (simp add: version_from_bytes_def version_as_bytes_def)

lemma version_of_bytes [simp]: "length bs = 16 \<Longrightarrow> version_as_bytes (version_from_bytes bs) = bs"
  by (simp add: version_from_bytes_def version_as_bytes_def)

lemma length_version_as_bytes [simp]: "length (version_as_bytes v) = 16"
  by (simp add: version_as_bytes_def)

definition version_from_str :: "(string \<Rightarrow> string + u128) \<Rightarrow> string \<Rightarrow> glue_version_id res" where
  "version_from_str parse_uuid s =
     (case parse_uuid s of
        Inr u \<Rightarrow> Inr (GlueVersionId u)
      | Inl e \<Rightarrow> Inl (Config (Glue (InvalidVersionId s e))))"

datatype glue_compression = NoCompression | Zlib

fun compression_str :: "glue_compression \<Rightarrow> string" where
  "compression_str NoCompression = ''NONE''"
| "compression_str Zlib = ''ZLIB''"

datatype glue_data_format = GlueAvro | GlueJson | GlueProtobuf

fun data_format_str :: "glue_data_format \<Rightarrow> string" where
  "data_format_str GlueAvro = ''AVRO''"
| "data_format_str GlueJson = ''JSON''"
| "data_format_str GlueProtobuf = ''PROTOBUF''"

definition data_format_from_str :: "string \<Rightarrow> glue_data_format res" where
  "data_format_from_str s =
     (if eq_ignore_ascii_case s ''AVRO'' then Inr GlueAvro
      else if eq_ignore_ascii_case s ''JSON'' then Inr GlueJson
      else if eq_ignore_ascii_case s ''PROTOBUF'' then Inr GlueProtobuf
      else Inl (InvalidState (Glue (UnknownDataFormat s))))"

record glue_schema =
  gs_version_id :: glue_version_id
  gs_format :: glue_data_format
  gs_definition :: string
  gs_arn :: "string option"
  gs_version :: "int option"

definition glue_schema_new :: "glue_version_id \<Rightarrow> glue_data_format \<Rightarrow> string \<Rightarrow> glue_schema" where
  "glue_schema_new v f d =
     \<lparr>gs_version_id = v, gs_format = f, gs_definition = d, gs_arn = None, gs_version = None\<rparr>"

definition with_metadata :: "string \<Rightarrow> int \<Rightarrow> glue_schema \<Rightarrow> glue_schema" where
  "with_metadata arn n s = s\<lparr>gs_arn := Some arn, gs_version := Some n\<rparr>"

end
