(* ===== verification/Byte_Codec.thy ===== *)
theory Byte_Codec
  imports Errors
begin

text \<open>
  The contract of a decoder that reads one value from the front of a buffer and reports how
  many bytes it used, against the encoder that writes that value. Every framing of the crate
  is such a pair: varints, the Confluent prefix, the message-index array and the Glue header.
  \<open>canon\<close> is the value the decoder reports for what was written: the identity, except that
  an empty message-index path is read back as \<open>[0]\<close>.
\<close>

locale byte_codec =
  fixes enc :: "'a \<Rightarrow> bytes"
    and dec :: "bytes \<Rightarrow> ('a \<times> nat) res"
    and ok :: "'a \<Rightarrow> bool"
    and canon :: "'a \<Rightarrow> 'a"
  assumes dec_enc: "ok a \<Longrightarrow> dec (enc a @ rest) = Inr (canon a, length (enc a))"
    and dec_bound: "dec data = Inr (a, n) \<Longrightarrow> 0 < n \<and> n \<le> length data"
begin

lemma enc_nonempty: "ok a \<Longrightarrow> enc a \<noteq> []"
  using dec_enc [of a "[]"] dec_bound by fastforce

lemma prefix_free:
  assumes "ok a" and "ok b" and "enc a @ r = enc b @ s"
  shows "canon a = canon b \<and> r = s"
proof -
  have "(canon a, length (enc a)) = (canon b, length (enc b))"
    using dec_enc [OF assms(1), of r] dec_enc [OF assms(2), of s] assms(3) by simp
  with assms(3) show ?thesis by simp
qed

lemma enc_inj: "ok a \<Longrightarrow> ok b \<Longrightarrow> enc a = enc b \<Longrightarrow> canon a = canon b"
  using prefix_free [of a b "[]" "[]"] by simp

lemma dec_empty: "dec [] \<noteq> Inr (a, n)"
  using dec_bound [of "[]"] by auto

end

text \<open>
  A codec with one encoding per value: what was decoded is what an encoder would have
  written, so that decoding and re-encoding reproduces the bytes.
\<close>

locale exact_codec = byte_codec +
  assumes enc_dec: "dec data = Inr (a, n) \<Longrightarrow> ok a \<and> canon a = a \<and> enc a = take n data"
begin

lemma dec_split: "dec data = Inr (a, n) \<Longrightarrow> data = enc a @ drop n data"
  using enc_dec [of data a n] by simp

lemma dec_len: "dec data = Inr (a, n) \<Longrightarrow> n = length (enc a)"
  using enc_dec [of data a n] dec_bound [of data a n] by simp

lemma dec_iff: "dec data = Inr (a, n) \<longleftrightarrow> (ok a \<and> canon a = a \<and> n = length (enc a) \<and> (\<exists>rest. data = enc a @ rest))"
  using enc_dec [of data a n] dec_len [of data a n] dec_split [of data a n] dec_enc [of a] by metis

end

end
