(* ===== verification/Wire.thy ===== *)
theory Wire
  imports Glue_Types Byte_Codec
begin

unbundle bit_operations_syntax

text \<open>
  The Confluent wire formats (\<open>src/wire.rs\<close>): LEB-128 varints and ZigZag values, the v0
  and v1 prefixes, the Protobuf message-index array, identifiers in Kafka headers, and
  detection of the framing from the first byte. A \<open>BytesMut\<close> that is written to is the
  list of the bytes written so far.
\<close>

section \<open>Header names\<close>

definition KEY_SCHEMA_ID_HEADER :: string where "KEY_SCHEMA_ID_HEADER = ''__key_schema_id''"
definition VALUE_SCHEMA_ID_HEADER :: string where "VALUE_SCHEMA_ID_HEADER = ''__value_schema_id''"

fun schema_id_header_name :: "encode_target \<Rightarrow> string" where
  "schema_id_header_name Key = KEY_SCHEMA_ID_HEADER"
| "schema_id_header_name Value = VALUE_SCHEMA_ID_HEADER"

definition MAX_MESSAGE_INDEX_COUNT :: u32 where "MAX_MESSAGE_INDEX_COUNT = 512"

definition PROTOBUF_DEFAULT_INDEX :: bytes where "PROTOBUF_DEFAULT_INDEX = [0x00]"

section \<open>Varints and ZigZag\<close>

function write_varint :: "bytes \<Rightarrow> u64 \<Rightarrow> bytes" where
  "write_varint buf v =
     (let byte = (ucast (v AND 0x7F) :: u8); v' = drop_bit 7 v
      in if v' = 0 then buf @ [byte] else write_varint (buf @ [byte OR 0x80]) v')"
  by pat_completeness auto

lemma unat_drop_bit_7: "unat (drop_bit 7 v :: u64) = unat v div 128"
  by (subst unat_drop_bit_eq) (simp add: drop_bit_eq_div)

lemma drop_bit_7_less: "drop_bit 7 v \<noteq> (0 :: u64) \<Longrightarrow> unat (drop_bit 7 v) < unat v"
  unfolding unat_drop_bit_7 by (metis div_less_dividend drop_bit_of_0 gr_zeroI one_less_numeral_iff
      semiring_norm(76) unat_0 unsigned_word_eqI)

termination write_varint
  by (relation "measure (\<lambda>(buf, v). unat v)") (auto simp: drop_bit_7_less)

function varint_len_loop :: "nat \<Rightarrow> u64 \<Rightarrow> nat" where
  "varint_len_loop len v = (if 0x80 \<le> v then varint_len_loop (len + 1) (drop_bit 7 v) else len)"
  by pat_completeness auto

termination varint_len_loop
  by (relation "measure (\<lambda>(len, v). unat v)")
    (auto simp: unat_drop_bit_7 word_le_nat_alt intro!: div_less_dividend)

definition varint_len :: "u64 \<Rightarrow> nat" where
  "varint_len v = varint_len_loop 1 v"

definition zigzag_encode :: "u32 \<Rightarrow> u64" where
  "zigzag_encode n = push_bit 1 (ucast n)"

text \<open>
  The negative number in the message is the two's-complement negation of
  \<open>((raw >> 1) + 1) as i64\<close>, as a release build computes it.
\<close>

definition zigzag_decode_u32 :: "u64 \<Rightarrow> u32 res" where
  "zigzag_decode_u32 raw =
     (if raw AND 1 = 1
      then Inl (WireFormat (Wire (NegativeIndex (- (drop_bit 1 raw + 1)))))
      else let v = drop_bit 1 raw
           in if unat v < 2 ^ 32 then Inr (ucast v)
              else Inl (WireFormat (Wire (IndexOverflow v))))"

text \<open>
  With overflow checks on (every debug build) the same negation panics when the operand is
  \<open>i64::MIN\<close>.
\<close>

definition zigzag_message_overflows :: "u64 \<Rightarrow> bool" where
  "zigzag_message_overflows raw \<longleftrightarrow> raw AND 1 = 1 \<and> drop_bit 1 raw + 1 = 2 ^ 63"

function read_varint_loop :: "bytes \<Rightarrow> nat \<Rightarrow> u64 \<Rightarrow> nat \<Rightarrow> (u64 \<times> nat) res" where
  "read_varint_loop data pos result shift =
     (if length data \<le> pos then Inl (WireFormat (Wire TruncatedVarint))
      else let byte = (ucast (data ! pos) :: u64);
               pos = pos + 1;
               result = result OR push_bit shift (byte AND 0x7F)
           in if byte AND 0x80 = 0 then Inr (result, pos)
              else let shift = shift + 7
                   in if 64 \<le> shift then Inl (WireFormat (Wire VarintOverflow))
                      else read_varint_loop data pos result shift)"
  by pat_completeness auto

termination read_varint_loop
  by (relation "measure (\<lambda>(data, pos, result, shift). length data - pos)") auto

definition read_varint :: "bytes \<Rightarrow> nat \<Rightarrow> (u64 \<times> nat) res" where
  "read_varint data offset =
     (case read_varint_loop data offset 0 0 of
        Inl e \<Rightarrow> Inl e
      | Inr (result, pos) \<Rightarrow> Inr (result, pos - offset))"

declare write_varint.simps [simp del] varint_len_loop.simps [simp del] read_varint_loop.simps [simp del]

text \<open>The bytes of a varint on their own, and the recursion they satisfy.\<close>

definition varint :: "u64 \<Rightarrow> bytes" where
  "varint v = write_varint [] v"

lemma write_varint_append: "write_varint (a @ b) v = a @ write_varint b v"
proof (induction b v rule: write_varint.induct)
  case (1 b v)
  then show ?case
    by (subst write_varint.simps, subst (2) write_varint.simps) (simp add: Let_def)
qed

lemma write_varint_eq: "write_varint buf v = buf @ varint v"
  using write_varint_append [of buf "[]"] by (simp add: varint_def)

lemma varint_rec:
  "varint v =
     (if drop_bit 7 v = 0 then [ucast (v AND 0x7F)]
      else (ucast (v AND 0x7F) OR 0x80) # varint (drop_bit 7 v))"
  by (subst varint_def, subst write_varint.simps) (simp add: write_varint_eq Let_def)

lemma varint_nonempty [simp]: "varint v \<noteq> []"
  by (subst varint_rec) simp

lemma varint_len_loop_eq: "varint_len_loop n v = n - 1 + length (varint v)" if "0 < n"
  using that
proof (induction n v rule: varint_len_loop.induct)
  case (1 n v)
  have z: "drop_bit 7 v = 0 \<longleftrightarrow> \<not> 0x80 \<le> v"
    by (simp add: word_le_nat_alt unat_eq_zero [symmetric] unat_drop_bit_7 div_eq_0_iff not_le)
  show ?case
    using 1 by (subst varint_len_loop.simps, subst varint_rec) (auto simp: z)
qed

lemma varint_len_eq: "varint_len v = length (varint v)"
  by (simp add: varint_len_def varint_len_loop_eq)

text \<open>Reading back what was written, from any point of a larger buffer.\<close>

lemma bit_byte_masks:
  "bit (0x7F :: 'a::len word) i \<longleftrightarrow> i < 7 \<and> i < LENGTH('a)"
  "bit (0x80 :: 'a::len word) i \<longleftrightarrow> i = 7 \<and> 7 < LENGTH('a)"
proof -
  have m: "(0x7F :: 'a word) = mask 7" by (simp add: mask_eq_exp_minus_1)
  show "bit (0x7F :: 'a word) i \<longleftrightarrow> i < 7 \<and> i < LENGTH('a)"
    unfolding m by (auto simp only: bit_mask_iff possible_bit_word)
  have "(0x80 :: 'a word) = push_bit 7 1" by simp
  then show "bit (0x80 :: 'a word) i \<longleftrightarrow> i = 7 \<and> 7 < LENGTH('a)"
    by (auto simp only: bit_push_bit_iff bit_1_iff possible_bit_word)
qed

lemma varint_byte_bits:
  "ucast ((ucast (x AND 0x7F) :: u8) OR 0x80) AND 0x7F = (x AND 0x7F :: u64)"
  "ucast ((ucast (x AND 0x7F) :: u8)) AND 0x7F = (x AND 0x7F :: u64)"
  "(ucast ((ucast (x AND 0x7F) :: u8) OR 0x80) :: u64) AND 0x80 \<noteq> 0"
  "(ucast (ucast (x AND 0x7F) :: u8) :: u64) AND 0x80 = 0"
proof -
  show "ucast ((ucast (x AND 0x7F) :: u8) OR 0x80) AND 0x7F = (x AND 0x7F :: u64)"
    by (rule bit_word_eqI) (auto simp: bit_byte_masks bit_and_iff bit_or_iff bit_ucast_iff simp del: bit_numeral_word_iff)
  show "ucast ((ucast (x AND 0x7F) :: u8)) AND 0x7F = (x AND 0x7F :: u64)"
    by (rule bit_word_eqI) (auto simp: bit_byte_masks bit_and_iff bit_or_iff bit_ucast_iff simp del: bit_numeral_word_iff)
  have "bit ((ucast ((ucast (x AND 0x7F) :: u8) OR 0x80) :: u64) AND 0x80) 7"
    by (simp add: bit_byte_masks bit_and_iff bit_or_iff bit_ucast_iff del: bit_numeral_word_iff)
  then show "(ucast ((ucast (x AND 0x7F) :: u8) OR 0x80) :: u64) AND 0x80 \<noteq> 0"
    by (metis bit_0_eq bot_apply bot_bool_def)
  show "(ucast (ucast (x AND 0x7F) :: u8) :: u64) AND 0x80 = 0"
    by (rule bit_word_eqI) (auto simp: bit_byte_masks bit_and_iff bit_or_iff bit_ucast_iff simp del: bit_numeral_word_iff)
qed

lemma take_bit_step: "take_bit s V OR push_bit s (drop_bit s V AND 0x7F) = take_bit (s + 7) (V :: u64)"
  by (rule bit_word_eqI)
    (auto simp: bit_byte_masks bit_and_iff bit_or_iff bit_push_bit_iff bit_drop_bit_eq bit_take_bit_iff
      simp del: bit_numeral_word_iff)

lemma take_bit_full:
  assumes "drop_bit n V = 0"
  shows "take_bit n V = (V :: u64)"
proof (rule bit_word_eqI)
  fix i
  have "bit V i \<Longrightarrow> n \<le> i \<Longrightarrow> bit (drop_bit n V) (i - n)"
    by (simp add: bit_drop_bit_eq)
  then show "bit (take_bit n V) i \<longleftrightarrow> bit V i"
    using assms by (cases "n \<le> i") (auto simp: bit_take_bit_iff)
qed

lemma drop_bit_nz_less: "drop_bit n V \<noteq> (0 :: u64) \<Longrightarrow> n < 64"
  by (rule ccontr) (simp add: drop_bit_word_beyond)

text \<open>One turn of the loop, case by case.\<close>

lemma read_varint_loop_turn:
  "length data \<le> pos \<Longrightarrow> read_varint_loop data pos result shift = Inl (WireFormat (Wire TruncatedVarint))"
  "pos < length data \<Longrightarrow> (ucast (data ! pos) :: u64) AND 0x80 = 0 \<Longrightarrow>
     read_varint_loop data pos result shift =
       Inr (result OR push_bit shift (ucast (data ! pos) AND 0x7F), pos + 1)"
  "pos < length data \<Longrightarrow> (ucast (data ! pos) :: u64) AND 0x80 \<noteq> 0 \<Longrightarrow>
     read_varint_loop data pos result shift =
       (if 64 \<le> shift + 7 then Inl (WireFormat (Wire VarintOverflow))
        else read_varint_loop data (pos + 1)
          (result OR push_bit shift (ucast (data ! pos) AND 0x7F)) (shift + 7))"
  by (subst read_varint_loop.simps, simp add: Let_def)+

lemma read_varint_loop_varint:
  assumes "data = pre @ varint v @ post" and "v = drop_bit s V" and "s < 64"
  shows "read_varint_loop data (length pre) (take_bit s V) s = Inr (V, length pre + length (varint v))"
  using assms
proof (induction "length (varint v)" arbitrary: v pre s rule: less_induct)
  case less
  let ?b = "(ucast (v AND 0x7F) :: u8)"
  show ?case
  proof (cases "drop_bit 7 v = 0")
    case True
    then have full: "take_bit (s + 7) V = V"
      using less.prems(2) by (intro take_bit_full) (simp add: add.commute)
    have v: "varint v = [?b]"
      using True by (subst varint_rec) simp
    have byte: "data ! length pre = ?b" "length pre < length data"
      using less.prems(1) by (simp_all add: v)
    have "read_varint_loop data (length pre) (take_bit s V) s =
        Inr (take_bit s V OR push_bit s (ucast ?b AND 0x7F), length pre + 1)"
      using read_varint_loop_turn(2) [OF byte(2)] varint_byte_bits(4) [of v] by (simp only: byte)
    moreover have "length (varint v) = 1" by (simp add: v)
    ultimately show ?thesis
      using full take_bit_step [of s V] varint_byte_bits(2) [of v] less.prems(2)
      by (simp del: push_bit_and)
  next
    case False
    have v: "varint v = (?b OR 0x80) # varint (drop_bit 7 v)"
      using False by (subst varint_rec) simp
    have d: "drop_bit 7 v = drop_bit (s + 7) V"
      using less.prems(2) by (simp add: add.commute)
    have s: "s + 7 < 64"
      using False d by (intro drop_bit_nz_less) simp
    have IH: "read_varint_loop data (length (pre @ [?b OR 0x80])) (take_bit (s + 7) V) (s + 7) =
        Inr (V, length (pre @ [?b OR 0x80]) + length (varint (drop_bit 7 v)))"
      by (rule less.hyps) (use less.prems(1) s in \<open>simp_all add: v d\<close>)
    have byte: "data ! length pre = ?b OR 0x80" "length pre < length data"
      using less.prems(1) by (simp_all add: v)
    have "read_varint_loop data (length pre) (take_bit s V) s =
        read_varint_loop data (length pre + 1)
          (take_bit s V OR push_bit s (ucast (?b OR 0x80) AND 0x7F)) (s + 7)"
      using read_varint_loop_turn(3) [OF byte(2)] varint_byte_bits(3) [of v] s by (simp only: byte) simp
    moreover have "length (varint v) = Suc (length (varint (drop_bit 7 v)))" by (simp add: v)
    ultimately show ?thesis
      using IH take_bit_step [of s V] varint_byte_bits(1) [of v] less.prems(2)
      by (simp del: push_bit_and)
  qed
qed

lemma read_varint_varint:
  "read_varint (pre @ varint v @ post) (length pre) = Inr (v, length (varint v))"
  using read_varint_loop_varint [OF refl, of v 0 v pre post] by (simp add: read_varint_def)

text \<open>
  What a successful read guarantees: it consumed something, stayed inside the buffer, and
  does not depend on what follows.
\<close>

lemma read_varint_loop_cases:
  assumes "read_varint_loop data pos result shift = Inr (v, pos')"
  obtains "pos < length data" "(ucast (data ! pos) :: u64) AND 0x80 = 0"
      "v = result OR push_bit shift (ucast (data ! pos) AND 0x7F)" "pos' = pos + 1"
  | "pos < length data" "(ucast (data ! pos) :: u64) AND 0x80 \<noteq> 0" "shift + 7 < 64"
      "read_varint_loop data (pos + 1)
        (result OR push_bit shift (ucast (data ! pos) AND 0x7F)) (shift + 7) = Inr (v, pos')"
proof -
  consider "length data \<le> pos"
    | "pos < length data" "(ucast (data ! pos) :: u64) AND 0x80 = 0"
    | "pos < length data" "(ucast (data ! pos) :: u64) AND 0x80 \<noteq> 0"
    by linarith
  then show thesis
  proof cases
    case 1
    then show thesis using assms by (simp add: read_varint_loop_turn(1))
  next
    case 2
    then show thesis using assms that(1) read_varint_loop_turn(2) [OF 2, of result shift] by simp
  next
    case 3
    then show thesis using assms that(2) read_varint_loop_turn(3) [OF 3, of result shift]
      by (simp split: if_splits)
  qed
qed

lemma read_varint_loop_bound:
  "read_varint_loop data pos result shift = Inr (v, pos') \<Longrightarrow> pos < pos' \<and> pos' \<le> length data"
proof (induction "length data - pos" arbitrary: pos result shift rule: less_induct)
  case less
  from less.prems show ?case
  proof (cases rule: read_varint_loop_cases)
    case 2
    have "length data - (pos + 1) < length data - pos" using 2(1) by simp
    from less.hyps [OF this 2(4)] show ?thesis by simp
  qed simp
qed

lemma read_varint_bound:
  "read_varint data pos = Inr (v, n) \<Longrightarrow> 0 < n \<and> pos + n \<le> length data"
  by (auto simp: read_varint_def split: sum.splits dest!: read_varint_loop_bound)

lemma read_varint_loop_local:
  "read_varint_loop data pos result shift = Inr (v, pos') \<Longrightarrow>
   read_varint_loop (data @ rest) pos result shift = Inr (v, pos')"
proof (induction "length data - pos" arbitrary: pos result shift rule: less_induct)
  case less
  from less.prems show ?case
  proof (cases rule: read_varint_loop_cases)
    case 1
    then show ?thesis
      using read_varint_loop_turn(2) [of pos "data @ rest" result shift] by (simp add: nth_append)
  next
    case 2
    then show ?thesis
      using read_varint_loop_turn(3) [of pos "data @ rest" result shift]
        less.hyps [OF _ 2(4)] by (simp add: nth_append)
  qed
qed

lemma read_varint_local: "read_varint data pos = Inr r \<Longrightarrow> read_varint (data @ rest) pos = Inr r"
  by (auto simp: read_varint_def read_varint_loop_local split: sum.splits)

section \<open>The prefix\<close>

fun put_prefix :: "bytes \<Rightarrow> schema_key \<Rightarrow> bytes" where
  "put_prefix buf (Id i) = buf @ [MAGIC_BYTE_V0] @ u32_to_be (as_u32 i)"
| "put_prefix buf (Guid g) = buf @ [MAGIC_BYTE_V1] @ guid_as_bytes g"

definition decode_wire_prefix :: "bytes \<Rightarrow> (schema_key \<times> nat) res" where
  "decode_wire_prefix data =
     (case data of
        [] \<Rightarrow> Inl (WireFormat (Wire EmptyFrame))
      | magic # _ \<Rightarrow>
          if magic = MAGIC_BYTE_V0 then
            (if length data < PREFIX_LEN_V0 then Inl (WireFormat (Wire (V0TooShort (length data))))
             else Inr (Id (SchemaId (from_be_bytes (take 4 (drop 1 data)))), PREFIX_LEN_V0))
          else if magic = MAGIC_BYTE_V1 then
            (if length data < PREFIX_LEN_V1 then Inl (WireFormat (Wire (V1TooShort (length data))))
             else Inr (Guid (guid_from_bytes (take UUID_BYTES (drop 1 data))), PREFIX_LEN_V1))
          else Inl (WireFormat (Wire (BadMagic magic))))"

definition encode_wire_format :: "schema_key \<Rightarrow> bytes \<Rightarrow> bytes" where
  "encode_wire_format key payload = put_prefix [] key @ payload"

definition decode_wire_format :: "bytes \<Rightarrow> (schema_key \<times> bytes) res" where
  "decode_wire_format data =
     (case decode_wire_prefix data of
        Inl e \<Rightarrow> Inl e
      | Inr (key, prefix_len) \<Rightarrow> Inr (key, drop prefix_len data))"

text \<open>\<open>decode_wire_format_bytes\<close> takes a \<open>Bytes\<close> and slices it; on values it is the same.\<close>

definition decode_wire_format_bytes :: "bytes \<Rightarrow> (schema_key \<times> bytes) res" where
  "decode_wire_format_bytes data =
     (case decode_wire_prefix data of
        Inl e \<Rightarrow> Inl e
      | Inr (key, prefix_len) \<Rightarrow> Inr (key, drop prefix_len data))"

section \<open>The Protobuf message-index array\<close>

definition saturating_count :: "u32 list \<Rightarrow> u32" where
  "saturating_count msg_indexes =
     (if length msg_indexes < 2 ^ 32 then of_nat (length msg_indexes) else - 1)"

definition message_index_len :: "u32 list \<Rightarrow> nat" where
  "message_index_len msg_indexes =
     (if msg_indexes = [] \<or> msg_indexes = [0] then length PROTOBUF_DEFAULT_INDEX
      else varint_len (zigzag_encode (saturating_count msg_indexes))
        + sum_list (map (\<lambda>i. varint_len (zigzag_encode i)) msg_indexes))"

definition put_message_indexes :: "bytes \<Rightarrow> u32 list \<Rightarrow> bytes" where
  "put_message_indexes buf msg_indexes =
     (if msg_indexes = [] \<or> msg_indexes = [0] then buf @ PROTOBUF_DEFAULT_INDEX
      else fold (\<lambda>i b. write_varint b (zigzag_encode i)) msg_indexes
        (write_varint buf (zigzag_encode (saturating_count msg_indexes))))"

definition encode_protobuf_wire_format :: "schema_key \<Rightarrow> u32 list \<Rightarrow> bytes \<Rightarrow> bytes" where
  "encode_protobuf_wire_format key msg_indexes payload =
     put_message_indexes (put_prefix [] key) msg_indexes @ payload"

fun read_indexes :: "bytes \<Rightarrow> nat \<Rightarrow> nat \<Rightarrow> u32 list \<Rightarrow> (u32 list \<times> nat) res" where
  "read_indexes data 0 offset indexes = Inr (indexes, offset)"
| "read_indexes data (Suc k) offset indexes =
     (case read_varint data offset of
        Inl e \<Rightarrow> Inl e
      | Inr (raw, c) \<Rightarrow>
          (case zigzag_decode_u32 raw of
             Inl e \<Rightarrow> Inl e
           | Inr i \<Rightarrow> read_indexes data k (offset + c) (indexes @ [i])))"

definition decode_protobuf_message_indexes :: "bytes \<Rightarrow> (u32 list \<times> nat) res" where
  "decode_protobuf_message_indexes after_prefix =
     (case read_varint after_prefix 0 of
        Inl e \<Rightarrow> Inl e
      | Inr (raw_count, consumed) \<Rightarrow>
          (case zigzag_decode_u32 raw_count of
             Inl e \<Rightarrow> Inl e
           | Inr count \<Rightarrow>
               if count = 0 then Inr ([0], consumed)
               else if MAX_MESSAGE_INDEX_COUNT < count
                    then Inl (WireFormat (Wire (IndexCountTooLarge count)))
               else read_indexes after_prefix (unat count) consumed []))"

section \<open>Identifiers in a Kafka header\<close>

definition encode_schema_id_header :: "schema_key \<Rightarrow> u32 list option \<Rightarrow> bytes" where
  "encode_schema_id_header key msg_indexes =
     (case msg_indexes of
        None \<Rightarrow> put_prefix [] key
      | Some indexes \<Rightarrow> put_message_indexes (put_prefix [] key) indexes)"

definition decode_schema_id_header :: "bytes \<Rightarrow> (schema_key \<times> u32 list option) res" where
  "decode_schema_id_header value =
     (case decode_wire_prefix value of
        Inl e \<Rightarrow> Inl e
      | Inr (key, prefix_len) \<Rightarrow>
          (let rest = drop prefix_len value
           in if rest = [] then Inr (key, None)
              else (case decode_protobuf_message_indexes rest of
                      Inl e \<Rightarrow> Inl e
                    | Inr (indexes, consumed) \<Rightarrow>
                        if consumed \<noteq> length rest
                        then Inl (WireFormat (Wire (HeaderTrailing (length rest - consumed))))
                        else Inr (key, Some indexes))))"

record header_framed =
  hf_header_name :: string
  hf_header_value :: bytes
  hf_payload :: bytes

definition header_framed_new ::
    "encode_target \<Rightarrow> schema_key \<Rightarrow> u32 list option \<Rightarrow> bytes \<Rightarrow> header_framed" where
  "header_framed_new target key msg_indexes payload =
     \<lparr>hf_header_name = schema_id_header_name target,
      hf_header_value = encode_schema_id_header key msg_indexes,
      hf_payload = payload\<rparr>"

section \<open>Detection\<close>

datatype detected_wire_format =
    DetConfluent schema_key nat
  | DetGlue glue_version_id glue_compression nat
  | InvalidConfluent
  | InvalidGlue
  | Unknown

definition detect_wire_format :: "bytes \<Rightarrow> detected_wire_format" where
  "detect_wire_format data =
     (case data of
        [] \<Rightarrow> Unknown
      | first # _ \<Rightarrow>
          if first = MAGIC_BYTE_V0 \<or> first = MAGIC_BYTE_V1 then
            (case decode_wire_prefix data of
               Inr (key, payload_offset) \<Rightarrow> DetConfluent key payload_offset
             | Inl _ \<Rightarrow> InvalidConfluent)
          else if first = GLUE_HEADER_VERSION_BYTE then
            (if length data < GLUE_HEADER_SIZE then InvalidGlue
             else if data ! 1 = GLUE_COMPRESSION_NONE_BYTE then
               DetGlue (version_from_bytes (take 16 (drop 2 data))) NoCompression GLUE_HEADER_SIZE
             else if data ! 1 = GLUE_COMPRESSION_ZLIB_BYTE then
               DetGlue (version_from_bytes (take 16 (drop 2 data))) Zlib GLUE_HEADER_SIZE
             else InvalidGlue)
          else Unknown)"

section \<open>Lemmas on the framings\<close>

lemma put_prefix_eq: "put_prefix buf key = buf @ put_prefix [] key"
  by (cases key) simp_all

lemma length_put_prefix [simp]: "length (put_prefix [] key) = encoded_len key"
  by (cases key) (simp_all add: wire_consts)

lemma decode_put_prefix: "decode_wire_prefix (put_prefix [] key @ rest) = Inr (key, encoded_len key)"
  by (cases key) (simp_all add: decode_wire_prefix_def wire_consts)

lemma decode_wire_prefix_exact:
  assumes "decode_wire_prefix data = Inr (key, n)"
  shows "n = encoded_len key \<and> n \<le> length data \<and> put_prefix [] key = take n data"
proof -
  obtain m ds where data: "data = m # ds"
    using assms by (cases data) (auto simp: decode_wire_prefix_def)
  consider (v0) "m = MAGIC_BYTE_V0" "4 \<le> length ds" "key = Id (SchemaId (from_be_bytes (take 4 ds)))" "n = 5"
    | (v1) "m = MAGIC_BYTE_V1" "16 \<le> length ds" "key = Guid (guid_from_bytes (take 16 ds))" "n = 17"
    using assms by (auto simp: data decode_wire_prefix_def wire_consts split: if_splits)
  then show ?thesis
    by cases (simp_all add: data wire_consts)
qed

interpretation pre: exact_codec "put_prefix []" decode_wire_prefix "\<lambda>_. True" "\<lambda>k. k"
proof unfold_locales
  fix data :: bytes and key n
  assume d: "decode_wire_prefix data = Inr (key, n)"
  show "0 < n \<and> n \<le> length data"
    using decode_wire_prefix_exact [OF d] by (cases key) (simp_all add: wire_consts)
  show "True \<and> key = key \<and> put_prefix [] key = take n data"
    using decode_wire_prefix_exact [OF d] by simp
qed (simp_all add: decode_put_prefix)

interpretation vi: byte_codec varint "\<lambda>data. read_varint data 0" "\<lambda>_. True" "\<lambda>v. v"
  by unfold_locales (use read_varint_varint [of "[]"] in \<open>auto dest: read_varint_bound\<close>)

lemma decode_wire_format_iff:
  "decode_wire_format data = Inr (key, payload) \<longleftrightarrow> data = encode_wire_format key payload"
proof
  assume "decode_wire_format data = Inr (key, payload)"
  then obtain n where n: "decode_wire_prefix data = Inr (key, n)" "payload = drop n data"
    by (auto simp: decode_wire_format_def split: sum.splits)
  then show "data = encode_wire_format key payload"
    using pre.dec_split [OF n(1)] by (simp add: encode_wire_format_def)
qed (simp add: encode_wire_format_def decode_wire_format_def decode_put_prefix)

lemma decode_wire_format_bytes_eq: "decode_wire_format_bytes data = decode_wire_format data"
  by (simp add: decode_wire_format_bytes_def decode_wire_format_def)

lemma decode_framed_bytes: "decode_wire_format_bytes (encode_wire_format key payload) = Inr (key, payload)"
  by (simp add: decode_wire_format_bytes_eq encode_wire_format_def decode_wire_format_def decode_put_prefix)

subsection \<open>Message indexes\<close>

lemma zigzag_round_trip [simp]: "zigzag_decode_u32 (zigzag_encode n) = Inr n"
proof -
  have even: "\<not> (push_bit 1 (ucast n) AND 1 = (1 :: u64))"
  proof
    assume "push_bit 1 (ucast n) AND 1 = (1 :: u64)"
    then have "bit (push_bit 1 (ucast n) AND 1 :: u64) 0 = bit (1 :: u64) 0" by (rule arg_cong)
    then show False by (simp only: bit_and_iff bit_push_bit_iff bit_1_iff) simp
  qed
  have half: "drop_bit 1 (push_bit 1 (ucast n) :: u64) = ucast n"
    by (rule bit_word_eqI, simp only: bit_drop_bit_eq bit_push_bit_iff bit_ucast_iff comp_apply)
      (auto dest: bit_imp_le_length)
  have n: "unat n < 2 ^ LENGTH(32)" by (rule unsigned_less)
  then have "unat (ucast n :: u64) = unat n"
    by (simp add: unsigned_ucast_eq take_bit_nat_eq_self)
  then have "unat (ucast n :: u64) < 2 ^ 32"
    using n by simp
  moreover have "ucast (ucast n :: u64) = n"
    by (rule bit_word_eqI) (simp add: bit_ucast_iff)
  ultimately show ?thesis
    using even half by (simp add: zigzag_encode_def zigzag_decode_u32_def del: push_bit_of_1 drop_bit_push_bit)
qed

definition index_bytes :: "u32 list \<Rightarrow> bytes" where
  "index_bytes ixs = concat (map (\<lambda>i. varint (zigzag_encode i)) ixs)"

lemma fold_write_varint:
  "fold (\<lambda>i b. b @ varint (zigzag_encode i)) ixs buf = buf @ index_bytes ixs"
  by (induction ixs arbitrary: buf) (simp_all add: index_bytes_def)

lemma put_message_indexes_eq: "put_message_indexes buf ixs = buf @ put_message_indexes [] ixs"
  by (simp add: put_message_indexes_def fold_write_varint write_varint_eq)

lemma put_message_indexes_alt:
  "ixs \<noteq> [] \<Longrightarrow> ixs \<noteq> [0] \<Longrightarrow>
   put_message_indexes [] ixs = varint (zigzag_encode (saturating_count ixs)) @ index_bytes ixs"
  by (simp add: put_message_indexes_def fold_write_varint write_varint_eq)

lemma length_index_bytes: "length (index_bytes ixs) = sum_list (map (\<lambda>i. varint_len (zigzag_encode i)) ixs)"
  by (simp add: index_bytes_def length_concat varint_len_eq comp_def)

lemma message_index_len_eq: "message_index_len ixs = length (put_message_indexes [] ixs)"
  by (cases "ixs = [] \<or> ixs = [0]")
    (auto simp: message_index_len_def put_message_indexes_alt length_index_bytes varint_len_eq
      put_message_indexes_def [of "[]" "[]"] put_message_indexes_def [of "[]" "[0]"]
      PROTOBUF_DEFAULT_INDEX_def)

lemma read_indexes_index_bytes:
  "read_indexes (pre @ index_bytes ixs @ post) (length ixs) (length pre) acc =
     Inr (acc @ ixs, length pre + length (index_bytes ixs))"
proof (induction ixs arbitrary: pre acc)
  case Nil
  show ?case by (simp add: index_bytes_def)
next
  case (Cons i ixs)
  have ib: "index_bytes (i # ixs) = varint (zigzag_encode i) @ index_bytes ixs"
    by (simp add: index_bytes_def)
  show ?case
    using Cons [of "pre @ varint (zigzag_encode i)" "acc @ [i]"]
      read_varint_varint [of pre "zigzag_encode i" "index_bytes ixs @ post"]
    by (simp add: ib)
qed

lemma read_indexes_sound:
  "read_indexes data k offset acc = Inr (ixs, n) \<Longrightarrow>
     length ixs = length acc + k \<and> offset + k \<le> n \<and> (k \<noteq> 0 \<longrightarrow> n \<le> length data)"
proof (induction data k offset acc rule: read_indexes.induct)
  case (2 data k offset acc)
  from 2(2) obtain raw c i where r: "read_varint data offset = Inr (raw, c)"
    "zigzag_decode_u32 raw = Inr i" "read_indexes data k (offset + c) (acc @ [i]) = Inr (ixs, n)"
    by (auto split: sum.splits)
  show ?case
    using 2(1) [OF r(1) refl r(2) r(3)] read_varint_bound [OF r(1)] r(3) by (cases k) auto
qed simp

lemma read_indexes_local:
  "read_indexes data k offset acc = Inr r \<Longrightarrow> read_indexes (data @ rest) k offset acc = Inr r"
proof (induction data k offset acc rule: read_indexes.induct)
  case (2 data k offset acc)
  from 2(2) obtain raw c i where r: "read_varint data offset = Inr (raw, c)"
    "zigzag_decode_u32 raw = Inr i" "read_indexes data k (offset + c) (acc @ [i]) = Inr r"
    by (auto split: sum.splits)
  show ?case
    using 2(1) [OF r(1) refl r(2) r(3)] read_varint_local [OF r(1)] r(2) by simp
qed simp

lemma decode_indexes_sound:
  assumes "decode_protobuf_message_indexes data = Inr (ixs, n)"
  shows "ixs \<noteq> [] \<and> length ixs \<le> 512 \<and> 0 < n \<and> n \<le> length data"
proof -
  obtain raw c where r: "read_varint data 0 = Inr (raw, c)"
    using assms by (auto simp: decode_protobuf_message_indexes_def split: sum.splits)
  obtain count where z: "zigzag_decode_u32 raw = Inr count"
    using assms r by (auto simp: decode_protobuf_message_indexes_def split: sum.splits)
  show ?thesis
  proof (cases "count = 0")
    case True
    then show ?thesis
      using assms r z read_varint_bound [OF r] by (auto simp: decode_protobuf_message_indexes_def)
  next
    case False
    then have le: "unat count \<le> 512" and ri: "read_indexes data (unat count) c [] = Inr (ixs, n)"
      using assms r z by (auto simp: decode_protobuf_message_indexes_def MAX_MESSAGE_INDEX_COUNT_def
          word_le_nat_alt not_less split: if_splits)
    have "unat count \<noteq> 0" using False by (simp add: unat_eq_zero)
    then show ?thesis
      using read_indexes_sound [OF ri] le read_varint_bound [OF r] by auto
  qed
qed

lemma decode_indexes_local:
  assumes "decode_protobuf_message_indexes data = Inr r"
  shows "decode_protobuf_message_indexes (data @ rest) = Inr r"
proof -
  obtain raw c where r: "read_varint data 0 = Inr (raw, c)"
    using assms by (auto simp: decode_protobuf_message_indexes_def split: sum.splits)
  from assms show ?thesis
    unfolding decode_protobuf_message_indexes_def r read_varint_local [OF r]
    by (auto split: sum.splits if_splits intro: read_indexes_local)
qed

lemma decode_put_message_indexes:
  assumes "length ixs \<le> 512"
  shows "decode_protobuf_message_indexes (put_message_indexes [] ixs @ rest) =
    Inr (if ixs = [] then [0] else ixs, length (put_message_indexes [] ixs))"
proof (cases "ixs = [] \<or> ixs = [0]")
  case True
  have zero: "varint (zigzag_encode 0) = PROTOBUF_DEFAULT_INDEX"
    by (subst varint_rec) (simp add: zigzag_encode_def PROTOBUF_DEFAULT_INDEX_def)
  have "read_varint (PROTOBUF_DEFAULT_INDEX @ rest) 0 = Inr (zigzag_encode 0, 1)"
    using vi.dec_enc [of "zigzag_encode 0" rest] by (simp add: zero) (simp add: PROTOBUF_DEFAULT_INDEX_def)
  then show ?thesis
    using True by (auto simp: put_message_indexes_def decode_protobuf_message_indexes_def)
      (simp_all add: PROTOBUF_DEFAULT_INDEX_def)
next
  case False
  let ?c = "zigzag_encode (saturating_count ixs)"
  have count: "unat (saturating_count ixs) = length ixs"
    using assms by (simp add: saturating_count_def unsigned_of_nat take_bit_nat_eq_self)
  then have nz: "saturating_count ixs \<noteq> 0" and small: "\<not> MAX_MESSAGE_INDEX_COUNT < saturating_count ixs"
    using False assms by (auto simp: MAX_MESSAGE_INDEX_COUNT_def word_less_nat_alt)
  have rv: "read_varint (varint ?c @ index_bytes ixs @ rest) 0 = Inr (?c, length (varint ?c))"
    by (rule vi.dec_enc) simp
  show ?thesis
    using False rv nz small count read_indexes_index_bytes [of "varint ?c" ixs rest "[]"]
    by (simp add: put_message_indexes_alt decode_protobuf_message_indexes_def)
qed

lemma decode_too_many_indexes:
  assumes "512 < length ixs"
  shows "decode_protobuf_message_indexes (put_message_indexes [] ixs @ rest) =
    Inl (WireFormat (Wire (IndexCountTooLarge (saturating_count ixs))))"
proof -
  let ?c = "zigzag_encode (saturating_count ixs)"
  have ne: "ixs \<noteq> []" "ixs \<noteq> [0]" using assms by auto
  have "unat (- 1 :: u32) = 2 ^ 32 - 1" by (simp add: unsigned_minus_1_eq_mask mask_eq_exp_minus_1)
  then have big: "MAX_MESSAGE_INDEX_COUNT < saturating_count ixs"
    using assms by (auto simp: saturating_count_def MAX_MESSAGE_INDEX_COUNT_def word_less_nat_alt unsigned_of_nat take_bit_nat_eq_self)
  moreover from big have "saturating_count ixs \<noteq> 0" by auto
  moreover have "read_varint (varint ?c @ index_bytes ixs @ rest) 0 = Inr (?c, length (varint ?c))"
    by (rule vi.dec_enc) simp
  ultimately show ?thesis
    by (simp add: put_message_indexes_alt [OF ne] decode_protobuf_message_indexes_def)
qed

interpretation mi: byte_codec "put_message_indexes []" decode_protobuf_message_indexes
    "\<lambda>ixs. length ixs \<le> 512" "\<lambda>ixs. if ixs = [] then [0] else ixs"
  by unfold_locales (simp add: decode_put_message_indexes, use decode_indexes_sound in blast)

subsection \<open>Headers and detection\<close>

lemma decode_encode_header:
  assumes "\<And>ixs. m = Some ixs \<Longrightarrow> length ixs \<le> 512"
  shows "decode_schema_id_header (encode_schema_id_header key m) =
    Inr (key, map_option (\<lambda>ixs. if ixs = [] then [0] else ixs) m)"
proof (cases m)
  case None
  then show ?thesis
    using pre.dec_enc [of key "[]"] by (simp add: encode_schema_id_header_def decode_schema_id_header_def)
next
  case (Some ixs)
  have ok: "length ixs \<le> 512" using assms Some by simp
  show ?thesis
    using pre.dec_enc [of key "put_message_indexes [] ixs"] mi.enc_nonempty [OF ok] mi.dec_enc [OF ok, of "[]"]
    by (simp add: Some encode_schema_id_header_def decode_schema_id_header_def
        put_message_indexes_eq [of "put_prefix [] key"] Let_def)
qed

lemma decode_header_exact:
  assumes "decode_schema_id_header value = Inr (key, m)"
  shows "\<exists>rest. value = put_prefix [] key @ rest \<and>
    (case m of None \<Rightarrow> rest = []
     | Some ixs \<Rightarrow> decode_protobuf_message_indexes rest = Inr (ixs, length rest))"
proof -
  obtain n where p: "decode_wire_prefix value = Inr (key, n)"
    using assms by (auto simp: decode_schema_id_header_def Let_def split: sum.splits if_splits)
  have "value = put_prefix [] key @ drop n value" by (rule pre.dec_split [OF p])
  with assms p show ?thesis
    by (intro exI [of _ "drop n value"])
      (auto simp: decode_schema_id_header_def Let_def split: sum.splits if_splits)
qed

lemma detect_confluent:
  "detect_wire_format data = DetConfluent key n \<longleftrightarrow> decode_wire_prefix data = Inr (key, n)"
  by (cases data)
    (auto simp: detect_wire_format_def decode_wire_prefix_def wire_consts glue_consts
      split: sum.splits if_splits)

lemma detect_invalid_confluent:
  "detect_wire_format data = InvalidConfluent \<longleftrightarrow>
     data \<noteq> [] \<and> (hd data = MAGIC_BYTE_V0 \<or> hd data = MAGIC_BYTE_V1) \<and> (\<forall>r. decode_wire_prefix data \<noteq> Inr r)"
  by (cases data)
    (auto simp: detect_wire_format_def decode_wire_prefix_def wire_consts glue_consts
      split: sum.splits if_splits)

section \<open>Properties\<close>

text \<open>
  C17. Frames are unambiguous. \<open>decode_wire_format\<close> accepts exactly the buffers that
  \<open>encode_wire_format\<close> produces, and returns the identifier and the payload they were produced
  from: encoding and decoding are inverse in both directions, for v0 and v1.
\<close>

theorem wire_format_inverse:
  "decode_wire_format data = Inr (key, payload) \<longleftrightarrow> data = encode_wire_format key payload"
  by (rule decode_wire_format_iff)

text \<open>
  C14. The Protobuf frame round trip. A frame written for a message-index path of at most 512
  segments is unframed to the same identifier, the same path (\<open>[0]\<close> for the empty one) and the
  same payload, whatever bytes the payload holds; and the capacity the encoder reserves is the
  exact length of the frame.
\<close>

theorem protobuf_frame_round_trip:
  assumes "length ixs \<le> 512"
  shows "\<exists>rest n. decode_wire_format (encode_protobuf_wire_format key ixs payload) = Inr (key, rest) \<and>
    decode_protobuf_message_indexes rest = Inr (if ixs = [] then [0] else ixs, n) \<and>
    drop n rest = payload \<and>
    length (encode_protobuf_wire_format key ixs payload) =
      encoded_len key + message_index_len ixs + length payload"
proof (intro exI conjI)
  show "decode_wire_format (encode_protobuf_wire_format key ixs payload) =
      Inr (key, put_message_indexes [] ixs @ payload)"
    by (simp add: decode_wire_format_iff encode_wire_format_def encode_protobuf_wire_format_def
        put_message_indexes_eq [of "put_prefix [] key"])
  show "decode_protobuf_message_indexes (put_message_indexes [] ixs @ payload) =
      Inr (if ixs = [] then [0] else ixs, length (put_message_indexes [] ixs))"
    by (rule mi.dec_enc [OF assms])
  show "drop (length (put_message_indexes [] ixs)) (put_message_indexes [] ixs @ payload) = payload"
    by simp
  show "length (encode_protobuf_wire_format key ixs payload) =
      encoded_len key + message_index_len ixs + length payload"
    by (simp add: encode_protobuf_wire_format_def put_message_indexes_eq [of "put_prefix [] key"]
        message_index_len_eq)
qed

theorem protobuf_frame_round_trip_witness:
  "\<exists>rest n. decode_wire_format (encode_protobuf_wire_format (Id (SchemaId 1)) [0, 1] [0x78]) =
     Inr (Id (SchemaId 1), rest) \<and> decode_protobuf_message_indexes rest = Inr ([0, 1], n) \<and>
     drop n rest = [0x78]"
  using protobuf_frame_round_trip [of "[0, 1]" "Id (SchemaId 1)" "[0x78]"] by force

text \<open>
  C38. What the decoder of message indexes accepts is bounded: a path it returns has at least
  one and at most 512 segments, it consumed at least one byte and none behind the buffer, and
  the bytes that follow the array do not change the result.
\<close>

theorem decoded_indexes_bounded:
  assumes "decode_protobuf_message_indexes data = Inr (ixs, n)"
  shows "1 \<le> length ixs \<and> length ixs \<le> 512 \<and> 0 < n \<and> n \<le> length data \<and>
    decode_protobuf_message_indexes (data @ rest) = Inr (ixs, n)"
  using decode_indexes_sound [OF assms] decode_indexes_local [OF assms] by (simp add: Suc_le_eq)

theorem decoded_indexes_bounded_witness:
  "decode_protobuf_message_indexes ([0x00] @ [0x0A]) = Inr ([0], 1)"
proof -
  have "decode_protobuf_message_indexes [0x00] = Inr ([0], 1)"
    by (simp add: decode_protobuf_message_indexes_def read_varint_def read_varint_loop.simps
        zigzag_decode_u32_def)
  from decoded_indexes_bounded [OF this, of "[0x0A]"] show ?thesis by simp
qed

text \<open>
  The encoder has no such bound: a path of more than 512 segments is framed, and the frame
  is rejected by the decoder, whatever follows it. The count in the error is the saturated one.
\<close>

theorem long_path_not_decodable:
  assumes "512 < length ixs"
  shows "\<exists>rest. decode_wire_format (encode_protobuf_wire_format key ixs payload) = Inr (key, rest) \<and>
    decode_protobuf_message_indexes rest =
      Inl (WireFormat (Wire (IndexCountTooLarge (saturating_count ixs))))"
proof (intro exI conjI)
  show "decode_wire_format (encode_protobuf_wire_format key ixs payload) =
      Inr (key, put_message_indexes [] ixs @ payload)"
    by (simp add: decode_wire_format_iff encode_wire_format_def encode_protobuf_wire_format_def
        put_message_indexes_eq [of "put_prefix [] key"])
  show "decode_protobuf_message_indexes (put_message_indexes [] ixs @ payload) =
      Inl (WireFormat (Wire (IndexCountTooLarge (saturating_count ixs))))"
    by (rule decode_too_many_indexes [OF assms])
qed

theorem long_path_not_decodable_witness:
  "\<exists>rest. decode_wire_format (encode_protobuf_wire_format (Id (SchemaId 1)) (replicate 513 7) []) =
      Inr (Id (SchemaId 1), rest) \<and>
    decode_protobuf_message_indexes rest =
      Inl (WireFormat (Wire (IndexCountTooLarge (saturating_count (replicate 513 7)))))"
  by (rule long_path_not_decodable) simp

lemma varint_length_bound: "v = drop_bit s V \<Longrightarrow> s < 64 \<Longrightarrow> 7 * length (varint v) \<le> 76 - s"
  for v V :: u64
proof (induction "length (varint v)" arbitrary: v s rule: less_induct)
  case less
  show ?case
  proof (cases "drop_bit 7 v = 0")
    case True
    then have "length (varint v) = 1" by (subst varint_rec) simp
    then show ?thesis using less.prems(2) by simp
  next
    case False
    have d: "drop_bit 7 v = drop_bit (s + 7) V"
      using less.prems(1) by (simp add: add.commute)
    have s: "s + 7 < 64" using False d by (intro drop_bit_nz_less) simp
    have l: "length (varint v) = Suc (length (varint (drop_bit 7 v)))"
      using False by (subst varint_rec) simp
    have "7 * length (varint (drop_bit 7 v)) \<le> 76 - (s + 7)"
      by (rule less.hyps [OF _ d s]) (simp add: l)
    then show ?thesis using l s by simp
  qed
qed

text \<open>
  Varints: what \<open>write_varint\<close> appends is read back, at the place it was written and
  whatever surrounds it, and \<open>varint_len\<close> is the number of bytes it takes, between 1 and 10.
\<close>

theorem varint_round_trip:
  "read_varint (write_varint buf v @ rest) (length buf) = Inr (v, varint_len v) \<and>
   length (write_varint buf v) = length buf + varint_len v \<and> 1 \<le> varint_len v \<and> varint_len v \<le> 10"
proof -
  have "7 * length (varint v) \<le> 76" using varint_length_bound [of v 0 v] by simp
  moreover have "1 \<le> length (varint v)" using varint_nonempty [of v] by (simp add: Suc_le_eq)
  ultimately show ?thesis
    using read_varint_varint [of buf v rest] by (simp add: write_varint_eq varint_len_eq)
qed

text \<open>
  The header placement round trip: a Kafka header value decodes to the identifier and the
  path it was built from, and a header value with anything behind the array is rejected, with
  the number of the extra bytes.
\<close>

theorem header_round_trip:
  assumes "\<And>ixs. m = Some ixs \<Longrightarrow> length ixs \<le> 512"
  shows "decode_schema_id_header (encode_schema_id_header key m) =
      Inr (key, map_option (\<lambda>ixs. if ixs = [] then [0] else ixs) m) \<and>
    (\<forall>junk. m \<noteq> None \<and> junk \<noteq> [] \<longrightarrow>
      decode_schema_id_header (encode_schema_id_header key m @ junk) =
        Inl (WireFormat (Wire (HeaderTrailing (length junk)))))"
proof (intro conjI allI impI)
  show "decode_schema_id_header (encode_schema_id_header key m) =
      Inr (key, map_option (\<lambda>ixs. if ixs = [] then [0] else ixs) m)"
    by (rule decode_encode_header) (rule assms)
  fix junk :: bytes
  assume "m \<noteq> None \<and> junk \<noteq> []"
  then obtain ixs where m: "m = Some ixs" and junk: "junk \<noteq> []" by auto
  have ok: "length ixs \<le> 512" using assms m by simp
  show "decode_schema_id_header (encode_schema_id_header key m @ junk) =
      Inl (WireFormat (Wire (HeaderTrailing (length junk))))"
    using pre.dec_enc [of key "put_message_indexes [] ixs @ junk"] mi.dec_enc [OF ok, of junk] junk
    by (simp add: m encode_schema_id_header_def decode_schema_id_header_def Let_def
        put_message_indexes_eq [of "put_prefix [] key"])
qed

theorem header_round_trip_witness:
  "decode_schema_id_header (encode_schema_id_header (Id (SchemaId 7)) (Some [1, 0])) =
     Inr (Id (SchemaId 7), Some [1, 0])"
  using header_round_trip [of "Some [1, 0]" "Id (SchemaId 7)"] by simp

text \<open>
  C39. Detection agrees with the decoder: a buffer is reported as Confluent exactly when the
  prefix decodes, with the same key and offset, so that slicing at the reported offset gives
  the payload \<open>decode_wire_format\<close> gives; every other buffer with a Confluent magic byte is
  \<open>InvalidConfluent\<close>.
\<close>

theorem detection_agrees_with_decoder:
  "((detect_wire_format data = DetConfluent key n \<and> payload = drop n data) \<longleftrightarrow>
     (decode_wire_format data = Inr (key, payload) \<and> n = encoded_len key)) \<and>
   (detect_wire_format data = InvalidConfluent \<longleftrightarrow>
     data \<noteq> [] \<and> (hd data = MAGIC_BYTE_V0 \<or> hd data = MAGIC_BYTE_V1) \<and> (\<forall>r. decode_wire_format data \<noteq> Inr r))"
proof
  show "(detect_wire_format data = DetConfluent key n \<and> payload = drop n data) \<longleftrightarrow>
     (decode_wire_format data = Inr (key, payload) \<and> n = encoded_len key)"
    by (auto simp: detect_confluent decode_wire_format_def split: sum.splits dest: decode_wire_prefix_exact)
  show "detect_wire_format data = InvalidConfluent \<longleftrightarrow>
     data \<noteq> [] \<and> (hd data = MAGIC_BYTE_V0 \<or> hd data = MAGIC_BYTE_V1) \<and> (\<forall>r. decode_wire_format data \<noteq> Inr r)"
    by (auto simp: detect_invalid_confluent decode_wire_format_def split: sum.splits)
qed

text \<open>
  The tenth byte of a varint is not checked. A varint of nine continuation bytes and a
  tenth byte with any even payload up to \<open>0x7E\<close> overflows 64 bits and is accepted; the bits
  beyond the 64th are dropped, so the array it introduces decodes to \<open>[0]\<close>.
\<close>

theorem varint_overflow_accepted:
  "decode_protobuf_message_indexes [0x80, 0x80, 0x80, 0x80, 0x80, 0x80, 0x80, 0x80, 0x80, 0x02] = Inr ([0], 10) \<and>
   decode_protobuf_message_indexes [0x80, 0x80, 0x80, 0x80, 0x80, 0x80, 0x80, 0x80, 0x80, 0x7E] = Inr ([0], 10)"
  by (simp_all add: decode_protobuf_message_indexes_def read_varint_def read_varint_loop.simps
      zigzag_decode_u32_def Let_def)

text \<open>
  The message of a negative index negates \<open>((raw >> 1) + 1) as i64\<close>, which overflows for
  exactly one value of \<open>raw\<close>, the largest; a ten-byte buffer reaches it.
\<close>

theorem negative_index_message_overflows:
  "(zigzag_message_overflows raw \<longleftrightarrow> raw = - 1) \<and>
   read_varint [0xFF, 0xFF, 0xFF, 0xFF, 0xFF, 0xFF, 0xFF, 0xFF, 0xFF, 0x01] 0 = Inr (- 1, 10)"
proof (intro conjI iffI)
  assume "zigzag_message_overflows raw"
  then have odd: "raw AND 1 = 1" and half: "drop_bit 1 raw = 2 ^ 63 - 1"
    by (simp_all add: zigzag_message_overflows_def eq_diff_eq)
  have "raw = push_bit 1 (drop_bit 1 raw) + take_bit 1 raw"
    by (rule bits_ident [symmetric])
  also have "take_bit 1 raw = raw AND 1"
    by (simp add: and_one_eq take_bit_Suc)
  finally show "raw = - 1" unfolding odd half by simp
next
  assume "raw = - 1"
  then show "zigzag_message_overflows raw"
    by (simp add: zigzag_message_overflows_def mask_eq_exp_minus_1)
next
  show "read_varint [0xFF, 0xFF, 0xFF, 0xFF, 0xFF, 0xFF, 0xFF, 0xFF, 0xFF, 0x01] 0 = Inr (- 1, 10)"
    by (simp add: read_varint_def read_varint_loop.simps Let_def)
qed

end
