(* ===== verification/Glue_Wire.thy ===== *)
theory Glue_Wire
  imports Wire
begin

text \<open>
  The AWS Glue wire format (\<open>src/glue/mod.rs\<close>): an 18-byte header and an optionally
  compressed payload. Compression is the \<open>flate2\<close> crate, which the sources only call: a
  \<open>zlib\<close> record holds its two functions, \<open>zl_inflate\<close> giving the bytes the decoder
  stream yields and the error that ends it, if one does. The crate feature \<open>glue\<close> decides
  whether the functions exist: \<^term>\<open>None\<close> is a build without it.
\<close>

record zlib =
  zl_deflate :: "bytes \<Rightarrow> string + bytes"
  zl_inflate :: "bytes \<Rightarrow> bytes \<times> string option"

definition MAX_DECOMPRESSED_SIZE :: nat where "MAX_DECOMPRESSED_SIZE = 128 * 1024 * 1024"

fun compress_zlib :: "zlib option \<Rightarrow> bytes \<Rightarrow> bytes res" where
  "compress_zlib (Some z) data =
     (case zl_deflate z data of
        Inl e \<Rightarrow> Inl (WireFormat (Glue (ZlibCompressFailed e)))
      | Inr compressed \<Rightarrow> Inr compressed)"
| "compress_zlib None data = Inl (WireFormat (Glue ZlibNeedsFeature))"

text \<open>
  \<open>Read::take(n)\<close> stops asking the inner stream once \<open>n\<close> bytes were read, so an error
  behind the limit is never seen.
\<close>

definition read_to_end_limited :: "nat \<Rightarrow> bytes \<times> string option \<Rightarrow> string + bytes" where
  "read_to_end_limited limit stream =
     (case stream of (out, err) \<Rightarrow>
        if limit \<le> length out then Inr (take limit out)
        else (case err of Some e \<Rightarrow> Inl e | None \<Rightarrow> Inr out))"

fun decompress_zlib :: "zlib option \<Rightarrow> bytes \<Rightarrow> bytes res" where
  "decompress_zlib (Some z) data =
     (case read_to_end_limited (MAX_DECOMPRESSED_SIZE + 1) (zl_inflate z data) of
        Inl e \<Rightarrow> Inl (WireFormat (Glue (ZlibDecompressFailed e)))
      | Inr decompressed \<Rightarrow>
          if MAX_DECOMPRESSED_SIZE < length decompressed
          then Inl (WireFormat (Glue (DecompressionBomb (length decompressed))))
          else Inr decompressed)"
| "decompress_zlib None data = Inl (WireFormat (Glue ZlibNeedsFeature))"

definition glue_header :: "u8 \<Rightarrow> glue_version_id \<Rightarrow> bytes" where
  "glue_header compression_byte version =
     [GLUE_HEADER_VERSION_BYTE] @ [compression_byte] @ version_as_bytes version"

definition encode_glue_wire_format ::
    "zlib option \<Rightarrow> glue_version_id \<Rightarrow> bytes \<Rightarrow> glue_compression \<Rightarrow> bytes res" where
  "encode_glue_wire_format z version payload compression =
     (case compression of
        NoCompression \<Rightarrow> Inr (glue_header GLUE_COMPRESSION_NONE_BYTE version @ payload)
      | Zlib \<Rightarrow>
          (case compress_zlib z payload of
             Inl e \<Rightarrow> Inl e
           | Inr compressed \<Rightarrow> Inr (glue_header GLUE_COMPRESSION_ZLIB_BYTE version @ compressed)))"

definition validate_glue_wire_header :: "bytes \<Rightarrow> (glue_version_id \<times> glue_compression) res" where
  "validate_glue_wire_header data =
     (if length data < GLUE_HEADER_SIZE then Inl (WireFormat (Glue (GlueTooShort (length data))))
      else if data ! 0 \<noteq> GLUE_HEADER_VERSION_BYTE
           then Inl (WireFormat (Glue (GlueBadVersion (data ! 0))))
      else if data ! 1 = GLUE_COMPRESSION_NONE_BYTE
           then Inr (version_from_bytes (take 16 (drop 2 data)), NoCompression)
      else if data ! 1 = GLUE_COMPRESSION_ZLIB_BYTE
           then Inr (version_from_bytes (take 16 (drop 2 data)), Zlib)
      else Inl (WireFormat (Glue (GlueBadCompression (data ! 1)))))"

text \<open>
  \<open>decode_glue_wire_format\<close>, \<open>_borrowed\<close> and \<open>_bytes\<close> differ in who owns the payload;
  each is translated on its own.
\<close>

definition decode_glue_wire_format :: "zlib option \<Rightarrow> bytes \<Rightarrow> (glue_version_id \<times> bytes) res" where
  "decode_glue_wire_format z data =
     (case validate_glue_wire_header data of
        Inl e \<Rightarrow> Inl e
      | Inr (version, compression) \<Rightarrow>
          (let raw = drop GLUE_HEADER_SIZE data
           in case compression of
                NoCompression \<Rightarrow> Inr (version, raw)
              | Zlib \<Rightarrow>
                  (case decompress_zlib z raw of
                     Inl e \<Rightarrow> Inl e
                   | Inr payload \<Rightarrow> Inr (version, payload))))"

definition decode_glue_wire_format_borrowed :: "zlib option \<Rightarrow> bytes \<Rightarrow> (glue_version_id \<times> bytes) res" where
  "decode_glue_wire_format_borrowed z data =
     res_bind (validate_glue_wire_header data) (\<lambda>(version, compression).
       res_bind (if compression = NoCompression then Inr (drop GLUE_HEADER_SIZE data)
                 else decompress_zlib z (drop GLUE_HEADER_SIZE data)) (\<lambda>payload.
         Inr (version, payload)))"

definition decode_glue_wire_format_bytes :: "zlib option \<Rightarrow> bytes \<Rightarrow> (glue_version_id \<times> bytes) res" where
  "decode_glue_wire_format_bytes z data =
     res_bind (validate_glue_wire_header data) (\<lambda>(version, compression).
       case compression of
         NoCompression \<Rightarrow> Inr (version, drop GLUE_HEADER_SIZE data)
       | Zlib \<Rightarrow> res_bind (decompress_zlib z (drop GLUE_HEADER_SIZE data)) (\<lambda>payload. Inr (version, payload)))"

section \<open>Lemmas\<close>

fun compression_byte :: "glue_compression \<Rightarrow> u8" where
  "compression_byte NoCompression = GLUE_COMPRESSION_NONE_BYTE"
| "compression_byte Zlib = GLUE_COMPRESSION_ZLIB_BYTE"

lemma length_glue_header [simp]: "length (glue_header b v) = GLUE_HEADER_SIZE"
  by (simp add: glue_header_def GLUE_HEADER_SIZE_def)

lemma validate_glue_header:
  "validate_glue_wire_header (glue_header (compression_byte c) v @ rest) = Inr (v, c)"
  by (cases c) (simp_all add: validate_glue_wire_header_def glue_header_def glue_consts)

lemma validate_glue_header_exact:
  assumes "validate_glue_wire_header data = Inr (v, c)"
  shows "GLUE_HEADER_SIZE \<le> length data \<and> glue_header (compression_byte c) v = take GLUE_HEADER_SIZE data"
proof -
  have len: "18 \<le> length data" and d0: "data ! 0 = 0x03" and d1: "data ! 1 = compression_byte c"
    and v: "v = version_from_bytes (take 16 (drop 2 data))"
    using assms by (auto simp: validate_glue_wire_header_def glue_consts split: if_splits)
  obtain a b ds where data: "data = a # b # ds"
    using len by (cases data; cases "tl data") auto
  with len d0 d1 v show ?thesis
    by (simp add: glue_header_def glue_consts)
qed

text \<open>The header on its own, as a codec of version and compression.\<close>

definition decode_glue_header :: "bytes \<Rightarrow> ((glue_version_id \<times> glue_compression) \<times> nat) res" where
  "decode_glue_header data = res_bind (validate_glue_wire_header data) (\<lambda>vc. Inr (vc, GLUE_HEADER_SIZE))"

interpretation gh: exact_codec "\<lambda>(v, c). glue_header (compression_byte c) v" decode_glue_header
    "\<lambda>_. True" "\<lambda>vc. vc"
proof unfold_locales
  fix vc :: "glue_version_id \<times> glue_compression" and rest
  show "decode_glue_header ((case vc of (v, c) \<Rightarrow> glue_header (compression_byte c) v) @ rest) =
      Inr (vc, length (case vc of (v, c) \<Rightarrow> glue_header (compression_byte c) v))"
    by (cases vc) (simp add: decode_glue_header_def validate_glue_header)
next
  fix data and vc :: "glue_version_id \<times> glue_compression" and n
  assume "decode_glue_header data = Inr (vc, n)"
  then have n: "n = GLUE_HEADER_SIZE" and v: "validate_glue_wire_header data = Inr vc"
    by (auto simp: decode_glue_header_def)
  show "0 < n \<and> n \<le> length data"
    using validate_glue_header_exact [of data "fst vc" "snd vc"] v by (simp add: n GLUE_HEADER_SIZE_def)
  show "True \<and> vc = vc \<and> (case vc of (v, c) \<Rightarrow> glue_header (compression_byte c) v) = take n data"
    using validate_glue_header_exact [of data "fst vc" "snd vc"] v by (cases vc) (simp add: n)
qed

lemma decode_glue_variants:
  "decode_glue_wire_format_borrowed z data = decode_glue_wire_format z data"
  "decode_glue_wire_format_bytes z data = decode_glue_wire_format z data"
  by (auto simp: decode_glue_wire_format_borrowed_def decode_glue_wire_format_bytes_def
      decode_glue_wire_format_def Let_def split: sum.splits glue_compression.splits)

lemma decompress_bounded: "decompress_zlib z data = Inr out \<Longrightarrow> length out \<le> MAX_DECOMPRESSED_SIZE"
  by (cases z) (auto split: sum.splits if_splits)

lemma decompress_of_stream:
  "zl_inflate z data = (out, None) \<Longrightarrow> length out \<le> MAX_DECOMPRESSED_SIZE \<Longrightarrow>
   decompress_zlib (Some z) data = Inr out"
  by (simp add: read_to_end_limited_def)

lemma decompress_bomb:
  "zl_inflate z data = (out, err) \<Longrightarrow> MAX_DECOMPRESSED_SIZE < length out \<Longrightarrow>
   decompress_zlib (Some z) data = Inl (WireFormat (Glue (DecompressionBomb (MAX_DECOMPRESSED_SIZE + 1))))"
  by (simp add: read_to_end_limited_def)

lemma decode_glue_of_header:
  "decode_glue_wire_format z (glue_header (compression_byte c) v @ raw) =
     (case c of NoCompression \<Rightarrow> Inr (v, raw)
      | Zlib \<Rightarrow> res_bind (decompress_zlib z raw) (\<lambda>payload. Inr (v, payload)))"
  by (cases c)
    (simp_all only: decode_glue_wire_format_def validate_glue_header Let_def sum.case prod.case
      drop_append_exact length_glue_header glue_compression.case,
     cases "decompress_zlib z raw", simp_all)

lemma encode_glue_eq:
  "encode_glue_wire_format z v payload c =
     res_bind (case c of NoCompression \<Rightarrow> Inr payload | Zlib \<Rightarrow> compress_zlib z payload)
       (\<lambda>raw. Inr (glue_header (compression_byte c) v @ raw))"
  by (cases c; cases "compress_zlib z payload") (simp_all add: encode_glue_wire_format_def)

lemma detect_glue:
  "detect_wire_format data = DetGlue v c n \<longleftrightarrow>
     n = GLUE_HEADER_SIZE \<and> validate_glue_wire_header data = Inr (v, c)"
  by (cases data)
    (auto simp: detect_wire_format_def validate_glue_wire_header_def wire_consts glue_consts
      split: sum.splits if_splits)

section \<open>Properties\<close>

text \<open>
  C36. The Glue round trip. Whenever a payload can be framed, unframing gives back the version
  and the payload: always for an uncompressed frame, and for a ZLIB frame when the decoder
  stream yields what was compressed and that is at most 128 MiB. All three decoders agree.
\<close>

theorem glue_round_trip:
  assumes "encode_glue_wire_format z v payload c = Inr data"
    and "c = Zlib \<Longrightarrow> \<exists>zl raw. z = Some zl \<and> zl_deflate zl payload = Inr raw \<and>
      zl_inflate zl raw = (payload, None) \<and> length payload \<le> MAX_DECOMPRESSED_SIZE"
  shows "decode_glue_wire_format z data = Inr (v, payload) \<and>
    decode_glue_wire_format_borrowed z data = Inr (v, payload) \<and>
    decode_glue_wire_format_bytes z data = Inr (v, payload)"
proof (cases c)
  case NoCompression
  then have "data = glue_header (compression_byte c) v @ payload"
    using assms(1) by (simp add: encode_glue_eq)
  then show ?thesis
    unfolding decode_glue_variants by (simp only: decode_glue_of_header NoCompression glue_compression.case)
next
  case Zlib
  then obtain zl raw where z: "z = Some zl" "zl_deflate zl payload = Inr raw" "zl_inflate zl raw = (payload, None)"
      "length payload \<le> MAX_DECOMPRESSED_SIZE"
    using assms(2) by blast
  then have "data = glue_header (compression_byte c) v @ raw"
    using assms(1) by (simp add: encode_glue_eq Zlib)
  then show ?thesis
    unfolding decode_glue_variants
    by (simp only: decode_glue_of_header Zlib glue_compression.case z(1) decompress_of_stream [OF z(3,4)]) simp
qed

theorem glue_round_trip_witness:
  "decode_glue_wire_format (Some \<lparr>zl_deflate = Inr, zl_inflate = \<lambda>b. (b, None)\<rparr>)
     (glue_header GLUE_COMPRESSION_ZLIB_BYTE (GlueVersionId 9) @ [0x61, 0x62]) = Inr (GlueVersionId 9, [0x61, 0x62])"
  using glue_round_trip [of "Some \<lparr>zl_deflate = Inr, zl_inflate = \<lambda>b. (b, None)\<rparr>" "GlueVersionId 9"
      "[0x61, 0x62]" Zlib "glue_header GLUE_COMPRESSION_ZLIB_BYTE (GlueVersionId 9) @ [0x61, 0x62]"]
  by (simp add: encode_glue_wire_format_def MAX_DECOMPRESSED_SIZE_def)

text \<open>
  Decompression is bounded: whatever the stream would yield, what a decoder returns for a
  compressed frame is at most 128 MiB, and for an uncompressed one the bytes behind the header.
\<close>

theorem glue_decompression_bounded:
  assumes "decode_glue_wire_format z data = Inr (v, payload)"
  shows "length payload \<le> max MAX_DECOMPRESSED_SIZE (length data - GLUE_HEADER_SIZE) \<and>
    (validate_glue_wire_header data = Inr (v, Zlib) \<longrightarrow> length payload \<le> MAX_DECOMPRESSED_SIZE)"
  using assms
  by (auto simp: decode_glue_wire_format_def Let_def split: sum.splits glue_compression.splits
      simp: le_max_iff_disj dest: decompress_bounded)

theorem glue_decompression_bounded_witness:
  "length ([0x61] :: bytes) \<le> max MAX_DECOMPRESSED_SIZE (19 - GLUE_HEADER_SIZE)"
  using glue_decompression_bounded [of None "glue_header GLUE_COMPRESSION_NONE_BYTE (GlueVersionId 9) @ [0x61]"
      "GlueVersionId 9" "[0x61]"] decode_glue_of_header [of None NoCompression "GlueVersionId 9" "[0x61]"]
  by (simp add: GLUE_HEADER_SIZE_def)

text \<open>
  Confluent and Glue frames are never confused: a buffer is reported as Glue exactly when
  its header validates, and then the Confluent decoder rejects it; and nothing that either
  encoder writes is reported as the other's or as unknown.
\<close>

theorem glue_and_confluent_disjoint:
  "((\<exists>v c. detect_wire_format data = DetGlue v c GLUE_HEADER_SIZE) \<longleftrightarrow> (\<exists>r. validate_glue_wire_header data = Inr r)) \<and>
   ((\<exists>r. validate_glue_wire_header data = Inr r) \<longrightarrow> (\<forall>r. decode_wire_format data \<noteq> Inr r)) \<and>
   detect_wire_format (encode_wire_format key payload) = DetConfluent key (encoded_len key) \<and>
   detect_wire_format (glue_header (compression_byte c) v @ payload) = DetGlue v c GLUE_HEADER_SIZE"
proof (intro conjI impI)
  show "(\<exists>v c. detect_wire_format data = DetGlue v c GLUE_HEADER_SIZE) \<longleftrightarrow> (\<exists>r. validate_glue_wire_header data = Inr r)"
    by (auto simp: detect_glue)
  assume "\<exists>r. validate_glue_wire_header data = Inr r"
  then obtain v' c' where "detect_wire_format data = DetGlue v' c' GLUE_HEADER_SIZE"
    by (auto simp: detect_glue)
  then show "\<forall>r. decode_wire_format data \<noteq> Inr r"
    using detect_confluent [of data] by (auto simp: decode_wire_format_def split: sum.splits)
next
  show "detect_wire_format (encode_wire_format key payload) = DetConfluent key (encoded_len key)"
    by (simp add: detect_confluent encode_wire_format_def decode_put_prefix)
  show "detect_wire_format (glue_header (compression_byte c) v @ payload) = DetGlue v c GLUE_HEADER_SIZE"
    by (simp add: detect_glue validate_glue_header)
qed

theorem glue_and_confluent_disjoint_witness:
  "\<forall>r. decode_wire_format (glue_header GLUE_COMPRESSION_NONE_BYTE (GlueVersionId 9) @ [0x61]) \<noteq> Inr r"
  using glue_and_confluent_disjoint [of "glue_header GLUE_COMPRESSION_NONE_BYTE (GlueVersionId 9) @ [0x61]"]
    validate_glue_header [of NoCompression "GlueVersionId 9" "[0x61]"] by auto

end
