(* ===== verification/Cache_Inner.thy ===== *)
theory Cache_Inner
  imports Errors
begin

text \<open>
  The bounded coalescing cache (\<open>src/cache_inner.rs\<close>): its state, one function per critical
  section, and the operations composed from them as they run without interruption.
  \<open>Cache_Concurrency\<close> interleaves the same critical sections.

  A waiter of an in-flight fetch is the number of its oneshot channel. The operations return
  the messages they send, as pairs of a channel and a result.
\<close>

section \<open>State\<close>

record in_flight =
  if_token :: u64
  if_waiters :: "nat list"

record ('k, 'v) store =
  st_entries :: "('k, 'v) hashmap"
  st_order :: "'k list"

record ('k, 'v) cache =
  ca_store :: "('k, 'v) store"
  ca_max_entries :: "nat option"
  ca_next_token :: u64
  ca_generation :: u64
  ca_in_flight :: "('k, in_flight) hashmap"

definition cache_new :: "nat option \<Rightarrow> ('k, 'v) cache" where
  "cache_new max_entries =
     \<lparr>ca_store = \<lparr>st_entries = [], st_order = []\<rparr>, ca_max_entries = max_entries,
      ca_next_token = 0, ca_generation = 0, ca_in_flight = []\<rparr>"

definition cache_len :: "('k, 'v) cache \<Rightarrow> nat" where
  "cache_len c = hm_len (st_entries (ca_store c))"

definition cache_is_empty :: "('k, 'v) cache \<Rightarrow> bool" where
  "cache_is_empty c \<longleftrightarrow> st_entries (ca_store c) = []"

definition cache_get :: "('k, 'v) cache \<Rightarrow> 'k \<Rightarrow> 'v option" where
  "cache_get c k = hm_get (st_entries (ca_store c)) k"

section \<open>Insertion with FIFO eviction\<close>

fun evict_loop :: "nat \<Rightarrow> ('k, 'v) hashmap \<Rightarrow> 'k list \<Rightarrow> ('k, 'v) store" where
  "evict_loop mx entries [] = \<lparr>st_entries = entries, st_order = []\<rparr>"
| "evict_loop mx entries (evicted # order) =
     (if mx < hm_len entries then evict_loop mx (hm_del evicted entries) order
      else \<lparr>st_entries = entries, st_order = evicted # order\<rparr>)"

definition insert_locked :: "nat option \<Rightarrow> 'k \<Rightarrow> 'v \<Rightarrow> ('k, 'v) store \<Rightarrow> ('k, 'v) store" where
  "insert_locked max_entries key value st =
     (let entries = hm_put key value (st_entries st)
      in if hm_get (st_entries st) key \<noteq> None then st\<lparr>st_entries := entries\<rparr>
         else case max_entries of
                None \<Rightarrow> st\<lparr>st_entries := entries\<rparr>
              | Some mx \<Rightarrow> evict_loop mx entries (st_order st @ [key]))"

section \<open>Critical sections\<close>

definition bump_generation :: "('k, 'v) cache \<Rightarrow> ('k, 'v) cache" where
  "bump_generation c = c\<lparr>ca_generation := ca_generation c + 1\<rparr>"

text \<open>The sections of \<open>invalidate\<close>: the in-flight lock, then the store's write lock.\<close>

definition remove_in_flight :: "'k \<Rightarrow> ('k, 'v) cache \<Rightarrow> nat list \<times> ('k, 'v) cache" where
  "remove_in_flight key c =
     ((case hm_get (ca_in_flight c) key of Some e \<Rightarrow> if_waiters e | None \<Rightarrow> []),
      c\<lparr>ca_in_flight := hm_del key (ca_in_flight c)\<rparr>)"

definition store_remove :: "'k \<Rightarrow> ('k, 'v) store \<Rightarrow> ('k, 'v) store" where
  "store_remove key st =
     (if hm_get (st_entries st) key \<noteq> None
      then \<lparr>st_entries = hm_del key (st_entries st), st_order = filter (\<lambda>x. x \<noteq> key) (st_order st)\<rparr>
      else st)"

text \<open>The sections of \<open>invalidate_matching\<close>: the store's write lock, then the in-flight lock.\<close>

definition doomed_keys :: "('v \<Rightarrow> bool) \<Rightarrow> ('k, 'v) store \<Rightarrow> 'k list" where
  "doomed_keys P st = map fst (filter (\<lambda>(k, v). P v) (st_entries st))"

definition remove_doomed :: "'k list \<Rightarrow> ('k, 'v) store \<Rightarrow> ('k, 'v) store" where
  "remove_doomed doomed st =
     (let entries = fold hm_del doomed (st_entries st)
      in \<lparr>st_entries = entries, st_order = filter (\<lambda>x. hm_get entries x \<noteq> None) (st_order st)\<rparr>)"

fun remove_all_in_flight :: "'k list \<Rightarrow> ('k, 'v) cache \<Rightarrow> ('k \<times> nat list) list \<times> ('k, 'v) cache" where
  "remove_all_in_flight [] c = ([], c)"
| "remove_all_in_flight (key # keys) c =
     (case hm_get (ca_in_flight c) key of
        Some e \<Rightarrow>
          (let (cancelled, c') = remove_all_in_flight keys (c\<lparr>ca_in_flight := hm_del key (ca_in_flight c)\<rparr>)
           in ((key, if_waiters e) # cancelled, c'))
      | None \<Rightarrow> remove_all_in_flight keys c)"

text \<open>The sections of \<open>clear\<close>.\<close>

definition drain_in_flight :: "('k, 'v) cache \<Rightarrow> ('k \<times> nat list) list \<times> ('k, 'v) cache" where
  "drain_in_flight c =
     (map (\<lambda>(k, e). (k, if_waiters e)) (ca_in_flight c), c\<lparr>ca_in_flight := []\<rparr>)"

definition store_clear :: "('k, 'v) store \<Rightarrow> ('k, 'v) store" where
  "store_clear st = \<lparr>st_entries = [], st_order = []\<rparr>"

text \<open>
  \<open>notify_cancelled\<close>: one error, sent to every waiter. Sending to a receiver that was
  dropped has no effect.
\<close>

definition notify_cancelled ::
    "('k \<Rightarrow> sreg_error) \<Rightarrow> 'k \<Rightarrow> nat list \<Rightarrow> (nat \<times> 'v res) list" where
  "notify_cancelled mk key waiters = map (\<lambda>w. (w, Inl (mk key))) waiters"

definition notify_all_cancelled ::
    "('k \<Rightarrow> sreg_error) \<Rightarrow> ('k \<times> nat list) list \<Rightarrow> (nat \<times> 'v res) list" where
  "notify_all_cancelled mk cancelled =
     concat (map (\<lambda>(key, waiters). notify_cancelled mk key waiters) cancelled)"

definition insert_if_current :: "'k \<Rightarrow> 'v \<Rightarrow> u64 \<Rightarrow> ('k, 'v) cache \<Rightarrow> ('k, 'v) cache" where
  "insert_if_current key value observed_generation c =
     (if ca_generation c \<noteq> observed_generation then c
      else c\<lparr>ca_store := insert_locked (ca_max_entries c) key value (ca_store c)\<rparr>)"

text \<open>The sections of \<open>get_or_fetch\<close>: the slow path under the in-flight lock \<dots>\<close>

datatype 'v role = Present 'v | Waiter | Leader u64

definition join_or_lead :: "'k \<Rightarrow> nat \<Rightarrow> ('k, 'v) cache \<Rightarrow> 'v role \<times> ('k, 'v) cache" where
  "join_or_lead key channel c =
     (case hm_get (st_entries (ca_store c)) key of
        Some v \<Rightarrow> (Present v, c)
      | None \<Rightarrow>
          (case hm_get (ca_in_flight c) key of
             Some entry \<Rightarrow>
               (Waiter, c\<lparr>ca_in_flight := hm_put key (entry\<lparr>if_waiters := if_waiters entry @ [channel]\<rparr>)
                  (ca_in_flight c)\<rparr>)
           | None \<Rightarrow>
               (let token = ca_next_token c + 1
                in (Leader token,
                    c\<lparr>ca_next_token := ca_next_token c + 1,
                      ca_in_flight := hm_put key \<lparr>if_token = token, if_waiters = []\<rparr> (ca_in_flight c)\<rparr>))))"

text \<open>\<dots> claiming the slot after the fetch \<dots>\<close>

definition take_in_flight :: "'k \<Rightarrow> u64 \<Rightarrow> ('k, 'v) cache \<Rightarrow> nat list option \<times> ('k, 'v) cache" where
  "take_in_flight key token c =
     (case hm_get (ca_in_flight c) key of
        Some entry \<Rightarrow>
          if if_token entry = token
          then (Some (if_waiters entry), c\<lparr>ca_in_flight := hm_del key (ca_in_flight c)\<rparr>)
          else (None, c)
      | None \<Rightarrow> (None, c))"

text \<open>\<dots> and storing the value, when the claim succeeded.\<close>

definition store_fetched :: "'k \<Rightarrow> 'v res \<Rightarrow> nat list option \<Rightarrow> ('k, 'v) cache \<Rightarrow> 'v res \<times> ('k, 'v) cache" where
  "store_fetched key result waiters c =
     (case result of
        Inr value \<Rightarrow>
          (case waiters of
             Some _ \<Rightarrow>
               (case hm_get (st_entries (ca_store c)) key of
                  Some existing \<Rightarrow> (Inr existing, c)
                | None \<Rightarrow>
                    (Inr value, c\<lparr>ca_store := insert_locked (ca_max_entries c) key value (ca_store c)\<rparr>))
           | None \<Rightarrow> (Inr value, c))
      | Inl e \<Rightarrow> (Inl e, c))"

definition outcome_messages :: "nat list option \<Rightarrow> 'v res \<Rightarrow> (nat \<times> 'v res) list" where
  "outcome_messages waiters outcome =
     (case waiters of Some ws \<Rightarrow> map (\<lambda>w. (w, outcome)) ws | None \<Rightarrow> [])"

text \<open>
  The drop guard of a leader whose future is dropped before the fetch completed. (When it
  completed, \<open>completed\<close> is set and the guard does nothing.)
\<close>

definition leader_guard_drop ::
    "('k \<Rightarrow> sreg_error) \<Rightarrow> 'k \<Rightarrow> u64 \<Rightarrow> ('k, 'v) cache \<Rightarrow> (nat \<times> 'v res) list \<times> ('k, 'v) cache" where
  "leader_guard_drop mk key token c =
     (case take_in_flight key token c of
        (Some waiters, c') \<Rightarrow> (notify_cancelled mk key waiters, c')
      | (None, c') \<Rightarrow> ([], c'))"

section \<open>Whole operations, uninterrupted\<close>

definition invalidate :: "('k \<Rightarrow> sreg_error) \<Rightarrow> 'k \<Rightarrow> ('k, 'v) cache \<Rightarrow> (nat \<times> 'v res) list \<times> ('k, 'v) cache" where
  "invalidate mk key c =
     (let (waiters, c1) = remove_in_flight key (bump_generation c);
          c2 = c1\<lparr>ca_store := store_remove key (ca_store c1)\<rparr>
      in (notify_cancelled mk key waiters, c2))"

definition invalidate_matching ::
    "('k \<Rightarrow> sreg_error) \<Rightarrow> ('v \<Rightarrow> bool) \<Rightarrow> ('k, 'v) cache \<Rightarrow> (nat \<times> 'v res) list \<times> ('k, 'v) cache" where
  "invalidate_matching mk P c =
     (let c1 = bump_generation c;
          doomed = doomed_keys P (ca_store c1)
      in if doomed = [] then ([], c1)
         else let c2 = c1\<lparr>ca_store := remove_doomed doomed (ca_store c1)\<rparr>;
                  (cancelled, c3) = remove_all_in_flight doomed c2
              in (notify_all_cancelled mk cancelled, c3))"

definition clear :: "('k \<Rightarrow> sreg_error) \<Rightarrow> ('k, 'v) cache \<Rightarrow> (nat \<times> 'v res) list \<times> ('k, 'v) cache" where
  "clear mk c =
     (let (cancelled, c1) = drain_in_flight (bump_generation c);
          c2 = c1\<lparr>ca_store := store_clear (ca_store c1)\<rparr>
      in (notify_all_cancelled mk cancelled, c2))"

text \<open>
  \<open>get_or_fetch\<close> of a caller that is not interrupted, in a cache with no fetch of the key in
  flight; a \<open>Waiter\<close> would block here, which only a concurrent leader can make happen, and
  is the error of a dropped sender.
\<close>

definition get_or_fetch ::
    "('k \<Rightarrow> sreg_error) \<Rightarrow> 'k \<Rightarrow> ('s, 'v) io \<Rightarrow> ('k, 'v) cache \<times> 's \<Rightarrow> 'v res \<times> (('k, 'v) cache \<times> 's)" where
  "get_or_fetch mk key fetch cs =
     (case cs of (c, s) \<Rightarrow>
        (case cache_get c key of
           Some v \<Rightarrow> (Inr v, (c, s))
         | None \<Rightarrow>
             (case join_or_lead key 0 c of
                (Present v, c1) \<Rightarrow> (Inr v, (c1, s))
              | (Waiter, c1) \<Rightarrow> (Inl (mk key), (c1, s))
              | (Leader token, c1) \<Rightarrow>
                  (case fetch s of (result, s') \<Rightarrow>
                     (case take_in_flight key token c1 of (waiters, c2) \<Rightarrow>
                        (case store_fetched key result waiters c2 of (outcome, c3) \<Rightarrow>
                           (outcome, (c3, s'))))))))"

section \<open>The store invariant\<close>

text \<open>
  The map has distinct keys; with a bound, the queue lists exactly the stored keys, each
  once, and no more than the bound; without one, the queue stays empty.
\<close>

definition store_ok :: "nat option \<Rightarrow> ('k, 'v) store \<Rightarrow> bool" where
  "store_ok max_entries st \<longleftrightarrow>
     hm_wf (st_entries st) \<and>
     (case max_entries of
        None \<Rightarrow> st_order st = []
      | Some mx \<Rightarrow> distinct (st_order st) \<and> set (st_order st) = dom (hm_get (st_entries st)) \<and>
          hm_len (st_entries st) \<le> mx)"

lemma store_ok_wf: "store_ok m st \<Longrightarrow> hm_wf (st_entries st)"
  by (simp add: store_ok_def)

lemma queue_length:
  "hm_wf entries \<Longrightarrow> distinct order \<Longrightarrow> set order = dom (hm_get entries) \<Longrightarrow>
   length order = hm_len entries"
  by (metis distinct_card hm.len_keys)

lemma evict_loop_drop:
  assumes "hm_wf entries" and "distinct order" and "set order = dom (hm_get entries)"
  shows "hm_wf (st_entries (evict_loop mx entries order)) \<and>
    st_order (evict_loop mx entries order) = drop (length order - mx) order \<and>
    hm_get (st_entries (evict_loop mx entries order)) =
      hm_get entries |` set (drop (length order - mx) order)"
  using assms
proof (induction order arbitrary: entries)
  case Nil
  then show ?case using queue_length [of entries "[]"] by simp
next
  case (Cons evicted order)
  have len: "Suc (length order) = hm_len entries"
    using queue_length [OF Cons.prems] by simp
  show ?case
  proof (cases "mx < hm_len entries")
    case True
    then have d: "length (evicted # order) - mx = Suc (length order - mx)"
      using len by simp
    have out: "evicted \<notin> set (drop (length order - mx) order)"
      using Cons.prems by (auto dest: in_set_dropD)
    have wf': "hm_wf (hm_del evicted entries)" and dom': "set order = dom (hm_get (hm_del evicted entries))"
      using Cons.prems by (simp, unfold hm.dom_del, auto)
    have IH: "hm_wf (st_entries (evict_loop mx (hm_del evicted entries) order))"
      "st_order (evict_loop mx (hm_del evicted entries) order) = drop (length order - mx) order"
      "hm_get (st_entries (evict_loop mx (hm_del evicted entries) order)) =
        hm_get (hm_del evicted entries) |` set (drop (length order - mx) order)"
      using Cons.IH [OF wf' _ dom'] Cons.prems(2) unfolding distinct.simps by blast+
    have "hm_get (hm_del evicted entries) |` set (drop (length order - mx) order) =
        hm_get entries |` set (drop (length order - mx) order)"
      using out by (auto simp: restrict_map_def fun_eq_iff)
    with IH True show ?thesis by (simp only: evict_loop.simps if_True d drop_Suc_Cons)
  next
    case False
    then have "length (evicted # order) - mx = 0" using len by simp
    moreover have "hm_get entries |` set (evicted # order) = hm_get entries"
      using Cons.prems(3) by (auto simp: restrict_map_def fun_eq_iff domIff)
    ultimately show ?thesis using False Cons.prems(1) by simp
  qed
qed

lemmas evict_loop_spec = evict_loop_drop [THEN conjunct1] evict_loop_drop [THEN conjunct2, THEN conjunct1]
  evict_loop_drop [THEN conjunct2, THEN conjunct2]

lemma store_ok_new [simp]: "store_ok m \<lparr>st_entries = [], st_order = []\<rparr>"
  by (simp add: store_ok_def split: option.splits)

lemma store_ok_insert [inv_intros]:
  assumes "store_ok m st"
  shows "store_ok m (insert_locked m key value st)"
proof (cases m)
  case None
  with assms show ?thesis by (auto simp: store_ok_def insert_locked_def Let_def)
next
  case (Some mx)
  have wf: "hm_wf (st_entries st)" and d: "distinct (st_order st)"
    and q: "set (st_order st) = dom (hm_get (st_entries st))" and le: "hm_len (st_entries st) \<le> mx"
    using assms Some by (auto simp: store_ok_def)
  show ?thesis
  proof (cases "hm_get (st_entries st) key")
    case None
    let ?e = "hm_put key value (st_entries st)" and ?o = "st_order st @ [key]"
    have pre: "hm_wf ?e" "distinct ?o" "set ?o = dom (hm_get ?e)"
      using wf d q None by (auto simp: hm.dom_put)
    note ev = evict_loop_spec [OF pre, of mx]
    have dom: "set (st_order (evict_loop mx ?e ?o)) = dom (hm_get (st_entries (evict_loop mx ?e ?o)))"
      using ev(2,3) pre(3) by (auto dest: in_set_dropD)
    have dist: "distinct (st_order (evict_loop mx ?e ?o))"
      using ev(2) pre(2) by (metis distinct_drop)
    have "length (st_order (evict_loop mx ?e ?o)) = hm_len (st_entries (evict_loop mx ?e ?o))"
      by (rule queue_length [OF ev(1) dist dom])
    then have "hm_len (st_entries (evict_loop mx ?e ?o)) \<le> mx"
      using ev(2) by simp
    then show ?thesis
      using ev(1) dom dist Some None by (simp add: store_ok_def insert_locked_def Let_def)
  next
    case (Some v)
    then show ?thesis
      using wf d q le \<open>m = Some mx\<close>
      by (auto simp: store_ok_def insert_locked_def Let_def hm.len_put hm.dom_put)
  qed
qed

lemma store_ok_remove [inv_intros]:
  assumes "store_ok m st" shows "store_ok m (store_remove key st)"
proof -
  have "hm_len (hm_del key (st_entries st)) \<le> hm_len (st_entries st)"
    using assms by (simp add: store_ok_def hm.len_del)
  with assms show ?thesis
    by (auto simp: store_ok_def store_remove_def hm.dom_del distinct_filter split: option.splits)
qed

lemma fold_del_get: "hm_get (fold hm_del ks m) x = (if x \<in> set ks then None else hm_get m x)"
  by (induction ks arbitrary: m) auto

lemma fold_del_wf: "hm_wf m \<Longrightarrow> hm_wf (fold hm_del ks m)"
  by (induction ks arbitrary: m) auto

lemma fold_del_len: "hm_len (fold hm_del ks m) \<le> hm_len m"
  by (induction ks arbitrary: m) (auto intro: order_trans length_delete_le)

lemma store_ok_remove_doomed [inv_intros]:
  "store_ok m st \<Longrightarrow> store_ok m (remove_doomed ks st)"
  using fold_del_len [of ks "st_entries st"]
  by (auto simp: store_ok_def remove_doomed_def Let_def fold_del_wf fold_del_get domIff
      split: option.splits if_splits)

lemma store_ok_clear [inv_intros]: "store_ok m (store_clear st)"
  by (simp add: store_clear_def)

section \<open>The store is a bounded FIFO queue\<close>

text \<open>
  The abstract store of a bounded cache: its entries in insertion order, oldest first. An
  insertion replaces in place, or appends and drops as many of the oldest as exceed the bound.
\<close>

definition fifo_of :: "('k, 'v) store \<Rightarrow> ('k \<times> 'v) list" where
  "fifo_of st = map (\<lambda>k. (k, the (hm_get (st_entries st) k))) (st_order st)"

definition fifo_insert :: "nat \<Rightarrow> 'k \<Rightarrow> 'v \<Rightarrow> ('k \<times> 'v) list \<Rightarrow> ('k \<times> 'v) list" where
  "fifo_insert mx key value q =
     (if key \<in> fst ` set q then map (\<lambda>(k, v). (k, if k = key then value else v)) q
      else drop (Suc (length q) - mx) (q @ [(key, value)]))"

lemma map_of_fifo:
  assumes "store_ok (Some mx) st"
  shows "map_of (fifo_of st) = hm_get (st_entries st)"
proof
  fix k
  show "map_of (fifo_of st) k = hm_get (st_entries st) k"
    using assms by (cases "k \<in> set (st_order st)")
      (auto simp: fifo_of_def map_of_map_keys map_of_eq_None_iff store_ok_def domIff intro: map_of_is_SomeI)
qed

lemma insert_refines_fifo:
  assumes "store_ok (Some mx) st"
  shows "fifo_of (insert_locked (Some mx) key value st) = fifo_insert mx key value (fifo_of st)"
proof -
  have wf: "hm_wf (st_entries st)" and d: "distinct (st_order st)"
    and q: "set (st_order st) = dom (hm_get (st_entries st))"
    using assms by (auto simp: store_ok_def)
  have keys: "key \<in> fst ` set (fifo_of st) \<longleftrightarrow> hm_get (st_entries st) key \<noteq> None"
    using q by (auto simp: fifo_of_def image_image)
  show ?thesis
  proof (cases "hm_get (st_entries st) key")
    case None
    let ?e = "hm_put key value (st_entries st)" and ?o = "st_order st @ [key]"
    have pre: "hm_wf ?e" "distinct ?o" "set ?o = dom (hm_get ?e)"
      using wf d q None by (auto simp: hm.dom_put)
    note ev = evict_loop_spec [OF pre, of mx]
    have kept: "hm_get (st_entries (evict_loop mx ?e ?o)) k = hm_get ?e k"
      if "k \<in> set (drop (length ?o - mx) ?o)" for k
      using ev(3) that by simp
    have "fifo_of (evict_loop mx ?e ?o) = map (\<lambda>k. (k, the (hm_get ?e k))) (drop (length ?o - mx) ?o)"
      unfolding fifo_of_def ev(2) by (rule map_cong [OF refl]) (simp add: kept del: hm_get_simps)
    also have "\<dots> = drop (length ?o - mx) (map (\<lambda>k. (k, the (hm_get ?e k))) ?o)"
      by (rule drop_map [symmetric])
    also have "map (\<lambda>k. (k, the (hm_get ?e k))) ?o = fifo_of st @ [(key, value)]"
      using q None by (auto simp: fifo_of_def)
    finally show ?thesis
      using None keys by (simp add: insert_locked_def fifo_insert_def Let_def)
        (simp add: fifo_of_def)
  next
    case (Some v)
    then show ?thesis
      using keys by (simp add: insert_locked_def fifo_insert_def Let_def)
        (auto simp: fifo_of_def)
  qed
qed

section \<open>The whole cache\<close>

definition cache_ok :: "('k, 'v) cache \<Rightarrow> bool" where
  "cache_ok c \<longleftrightarrow> store_ok (ca_max_entries c) (ca_store c) \<and> hm_wf (ca_in_flight c)"

definition cache_idle :: "('k, 'v) cache \<Rightarrow> bool" where
  "cache_idle c \<longleftrightarrow> cache_ok c \<and> ca_in_flight c = [] \<and> ca_max_entries c \<noteq> Some 0"

lemma cache_ok_new: "cache_ok (cache_new m)"
  by (simp add: cache_ok_def cache_new_def)

lemma insert_locked_get:
  assumes "store_ok m st" and "hm_get (st_entries (insert_locked m key value st)) k = Some w"
  shows "k = key \<and> w = value \<or> hm_get (st_entries st) k = Some w"
proof (cases "m = None \<or> hm_get (st_entries st) key \<noteq> None")
  case True
  with assms(2) show ?thesis by (auto simp: insert_locked_def Let_def split: if_splits)
next
  case False
  then obtain mx where mx: "m = Some mx" and new: "hm_get (st_entries st) key = None" by auto
  let ?e = "hm_put key value (st_entries st)" and ?o = "st_order st @ [key]"
  have pre: "hm_wf ?e" "distinct ?o" "set ?o = dom (hm_get ?e)"
    using assms(1) mx new by (auto simp: store_ok_def hm.dom_put)
  from assms(2) have "hm_get ?e k = Some w"
    using evict_loop_spec(3) [OF pre, of mx]
    by (simp add: insert_locked_def Let_def mx new restrict_map_def split: if_splits)
  then show ?thesis by (auto split: if_splits)
qed

lemma insert_locked_stored:
  assumes "store_ok m st" and "m \<noteq> Some 0"
  shows "hm_get (st_entries (insert_locked m key value st)) key = Some value"
proof (cases "m = None \<or> hm_get (st_entries st) key \<noteq> None")
  case True
  then show ?thesis by (auto simp: insert_locked_def Let_def)
next
  case False
  then obtain mx where mx: "m = Some mx" "0 < mx" and new: "hm_get (st_entries st) key = None"
    using assms(2) by auto
  let ?e = "hm_put key value (st_entries st)" and ?o = "st_order st @ [key]"
  have pre: "hm_wf ?e" "distinct ?o" "set ?o = dom (hm_get ?e)"
    using assms(1) mx new by (auto simp: store_ok_def hm.dom_put)
  have "key \<in> set (drop (length ?o - mx) ?o)"
    using mx(2) by (auto simp: Suc_diff_le)
  then show ?thesis
    using evict_loop_spec(3) [OF pre, of mx] by (simp add: insert_locked_def Let_def mx new)
qed

text \<open>A call that is not interrupted: hit, failed fetch, successful fetch.\<close>

lemma get_or_fetch_hit:
  "cache_get c key = Some v \<Longrightarrow> get_or_fetch mk key fetch (c, s) = (Inr v, (c, s))"
  by (simp add: get_or_fetch_def)

lemma get_or_fetch_err:
  assumes "cache_idle c" and "cache_get c key = None" and "fetch s = (Inl e, s')"
  shows "get_or_fetch mk key fetch (c, s) = (Inl e, (c\<lparr>ca_next_token := ca_next_token c + 1\<rparr>, s'))"
  using assms
  by (simp add: get_or_fetch_def cache_get_def join_or_lead_def take_in_flight_def store_fetched_def
      cache_idle_def Let_def)

lemma get_or_fetch_ok:
  assumes "cache_idle c" and "cache_get c key = None" and "fetch s = (Inr v, s')"
  shows "get_or_fetch mk key fetch (c, s) =
    (Inr v, (c\<lparr>ca_next_token := ca_next_token c + 1,
        ca_store := insert_locked (ca_max_entries c) key v (ca_store c)\<rparr>, s'))"
  using assms
  by (simp add: get_or_fetch_def cache_get_def join_or_lead_def take_in_flight_def store_fetched_def
      cache_idle_def Let_def)

section \<open>Invalidation without interference\<close>

lemma store_remove_get: "hm_get (st_entries (store_remove key st)) k = (if k = key then None else hm_get (st_entries st) k)"
  by (simp add: store_remove_def)

lemma invalidate_get: "cache_get (snd (invalidate mk key c)) k = (if k = key then None else cache_get c k)"
  by (simp add: invalidate_def remove_in_flight_def bump_generation_def cache_get_def Let_def store_remove_get)

lemma invalidate_in_flight:
  "hm_get (ca_in_flight (snd (invalidate mk key c))) k = (if k = key then None else hm_get (ca_in_flight c) k)"
  by (simp add: invalidate_def remove_in_flight_def bump_generation_def Let_def)

lemma invalidate_ok [inv_intros]: "cache_ok c \<Longrightarrow> cache_ok (snd (invalidate mk key c))"
  by (simp add: cache_ok_def invalidate_def remove_in_flight_def bump_generation_def Let_def store_ok_remove)

lemma clear_ok [inv_intros]: "cache_ok c \<Longrightarrow> cache_ok (snd (clear mk c))"
  by (simp add: cache_ok_def clear_def drain_in_flight_def bump_generation_def Let_def store_ok_clear)

lemma clear_get: "cache_get (snd (clear mk c)) k = None"
  by (simp add: clear_def drain_in_flight_def bump_generation_def Let_def store_clear_def cache_get_def)

lemma remove_all_in_flight_frame:
  "ca_store (snd (remove_all_in_flight keys c)) = ca_store c"
  "ca_max_entries (snd (remove_all_in_flight keys c)) = ca_max_entries c"
  "ca_next_token (snd (remove_all_in_flight keys c)) = ca_next_token c"
  "ca_generation (snd (remove_all_in_flight keys c)) = ca_generation c"
  by (induction keys arbitrary: c) (auto simp: Let_def case_prod_beta split: option.splits)

lemma remove_all_in_flight_get:
  "hm_get (ca_in_flight (snd (remove_all_in_flight keys c))) k =
     (if k \<in> set keys then None else hm_get (ca_in_flight c) k)"
  by (induction keys arbitrary: c) (auto simp: Let_def case_prod_beta split: option.splits)

lemma remove_all_in_flight_wf:
  "hm_wf (ca_in_flight c) \<Longrightarrow> hm_wf (ca_in_flight (snd (remove_all_in_flight keys c)))"
  by (induction keys arbitrary: c) (auto simp: Let_def case_prod_beta split: option.splits)

lemma remove_all_in_flight_cancelled:
  assumes "(k, ws) \<in> set (fst (remove_all_in_flight keys c))"
  shows "\<exists>e. hm_get (ca_in_flight c) k = Some e \<and> ws = if_waiters e"
  using assms
  by (induction keys arbitrary: c) (fastforce simp: Let_def case_prod_beta split: option.splits if_splits)+

lemma remove_all_in_flight_complete:
  assumes "k \<in> set keys" and "hm_get (ca_in_flight c) k = Some e"
  shows "(k, if_waiters e) \<in> set (fst (remove_all_in_flight keys c))"
  using assms
proof (induction keys arbitrary: c)
  case (Cons key keys)
  show ?case
  proof (cases "key = k")
    case True
    with Cons.prems show ?thesis by (simp add: Let_def case_prod_beta)
  next
    case False
    have "(k, if_waiters e) \<in> set (fst (remove_all_in_flight keys (c\<lparr>ca_in_flight := hm_del key (ca_in_flight c)\<rparr>)))"
      using Cons.prems False by (intro Cons.IH) auto
    with Cons.prems False Cons.IH show ?thesis
      by (auto simp: Let_def case_prod_beta split: option.splits)
  qed
qed simp

lemma doomed_keys_iff:
  "hm_wf (st_entries st) \<Longrightarrow> k \<in> set (doomed_keys P st) \<longleftrightarrow> (\<exists>v. hm_get (st_entries st) k = Some v \<and> P v)"
  by (force simp: doomed_keys_def dest: map_of_SomeD)

lemma remove_doomed_get:
  "hm_get (st_entries (remove_doomed ks st)) k = (if k \<in> set ks then None else hm_get (st_entries st) k)"
  by (simp add: remove_doomed_def Let_def fold_del_get)

lemma invalidate_matching_get:
  assumes "cache_ok c"
  shows "cache_get (snd (invalidate_matching mk P c)) k =
    (case cache_get c k of Some v \<Rightarrow> if P v then None else Some v | None \<Rightarrow> None)"
proof -
  let ?ks = "doomed_keys P (ca_store c)"
  have "cache_get (snd (invalidate_matching mk P c)) k =
      (if k \<in> set ?ks then None else cache_get c k)"
    by (simp add: invalidate_matching_def Let_def bump_generation_def cache_get_def case_prod_beta
        remove_all_in_flight_frame remove_doomed_get)
  moreover have "k \<in> set ?ks \<longleftrightarrow> (\<exists>v. cache_get c k = Some v \<and> P v)"
    unfolding cache_get_def using assms by (intro doomed_keys_iff) (auto simp: cache_ok_def dest: store_ok_wf)
  ultimately show ?thesis by (auto split: option.splits)
qed

section \<open>The interface the wrappers use\<close>

text \<open>
  What a caching wrapper relies on: a hit does not fetch, an error is passed on and changes
  no entry, a value fetched is stored under its key and adds no other entry.
\<close>

locale fetch_cache =
  fixes look :: "'c \<Rightarrow> 'k \<Rightarrow> 'v option"
    and fetch_through :: "'k \<Rightarrow> ('s, 'v) io \<Rightarrow> 'c \<times> 's \<Rightarrow> 'v res \<times> ('c \<times> 's)"
    and idle :: "'c \<Rightarrow> bool"
  assumes hit: "look c k = Some v \<Longrightarrow> fetch_through k f (c, s) = (Inr v, (c, s))"
    and miss_err: "idle c \<Longrightarrow> look c k = None \<Longrightarrow> f s = (Inl e, s') \<Longrightarrow>
      \<exists>c'. fetch_through k f (c, s) = (Inl e, (c', s')) \<and> idle c' \<and> look c' = look c"
    and miss_ok: "idle c \<Longrightarrow> look c k = None \<Longrightarrow> f s = (Inr v, s') \<Longrightarrow>
      \<exists>c'. fetch_through k f (c, s) = (Inr v, (c', s')) \<and> idle c' \<and> look c' k = Some v \<and>
        (\<forall>k' w. look c' k' = Some w \<longrightarrow> k' = k \<and> w = v \<or> look c k' = Some w)"
begin

text \<open>Every call, by cases.\<close>

lemma fetch_cases:
  assumes "idle c" and "fetch_through k f (c, s) = (r, (c', s'))"
  obtains (Hit) v where "look c k = Some v" "r = Inr v" "c' = c" "s' = s"
  | (Fetched) v where "look c k = None" "f s = (Inr v, s')" "r = Inr v" "idle c'" "look c' k = Some v"
      "\<forall>k' w. look c' k' = Some w \<longrightarrow> k' = k \<and> w = v \<or> look c k' = Some w"
  | (Failed) e where "look c k = None" "f s = (Inl e, s')" "r = Inl e" "idle c'" "look c' = look c"
proof (cases "look c k")
  case (Some v)
  then show thesis using Hit [OF Some] hit [OF Some, of f s] assms(2) by simp
next
  case None
  show thesis
  proof (cases "f s")
    case (Pair q s1)
    show thesis
    proof (cases q)
      case (Inl e)
      then show thesis using Failed [OF None] miss_err [OF assms(1) None, of f s e s1] assms(2) Pair by auto
    next
      case (Inr v)
      then show thesis using Fetched [OF None] miss_ok [OF assms(1) None, of f s v s1] assms(2) Pair by auto
    qed
  qed
qed

text \<open>An invariant on keys and values that every fetch establishes holds of the whole cache.\<close>

lemma coherent:
  assumes "idle c" and "\<And>v s'. f s = (Inr v, s') \<Longrightarrow> P k v"
    and "\<forall>k v. look c k = Some v \<longrightarrow> P k v"
    and "fetch_through k f (c, s) = (r, (c', s'))"
  shows "idle c' \<and> (\<forall>k v. look c' k = Some v \<longrightarrow> P k v) \<and> (\<forall>v. r = Inr v \<longrightarrow> P k v)"
  using assms(1,4)
proof (cases rule: fetch_cases)
  case (Hit v)
  then show ?thesis using assms(1,3) by auto
next
  case (Fetched v)
  then show ?thesis using assms(2,3) by fastforce
next
  case (Failed e)
  then show ?thesis using assms(3) by auto
qed

text \<open>A value returned is in the cache afterwards, under the invariant.\<close>

lemma entry:
  assumes "idle c" and "\<forall>k v. look c k = Some v \<longrightarrow> P k v" and "\<forall>s v s'. f s = (Inr v, s') \<longrightarrow> P k v"
    and "fetch_through k f (c, s) = (Inr v, (c', s'))"
  shows "P k v \<and> look c' k = Some v \<and> idle c' \<and> (\<forall>k v. look c' k = Some v \<longrightarrow> P k v)"
proof -
  have "look c' k = Some v" using assms(1,4) by (cases rule: fetch_cases) auto
  moreover have "idle c' \<and> (\<forall>k v. look c' k = Some v \<longrightarrow> P k v)"
    using assms(1,4)
  proof (cases rule: fetch_cases)
    case Hit
    then show ?thesis using assms(1,2) by simp
  next
    case Fetched
    then show ?thesis using assms(2,3) by metis
  next
    case Failed
    then show ?thesis by simp
  qed
  ultimately show ?thesis by blast
qed

text \<open>A second call for the same key does not reach the backend.\<close>

lemma second_call:
  assumes "idle c" and "fetch_through k f (c, s) = (Inr v, (c', s'))"
  shows "fetch_through k g (c', t) = (Inr v, (c', t))"
  using assms
proof (cases rule: fetch_cases)
  case (Hit w)
  then show ?thesis by (simp add: hit)
next
  case (Fetched w)
  then show ?thesis by (simp add: hit)
qed simp

end

interpretation fc: fetch_cache cache_get "get_or_fetch mk" cache_idle for mk :: "'k \<Rightarrow> sreg_error"
proof unfold_locales
  fix c :: "('k, 'v) cache" and k v and f :: "('s, 'v) io" and s s' e
  show "cache_get c k = Some v \<Longrightarrow> get_or_fetch mk k f (c, s) = (Inr v, (c, s))"
    by (rule get_or_fetch_hit)
  assume idle: "cache_idle c" and miss: "cache_get c k = None"
  show "\<exists>c'. get_or_fetch mk k f (c, s) = (Inl e, (c', s')) \<and> cache_idle c' \<and> cache_get c' = cache_get c"
    if "f s = (Inl e, s')"
    using get_or_fetch_err [OF idle miss, of f s e s' mk] that idle
    by (auto simp: cache_get_def cache_idle_def cache_ok_def fun_eq_iff)
  show "\<exists>c'. get_or_fetch mk k f (c, s) = (Inr v, (c', s')) \<and> cache_idle c' \<and> cache_get c' k = Some v \<and>
      (\<forall>k' w. cache_get c' k' = Some w \<longrightarrow> k' = k \<and> w = v \<or> cache_get c k' = Some w)"
    if "f s = (Inr v, s')"
    using get_or_fetch_ok [OF idle miss, of f s v s' mk] that idle insert_locked_get [of "ca_max_entries c" "ca_store c" k v]
    by (auto simp: cache_get_def cache_idle_def cache_ok_def insert_locked_stored intro: store_ok_insert)
qed

end
