(* ===== verification/Cache_Concurrency.thy ===== *)
theory Cache_Concurrency
  imports Cache_Inner
begin

text \<open>
  The cache of \<open>Cache_Inner\<close> under concurrency. Tasks are numbers; a task runs one call at a
  time, and a step is one critical section of a call (a lock held from acquisition to
  release, one atomic counter operation, one \<open>send\<close>, one \<open>await\<close> that completes, or the
  drop of a future at its only \<open>await\<close>). The functions each step applies are those of
  \<open>Cache_Inner\<close>.

  The slow path of \<open>get_or_fetch\<close> reads the store inside the in-flight lock. Writers of the
  store do not hold that lock, but nothing else can change the in-flight table while it is
  held, so the whole block takes effect at the moment of that read. Likewise
  \<open>insert_if_current\<close> takes effect at the moment it loads the generation.

  Two fields are history: \<open>sy_owner\<close>, the key a channel was created for, and \<open>sy_fetched\<close>,
  the pairs of key and value the backend has returned so far.
\<close>

section \<open>Tasks and states\<close>

datatype ('k, 'v) pc =
    Idle
  | Missed 'k
  | Waiting 'k nat
  | Fetching 'k u64
  | Claimed 'k "'v res" "nat list option"
  | Sampled 'k u64
  | Invalidating 'k
  | Slot_Removed 'k "nat list"
  | Clearing
  | Slots_Drained "('k \<times> nat list) list"
  | Matching "'v \<Rightarrow> bool"
  | Matched "'k list"
  | Notifying "(nat \<times> 'v res) list" "('k \<times> 'v res) option"
  | Done 'k "'v res"

record ('k, 'v) sys =
  sy_cache :: "('k, 'v) cache"
  sy_pc :: "nat \<Rightarrow> ('k, 'v) pc"
  sy_chan :: "nat \<Rightarrow> 'v res option"
  sy_next_chan :: nat
  sy_owner :: "nat \<Rightarrow> 'k"
  sy_fetched :: "('k \<times> 'v) set"

definition sys_init :: "nat option \<Rightarrow> ('k, 'v) sys" where
  "sys_init m =
     \<lparr>sy_cache = cache_new m, sy_pc = (\<lambda>_. Idle), sy_chan = (\<lambda>_. None), sy_next_chan = 0,
      sy_owner = (\<lambda>_. undefined), sy_fetched = {}\<rparr>"

definition set_pc :: "nat \<Rightarrow> ('k, 'v) pc \<Rightarrow> ('k, 'v) sys \<Rightarrow> ('k, 'v) sys" where
  "set_pc t p s = s\<lparr>sy_pc := (sy_pc s)(t := p)\<rparr>"

definition set_cache :: "('k, 'v) cache \<Rightarrow> ('k, 'v) sys \<Rightarrow> ('k, 'v) sys" where
  "set_cache c s = s\<lparr>sy_cache := c\<rparr>"

definition set_store :: "('k, 'v) store \<Rightarrow> ('k, 'v) sys \<Rightarrow> ('k, 'v) sys" where
  "set_store st s = s\<lparr>sy_cache := (sy_cache s)\<lparr>ca_store := st\<rparr>\<rparr>"

definition note_fetched :: "'k \<Rightarrow> 'v res \<Rightarrow> ('k, 'v) sys \<Rightarrow> ('k, 'v) sys" where
  "note_fetched k r s =
     s\<lparr>sy_fetched := (case r of Inr v \<Rightarrow> insert (k, v) (sy_fetched s) | Inl _ \<Rightarrow> sy_fetched s)\<rparr>"

definition new_channel :: "'k \<Rightarrow> ('k, 'v) sys \<Rightarrow> ('k, 'v) sys" where
  "new_channel k s =
     s\<lparr>sy_next_chan := Suc (sy_next_chan s), sy_owner := (sy_owner s)(sy_next_chan s := k),
       sy_chan := (sy_chan s)(sy_next_chan s := None)\<rparr>"

definition deliver :: "nat \<Rightarrow> 'v res \<Rightarrow> ('k, 'v) sys \<Rightarrow> ('k, 'v) sys" where
  "deliver ch m s = s\<lparr>sy_chan := (sy_chan s)(ch := Some m)\<rparr>"

lemmas sys_updates = set_pc_def set_cache_def set_store_def note_fetched_def new_channel_def deliver_def

section \<open>Steps\<close>

inductive step :: "('k \<Rightarrow> sreg_error) \<Rightarrow> nat \<Rightarrow> ('k, 'v) sys \<Rightarrow> ('k, 'v) sys \<Rightarrow> bool"
  for mk :: "'k \<Rightarrow> sreg_error" and t :: nat where
\<comment> \<open>\<open>get_or_fetch\<close>: the fast path\<close>
  fast_hit: "sy_pc s t = Idle \<Longrightarrow> cache_get (sy_cache s) k = Some v \<Longrightarrow>
    step mk t s (set_pc t (Done k (Inr v)) s)"
| fast_miss: "sy_pc s t = Idle \<Longrightarrow> cache_get (sy_cache s) k = None \<Longrightarrow>
    step mk t s (set_pc t (Missed k) s)"
\<comment> \<open>the slow path, under the in-flight lock\<close>
| present: "sy_pc s t = Missed k \<Longrightarrow> join_or_lead k (sy_next_chan s) (sy_cache s) = (Present v, c) \<Longrightarrow>
    step mk t s (set_pc t (Done k (Inr v)) (set_cache c s))"
| wait: "sy_pc s t = Missed k \<Longrightarrow> join_or_lead k (sy_next_chan s) (sy_cache s) = (Waiter, c) \<Longrightarrow>
    step mk t s (set_pc t (Waiting k (sy_next_chan s)) (new_channel k (set_cache c s)))"
| lead: "sy_pc s t = Missed k \<Longrightarrow> join_or_lead k (sy_next_chan s) (sy_cache s) = (Leader token, c) \<Longrightarrow>
    step mk t s (set_pc t (Fetching k token) (set_cache c s))"
\<comment> \<open>the leader: the backend answered, or the future was dropped while it waited\<close>
| claim: "sy_pc s t = Fetching k token \<Longrightarrow> take_in_flight k token (sy_cache s) = (ws, c) \<Longrightarrow>
    step mk t s (set_pc t (Claimed k r ws) (note_fetched k r (set_cache c s)))"
| drop_leader: "sy_pc s t = Fetching k token \<Longrightarrow> leader_guard_drop mk k token (sy_cache s) = (ms, c) \<Longrightarrow>
    step mk t s (set_pc t (Notifying ms None) (set_cache c s))"
| store: "sy_pc s t = Claimed k r ws \<Longrightarrow> store_fetched k r ws (sy_cache s) = (out, c) \<Longrightarrow>
    step mk t s (set_pc t (Notifying (outcome_messages ws out) (Some (k, out))) (set_cache c s))"
\<comment> \<open>sending to the waiters, one at a time\<close>
| send: "sy_pc s t = Notifying ((ch, m) # ms) ret \<Longrightarrow>
    step mk t s (set_pc t (Notifying ms ret) (deliver ch m s))"
| sent_result: "sy_pc s t = Notifying [] (Some (k, out)) \<Longrightarrow> step mk t s (set_pc t (Done k out) s)"
| sent: "sy_pc s t = Notifying [] None \<Longrightarrow> step mk t s (set_pc t Idle s)"
\<comment> \<open>a waiter: woken, or its future dropped\<close>
| receive: "sy_pc s t = Waiting k ch \<Longrightarrow> sy_chan s ch = Some m \<Longrightarrow> step mk t s (set_pc t (Done k m) s)"
| drop_waiter: "sy_pc s t = Waiting k ch \<Longrightarrow> step mk t s (set_pc t Idle s)"
| return: "sy_pc s t = Done k r \<Longrightarrow> step mk t s (set_pc t Idle s)"
\<comment> \<open>\<open>invalidate\<close>\<close>
| inv_bump: "sy_pc s t = Idle \<Longrightarrow>
    step mk t s (set_pc t (Invalidating k) (set_cache (bump_generation (sy_cache s)) s))"
| inv_slot: "sy_pc s t = Invalidating k \<Longrightarrow> remove_in_flight k (sy_cache s) = (ws, c) \<Longrightarrow>
    step mk t s (set_pc t (Slot_Removed k ws) (set_cache c s))"
| inv_store: "sy_pc s t = Slot_Removed k ws \<Longrightarrow>
    step mk t s (set_pc t (Notifying (notify_cancelled mk k ws) None)
      (set_store (store_remove k (ca_store (sy_cache s))) s))"
\<comment> \<open>\<open>clear\<close>\<close>
| clr_bump: "sy_pc s t = Idle \<Longrightarrow>
    step mk t s (set_pc t Clearing (set_cache (bump_generation (sy_cache s)) s))"
| clr_slots: "sy_pc s t = Clearing \<Longrightarrow> drain_in_flight (sy_cache s) = (kws, c) \<Longrightarrow>
    step mk t s (set_pc t (Slots_Drained kws) (set_cache c s))"
| clr_store: "sy_pc s t = Slots_Drained kws \<Longrightarrow>
    step mk t s (set_pc t (Notifying (notify_all_cancelled mk kws) None)
      (set_store (store_clear (ca_store (sy_cache s))) s))"
\<comment> \<open>\<open>invalidate_matching\<close>\<close>
| mat_bump: "sy_pc s t = Idle \<Longrightarrow>
    step mk t s (set_pc t (Matching P) (set_cache (bump_generation (sy_cache s)) s))"
| mat_none: "sy_pc s t = Matching P \<Longrightarrow> doomed_keys P (ca_store (sy_cache s)) = [] \<Longrightarrow>
    step mk t s (set_pc t Idle s)"
| mat_store: "sy_pc s t = Matching P \<Longrightarrow> doomed_keys P (ca_store (sy_cache s)) = ks \<Longrightarrow> ks \<noteq> [] \<Longrightarrow>
    step mk t s (set_pc t (Matched ks) (set_store (remove_doomed ks (ca_store (sy_cache s))) s))"
| mat_slots: "sy_pc s t = Matched ks \<Longrightarrow> remove_all_in_flight ks (sy_cache s) = (kws, c) \<Longrightarrow>
    step mk t s (set_pc t (Notifying (notify_all_cancelled mk kws) None) (set_cache c s))"
\<comment> \<open>a fetch outside the coalescer, then \<open>insert_if_current\<close>\<close>
| sample: "sy_pc s t = Idle \<Longrightarrow> step mk t s (set_pc t (Sampled k (ca_generation (sy_cache s))) s)"
| sample_failed: "sy_pc s t = Sampled k g \<Longrightarrow> step mk t s (set_pc t (Done k (Inl e)) s)"
| insert_current: "sy_pc s t = Sampled k g \<Longrightarrow>
    step mk t s (set_pc t (Done k (Inr v))
      (note_fetched k (Inr v) (set_cache (insert_if_current k v g (sy_cache s)) s)))"

text \<open>Runs, with their length: tokens are 64-bit, so freshness needs fewer than \<open>2 ^ 64\<close> steps.\<close>

inductive reach :: "('k \<Rightarrow> sreg_error) \<Rightarrow> nat option \<Rightarrow> nat \<Rightarrow> ('k, 'v) sys \<Rightarrow> bool"
  for mk :: "'k \<Rightarrow> sreg_error" and m :: "nat option" where
  reach_init: "reach mk m 0 (sys_init m)"
| reach_step: "reach mk m n s \<Longrightarrow> step mk t s s' \<Longrightarrow> reach mk m (Suc n) s'"

text \<open>The steps of one task on its own.\<close>

inductive task_steps :: "('k \<Rightarrow> sreg_error) \<Rightarrow> nat \<Rightarrow> ('k, 'v) sys \<Rightarrow> ('k, 'v) sys \<Rightarrow> bool"
  for mk :: "'k \<Rightarrow> sreg_error" and t :: nat where
  task_refl: "task_steps mk t s s"
| task_step: "step mk t s s' \<Longrightarrow> task_steps mk t s' s'' \<Longrightarrow> task_steps mk t s s''"

section \<open>The critical sections, by cases\<close>

definition registered :: "('k, 'v) cache \<Rightarrow> 'k \<Rightarrow> u64 \<Rightarrow> bool" where
  "registered c k token \<longleftrightarrow> (\<exists>e. hm_get (ca_in_flight c) k = Some e \<and> if_token e = token)"

lemma join_or_lead_cases:
  assumes "join_or_lead k ch c = (r, c')"
  obtains (Present) v where "r = Present v" "c' = c" "cache_get c k = Some v"
  | (Waiter) e where "r = Waiter" "cache_get c k = None" "hm_get (ca_in_flight c) k = Some e"
      "c' = c\<lparr>ca_in_flight := hm_put k (e\<lparr>if_waiters := if_waiters e @ [ch]\<rparr>) (ca_in_flight c)\<rparr>"
  | (Leader) "r = Leader (ca_next_token c + 1)" "cache_get c k = None" "hm_get (ca_in_flight c) k = None"
      "c' = c\<lparr>ca_next_token := ca_next_token c + 1,
         ca_in_flight := hm_put k \<lparr>if_token = ca_next_token c + 1, if_waiters = []\<rparr> (ca_in_flight c)\<rparr>"
  using assms by (auto simp: join_or_lead_def cache_get_def Let_def split: option.splits)

lemma take_in_flight_cases:
  assumes "take_in_flight k token c = (ws, c')"
  obtains (Mine) e where "hm_get (ca_in_flight c) k = Some e" "if_token e = token"
      "ws = Some (if_waiters e)" "c' = c\<lparr>ca_in_flight := hm_del k (ca_in_flight c)\<rparr>"
  | (Revoked) "\<not> registered c k token" "ws = None" "c' = c"
  using assms by (auto simp: take_in_flight_def registered_def split: option.splits if_splits)

lemma store_fetched_cases:
  assumes "store_fetched k r ws c = (out, c')"
  obtains (Unchanged) "c' = c" "out = r \<or> (\<exists>v. out = Inr v \<and> cache_get c k = Some v)"
  | (Stored) v where "r = Inr v" "out = Inr v" "ws \<noteq> None" "cache_get c k = None"
      "c' = c\<lparr>ca_store := insert_locked (ca_max_entries c) k v (ca_store c)\<rparr>"
  using assms by (auto simp: store_fetched_def cache_get_def split: option.splits sum.splits)

lemma leader_guard_cases:
  assumes "leader_guard_drop mk k token c = (ms, c')"
  obtains (Mine) e where "hm_get (ca_in_flight c) k = Some e" "if_token e = token"
      "ms = notify_cancelled mk k (if_waiters e)" "c' = c\<lparr>ca_in_flight := hm_del k (ca_in_flight c)\<rparr>"
  | (Revoked) "\<not> registered c k token" "ms = []" "c' = c"
proof -
  obtain ws c1 where tk: "take_in_flight k token c = (ws, c1)" by fastforce
  from tk show thesis
  proof (cases rule: take_in_flight_cases)
    case (Mine e)
    then have "ms = notify_cancelled mk k (if_waiters e)" "c' = c1"
      using assms unfolding leader_guard_drop_def tk by auto
    with Mine that(1) show thesis by metis
  next
    case Revoked
    then have "ms = []" "c' = c1"
      using assms unfolding leader_guard_drop_def tk by auto
    with Revoked that(2) show thesis by metis
  qed
qed

text \<open>The fields a step leaves alone, and the store it may leave.\<close>

lemma take_in_flight_ok: "cache_ok c \<Longrightarrow> take_in_flight k token c = (ws, c') \<Longrightarrow> cache_ok c'"
  by (erule take_in_flight_cases) (simp_all add: cache_ok_def)

lemma leader_guard_ok: "cache_ok c \<Longrightarrow> leader_guard_drop mk k token c = (ms, c') \<Longrightarrow> cache_ok c'"
  by (erule leader_guard_cases) (simp_all add: cache_ok_def)

lemma join_or_lead_ok: "cache_ok c \<Longrightarrow> join_or_lead k ch c = (r, c') \<Longrightarrow> cache_ok c'"
  by (erule join_or_lead_cases) (simp_all add: cache_ok_def)

lemma store_fetched_ok: "cache_ok c \<Longrightarrow> store_fetched k r ws c = (out, c') \<Longrightarrow> cache_ok c'"
  by (erule store_fetched_cases) (simp_all add: cache_ok_def store_ok_insert)

lemma remove_all_ok: "cache_ok c \<Longrightarrow> remove_all_in_flight ks c = (kws, c') \<Longrightarrow> cache_ok c'"
  using remove_all_in_flight_frame [of ks c] remove_all_in_flight_wf [of c ks]
  by (simp add: cache_ok_def)

lemmas section_ok = take_in_flight_ok leader_guard_ok join_or_lead_ok store_fetched_ok remove_all_ok

lemma bump_ok: "cache_ok c \<Longrightarrow> cache_ok (bump_generation c)"
  by (simp add: cache_ok_def bump_generation_def)

lemma drain_ok: "cache_ok c \<Longrightarrow> drain_in_flight c = (kws, c') \<Longrightarrow> cache_ok c'"
  by (auto simp: cache_ok_def drain_in_flight_def)

lemma remove_slot_ok: "cache_ok c \<Longrightarrow> remove_in_flight k c = (ws, c') \<Longrightarrow> cache_ok c'"
  by (auto simp: cache_ok_def remove_in_flight_def)

lemma insert_if_current_ok: "cache_ok c \<Longrightarrow> cache_ok (insert_if_current k v g c)"
  by (simp add: cache_ok_def insert_if_current_def store_ok_insert)

lemma set_store_ok:
  "cache_ok c \<Longrightarrow> cache_ok (c\<lparr>ca_store := store_remove k (ca_store c)\<rparr>)"
  "cache_ok c \<Longrightarrow> cache_ok (c\<lparr>ca_store := store_clear st\<rparr>)"
  "cache_ok c \<Longrightarrow> cache_ok (c\<lparr>ca_store := remove_doomed ks (ca_store c)\<rparr>)"
  by (simp_all add: cache_ok_def store_ok_remove store_ok_clear store_ok_remove_doomed)

lemma step_cache_ok:
  assumes "step mk t s s'" and "cache_ok (sy_cache s)"
  shows "cache_ok (sy_cache s')"
  using assms
  by (cases rule: step.cases)
    (auto simp: sys_updates bump_ok insert_if_current_ok set_store_ok intro: section_ok drain_ok remove_slot_ok)

lemma section_max:
  "take_in_flight k token c = (ws, c') \<Longrightarrow> ca_max_entries c' = ca_max_entries c"
  "leader_guard_drop mk k token c = (ms, c') \<Longrightarrow> ca_max_entries c' = ca_max_entries c"
  "join_or_lead k ch c = (r, c') \<Longrightarrow> ca_max_entries c' = ca_max_entries c"
  "store_fetched k res ws' c = (out, c') \<Longrightarrow> ca_max_entries c' = ca_max_entries c"
  "remove_in_flight k c = (wl, c') \<Longrightarrow> ca_max_entries c' = ca_max_entries c"
  "drain_in_flight c = (kws, c') \<Longrightarrow> ca_max_entries c' = ca_max_entries c"
  by (auto simp: remove_in_flight_def drain_in_flight_def elim: take_in_flight_cases leader_guard_cases
      join_or_lead_cases store_fetched_cases)

lemma remove_all_max: "remove_all_in_flight ks c = (kws, c') \<Longrightarrow> ca_max_entries c' = ca_max_entries c"
  using remove_all_in_flight_frame(2) [of ks c] by simp

lemma step_max_entries:
  assumes "step mk t s s'"
  shows "ca_max_entries (sy_cache s') = ca_max_entries (sy_cache s)"
  using assms
  by (cases rule: step.cases)
    (simp_all add: sys_updates bump_generation_def insert_if_current_def section_max remove_all_max)

lemma reach_cache_ok: "reach mk m n s \<Longrightarrow> cache_ok (sy_cache s) \<and> ca_max_entries (sy_cache s) = m"
proof (induction rule: reach.induct)
  case reach_init
  show ?case by (simp add: sys_init_def cache_ok_new) (simp add: cache_new_def)
next
  case (reach_step n s t s')
  then show ?case using step_cache_ok step_max_entries by metis
qed

section \<open>What a step does to the in-flight table\<close>

definition table :: "('k, 'v) sys \<Rightarrow> 'k \<Rightarrow> in_flight option" where
  "table s = hm_get (ca_in_flight (sy_cache s))"

fun fetching :: "('k, 'v) pc \<Rightarrow> bool" where
  "fetching (Fetching k token) = True"
| "fetching _ = False"

lemma fetching_iff: "fetching p \<longleftrightarrow> (\<exists>k token. p = Fetching k token)"
  by (cases p) auto

lemma step_other: "step mk t s s' \<Longrightarrow> t' \<noteq> t \<Longrightarrow> sy_pc s' t' = sy_pc s t'"
  by (cases rule: step.cases) (auto simp: sys_updates)

lemma section_token:
  "remove_in_flight k c = (wl, c') \<Longrightarrow> ca_next_token c' = ca_next_token c"
  "drain_in_flight c = (kws, c') \<Longrightarrow> ca_next_token c' = ca_next_token c"
  "remove_all_in_flight ks c = (kws, c') \<Longrightarrow> ca_next_token c' = ca_next_token c"
  "store_fetched k res ws' c = (out, c') \<Longrightarrow> ca_next_token c' = ca_next_token c"
  using remove_all_in_flight_frame(3) [of ks c]
  by (auto simp: remove_in_flight_def drain_in_flight_def elim: store_fetched_cases)

lemma section_table:
  "remove_in_flight k c = (wl, c') \<Longrightarrow> hm_get (ca_in_flight c') x = (if x \<in> {k} then None else hm_get (ca_in_flight c) x)"
  "drain_in_flight c = (kws, c') \<Longrightarrow> hm_get (ca_in_flight c') x = (if x \<in> UNIV then None else hm_get (ca_in_flight c) x)"
  "remove_all_in_flight ks c = (kws, c') \<Longrightarrow>
     hm_get (ca_in_flight c') x = (if x \<in> set ks then None else hm_get (ca_in_flight c) x)"
  "store_fetched k res ws' c = (out, c') \<Longrightarrow> ca_in_flight c' = ca_in_flight c"
  using remove_all_in_flight_get [of ks c x]
  by (auto simp: remove_in_flight_def drain_in_flight_def elim: store_fetched_cases)

lemma step_table_cases [consumes 1, case_names Quiet Remove Join Lead Finish]:
  assumes "step mk t s s'"
  obtains "\<not> fetching (sy_pc s t)" "\<not> fetching (sy_pc s' t)" "table s' = table s"
      "ca_next_token (sy_cache s') = ca_next_token (sy_cache s)"
  | K where "\<not> fetching (sy_pc s t)" "\<not> fetching (sy_pc s' t)"
      "\<And>x. table s' x = (if x \<in> K then None else table s x)"
      "ca_next_token (sy_cache s') = ca_next_token (sy_cache s)"
  | k e ch where "\<not> fetching (sy_pc s t)" "\<not> fetching (sy_pc s' t)" "table s k = Some e"
      "table s' = (table s)(k \<mapsto> e\<lparr>if_waiters := if_waiters e @ [ch]\<rparr>)"
      "ca_next_token (sy_cache s') = ca_next_token (sy_cache s)"
      "ch < sy_next_chan s'" "sy_owner s' ch = k"
  | k where "\<not> fetching (sy_pc s t)" "sy_pc s' t = Fetching k (ca_next_token (sy_cache s) + 1)"
      "table s k = None"
      "table s' = (table s)(k \<mapsto> \<lparr>if_token = ca_next_token (sy_cache s) + 1, if_waiters = []\<rparr>)"
      "ca_next_token (sy_cache s') = ca_next_token (sy_cache s) + 1"
  | k token where "sy_pc s t = Fetching k token" "\<not> fetching (sy_pc s' t)"
      "table s' = (if registered (sy_cache s) k token then (table s)(k := None) else table s)"
      "ca_next_token (sy_cache s') = ca_next_token (sy_cache s)"
  using assms
proof (cases rule: step.cases)
  case (present k v c)
  then show thesis
    by (auto elim!: join_or_lead_cases intro!: that(1) simp: sys_updates table_def)
next
  case (wait k c)
  show thesis
    using wait(3) by (cases rule: join_or_lead_cases)
      (auto intro!: that(3) simp: wait(1,2) sys_updates table_def fun_eq_iff)
next
  case (lead k token c)
  show thesis
    using lead(3) by (cases rule: join_or_lead_cases)
      (auto intro!: that(4) simp: lead(1,2) sys_updates table_def fun_eq_iff)
next
  case (claim k token ws c r)
  show thesis
    using claim(3) by (cases rule: take_in_flight_cases)
      (auto intro!: that(5) simp: claim(1,2) sys_updates table_def fun_eq_iff registered_def)
next
  case (drop_leader k token ms c)
  show thesis
    using drop_leader(3) by (cases rule: leader_guard_cases)
      (auto intro!: that(5) simp: drop_leader(1,2) sys_updates table_def fun_eq_iff registered_def)
next
  case (inv_slot k ws c)
  show thesis
    by (rule that(2) [of "{k}"])
      (use inv_slot section_table(1) [OF inv_slot(3)] section_token(1) [OF inv_slot(3)] in
        \<open>simp_all add: sys_updates table_def\<close>)
next
  case (clr_slots kws c)
  show thesis
    by (rule that(2) [of UNIV])
      (use clr_slots section_table(2) [OF clr_slots(3)] section_token(2) [OF clr_slots(3)] in
        \<open>simp_all add: sys_updates table_def\<close>)
next
  case (mat_slots ks kws c)
  show thesis
    by (rule that(2) [of "set ks"])
      (use mat_slots section_table(3) [OF mat_slots(3)] section_token(3) [OF mat_slots(3)] in
        \<open>simp_all add: sys_updates table_def\<close>)
next
  case (store k r ws out c)
  show thesis
    by (rule that(1))
      (use store section_table(4) [OF store(3)] section_token(4) [OF store(3)] in
        \<open>simp_all add: sys_updates table_def\<close>)
qed (rule that(1), (simp add: sys_updates table_def bump_generation_def insert_if_current_def)+)+

section \<open>Leaders and tokens\<close>

text \<open>
  Every in-flight entry belongs to a task that is fetching under its token, and no two
  tasks fetch under the same token.
\<close>

definition leaders_ok :: "nat \<Rightarrow> ('k, 'v) sys \<Rightarrow> bool" where
  "leaders_ok n s \<longleftrightarrow>
     unat (ca_next_token (sy_cache s)) \<le> n \<and>
     (\<forall>t k token. sy_pc s t = Fetching k token \<longrightarrow> unat token \<le> unat (ca_next_token (sy_cache s))) \<and>
     (\<forall>k e. table s k = Some e \<longrightarrow> (\<exists>t. sy_pc s t = Fetching k (if_token e))) \<and>
     (\<forall>t t' k k' token. sy_pc s t = Fetching k token \<longrightarrow> sy_pc s t' = Fetching k' token \<longrightarrow> t = t')"

lemma leaders_okI [inv_intros]:
  assumes "unat (ca_next_token (sy_cache s)) \<le> n"
    and "\<And>t k token. sy_pc s t = Fetching k token \<Longrightarrow> unat token \<le> unat (ca_next_token (sy_cache s))"
    and "\<And>k e. table s k = Some e \<Longrightarrow> \<exists>t. sy_pc s t = Fetching k (if_token e)"
    and "\<And>t t' k k' token. sy_pc s t = Fetching k token \<Longrightarrow> sy_pc s t' = Fetching k' token \<Longrightarrow> t = t'"
  shows "leaders_ok n s"
  using assms unfolding leaders_ok_def by blast

lemma leaders_okD:
  assumes "leaders_ok n s"
  shows "unat (ca_next_token (sy_cache s)) \<le> n"
    and "sy_pc s t = Fetching k token \<Longrightarrow> unat token \<le> unat (ca_next_token (sy_cache s))"
    and "table s k = Some e \<Longrightarrow> \<exists>t. sy_pc s t = Fetching k (if_token e)"
    and "sy_pc s t = Fetching k token \<Longrightarrow> sy_pc s t' = Fetching k' token \<Longrightarrow> t = t'"
  using assms unfolding leaders_ok_def by blast+

text \<open>A step after which a task is fetching that was fetching before.\<close>

lemma still_fetching:
  assumes "step mk t s s'" and "\<not> fetching (sy_pc s' t)" and "sy_pc s' x = Fetching k token"
  shows "sy_pc s x = Fetching k token"
  using assms step_other [OF assms(1)] by (metis fetching.simps(1))

lemma leaders_ok_frame:
  assumes inv: "leaders_ok n s" and step: "step mk t s s'"
    and nf: "\<not> fetching (sy_pc s' t)"
    and next_token: "ca_next_token (sy_cache s') = ca_next_token (sy_cache s)"
    and tab: "\<And>k e. table s' k = Some e \<Longrightarrow>
      \<exists>e'. table s k = Some e' \<and> if_token e' = if_token e \<and> sy_pc s t \<noteq> Fetching k (if_token e)"
  shows "leaders_ok (Suc n) s'"
proof (rule leaders_okI)
  show "unat (ca_next_token (sy_cache s')) \<le> Suc n"
    using leaders_okD(1) [OF inv] next_token by simp
next
  fix x k token assume "sy_pc s' x = Fetching k token"
  then show "unat token \<le> unat (ca_next_token (sy_cache s'))"
    using still_fetching [OF step nf] leaders_okD(2) [OF inv] next_token by metis
next
  fix k e assume "table s' k = Some e"
  from tab [OF this] obtain x where x: "sy_pc s x = Fetching k (if_token e)" "x \<noteq> t"
    using leaders_okD(3) [OF inv] by metis
  then show "\<exists>x. sy_pc s' x = Fetching k (if_token e)"
    using step_other [OF step] by metis
next
  fix x x' k k' token
  assume "sy_pc s' x = Fetching k token" "sy_pc s' x' = Fetching k' token"
  then show "x = x'"
    using still_fetching [OF step nf] leaders_okD(4) [OF inv] by metis
qed

lemma unat_next:
  assumes "unat w \<le> n" and "Suc n < 2 ^ 64"
  shows "unat (w + 1 :: u64) = Suc (unat w)"
  using assms by (simp add: unat_word_ariths(1))

lemma leaders_ok_lead:
  assumes inv: "leaders_ok n s" and step: "step mk t s s'" and n: "Suc n < 2 ^ 64"
    and idle: "\<not> fetching (sy_pc s t)" and lead: "sy_pc s' t = Fetching k (ca_next_token (sy_cache s) + 1)"
    and tab: "table s' = (table s)(k \<mapsto> \<lparr>if_token = ca_next_token (sy_cache s) + 1, if_waiters = []\<rparr>)"
    and next_token: "ca_next_token (sy_cache s') = ca_next_token (sy_cache s) + 1"
  shows "leaders_ok (Suc n) s'"
proof -
  let ?new = "ca_next_token (sy_cache s) + 1"
  have new: "unat ?new = Suc (unat (ca_next_token (sy_cache s)))"
    by (rule unat_next [OF leaders_okD(1) [OF inv] n])
  have old: "sy_pc s' x = Fetching k' token \<Longrightarrow> x \<noteq> t \<Longrightarrow> unat token < unat ?new" for x k' token
    using step_other [OF step, of x] leaders_okD(2) [OF inv, of x k' token] new by simp
  show ?thesis
  proof (rule leaders_okI)
    show "unat (ca_next_token (sy_cache s')) \<le> Suc n"
      using leaders_okD(1) [OF inv] next_token new by simp
  next
    fix x k' token assume "sy_pc s' x = Fetching k' token"
    then show "unat token \<le> unat (ca_next_token (sy_cache s'))"
      using old [of x k' token] lead next_token by (cases "x = t") auto
  next
    fix k' e assume e: "table s' k' = Some e"
    show "\<exists>x. sy_pc s' x = Fetching k' (if_token e)"
    proof (cases "k' = k")
      case True
      then show ?thesis using e lead tab by auto
    next
      case False
      then obtain x where "sy_pc s x = Fetching k' (if_token e)"
        using e tab leaders_okD(3) [OF inv, of k' e] by auto
      moreover from this have "x \<noteq> t" using idle by auto
      ultimately show ?thesis using step_other [OF step] by metis
    qed
  next
    fix x x' k1 k2 token
    assume f: "sy_pc s' x = Fetching k1 token" "sy_pc s' x' = Fetching k2 token"
    show "x = x'"
    proof (cases "x = t \<or> x' = t")
      case True
      then show ?thesis
        using f old [of x k1 token] old [of x' k2 token] lead by (cases "x = t"; cases "x' = t") auto
    next
      case False
      then show ?thesis using f step_other [OF step] leaders_okD(4) [OF inv] by metis
    qed
  qed
qed

lemma leaders_ok_step:
  assumes step: "step mk t s s'" and inv: "leaders_ok n s" and n: "Suc n < 2 ^ 64"
  shows "leaders_ok (Suc n) s'"
  using step
proof (cases rule: step_table_cases)
  case Quiet
  then show ?thesis
    by (intro leaders_ok_frame [OF inv step]) auto
next
  case (Remove K)
  then show ?thesis
    by (intro leaders_ok_frame [OF inv step]) (auto split: if_splits)
next
  case (Join k e ch)
  then show ?thesis
    by (intro leaders_ok_frame [OF inv step]) (auto split: if_splits)
next
  case (Finish k token)
  show ?thesis
  proof (rule leaders_ok_frame [OF inv step Finish(2,4)])
    fix x e assume e: "table s' x = Some e"
    then have "table s x = Some e" and "x = k \<Longrightarrow> if_token e \<noteq> token"
      using Finish(3) by (auto simp: registered_def table_def split: if_splits)
    then show "\<exists>e'. table s x = Some e' \<and> if_token e' = if_token e \<and> sy_pc s t \<noteq> Fetching x (if_token e)"
      using Finish(1) by auto
  qed
next
  case (Lead k)
  show ?thesis by (rule leaders_ok_lead [OF inv step n Lead(1,2,4,5)])
qed

lemma reach_leaders_ok: "reach mk m n s \<Longrightarrow> n < 2 ^ 64 \<Longrightarrow> leaders_ok n s"
proof (induction rule: reach.induct)
  case reach_init
  show ?case by (rule leaders_okI) (simp_all add: sys_init_def cache_new_def table_def)
next
  case (reach_step n s t s')
  then show ?case using leaders_ok_step [of mk t s s' n] by simp
qed

text \<open>
  Revocation is permanent: a token that is not registered for any key, though already
  issued, never becomes registered again.
\<close>

definition revoked :: "('k, 'v) sys \<Rightarrow> u64 \<Rightarrow> bool" where
  "revoked s token \<longleftrightarrow> unat token \<le> unat (ca_next_token (sy_cache s)) \<and> (\<forall>k. \<not> registered (sy_cache s) k token)"

lemma registered_table: "registered (sy_cache s) k token \<longleftrightarrow> (\<exists>e. table s k = Some e \<and> if_token e = token)"
  by (simp add: registered_def table_def)

lemma revoked_step:
  assumes step: "step mk t s s'" and inv: "leaders_ok n s" and n: "Suc n < 2 ^ 64" and r: "revoked s token"
  shows "revoked s' token"
  using step
proof (cases rule: step_table_cases)
  case (Lead k)
  have new: "unat (ca_next_token (sy_cache s) + 1) = Suc (unat (ca_next_token (sy_cache s)))"
    by (rule unat_next [OF leaders_okD(1) [OF inv] n])
  with r have "token \<noteq> ca_next_token (sy_cache s) + 1"
    unfolding revoked_def by auto
  with r Lead new show ?thesis by (auto simp: revoked_def registered_table)
qed (use r in \<open>auto simp: revoked_def registered_table split: if_splits\<close>)

section \<open>No waiter is forgotten\<close>

text \<open>The channels a task has taken out of the table and not yet answered.\<close>

fun owed :: "('k, 'v) pc \<Rightarrow> nat set" where
  "owed (Claimed k r (Some ws)) = set ws"
| "owed (Slot_Removed k ws) = set ws"
| "owed (Slots_Drained kws) = (\<Union>(k, ws) \<in> set kws. set ws)"
| "owed (Notifying ms ret) = fst ` set ms"
| "owed _ = {}"

definition pending :: "('k, 'v) sys \<Rightarrow> 'k \<Rightarrow> nat \<Rightarrow> bool" where
  "pending s k ch \<longleftrightarrow>
     (\<exists>e. table s k = Some e \<and> ch \<in> set (if_waiters e)) \<or> (\<exists>t. ch \<in> owed (sy_pc s t))"

lemma notify_channels [simp]:
  "fst ` set (notify_cancelled mk k ws) = set ws"
  "fst ` set (notify_all_cancelled mk kws) = (\<Union>(k, ws) \<in> set kws. set ws)"
  "fst ` set (outcome_messages (Some ws) out) = set ws"
  "fst ` set (outcome_messages None out) = {}"
  by (force simp: notify_cancelled_def notify_all_cancelled_def outcome_messages_def)+

lemma owed_step:
  assumes "step mk t s s'" and "ch \<in> owed (sy_pc s t)"
  shows "ch \<in> owed (sy_pc s' t) \<or> sy_chan s' ch \<noteq> None"
  using assms
proof (cases rule: step.cases)
  case (store k r ws out c)
  with assms(2) show ?thesis by (cases ws) (simp_all add: sys_updates)
qed (simp_all add: sys_updates, auto)

lemma table_step:
  assumes "step mk t s s'" and "table s k = Some e" and "ch \<in> set (if_waiters e)"
  shows "(\<exists>e'. table s' k = Some e' \<and> ch \<in> set (if_waiters e')) \<or> ch \<in> owed (sy_pc s' t)"
  using assms(1)
proof (cases rule: step.cases)
  case (present k v c)
  then show ?thesis using assms by (auto elim!: join_or_lead_cases simp: sys_updates table_def)
next
  case (wait k c)
  show ?thesis
    using wait(3) by (cases rule: join_or_lead_cases)
      (use assms in \<open>auto simp: wait(1,2) sys_updates table_def\<close>)
next
  case (lead k token c)
  show ?thesis
    using lead(3) by (cases rule: join_or_lead_cases)
      (use assms in \<open>auto simp: lead(1,2) sys_updates table_def\<close>)
next
  case (claim k token ws c r)
  show ?thesis
    using claim(3) by (cases rule: take_in_flight_cases)
      (use assms in \<open>auto simp: claim(1,2) sys_updates table_def\<close>)
next
  case (drop_leader k token ms c)
  show ?thesis
    using drop_leader(3) by (cases rule: leader_guard_cases)
      (use assms in \<open>auto simp: drop_leader(1,2) sys_updates table_def\<close>)
next
  case (inv_slot k' ws c)
  then show ?thesis using assms by (auto simp: sys_updates table_def remove_in_flight_def)
next
  case (clr_slots kws c)
  have "(k, e) \<in> set (ca_in_flight (sy_cache s))"
    using assms(2) by (auto simp: table_def dest: map_of_SomeD)
  then have "(k, if_waiters e) \<in> set kws"
    using clr_slots(3) by (force simp: drain_in_flight_def)
  then show ?thesis using assms(3) clr_slots(1) by (auto simp: sys_updates)
next
  case (mat_slots ks kws c)
  show ?thesis
  proof (cases "k \<in> set ks")
    case True
    have "(k, if_waiters e) \<in> set kws"
      using remove_all_in_flight_complete [OF True, of "sy_cache s" e] assms(2) mat_slots(3)
      by (simp add: table_def)
    then show ?thesis using assms(3) mat_slots(1) by (auto simp: sys_updates)
  next
    case False
    then show ?thesis
      using assms mat_slots section_table(3) [OF mat_slots(3), of k] by (simp add: sys_updates table_def)
  qed
next
  case (store k' r ws out c)
  then show ?thesis
    using assms section_table(4) [OF store(3)] by (simp add: sys_updates table_def)
qed (use assms in \<open>simp_all add: sys_updates table_def bump_generation_def insert_if_current_def\<close>)

lemma pending_step:
  assumes step: "step mk t s s'" and p: "pending s k ch"
  shows "pending s' k ch \<or> sy_chan s' ch \<noteq> None"
proof -
  from p consider e where "table s k = Some e" "ch \<in> set (if_waiters e)" | x where "ch \<in> owed (sy_pc s x)"
    unfolding pending_def by blast
  then show ?thesis
  proof cases
    case 1
    then show ?thesis using table_step [OF step] unfolding pending_def by blast
  next
    case (2 x)
    then show ?thesis
      using owed_step [OF step, of ch] step_other [OF step, of x] unfolding pending_def by (cases "x = t") metis+
  qed
qed

definition waiting_ok :: "('k, 'v) sys \<Rightarrow> bool" where
  "waiting_ok s \<longleftrightarrow>
     (\<forall>t k ch. sy_pc s t = Waiting k ch \<longrightarrow> ch < sy_next_chan s \<and> (sy_chan s ch = None \<longrightarrow> pending s k ch))"

lemma channel_mono:
  assumes "step mk t s s'"
  shows "sy_next_chan s \<le> sy_next_chan s'"
    and "ch < sy_next_chan s \<Longrightarrow> sy_chan s ch \<noteq> None \<Longrightarrow> sy_chan s' ch \<noteq> None"
  using assms by (cases rule: step.cases; auto simp: sys_updates)+

lemma wait_step:
  assumes "step mk t s s'" and "sy_pc s' t = Waiting k ch"
  shows "ch < sy_next_chan s' \<and> pending s' k ch"
  using assms(1)
proof (cases rule: step.cases)
  case (wait k' c)
  have "k' = k" "ch = sy_next_chan s" using assms(2) wait(1) by (auto simp: sys_updates)
  with wait(3) show ?thesis
    by (cases rule: join_or_lead_cases) (auto simp: wait(1) sys_updates pending_def table_def)
qed (use assms in \<open>simp_all add: sys_updates\<close>)

lemma waiting_ok_step:
  assumes step: "step mk t s s'" and inv: "waiting_ok s"
  shows "waiting_ok s'"
  unfolding waiting_ok_def
proof (intro allI impI)
  fix x k ch assume w: "sy_pc s' x = Waiting k ch"
  show "ch < sy_next_chan s' \<and> (sy_chan s' ch = None \<longrightarrow> pending s' k ch)"
  proof (cases "x = t")
    case True
    then show ?thesis using wait_step [OF step] w by blast
  next
    case False
    then have "sy_pc s x = Waiting k ch" using step_other [OF step] w by metis
    then have ch: "ch < sy_next_chan s" "sy_chan s ch = None \<longrightarrow> pending s k ch"
      using inv unfolding waiting_ok_def by blast+
    then show ?thesis
      using channel_mono [OF step] pending_step [OF step, of k ch] by (meson order_less_le_trans)
  qed
qed

lemma reach_waiting_ok: "reach mk m n s \<Longrightarrow> waiting_ok s"
proof (induction rule: reach.induct)
  case reach_init
  show ?case by (simp add: waiting_ok_def sys_init_def)
qed (rule waiting_ok_step)

text \<open>A task that owes an answer can give it by steps of its own.\<close>

lemma set_pc_same [simp]: "sy_pc (set_pc t p s) t = p" "sy_chan (set_pc t p s) = sy_chan s"
  by (simp_all add: set_pc_def)

lemma deliver_chan [simp]: "sy_chan (deliver ch m s) ch = Some m"
  by (simp add: deliver_def)

lemma wake_notifying:
  assumes "sy_pc s t = Notifying ms ret" and "ch \<in> fst ` set ms"
  shows "\<exists>s'. task_steps mk t s s' \<and> sy_chan s' ch \<noteq> None"
  using assms
proof (induction ms arbitrary: s)
  case (Cons msg ms)
  obtain c m where msg: "msg = (c, m)" by fastforce
  let ?s = "set_pc t (Notifying ms ret) (deliver c m s)"
  have step: "step mk t s ?s"
    using Cons.prems(1) unfolding msg by (rule send)
  show ?case
  proof (cases "c = ch")
    case True
    then have "sy_chan ?s ch \<noteq> None" by simp
    with step show ?thesis by (meson task_refl task_step)
  next
    case False
    then have "ch \<in> fst ` set ms" using Cons.prems(2) msg by auto
    from Cons.IH [of ?s, OF _ this] show ?thesis using step by (auto intro: task_step)
  qed
qed simp

lemma wake_owed:
  assumes "ch \<in> owed (sy_pc s t)"
  shows "\<exists>s'. task_steps mk t s s' \<and> sy_chan s' ch \<noteq> None"
proof (cases "sy_pc s t")
  case (Claimed k r w)
  then obtain ws where ws: "w = Some ws" "ch \<in> set ws" using assms by (cases w) auto
  obtain out c where sf: "store_fetched k r w (sy_cache s) = (out, c)" by fastforce
  let ?s = "set_pc t (Notifying (outcome_messages w out) (Some (k, out))) (set_cache c s)"
  have "step mk t s ?s" by (rule store [OF Claimed sf])
  moreover have "\<exists>s'. task_steps mk t ?s s' \<and> sy_chan s' ch \<noteq> None"
    by (rule wake_notifying [OF set_pc_same(1)]) (use ws in simp)
  ultimately show ?thesis by (meson task_step)
next
  case (Slot_Removed k ws)
  let ?s = "set_pc t (Notifying (notify_cancelled mk k ws) None) (set_store (store_remove k (ca_store (sy_cache s))) s)"
  have "step mk t s ?s" by (rule inv_store [OF Slot_Removed])
  moreover have "\<exists>s'. task_steps mk t ?s s' \<and> sy_chan s' ch \<noteq> None"
    by (rule wake_notifying [OF set_pc_same(1)]) (use assms Slot_Removed in simp)
  ultimately show ?thesis by (meson task_step)
next
  case (Slots_Drained kws)
  let ?s = "set_pc t (Notifying (notify_all_cancelled mk kws) None) (set_store (store_clear (ca_store (sy_cache s))) s)"
  have "step mk t s ?s" by (rule clr_store [OF Slots_Drained])
  moreover have "\<exists>s'. task_steps mk t ?s s' \<and> sy_chan s' ch \<noteq> None"
    by (rule wake_notifying [OF set_pc_same(1)]) (use assms Slots_Drained in simp)
  ultimately show ?thesis by (meson task_step)
next
  case (Notifying ms ret)
  then show ?thesis using assms by (intro wake_notifying) simp_all
qed (use assms in simp_all)

text \<open>\<dots> and so can the leader a waiter is registered with, by dropping its future for instance.\<close>

lemma wake_registered:
  assumes "sy_pc s t = Fetching k (if_token e)" and "table s k = Some e" and "ch \<in> set (if_waiters e)"
  shows "\<exists>s'. task_steps mk t s s' \<and> sy_chan s' ch \<noteq> None"
proof -
  obtain ms c where d: "leader_guard_drop mk k (if_token e) (sy_cache s) = (ms, c)" by fastforce
  let ?s = "set_pc t (Notifying ms None) (set_cache c s)"
  have "step mk t s ?s" by (rule drop_leader [OF assms(1) d])
  moreover have "ch \<in> fst ` set ms"
    using d assms(2,3) by (auto elim!: leader_guard_cases simp: table_def registered_def)
  then have "\<exists>s'. task_steps mk t ?s s' \<and> sy_chan s' ch \<noteq> None"
    by (intro wake_notifying [OF set_pc_same(1)])
  ultimately show ?thesis by (meson task_step)
qed

section \<open>Values come from a fetch of their own key\<close>

definition came_from :: "('k, 'v) sys \<Rightarrow> 'k \<Rightarrow> 'v res \<Rightarrow> bool" where
  "came_from s k r \<longleftrightarrow> (case r of Inr v \<Rightarrow> (k, v) \<in> sy_fetched s | Inl _ \<Rightarrow> True)"

lemma came_from_simps [simp]: "came_from s k (Inr v) \<longleftrightarrow> (k, v) \<in> sy_fetched s" "came_from s k (Inl e)"
  by (simp_all add: came_from_def)

text \<open>The channels of \<open>ws\<close> were created for \<open>k\<close>.\<close>

definition own :: "('k, 'v) sys \<Rightarrow> 'k \<Rightarrow> nat list \<Rightarrow> bool" where
  "own s k ws \<longleftrightarrow> (\<forall>ch \<in> set ws. ch < sy_next_chan s \<and> sy_owner s ch = k)"

fun pc_ok :: "('k, 'v) sys \<Rightarrow> ('k, 'v) pc \<Rightarrow> bool" where
  "pc_ok s (Waiting k ch) \<longleftrightarrow> own s k [ch]"
| "pc_ok s (Claimed k r ws) \<longleftrightarrow> came_from s k r \<and> (\<forall>l. ws = Some l \<longrightarrow> own s k l)"
| "pc_ok s (Slot_Removed k ws) \<longleftrightarrow> own s k ws"
| "pc_ok s (Slots_Drained kws) \<longleftrightarrow> (\<forall>(k, ws) \<in> set kws. own s k ws)"
| "pc_ok s (Notifying ms ret) \<longleftrightarrow>
     (\<forall>(ch, m) \<in> set ms. ch < sy_next_chan s \<and> came_from s (sy_owner s ch) m) \<and>
     (\<forall>k r. ret = Some (k, r) \<longrightarrow> came_from s k r)"
| "pc_ok s (Done k r) \<longleftrightarrow> came_from s k r"
| "pc_ok s _ \<longleftrightarrow> True"

definition provenance :: "('k, 'v) sys \<Rightarrow> bool" where
  "provenance s \<longleftrightarrow>
     (\<forall>k v. cache_get (sy_cache s) k = Some v \<longrightarrow> (k, v) \<in> sy_fetched s) \<and>
     (\<forall>k e. table s k = Some e \<longrightarrow> own s k (if_waiters e)) \<and>
     (\<forall>ch m. ch < sy_next_chan s \<longrightarrow> sy_chan s ch = Some m \<longrightarrow> came_from s (sy_owner s ch) m) \<and>
     (\<forall>t. pc_ok s (sy_pc s t))"

definition extends :: "('k, 'v) sys \<Rightarrow> ('k, 'v) sys \<Rightarrow> bool" where
  "extends s s' \<longleftrightarrow>
     sy_next_chan s \<le> sy_next_chan s' \<and> (\<forall>ch < sy_next_chan s. sy_owner s' ch = sy_owner s ch) \<and>
     sy_fetched s \<subseteq> sy_fetched s'"

lemma step_extends: "step mk t s s' \<Longrightarrow> extends s s'"
  by (cases rule: step.cases) (auto simp: sys_updates extends_def split: sum.splits)

lemma own_extends: "extends s s' \<Longrightarrow> own s k ws \<Longrightarrow> own s' k ws"
  by (auto simp: extends_def own_def)

lemma came_from_extends: "extends s s' \<Longrightarrow> came_from s k r \<Longrightarrow> came_from s' k r"
  by (auto simp: extends_def came_from_def split: sum.splits)

lemma pc_ok_extends: "extends s s' \<Longrightarrow> pc_ok s p \<Longrightarrow> pc_ok s' p"
proof (cases p)
  case (Notifying ms ret)
  assume e: "extends s s'" and ok: "pc_ok s p"
  have "ch < sy_next_chan s' \<and> came_from s' (sy_owner s' ch) m" if "(ch, m) \<in> set ms" for ch m
  proof -
    have "ch < sy_next_chan s" "came_from s (sy_owner s ch) m"
      using ok that Notifying by auto
    then show ?thesis
      using e came_from_extends [OF e, of "sy_owner s ch" m] by (auto simp: extends_def)
  qed
  then show ?thesis using ok came_from_extends [OF e] Notifying by auto
qed (auto intro: own_extends came_from_extends)

lemma own_simps [simp]:
  "own s k []" "own s k (ch # ws) \<longleftrightarrow> (ch < sy_next_chan s \<and> sy_owner s ch = k) \<and> own s k ws"
  "own s k (ws @ ws') \<longleftrightarrow> own s k ws \<and> own s k ws'"
  by (auto simp: own_def)

lemma store_get_step:
  assumes step: "step mk t s s'" and ok: "cache_ok (sy_cache s)" and pc: "pc_ok s (sy_pc s t)"
    and get: "cache_get (sy_cache s') k = Some v"
  shows "cache_get (sy_cache s) k = Some v \<or> (k, v) \<in> sy_fetched s'"
  using step
proof (cases rule: step.cases)
  case (store k' r ws out c)
  show ?thesis
    using store(3)
  proof (cases rule: store_fetched_cases)
    case Unchanged
    then show ?thesis using get store(1) by (simp add: sys_updates)
  next
    case (Stored w)
    then have "k = k' \<and> v = w \<or> cache_get (sy_cache s) k = Some v"
      using get ok insert_locked_get [of "ca_max_entries (sy_cache s)" "ca_store (sy_cache s)" k' w k v]
      by (simp add: store(1) sys_updates cache_get_def cache_ok_def)
    then show ?thesis using pc Stored(1) store(1,2) by (auto simp: sys_updates)
  qed
next
  case (insert_current k' g w)
  then have "k = k' \<and> v = w \<or> cache_get (sy_cache s) k = Some v"
    using get ok insert_locked_get [of "ca_max_entries (sy_cache s)" "ca_store (sy_cache s)" k' w k v]
    by (auto simp: sys_updates cache_get_def cache_ok_def insert_if_current_def split: if_splits)
  then show ?thesis using insert_current(1) by (auto simp: sys_updates)
next
  case (present k' v' c)
  then show ?thesis using get by (auto elim!: join_or_lead_cases simp: sys_updates)
next
  case (wait k' c)
  show ?thesis using wait(3) get
    by (cases rule: join_or_lead_cases) (simp_all add: wait(1) sys_updates cache_get_def)
next
  case (lead k' token c)
  show ?thesis using lead(3) get
    by (cases rule: join_or_lead_cases) (simp_all add: lead(1) sys_updates cache_get_def)
next
  case (claim k' token ws c r)
  show ?thesis using claim(3) get
    by (cases rule: take_in_flight_cases) (simp_all add: claim(1) sys_updates cache_get_def)
next
  case (drop_leader k' token ms c)
  show ?thesis using drop_leader(3) get
    by (cases rule: leader_guard_cases) (simp_all add: drop_leader(1) sys_updates cache_get_def)
next
  case (mat_slots ks kws c)
  then show ?thesis using get remove_all_in_flight_frame(1) [of ks "sy_cache s"]
    by (simp add: sys_updates cache_get_def)
qed (use get in \<open>auto simp: sys_updates cache_get_def bump_generation_def remove_in_flight_def
      drain_in_flight_def store_remove_get store_clear_def remove_doomed_get split: if_splits\<close>)

lemma table_own_step:
  assumes step: "step mk t s s'" and inv: "\<And>k e. table s k = Some e \<Longrightarrow> own s k (if_waiters e)"
    and e: "table s' k = Some e"
  shows "own s' k (if_waiters e)"
proof -
  have old: "table s k' = Some e' \<Longrightarrow> own s' k' (if_waiters e')" for k' e'
    by (rule own_extends [OF step_extends [OF step] inv])
  from step show ?thesis
  proof (cases rule: step_table_cases)
    case (Join k' e' ch)
    then show ?thesis using e old [of k' e'] old [of k e] by (auto split: if_splits)
  next
    case (Lead k')
    then show ?thesis using e old [of k e] by (auto split: if_splits)
  qed (use e old [of k e] in \<open>auto split: if_splits\<close>)
qed

lemma channel_message_step:
  assumes step: "step mk t s s'" and pc: "pc_ok s (sy_pc s t)"
    and inv: "\<And>ch m. ch < sy_next_chan s \<Longrightarrow> sy_chan s ch = Some m \<Longrightarrow> came_from s (sy_owner s ch) m"
    and ch: "ch < sy_next_chan s'" "sy_chan s' ch = Some m"
  shows "came_from s' (sy_owner s' ch) m"
proof -
  note ext = step_extends [OF step]
  have old: "ch < sy_next_chan s \<Longrightarrow> came_from s (sy_owner s ch) m \<Longrightarrow> came_from s' (sy_owner s' ch) m"
    using ext came_from_extends [OF ext] by (simp add: extends_def)
  from step show ?thesis
  proof (cases rule: step.cases)
    case (send ch' m' ms ret)
    then show ?thesis
      using ch inv [of ch m] old pc by (auto simp: sys_updates split: if_splits)
  qed (use ch inv [of ch m] old in \<open>auto simp: sys_updates split: if_splits\<close>)
qed

lemma own_messages:
  assumes "own s k ws"
  shows "(ch, m) \<in> set (notify_cancelled mk k ws) \<Longrightarrow> ch < sy_next_chan s \<and> came_from s (sy_owner s ch) m"
    and "came_from s k out \<Longrightarrow> (ch, m) \<in> set (outcome_messages (Some ws) out) \<Longrightarrow>
      ch < sy_next_chan s \<and> came_from s (sy_owner s ch) m"
  using assms by (auto simp: own_def notify_cancelled_def outcome_messages_def)

lemma own_all_messages:
  assumes "\<forall>(k, ws) \<in> set kws. own s k ws" and "(ch, m) \<in> set (notify_all_cancelled mk kws)"
  shows "ch < sy_next_chan s \<and> came_from s (sy_owner s ch) m"
  using assms own_messages(1) unfolding notify_all_cancelled_def by fastforce

lemma guard_messages:
  assumes "leader_guard_drop mk k token c = (ms, c')" "\<forall>e. hm_get (ca_in_flight c) k = Some e \<longrightarrow> own s k (if_waiters e)"
  shows "\<forall>(ch, m) \<in> set ms. ch < sy_next_chan s \<and> came_from s (sy_owner s ch) m"
  using assms(1)
proof (cases rule: leader_guard_cases)
  case (Mine e)
  then show ?thesis using assms(2) own_messages(1) [of s k "if_waiters e"] by auto
qed simp

lemma stored_messages:
  assumes "\<forall>l. ws = Some l \<longrightarrow> own s k l" "came_from s k out"
  shows "\<forall>(ch, m) \<in> set (outcome_messages ws out). ch < sy_next_chan s \<and> came_from s (sy_owner s ch) m"
proof (cases ws)
  case None
  then show ?thesis by (simp add: outcome_messages_def)
next
  case (Some l)
  then show ?thesis using assms own_messages(2) [of s k l out] by auto
qed

lemma drained_own:
  assumes "drain_in_flight c = (kws, c')" "cache_ok c" "\<And>k e. hm_get (ca_in_flight c) k = Some e \<Longrightarrow> own s k (if_waiters e)"
  shows "\<forall>(k, l) \<in> set kws. own s k l"
  using assms by (auto simp: drain_in_flight_def cache_ok_def)

lemma cancelled_own:
  assumes "remove_all_in_flight ks c = (kws, c')" "\<And>k e. hm_get (ca_in_flight c) k = Some e \<Longrightarrow> own s k (if_waiters e)"
  shows "\<forall>(k, l) \<in> set kws. own s k l"
  using assms remove_all_in_flight_cancelled [of _ _ ks c] by fastforce

lemma pc_ok_step:
  assumes step: "step mk t s s'" and ok: "cache_ok (sy_cache s)" and prov: "provenance s"
  shows "pc_ok s' (sy_pc s' t)"
proof -
  note ext = step_extends [OF step]
  have pc: "pc_ok s' (sy_pc s t)"
    using pc_ok_extends [OF ext] prov unfolding provenance_def by blast
  have tab: "hm_get (ca_in_flight (sy_cache s)) k = Some e \<Longrightarrow> own s' k (if_waiters e)" for k e
    using own_extends [OF ext] prov unfolding provenance_def table_def by blast
  have get: "cache_get (sy_cache s) k = Some v \<Longrightarrow> (k, v) \<in> sy_fetched s'" for k v
    using ext prov unfolding provenance_def extends_def by blast
  have chan: "ch < sy_next_chan s \<Longrightarrow> sy_chan s ch = Some m \<Longrightarrow> came_from s' (sy_owner s ch) m" for ch m
    using came_from_extends [OF ext] prov unfolding provenance_def by blast
  from step show ?thesis
  proof (cases rule: step.cases)
    case (present k v c)
    then show ?thesis using get by (auto elim!: join_or_lead_cases)
  next
    case (claim k token ws c r)
    have "came_from s' k r"
      unfolding claim(1) by (simp add: came_from_def sys_updates split: sum.splits)
    moreover have "own s' k l" if "ws = Some l" for l
      using claim(3) that tab [of k] by (auto elim!: take_in_flight_cases)
    ultimately show ?thesis using claim(1) by simp
  next
    case (drop_leader k token ms c)
    then show ?thesis using guard_messages [of mk k token "sy_cache s" ms c s'] tab by simp
  next
    case (store k r ws out c)
    have out: "came_from s' k out"
      using store(3) by (cases rule: store_fetched_cases) (use pc store(2) get in auto)
    with stored_messages [OF _ out, of ws] pc store(1,2) show ?thesis by simp
  next
    case (receive k ch m)
    have "pc_ok s (Waiting k ch)" using prov receive(2) unfolding provenance_def by metis
    then show ?thesis using chan [of ch m] receive by simp
  next
    case (inv_slot k ws c)
    then show ?thesis using tab [of k] by (auto simp: remove_in_flight_def split: option.splits)
  next
    case (inv_store k ws)
    then show ?thesis using pc own_messages(1) [of s' k ws] by auto
  next
    case (clr_slots kws c)
    then show ?thesis using drained_own [OF clr_slots(3) ok tab] by simp
  next
    case (clr_store kws)
    then show ?thesis using pc own_all_messages [of kws s'] by auto
  next
    case (mat_slots ks kws c)
    then show ?thesis using own_all_messages [OF cancelled_own [OF mat_slots(3) tab]] by auto
  qed (use pc get in \<open>auto simp: sys_updates\<close>)
qed

lemma provenance_step:
  assumes step: "step mk t s s'" and ok: "cache_ok (sy_cache s)" and prov: "provenance s"
  shows "provenance s'"
proof -
  note ext = step_extends [OF step]
  have pc: "pc_ok s (sy_pc s t)" for t
    using prov unfolding provenance_def by blast
  have "(k, v) \<in> sy_fetched s'" if "cache_get (sy_cache s') k = Some v" for k v
    using store_get_step [OF step ok pc that] prov ext unfolding provenance_def extends_def by blast
  moreover have "own s' k (if_waiters e)" if "table s' k = Some e" for k e
    by (rule table_own_step [OF step _ that]) (use prov in \<open>simp add: provenance_def\<close>)
  moreover have "came_from s' (sy_owner s' ch) m" if "ch < sy_next_chan s'" "sy_chan s' ch = Some m" for ch m
    by (rule channel_message_step [OF step pc _ that]) (use prov in \<open>simp add: provenance_def\<close>)
  moreover have "pc_ok s' (sy_pc s' x)" for x
    using pc_ok_step [OF step ok prov] pc_ok_extends [OF ext pc [of x]] step_other [OF step, of x]
    by (cases "x = t") metis+
  ultimately show ?thesis unfolding provenance_def by blast
qed

lemma reach_provenance: "reach mk m n s \<Longrightarrow> provenance s"
proof (induction rule: reach.induct)
  case reach_init
  show ?case by (simp add: provenance_def sys_init_def cache_new_def cache_get_def table_def)
next
  case (reach_step n s t s')
  then show ?case using provenance_step reach_cache_ok by metis
qed

section \<open>Runs from a state, and whole invalidations\<close>

inductive runs :: "('k \<Rightarrow> sreg_error) \<Rightarrow> nat \<Rightarrow> ('k, 'v) sys \<Rightarrow> ('k, 'v) sys \<Rightarrow> bool"
  for mk :: "'k \<Rightarrow> sreg_error" where
  runs_refl: "runs mk 0 s s"
| runs_step: "runs mk j s s' \<Longrightarrow> step mk t s' s'' \<Longrightarrow> runs mk (Suc j) s s''"

lemma reach_runs: "runs mk j s s' \<Longrightarrow> reach mk m n s \<Longrightarrow> reach mk m (n + j) s'"
  by (induction rule: runs.induct) (auto intro: reach_step)

lemma revoked_runs:
  assumes "runs mk j s s'" and "reach mk m n s" and "n + j < 2 ^ 64" and "revoked s token"
  shows "revoked s' token"
  using assms
proof (induction rule: runs.induct)
  case (runs_step j s s' t s'')
  have "leaders_ok (n + j) s'"
    using reach_leaders_ok [OF reach_runs [OF runs_step.hyps(1) runs_step.prems(1)]] runs_step.prems(2) by simp
  then show ?case
    using revoked_step [OF runs_step.hyps(2), of "n + j" token] runs_step by simp
qed

text \<open>
  A call of \<open>invalidate\<close> by task \<open>t\<close> from start to end, with no waiter to notify and no
  other task running in between.
\<close>

definition whole_invalidate ::
    "('k \<Rightarrow> sreg_error) \<Rightarrow> nat \<Rightarrow> 'k \<Rightarrow> ('k, 'v) sys \<Rightarrow> ('k, 'v) sys \<Rightarrow> bool" where
  "whole_invalidate mk t k s s' \<longleftrightarrow>
     (\<exists>a b c. sy_pc s t = Idle \<and>
        step mk t s a \<and> sy_pc a t = Invalidating k \<and>
        step mk t a b \<and> sy_pc b t = Slot_Removed k [] \<and>
        step mk t b c \<and> sy_pc c t = Notifying [] None \<and>
        step mk t c s' \<and> sy_pc s' t = Idle)"

lemma whole_invalidate_run:
  assumes "sy_pc s t = Idle" and "table s k = None"
  shows "\<exists>s'. whole_invalidate mk t k s s' \<and> cache_get (sy_cache s') k = None \<and>
    ca_max_entries (sy_cache s') = ca_max_entries (sy_cache s) \<and> (\<forall>x. x \<noteq> t \<longrightarrow> sy_pc s' x = sy_pc s x)"
proof -
  let ?c1 = "bump_generation (sy_cache s)"
  let ?a = "set_pc t (Invalidating k) (set_cache ?c1 s)"
  let ?c2 = "?c1\<lparr>ca_in_flight := hm_del k (ca_in_flight ?c1)\<rparr>"
  let ?b = "set_pc t (Slot_Removed k []) (set_cache ?c2 ?a)"
  let ?c = "set_pc t (Notifying [] None) (set_store (store_remove k (ca_store ?c2)) ?b)"
  let ?d = "set_pc t Idle ?c"
  have a: "step mk t s ?a" by (rule inv_bump [OF assms(1)])
  have b: "step mk t ?a ?b"
    by (rule inv_slot) (use assms(2) in \<open>simp_all add: sys_updates remove_in_flight_def bump_generation_def table_def\<close>)
  have "step mk t ?b (set_pc t (Notifying (notify_cancelled mk k []) None)
      (set_store (store_remove k (ca_store (sy_cache ?b))) ?b))"
    by (rule inv_store) simp
  then have c: "step mk t ?b ?c" by (simp add: sys_updates notify_cancelled_def)
  have d: "step mk t ?c ?d" by (rule sent) simp
  have "whole_invalidate mk t k s ?d"
    unfolding whole_invalidate_def
    by (intro exI [of _ ?a] exI [of _ ?b] exI [of _ ?c] conjI a b c d assms(1)) simp_all
  moreover have "cache_get (sy_cache ?d) k = None"
    by (simp add: sys_updates cache_get_def store_remove_get)
  moreover have "ca_max_entries (sy_cache ?d) = ca_max_entries (sy_cache s)"
    by (simp add: sys_updates bump_generation_def)
  moreover have "\<forall>x. x \<noteq> t \<longrightarrow> sy_pc ?d x = sy_pc s x"
    by (simp add: sys_updates)
  ultimately show ?thesis by blast
qed

lemma whole_invalidate_cache_ok:
  "whole_invalidate mk t k s s' \<Longrightarrow> cache_ok (sy_cache s) \<Longrightarrow> cache_ok (sy_cache s')"
  unfolding whole_invalidate_def by (meson step_cache_ok)

section \<open>Sample runs\<close>

definition demo_error :: "nat \<Rightarrow> sreg_error" where
  "demo_error k = InvalidState (Text ''cancelled'')"

text \<open>The next step of a caller that has missed, while a slot of the key is registered.\<close>

lemma missed_joins:
  assumes "step mk t s s'" and "sy_pc s t = Missed k" and "table s k = Some e"
  shows "case cache_get (sy_cache s) k of
      Some v \<Rightarrow> sy_pc s' t = Done k (Inr v) \<and> table s' = table s
    | None \<Rightarrow>
        sy_pc s' t = Waiting k (sy_next_chan s) \<and> sy_chan s' (sy_next_chan s) = None \<and>
        table s' = (table s)(k \<mapsto> e\<lparr>if_waiters := if_waiters e @ [sy_next_chan s]\<rparr>)"
  using assms(1)
proof (cases rule: step.cases)
  case (present k' v c)
  with assms(2) have j: "join_or_lead k (sy_next_chan s) (sy_cache s) = (Present v, c)" by simp
  from j show ?thesis
    by (cases rule: join_or_lead_cases) (use present assms(2) in \<open>auto simp: sys_updates table_def\<close>)
next
  case (wait k' c)
  with assms(2) have j: "join_or_lead k (sy_next_chan s) (sy_cache s) = (Waiter, c)" by simp
  from j show ?thesis
    by (cases rule: join_or_lead_cases)
      (use wait assms(2,3) in \<open>auto simp: sys_updates table_def fun_eq_iff\<close>)
next
  case (lead k' token c)
  with assms(2) have j: "join_or_lead k (sy_next_chan s) (sy_cache s) = (Leader token, c)" by simp
  from j show ?thesis
    by (cases rule: join_or_lead_cases) (use assms(3) in \<open>auto simp: table_def\<close>)
qed (use assms(2) in simp_all)

text \<open>Task 1 leads the fetch of key 7, and task 2 waits for it.\<close>

lemma demo_waiting:
  "\<exists>s :: (nat, nat) sys. reach demo_error (Some 2) 4 s \<and> sy_pc s 1 = Fetching 7 1 \<and>
     sy_pc s 2 = Waiting 7 0 \<and> sy_chan s 0 = None \<and> registered (sy_cache s) 7 1 \<and> sy_pc s 3 = Idle"
proof -
  let ?s0 = "sys_init (Some 2) :: (nat, nat) sys"
  let ?s1 = "set_pc 1 (Missed 7) ?s0"
  let ?s2 = "set_pc 1 (Fetching 7 1) (set_cache (snd (join_or_lead 7 0 (sy_cache ?s1))) ?s1)"
  let ?s3 = "set_pc 2 (Missed 7) ?s2"
  let ?s4 = "set_pc 2 (Waiting 7 0) (new_channel 7 (set_cache (snd (join_or_lead 7 0 (sy_cache ?s3))) ?s3))"
  note ev = sys_updates sys_init_def cache_new_def cache_get_def join_or_lead_def Let_def
  have r0: "reach demo_error (Some 2) 0 ?s0" by (rule reach_init)
  have r1: "reach demo_error (Some 2) (Suc 0) ?s1"
    by (rule reach_step [OF r0 fast_miss]) (simp_all add: ev)
  have r2: "reach demo_error (Some 2) (Suc (Suc 0)) ?s2"
    by (rule reach_step [OF r1 lead]) (simp_all add: ev)
  have r3: "reach demo_error (Some 2) (Suc (Suc (Suc 0))) ?s3"
    by (rule reach_step [OF r2 fast_miss]) (simp_all add: ev)
  have "step demo_error 2 ?s3 ?s4"
    using wait [of ?s3 2 7 "snd (join_or_lead 7 0 (sy_cache ?s3))" demo_error] by (simp add: ev)
  with r3 have "reach demo_error (Some 2) 4 ?s4"
    by (simp add: numeral_eq_Suc reach_step)
  then show ?thesis
    by (intro exI [of _ ?s4]) (simp add: ev registered_def)
qed

text \<open>Task 1 has claimed its slot with the value 42 and not stored it yet.\<close>

lemma demo_claimed:
  "\<exists>s :: (nat, nat) sys. reach demo_error (Some 2) 3 s \<and> sy_pc s 1 = Claimed 7 (Inr 42) (Some []) \<and>
     sy_pc s 2 = Idle \<and> table s 7 = None \<and> cache_get (sy_cache s) 7 = None"
proof -
  let ?s0 = "sys_init (Some 2) :: (nat, nat) sys"
  let ?s1 = "set_pc 1 (Missed 7) ?s0"
  let ?s2 = "set_pc 1 (Fetching 7 1) (set_cache (snd (join_or_lead 7 0 (sy_cache ?s1))) ?s1)"
  let ?s3 = "set_pc 1 (Claimed 7 (Inr 42) (Some []))
    (note_fetched 7 (Inr 42) (set_cache (snd (take_in_flight 7 1 (sy_cache ?s2))) ?s2))"
  note ev = sys_updates sys_init_def cache_new_def cache_get_def join_or_lead_def take_in_flight_def
    table_def Let_def
  have r0: "reach demo_error (Some 2) 0 ?s0" by (rule reach_init)
  have r1: "reach demo_error (Some 2) (Suc 0) ?s1"
    by (rule reach_step [OF r0 fast_miss]) (simp_all add: ev)
  have r2: "reach demo_error (Some 2) (Suc (Suc 0)) ?s2"
    by (rule reach_step [OF r1 lead]) (simp_all add: ev)
  have "reach demo_error (Some 2) (Suc (Suc (Suc 0))) ?s3"
    by (rule reach_step [OF r2 claim]) (simp_all add: ev)
  then have "reach demo_error (Some 2) 3 ?s3" by (simp add: numeral_eq_Suc)
  then show ?thesis
    by (intro exI [of _ ?s3]) (simp add: ev)
qed

section \<open>Properties\<close>

text \<open>
  C7. No waiter is parked forever. In every state that fewer than \<open>2 ^ 64\<close> steps can reach, a
  caller of \<open>get_or_fetch\<close> that waits for somebody else's fetch and has no message yet is owed
  one by another task, which can deliver it by steps of its own: the leader, whose drop guard
  notifies too, or a task that took the waiter out of the table and is about to notify it.
\<close>

theorem no_waiter_parked:
  assumes "reach mk m n s" and "n < 2 ^ 64"
    and "sy_pc s t = Waiting k ch" and "sy_chan s ch = None"
  shows "\<exists>t' s'. t' \<noteq> t \<and> task_steps mk t' s s' \<and> sy_chan s' ch \<noteq> None"
proof -
  have "pending s k ch"
    using reach_waiting_ok [OF assms(1)] assms(3,4) unfolding waiting_ok_def by blast
  then consider e where "table s k = Some e" "ch \<in> set (if_waiters e)" | t' where "ch \<in> owed (sy_pc s t')"
    unfolding pending_def by blast
  then show ?thesis
  proof cases
    case (1 e)
    then obtain t' where "sy_pc s t' = Fetching k (if_token e)"
      using leaders_okD(3) [OF reach_leaders_ok [OF assms(1,2)]] by blast
    moreover from this have "t' \<noteq> t" using assms(3) by auto
    ultimately show ?thesis using wake_registered [OF _ 1] by blast
  next
    case (2 t')
    moreover from this have "t' \<noteq> t" using assms(3) by auto
    ultimately show ?thesis using wake_owed by blast
  qed
qed

theorem no_waiter_parked_witness:
  "\<exists>(s :: (nat, nat) sys) t' s'. sy_pc s 2 = Waiting 7 0 \<and> t' \<noteq> 2 \<and>
     task_steps demo_error t' s s' \<and> sy_chan s' 0 \<noteq> None"
proof -
  obtain s :: "(nat, nat) sys" where s: "reach demo_error (Some 2) 4 s" "sy_pc s 2 = Waiting 7 0" "sy_chan s 0 = None"
    using demo_waiting by blast
  have "(4 :: nat) < 2 ^ 64" by simp
  from no_waiter_parked [OF s(1) this s(2,3)] s(2) show ?thesis by blast
qed

text \<open>Task 1 fetches the key 7; task 2 has missed on it.\<close>

lemma demo_missed:
  "\<exists>s :: (nat, nat) sys. reach demo_error (Some 2) 3 s \<and> sy_pc s 1 = Fetching 7 1 \<and>
     sy_pc s 2 = Missed 7 \<and> registered (sy_cache s) 7 1 \<and> cache_get (sy_cache s) 7 = None \<and>
     sy_next_chan s = 0 \<and> table s 7 = Some \<lparr>if_token = 1, if_waiters = []\<rparr>"
proof -
  let ?s0 = "sys_init (Some 2) :: (nat, nat) sys"
  let ?s1 = "set_pc 1 (Missed 7) ?s0"
  let ?s2 = "set_pc 1 (Fetching 7 1) (set_cache (snd (join_or_lead 7 0 (sy_cache ?s1))) ?s1)"
  let ?s3 = "set_pc 2 (Missed 7) ?s2"
  note ev = sys_updates sys_init_def cache_new_def cache_get_def join_or_lead_def Let_def
  have r1: "reach demo_error (Some 2) (Suc 0) ?s1"
    by (rule reach_step [OF reach_init fast_miss]) (simp_all add: ev)
  have r2: "reach demo_error (Some 2) (Suc (Suc 0)) ?s2"
    by (rule reach_step [OF r1 lead]) (simp_all add: ev)
  have "reach demo_error (Some 2) (Suc (Suc (Suc 0))) ?s3"
    by (rule reach_step [OF r2 fast_miss]) (simp_all add: ev)
  then have "reach demo_error (Some 2) 3 ?s3" by (simp add: numeral_eq_Suc)
  then show ?thesis
    by (intro exI [of _ ?s3]) (simp add: ev registered_def table_def)
qed

text \<open>
  C21. Coalescing, under any interleaving with invalidations and dropped futures. While a
  task is registered as fetching a key, it is the only one. When any other caller that has
  missed on the key takes its next step, it does not start a fetch: it either finds the value
  in the store, where another writer has put it in the meantime and the table is left alone, or
  it becomes a waiter, whose channel is appended to those of the registered slot, with the
  token and the earlier waiters kept; and the task that fetches is registered as before and
  will claim that channel with the others. (Between its claim and its store a fetch is no
  longer registered, and a second fetch of the key can start: \<open>second_fetch_in_claim_window\<close>.)
\<close>

theorem one_registered_leader:
  assumes "reach mk m n s" and "n < 2 ^ 64"
    and "sy_pc s t = Fetching k token" and "registered (sy_cache s) k token"
  shows "(sy_pc s t' = Fetching k token' \<and> registered (sy_cache s) k token' \<longrightarrow> t' = t) \<and>
    (sy_pc s t2 = Missed k \<and> step mk t2 s s2 \<longrightarrow>
      (\<exists>e. table s k = Some e \<and> if_token e = token \<and>
         sy_pc s2 t = Fetching k token \<and> registered (sy_cache s2) k token \<and>
         (case cache_get (sy_cache s) k of
            Some v \<Rightarrow> sy_pc s2 t2 = Done k (Inr v) \<and> table s2 = table s
          | None \<Rightarrow>
              sy_pc s2 t2 = Waiting k (sy_next_chan s) \<and> sy_chan s2 (sy_next_chan s) = None \<and>
              table s2 = (table s)(k \<mapsto> e\<lparr>if_waiters := if_waiters e @ [sy_next_chan s]\<rparr>) \<and>
              fst (take_in_flight k token (sy_cache s2)) = Some (if_waiters e @ [sy_next_chan s]))))"
proof (intro conjI impI, goal_cases)
  case 1
  then have "token = token'" using assms(4) by (auto simp: registered_def)
  with 1 assms(3) show ?case
    using leaders_okD(4) [OF reach_leaders_ok [OF assms(1,2)]] by blast
next
  case 2
  then have step: "step mk t2 s s2" and missed: "sy_pc s t2 = Missed k" by simp_all
  obtain e where e: "table s k = Some e" "if_token e = token"
    using assms(4) by (auto simp: registered_table)
  have other: "sy_pc s2 t = Fetching k token"
    using step_other [OF step, of t] assms(3) missed by (cases "t = t2") simp_all
  have joined: "(case cache_get (sy_cache s) k of
            Some v \<Rightarrow> sy_pc s2 t2 = Done k (Inr v) \<and> table s2 = table s
          | None \<Rightarrow>
              sy_pc s2 t2 = Waiting k (sy_next_chan s) \<and> sy_chan s2 (sy_next_chan s) = None \<and>
              table s2 = (table s)(k \<mapsto> e\<lparr>if_waiters := if_waiters e @ [sy_next_chan s]\<rparr>))"
    by (rule missed_joins [OF step missed e(1)])
  have "\<exists>e'. table s2 k = Some e' \<and> if_token e' = token \<and>
      (cache_get (sy_cache s) k = None \<longrightarrow> if_waiters e' = if_waiters e @ [sy_next_chan s])"
    using joined e by (auto split: option.splits)
  then have "registered (sy_cache s2) k token"
    and "cache_get (sy_cache s) k = None \<Longrightarrow>
      fst (take_in_flight k token (sy_cache s2)) = Some (if_waiters e @ [sy_next_chan s])"
    by (auto simp: registered_table take_in_flight_def table_def)
  with joined e other show ?case by (auto split: option.splits)
qed

theorem one_registered_leader_witness:
  "\<exists>s2 :: (nat, nat) sys. sy_pc s2 1 = Fetching 7 1 \<and> sy_pc s2 2 = Waiting 7 0 \<and>
     table s2 7 = Some \<lparr>if_token = 1, if_waiters = [0]\<rparr>"
proof -
  obtain s :: "(nat, nat) sys" where s: "reach demo_error (Some 2) 3 s" "sy_pc s 1 = Fetching 7 1"
      "registered (sy_cache s) 7 1" and missed: "sy_pc s 2 = Missed 7" "cache_get (sy_cache s) 7 = None"
      "sy_next_chan s = 0" "table s 7 = Some \<lparr>if_token = 1, if_waiters = []\<rparr>"
    using demo_missed by blast
  obtain r c where j: "join_or_lead 7 (sy_next_chan s) (sy_cache s) = (r, c)" by fastforce
  then have r: "r = Waiter" using missed by (auto simp: table_def elim: join_or_lead_cases)
  have step: "step demo_error 2 s (set_pc 2 (Waiting 7 (sy_next_chan s)) (new_channel 7 (set_cache c s)))"
    by (rule wait [OF missed(1) j [unfolded r]])
  have "(3 :: nat) < 2 ^ 64" by simp
  from one_registered_leader [OF s(1) this s(2,3), of _ _ 2] step missed show ?thesis
    by (intro exI [of _ "set_pc 2 (Waiting 7 (sy_next_chan s)) (new_channel 7 (set_cache c s))"])
      (auto split: option.splits)
qed

text \<open>
  C12. An invalidation is not undone by a fetch that has not completed. Once \<open>invalidate k\<close> has
  removed the in-flight slot of \<open>k\<close>, a task that was fetching \<open>k\<close> then and still is, any number
  of steps later, fails to claim the slot; what it fetched is returned to its caller and leaves
  the store as it is.
\<close>

theorem invalidate_revokes_fetch:
  assumes "reach mk m n s" and "n + 1 + j < 2 ^ 64"
    and "sy_pc s t = Fetching k token"
    and "sy_pc s t' = Invalidating k" and "step mk t' s s1" and "sy_pc s1 t' = Slot_Removed k ws"
    and "runs mk j s1 s2" and "sy_pc s2 t = Fetching k token"
  shows "take_in_flight k token (sy_cache s2) = (None, sy_cache s2) \<and>
    store_fetched k r None (sy_cache s2) = (r, sy_cache s2)"
proof -
  have r1: "reach mk m (n + 1) s1"
    using reach_step [OF assms(1,5)] by simp
  have lo: "leaders_ok n s" by (rule reach_leaders_ok [OF assms(1)]) (use assms(2) in simp)
  obtain c where rm: "remove_in_flight k (sy_cache s) = (ws, c)" and c: "sy_cache s1 = c"
    using assms(5) by (cases rule: step.cases) (use assms(4,6) in \<open>auto simp: sys_updates\<close>)
  have next1: "ca_next_token (sy_cache s1) = ca_next_token (sy_cache s)"
    using section_token(1) [OF rm] c by simp
  have gone: "table s1 k = None" and rest: "\<And>x e. table s1 x = Some e \<Longrightarrow> table s x = Some e"
    using section_table(1) [OF rm] c by (auto simp: table_def split: if_splits)
  have "\<not> registered (sy_cache s1) x token" for x
  proof
    assume "registered (sy_cache s1) x token"
    then obtain e where e: "table s1 x = Some e" "if_token e = token"
      by (auto simp: registered_table)
    then obtain y where "sy_pc s y = Fetching x token"
      using leaders_okD(3) [OF lo rest [OF e(1)]] by blast
    then have "x = k" using leaders_okD(4) [OF lo _ assms(3)] assms(3) by (metis pc.inject(3))
    with gone e show False by simp
  qed
  then have "revoked s1 token"
    using leaders_okD(2) [OF lo assms(3)] next1 by (simp add: revoked_def)
  then have "revoked s2 token"
    by (rule revoked_runs [OF assms(7) r1 assms(2)])
  then have "\<not> registered (sy_cache s2) k token" by (simp add: revoked_def)
  then show ?thesis
    by (auto simp: take_in_flight_def registered_def store_fetched_def split: option.splits sum.splits)
qed

theorem invalidate_revokes_fetch_witness:
  "\<exists>s2 :: (nat, nat) sys. sy_pc s2 1 = Fetching 7 1 \<and>
     take_in_flight 7 1 (sy_cache s2) = (None, sy_cache s2) \<and>
     store_fetched 7 (Inr 42) None (sy_cache s2) = (Inr 42, sy_cache s2)"
proof -
  obtain s :: "(nat, nat) sys" where s: "reach demo_error (Some 2) 4 s" "sy_pc s 1 = Fetching 7 1"
      "sy_pc s 3 = Idle"
    using demo_waiting by blast
  let ?a = "set_pc 3 (Invalidating 7) (set_cache (bump_generation (sy_cache s)) s)"
  obtain ws c where rm: "remove_in_flight 7 (sy_cache ?a) = (ws, c)" by fastforce
  let ?b = "set_pc 3 (Slot_Removed 7 ws) (set_cache c ?a)"
  have a: "reach demo_error (Some 2) (Suc 4) ?a" by (rule reach_step [OF s(1) inv_bump [OF s(3)]])
  have b: "step demo_error 3 ?a ?b" by (rule inv_slot [OF _ rm]) simp
  have fa: "sy_pc ?a 1 = Fetching 7 1" and fb: "sy_pc ?b 1 = Fetching 7 1"
    using s(2) by (simp_all add: sys_updates)
  have bound: "Suc 4 + 1 + 0 < (2 ^ 64 :: nat)" by simp
  from invalidate_revokes_fetch [OF a bound fa _ b _ runs_refl fb, of ws "Inr 42"] fb
  show ?thesis by (intro exI [of _ ?b]) simp
qed

text \<open>
  The window the code leaves open. A leader that has claimed its slot has not stored its
  value yet, and the two are separate critical sections: an \<open>invalidate\<close> of the key that runs
  from start to end in between finds neither a slot nor an entry, returns, and is then undone
  by the leader's insertion. So after this invalidation the cache holds the value that was
  fetched before it.
\<close>

theorem stale_insert_after_invalidate:
  assumes "reach mk m n s" and "m \<noteq> Some 0"
    and "sy_pc s t = Claimed k (Inr v) (Some ws)" and "sy_pc s t' = Idle" and "table s k = None"
  shows "\<exists>s1 s2. whole_invalidate mk t' k s s1 \<and> cache_get (sy_cache s1) k = None \<and>
    step mk t s1 s2 \<and> cache_get (sy_cache s2) k = Some v"
proof -
  obtain s1 where s1: "whole_invalidate mk t' k s s1" "cache_get (sy_cache s1) k = None"
      "ca_max_entries (sy_cache s1) = ca_max_entries (sy_cache s)" "\<forall>x. x \<noteq> t' \<longrightarrow> sy_pc s1 x = sy_pc s x"
    using whole_invalidate_run [OF assms(4,5)] by blast
  have pc: "sy_pc s1 t = Claimed k (Inr v) (Some ws)"
    using s1(4) assms(3,4) by (metis pc.distinct(7))
  have ok: "cache_ok (sy_cache s1)" "ca_max_entries (sy_cache s1) \<noteq> Some 0"
    using whole_invalidate_cache_ok [OF s1(1)] reach_cache_ok [OF assms(1)] s1(3) assms(2) by simp_all
  obtain out c where sf: "store_fetched k (Inr v) (Some ws) (sy_cache s1) = (out, c)" by fastforce
  let ?s2 = "set_pc t (Notifying (outcome_messages (Some ws) out) (Some (k, out))) (set_cache c s1)"
  have step: "step mk t s1 ?s2" by (rule store [OF pc sf])
  have "cache_get (sy_cache ?s2) k = Some v"
    using sf s1(2) ok insert_locked_stored [of "ca_max_entries (sy_cache s1)" "ca_store (sy_cache s1)" k v]
    by (auto simp: store_fetched_def cache_get_def cache_ok_def sys_updates)
  with s1(1,2) step show ?thesis by blast
qed

theorem stale_insert_after_invalidate_witness:
  "\<exists>(s :: (nat, nat) sys) s1 s2. reach demo_error (Some 2) 3 s \<and> whole_invalidate demo_error 2 7 s s1 \<and>
     cache_get (sy_cache s1) 7 = None \<and> step demo_error 1 s1 s2 \<and> cache_get (sy_cache s2) 7 = Some 42"
proof -
  obtain s :: "(nat, nat) sys" where s: "reach demo_error (Some 2) 3 s"
      "sy_pc s 1 = Claimed 7 (Inr 42) (Some [])" "sy_pc s 2 = Idle" "table s 7 = None"
    using demo_claimed by blast
  have "Some (2 :: nat) \<noteq> Some 0" by simp
  from stale_insert_after_invalidate [OF s(1) this s(2-4)] s(1) show ?thesis by blast
qed

text \<open>
  The same window lets a second fetch start. While a leader has claimed its slot and not
  stored its value, another caller of the key finds neither an entry nor a slot and becomes a
  leader of its own, so two concurrent callers both reach the backend.
\<close>

theorem second_fetch_in_claim_window:
  assumes "reach mk m n s" and "sy_pc s t = Claimed k (Inr v) ws" and "sy_pc s t' = Idle"
    and "table s k = None" and "cache_get (sy_cache s) k = None"
  shows "\<exists>s' token. task_steps mk t' s s' \<and> sy_pc s' t' = Fetching k token \<and> sy_pc s' t = Claimed k (Inr v) ws"
proof -
  let ?s1 = "set_pc t' (Missed k) s"
  let ?tok = "ca_next_token (sy_cache s) + 1"
  have tt: "t \<noteq> t'" using assms(2,3) by auto
  obtain c where j: "join_or_lead k (sy_next_chan ?s1) (sy_cache ?s1) = (Leader ?tok, c)"
    using assms(4,5) by (simp add: sys_updates join_or_lead_def cache_get_def table_def Let_def)
  let ?s2 = "set_pc t' (Fetching k ?tok) (set_cache c ?s1)"
  have "step mk t' s ?s1" by (rule fast_miss [OF assms(3,5)])
  moreover have "step mk t' ?s1 ?s2" by (rule lead [OF _ j]) simp
  ultimately have "task_steps mk t' s ?s2" by (meson task_refl task_step)
  moreover have "sy_pc ?s2 t' = Fetching k ?tok" "sy_pc ?s2 t = Claimed k (Inr v) ws"
    using tt assms(2) by (simp_all add: sys_updates)
  ultimately show ?thesis by blast
qed

theorem second_fetch_in_claim_window_witness:
  "\<exists>(s :: (nat, nat) sys) s' token. reach demo_error (Some 2) 3 s \<and> task_steps demo_error 2 s s' \<and>
     sy_pc s' 2 = Fetching 7 token \<and> sy_pc s' 1 = Claimed 7 (Inr 42) (Some [])"
proof -
  obtain s :: "(nat, nat) sys" where s: "reach demo_error (Some 2) 3 s"
      "sy_pc s 1 = Claimed 7 (Inr 42) (Some [])" "sy_pc s 2 = Idle" "table s 7 = None"
      "cache_get (sy_cache s) 7 = None"
    using demo_claimed by blast
  from second_fetch_in_claim_window [OF s] s(1) show ?thesis by blast
qed

text \<open>
  C31. No value crosses keys. Whatever the interleaving, the value stored under a key, and the
  value any call for a key returns, is one the backend returned for that key; and the store
  keeps its invariant: distinct keys, a queue that lists exactly them, and the bound.
\<close>

theorem values_belong_to_keys:
  assumes "reach mk m n s"
  shows "(cache_get (sy_cache s) k = Some v \<longrightarrow> (k, v) \<in> sy_fetched s) \<and>
    (sy_pc s t = Done k (Inr v) \<longrightarrow> (k, v) \<in> sy_fetched s) \<and> store_ok m (ca_store (sy_cache s))"
proof -
  have p: "provenance s" by (rule reach_provenance [OF assms])
  have "sy_pc s t = Done k (Inr v) \<Longrightarrow> (k, v) \<in> sy_fetched s"
    using p unfolding provenance_def by (metis pc_ok.simps(6) came_from_simps(1))
  then show ?thesis
    using p reach_cache_ok [OF assms] unfolding provenance_def cache_ok_def by blast
qed

theorem values_belong_to_keys_witness:
  "\<exists>s :: (nat, nat) sys. reach demo_error (Some 2) 3 s \<and> store_ok (Some 2) (ca_store (sy_cache s)) \<and>
     (cache_get (sy_cache s) 7 = Some 42 \<longrightarrow> (7, 42) \<in> sy_fetched s)"
proof -
  obtain s :: "(nat, nat) sys" where s: "reach demo_error (Some 2) 3 s"
    using demo_claimed by blast
  from values_belong_to_keys [OF s, of 7 42] s show ?thesis by blast
qed

end
