(* ===== verification/Registry.thy ===== *)
theory Registry
  imports Glue_Types
begin

text \<open>
  The registry interfaces (\<open>src/traits.rs\<close>, and the Glue trait of \<open>src/glue/mod.rs\<close>). A
  value that implements \<open>SchemaRegistryClient\<close> is a record of its methods; each is a call with
  effects on the world \<^typ>\<open>'s\<close> it talks to. \<open>get_schema_by_key\<close> is overridden by no
  implementation and is a function.
\<close>

section \<open>Registry clients\<close>

record 's registry =
  rg_get_schema_by_id :: "schema_id \<Rightarrow> ('s, schema) io"
  rg_get_schema_by_guid :: "schema_guid \<Rightarrow> ('s, schema) io"
  rg_get_latest_schema :: "string \<Rightarrow> ('s, schema) io"
  rg_get_schema_by_version :: "string \<Rightarrow> schema_version \<Rightarrow> ('s, schema) io"
  rg_lookup_schema ::
    "string \<Rightarrow> string \<Rightarrow> schema_type \<Rightarrow> schema_reference list \<Rightarrow> ('s, schema option) io"
  rg_register_schema ::
    "string \<Rightarrow> string \<Rightarrow> schema_type \<Rightarrow> schema_reference list \<Rightarrow> ('s, schema_id) io"
  rg_check_compatibility ::
    "string \<Rightarrow> string \<Rightarrow> schema_type \<Rightarrow> schema_reference list \<Rightarrow> ('s, bool) io"
  rg_delete_subject :: "string \<Rightarrow> bool \<Rightarrow> ('s, schema_version list) io"
  rg_delete_version :: "string \<Rightarrow> schema_version \<Rightarrow> bool \<Rightarrow> ('s, schema_version) io"
  rg_get_subjects :: "('s, string list) io"
  rg_get_versions :: "string \<Rightarrow> ('s, schema_version list) io"
  rg_get_compatibility :: "string \<Rightarrow> ('s, compatibility_level) io"
  rg_set_compatibility :: "string \<Rightarrow> compatibility_level \<Rightarrow> ('s, unit) io"
  rg_health_check :: "('s, unit) io"

definition get_schema_by_key :: "'s registry \<Rightarrow> schema_key \<Rightarrow> ('s, schema) io" where
  "get_schema_by_key rg key =
     (case key of Id i \<Rightarrow> rg_get_schema_by_id rg i | Guid g \<Rightarrow> rg_get_schema_by_guid rg g)"

text \<open>The default bodies of the trait, around its four required methods.\<close>

definition not_supported :: "string \<Rightarrow> ('s, 'a) io" where
  "not_supported operation = io_fail (NotSupported (Client (Unsupported operation)))"

definition trait_defaults ::
    "(schema_id \<Rightarrow> ('s, schema) io) \<Rightarrow> (string \<Rightarrow> ('s, schema) io) \<Rightarrow>
     (string \<Rightarrow> schema_version \<Rightarrow> ('s, schema) io) \<Rightarrow>
     (string \<Rightarrow> string \<Rightarrow> schema_type \<Rightarrow> schema_reference list \<Rightarrow> ('s, schema_id) io) \<Rightarrow> 's registry" where
  "trait_defaults by_id latest by_version register =
     \<lparr>rg_get_schema_by_id = by_id,
      rg_get_schema_by_guid = (\<lambda>_. not_supported ''get_schema_by_guid''),
      rg_get_latest_schema = latest,
      rg_get_schema_by_version = by_version,
      rg_lookup_schema = (\<lambda>_ _ _ _. not_supported ''lookup_schema''),
      rg_register_schema = register,
      rg_check_compatibility = (\<lambda>_ _ _ _. not_supported ''check_compatibility''),
      rg_delete_subject = (\<lambda>_ _. not_supported ''delete_subject''),
      rg_delete_version = (\<lambda>_ _ _. not_supported ''delete_version''),
      rg_get_subjects = not_supported ''get_subjects'',
      rg_get_versions = (\<lambda>_. not_supported ''get_versions''),
      rg_get_compatibility = (\<lambda>_. not_supported ''get_compatibility''),
      rg_set_compatibility = (\<lambda>_ _. not_supported ''set_compatibility''),
      rg_health_check = not_supported ''health_check''\<rparr>"

text \<open>
  The implementations the macros generate for \<open>&T\<close>, \<open>Arc<T>\<close> and the object-safe mirror:
  every method on the list, forwarded.
\<close>

definition deref_forwarding :: "'s registry \<Rightarrow> 's registry" where
  "deref_forwarding t =
     \<lparr>rg_get_schema_by_id = (\<lambda>id. rg_get_schema_by_id t id),
      rg_get_schema_by_guid = (\<lambda>guid. rg_get_schema_by_guid t guid),
      rg_get_latest_schema = (\<lambda>subject. rg_get_latest_schema t subject),
      rg_get_schema_by_version = (\<lambda>subject version. rg_get_schema_by_version t subject version),
      rg_lookup_schema = (\<lambda>subject schema ty refs. rg_lookup_schema t subject schema ty refs),
      rg_register_schema = (\<lambda>subject schema ty refs. rg_register_schema t subject schema ty refs),
      rg_check_compatibility = (\<lambda>subject schema ty refs. rg_check_compatibility t subject schema ty refs),
      rg_delete_subject = (\<lambda>subject permanent. rg_delete_subject t subject permanent),
      rg_delete_version = (\<lambda>subject version permanent. rg_delete_version t subject version permanent),
      rg_get_subjects = rg_get_subjects t,
      rg_get_versions = (\<lambda>subject. rg_get_versions t subject),
      rg_get_compatibility = (\<lambda>subject. rg_get_compatibility t subject),
      rg_set_compatibility = (\<lambda>subject level. rg_set_compatibility t subject level),
      rg_health_check = rg_health_check t\<rparr>"

text \<open>The object-safe mirror of a client, and the client its trait object is.\<close>

definition dyn_registry :: "'s registry \<Rightarrow> 's registry" where
  "dyn_registry t =
     \<lparr>rg_get_schema_by_id = rg_get_schema_by_id t, rg_get_schema_by_guid = rg_get_schema_by_guid t,
      rg_get_latest_schema = rg_get_latest_schema t, rg_get_schema_by_version = rg_get_schema_by_version t,
      rg_lookup_schema = rg_lookup_schema t, rg_register_schema = rg_register_schema t,
      rg_check_compatibility = rg_check_compatibility t, rg_delete_subject = rg_delete_subject t,
      rg_delete_version = rg_delete_version t, rg_get_subjects = rg_get_subjects t, rg_get_versions = rg_get_versions t,
      rg_get_compatibility = rg_get_compatibility t, rg_set_compatibility = rg_set_compatibility t,
      rg_health_check = rg_health_check t\<rparr>"

section \<open>Glue registry clients\<close>

record 's glue_registry =
  gr_get_schema_by_version_id :: "glue_version_id \<Rightarrow> ('s, glue_schema) io"
  gr_register_schema :: "string \<Rightarrow> string \<Rightarrow> glue_data_format \<Rightarrow> ('s, glue_version_id) io"
  gr_health_check :: "('s, unit) io"

definition glue_trait_defaults ::
    "(glue_version_id \<Rightarrow> ('s, glue_schema) io) \<Rightarrow>
     (string \<Rightarrow> string \<Rightarrow> glue_data_format \<Rightarrow> ('s, glue_version_id) io) \<Rightarrow> 's glue_registry" where
  "glue_trait_defaults by_version register =
     \<lparr>gr_get_schema_by_version_id = by_version, gr_register_schema = register,
      gr_health_check = not_supported ''health_check''\<rparr>"

definition glue_deref_forwarding :: "'s glue_registry \<Rightarrow> 's glue_registry" where
  "glue_deref_forwarding t =
     \<lparr>gr_get_schema_by_version_id = (\<lambda>id. gr_get_schema_by_version_id t id),
      gr_register_schema = (\<lambda>name schema format. gr_register_schema t name schema format),
      gr_health_check = gr_health_check t\<rparr>"

definition dyn_glue_registry :: "'s glue_registry \<Rightarrow> 's glue_registry" where
  "dyn_glue_registry t =
     \<lparr>gr_get_schema_by_version_id = gr_get_schema_by_version_id t, gr_register_schema = gr_register_schema t,
      gr_health_check = gr_health_check t\<rparr>"

section \<open>Sound registries\<close>

text \<open>
  The contract a registry documents for its identifiers: an identifier names one schema for
  ever. \<open>means key x\<close> says that \<open>x\<close> is a description of the schema that \<open>key\<close> names; a sound
  registry answers a lookup with what the identifier means, and reports with every schema only
  identifiers that mean it.
\<close>

definition reports_truly :: "(schema_key \<Rightarrow> schema \<Rightarrow> bool) \<Rightarrow> schema \<Rightarrow> bool" where
  "reports_truly means x \<longleftrightarrow>
     (\<forall>i. sch_id x = Some i \<longrightarrow> means (Id i) x) \<and> (\<forall>g. sch_guid x = Some g \<longrightarrow> means (Guid g) x)"

definition answers_truly :: "(schema_key \<Rightarrow> schema \<Rightarrow> bool) \<Rightarrow> ('s, schema) io \<Rightarrow> bool" where
  "answers_truly means m \<longleftrightarrow> (\<forall>s x s'. m s = (Inr x, s') \<longrightarrow> reports_truly means x)"

definition sound_registry :: "(schema_key \<Rightarrow> schema \<Rightarrow> bool) \<Rightarrow> 's registry \<Rightarrow> bool" where
  "sound_registry means rg \<longleftrightarrow>
     (\<forall>key s x s'. get_schema_by_key rg key s = (Inr x, s') \<longrightarrow> means key x) \<and>
     (\<forall>key. answers_truly means (get_schema_by_key rg key)) \<and>
     (\<forall>subject. answers_truly means (rg_get_latest_schema rg subject)) \<and>
     (\<forall>subject version. answers_truly means (rg_get_schema_by_version rg subject version)) \<and>
     (\<forall>subject text ty refs s x s'. rg_lookup_schema rg subject text ty refs s = (Inr (Some x), s') \<longrightarrow>
        reports_truly means x)"

lemma sound_lookup: "sound_registry means rg \<Longrightarrow> get_schema_by_key rg key s = (Inr x, s') \<Longrightarrow> means key x"
  by (auto simp: sound_registry_def)

lemma sound_reports:
  assumes "sound_registry means rg"
  shows "get_schema_by_key rg key s = (Inr x, s') \<Longrightarrow> reports_truly means x"
    and "rg_get_latest_schema rg subject s = (Inr x, s') \<Longrightarrow> reports_truly means x"
    and "rg_get_schema_by_version rg subject version s = (Inr x, s') \<Longrightarrow> reports_truly means x"
    and "rg_lookup_schema rg subject sch ty refs s = (Inr (Some x), s') \<Longrightarrow> reports_truly means x"
  using assms unfolding sound_registry_def answers_truly_def by blast+

text \<open>A registry with one schema, which counts the lookups by identifier.\<close>

definition one_schema :: schema where
  "one_schema = with_guid (SchemaGuid 7) (schema_new (Id (SchemaId 1)) Avro ''{}'')"

definition one_registry :: "nat registry" where
  "one_registry =
     trait_defaults (\<lambda>i s. (if i = SchemaId 1 then Inr one_schema else Inl (Http 404 (Text [])), s + 1))
       (\<lambda>_. io_return one_schema) (\<lambda>_ _. io_return one_schema) (\<lambda>_ _ _ _. io_return (SchemaId 1))"

definition one_means :: "schema_key \<Rightarrow> schema \<Rightarrow> bool" where
  "one_means key x \<longleftrightarrow> (key = Id (SchemaId 1) \<or> key = Guid (SchemaGuid 7)) \<and> x = one_schema"

lemma one_sound: "sound_registry one_means one_registry"
  by (auto simp: sound_registry_def get_schema_by_key_def one_registry_def trait_defaults_def answers_truly_def
      reports_truly_def one_means_def not_supported_def one_schema_def with_guid_def schema_new_def
      split: schema_key.splits if_splits)

definition refused :: "'a res \<Rightarrow> bool" where
  "refused r \<longleftrightarrow> (case r of Inl e \<Rightarrow> is_not_supported e \<and> \<not> is_retryable e | Inr _ \<Rightarrow> False)"

section \<open>Properties\<close>

text \<open>
  Optional operations. A backend that implements only the four required methods answers
  every other one with \<open>NotSupported\<close>, without touching the world, and that error is never
  retryable; wrapping any backend in \<open>&\<close>, \<open>Arc\<close> or the object-safe mirror forwards every
  method, so that no default hides an implementation.
\<close>

theorem optional_operations:
  "(let rg = trait_defaults by_id latest by_version register
    in refused (fst (rg_get_schema_by_guid rg g s)) \<and> refused (fst (rg_lookup_schema rg subj sch ty refs s)) \<and>
       refused (fst (rg_check_compatibility rg subj sch ty refs s)) \<and>
       refused (fst (rg_delete_subject rg subj perm s)) \<and> refused (fst (rg_delete_version rg subj v perm s)) \<and>
       refused (fst (rg_get_subjects rg s)) \<and> refused (fst (rg_get_versions rg subj s)) \<and>
       refused (fst (rg_get_compatibility rg subj s)) \<and> refused (fst (rg_set_compatibility rg subj lvl s)) \<and>
       refused (fst (rg_health_check rg s)) \<and> snd (rg_delete_subject rg subj perm s) = s \<and>
       get_schema_by_key rg (Id i) = by_id i) \<and>
   deref_forwarding any = any \<and> glue_deref_forwarding any_glue = any_glue \<and>
   dyn_registry any = any \<and> dyn_glue_registry any_glue = any_glue"
  by (simp add: trait_defaults_def not_supported_def get_schema_by_key_def deref_forwarding_def
      refused_def glue_deref_forwarding_def dyn_registry_def dyn_glue_registry_def Let_def)

end
