(* ===== verification/Resolver.thy ===== *)
theory Resolver
  imports Registry
begin

text \<open>
  Producer-side resolution (\<open>src/resolver.rs\<close>): from a subject to the identifier a frame
  carries. The variants of \<open>Framing\<close> get a prefix, since \<open>SchemaId\<close> and \<open>SchemaGuid\<close> are the
  identifiers themselves.
\<close>

definition DEFAULT_MAX_SUBJECT_CACHE_ENTRIES :: nat where "DEFAULT_MAX_SUBJECT_CACHE_ENTRIES = 1000"

datatype schema_resolution = AutoRegister | LookupOnly | UseLatestVersion

fun writes_to_registry :: "schema_resolution \<Rightarrow> bool" where
  "writes_to_registry AutoRegister = True"
| "writes_to_registry _ = False"

datatype framing = FramingSchemaId | FramingSchemaGuid

record resolved_identity =
  ri_id :: "schema_id option"
  ri_guid :: "schema_guid option"

fun select :: "framing \<Rightarrow> resolved_identity \<Rightarrow> string \<Rightarrow> schema_key res" where
  "select FramingSchemaId resolved subject =
     ok_or (map_option Id (ri_id resolved)) (InvalidState (Client (NoNumericId subject)))"
| "select FramingSchemaGuid resolved subject =
     ok_or (map_option Guid (ri_guid resolved)) (NotSupported (Client (NoGuid subject)))"

definition subject_resolution_cancelled :: "string \<Rightarrow> sreg_error" where
  "subject_resolution_cancelled subject = InvalidState (Cancel (SubjectResolutionCancelled subject))"

definition identity_of :: "schema \<Rightarrow> resolved_identity" where
  "identity_of x = \<lparr>ri_id = sch_id x, ri_guid = sch_guid x\<rparr>"

definition resolve_identity ::
    "'s registry \<Rightarrow> schema_resolution \<Rightarrow> string \<Rightarrow> string \<Rightarrow> schema_type \<Rightarrow> schema_reference list \<Rightarrow>
     ('s, resolved_identity) io" where
  "resolve_identity rg resolution subject sch ty refs =
     (case resolution of
        AutoRegister \<Rightarrow>
          io_bind (rg_register_schema rg subject sch ty refs) (\<lambda>i.
            io_return \<lparr>ri_id = Some i, ri_guid = None\<rparr>)
      | LookupOnly \<Rightarrow>
          io_bind (rg_lookup_schema rg subject sch ty refs) (\<lambda>found.
            case found of
              Some x \<Rightarrow> io_return (identity_of x)
            | None \<Rightarrow> io_fail (Api SCHEMA_NOT_FOUND (Client (NoMatchingVersion subject))))
      | UseLatestVersion \<Rightarrow>
          io_bind (rg_get_latest_schema rg subject) (\<lambda>latest. io_return (identity_of latest)))"

definition learn_guid :: "'s registry \<Rightarrow> framing \<Rightarrow> resolved_identity \<Rightarrow> ('s, resolved_identity) io" where
  "learn_guid rg framing resolved =
     (if framing = FramingSchemaGuid \<and> ri_guid resolved = None
      then case ri_id resolved of
             Some i \<Rightarrow> io_bind (rg_get_schema_by_id rg i) (\<lambda>x. io_return (resolved\<lparr>ri_guid := sch_guid x\<rparr>))
           | None \<Rightarrow> io_return resolved
      else io_return resolved)"

definition resolve_schema_key ::
    "'s registry \<Rightarrow> schema_resolution \<Rightarrow> framing \<Rightarrow> string \<Rightarrow> string \<Rightarrow> schema_type \<Rightarrow> schema_reference list \<Rightarrow>
     ('s, schema_key) io" where
  "resolve_schema_key rg resolution framing subject sch ty refs =
     io_bind (resolve_identity rg resolution subject sch ty refs) (\<lambda>resolved.
     io_bind (learn_guid rg framing resolved) (\<lambda>resolved.
     io_lift (select framing resolved subject)))"

section \<open>Lemmas\<close>

lemma select_Inr:
  "select f r subject = Inr key \<longleftrightarrow>
     (case key of Id i \<Rightarrow> f = FramingSchemaId \<and> ri_id r = Some i | Guid g \<Rightarrow> f = FramingSchemaGuid \<and> ri_guid r = Some g)"
  by (cases f; cases key) auto

lemma select_Inl:
  "select f r subject = Inl e \<Longrightarrow> is_not_supported e \<or> is_invalid_state e"
  by (cases f; cases "ri_id r"; cases "ri_guid r") auto

text \<open>How a resolution succeeds: with what the mode's own call reported, or with the GUID of its identifier.\<close>

lemma resolve_InrE:
  assumes "resolve_schema_key rg m f subject sch ty refs s = (Inr key, t)"
  obtains (Direct) r where "resolve_identity rg m subject sch ty refs s = (Inr r, t)" "select f r subject = Inr key"
  | (By_Id) r i x s' where "resolve_identity rg m subject sch ty refs s = (Inr r, s')" "f = FramingSchemaGuid"
      "ri_guid r = None" "ri_id r = Some i" "rg_get_schema_by_id rg i s' = (Inr x, t)"
      "key = Guid (the (sch_guid x))" "sch_guid x \<noteq> None"
proof -
  from assms obtain r s' r' where r: "resolve_identity rg m subject sch ty refs s = (Inr r, s')"
    and g: "learn_guid rg f r s' = (Inr r', t)" and k: "select f r' subject = Inr key"
    by (auto simp: resolve_schema_key_def io_bind_Inr_iff)
  show thesis
  proof (cases "f = FramingSchemaGuid \<and> ri_guid r = None \<and> ri_id r \<noteq> None")
    case True
    then obtain i where "f = FramingSchemaGuid" "ri_guid r = None" "ri_id r = Some i" by auto
    with g k By_Id [OF r] show thesis
      by (auto simp: learn_guid_def io_bind_Inr_iff select_Inr split: schema_key.splits)
  next
    case False
    then have "r' = r" "s' = t"
      using g by (auto simp: learn_guid_def split: option.splits if_splits)
    with Direct r k show thesis by blast
  qed
qed

lemma resolve_identity_reported:
  assumes "sound_registry means rg" and "m \<noteq> AutoRegister"
    and "resolve_identity rg m subject sch ty refs s = (Inr r, s')"
  shows "(\<forall>i. ri_id r = Some i \<longrightarrow> (\<exists>x. means (Id i) x)) \<and> (\<forall>g. ri_guid r = Some g \<longrightarrow> (\<exists>x. means (Guid g) x))"
proof -
  from assms(2,3) have "\<exists>x. r = identity_of x \<and> reports_truly means x"
    using sound_reports(2) [OF assms(1)] sound_reports(4) [OF assms(1)]
    by (cases m) (fastforce simp: resolve_identity_def io_bind_Inr_iff split: option.splits)+
  then obtain x where r: "r = identity_of x" and "reports_truly means x" by blast
  then show ?thesis by (auto simp: identity_of_def reports_truly_def)
qed

lemma learn_guid_frame:
  "learn_guid (rg\<lparr>rg_register_schema := reg\<rparr>) = learn_guid rg"
  "learn_guid (rg\<lparr>rg_lookup_schema := lk, rg_get_latest_schema := lt\<rparr>) = learn_guid rg"
  by (simp_all add: learn_guid_def fun_eq_iff split: option.splits)

lemma by_id_means:
  assumes "sound_registry means rg" and "rg_get_schema_by_id rg i s = (Inr x, s')" and "sch_guid x = Some g"
  shows "means (Guid g) x"
  using sound_reports(1) [OF assms(1), of "Id i" s x s'] assms(2,3)
  by (simp add: get_schema_by_key_def reports_truly_def)

section \<open>Properties\<close>

text \<open>
  Which calls a resolution makes. Only \<open>AutoRegister\<close> registers: the other modes behave the
  same over a registry with any other \<open>register_schema\<close>, and \<open>AutoRegister\<close> does not look
  anything up by content. With numeric framing the registration is the whole resolution. A
  missing schema under \<open>LookupOnly\<close> is a not-found error that no retry loop repeats.
\<close>

theorem resolution_modes:
  "(\<not> writes_to_registry m \<longrightarrow>
      resolve_schema_key (rg\<lparr>rg_register_schema := reg\<rparr>) m f subject sch ty refs =
      resolve_schema_key rg m f subject sch ty refs) \<and>
   resolve_schema_key (rg\<lparr>rg_lookup_schema := lk, rg_get_latest_schema := lt\<rparr>) AutoRegister f subject sch ty refs =
     resolve_schema_key rg AutoRegister f subject sch ty refs \<and>
   resolve_schema_key rg AutoRegister FramingSchemaId subject sch ty refs =
     io_bind (rg_register_schema rg subject sch ty refs) (\<lambda>i. io_return (Id i)) \<and>
   (rg_lookup_schema rg subject sch ty refs s = (Inr None, s') \<longrightarrow>
      (\<exists>e. resolve_schema_key rg LookupOnly f subject sch ty refs s = (Inl e, s') \<and>
         is_not_found e \<and> \<not> is_retryable e))"
proof (intro conjI impI)
  show "resolve_schema_key (rg\<lparr>rg_register_schema := reg\<rparr>) m f subject sch ty refs =
      resolve_schema_key rg m f subject sch ty refs" if "\<not> writes_to_registry m"
    using that by (cases m) (simp_all add: resolve_schema_key_def resolve_identity_def learn_guid_frame)
  show "resolve_schema_key rg AutoRegister FramingSchemaId subject sch ty refs =
      io_bind (rg_register_schema rg subject sch ty refs) (\<lambda>i. io_return (Id i))"
    by (auto simp: resolve_schema_key_def resolve_identity_def learn_guid_def io_bind_def fun_eq_iff
        split: prod.splits sum.splits)
  show "\<exists>e. resolve_schema_key rg LookupOnly f subject sch ty refs s = (Inl e, s') \<and> is_not_found e \<and> \<not> is_retryable e"
    if "rg_lookup_schema rg subject sch ty refs s = (Inr None, s')"
    using that by (simp add: resolve_schema_key_def resolve_identity_def io_bind_def error_codes)
qed (simp add: resolve_schema_key_def resolve_identity_def learn_guid_frame)

definition offline_registry :: "'s registry" where
  "offline_registry =
     trait_defaults (\<lambda>_. io_fail (Network ''down'')) (\<lambda>_. io_fail (Network ''down''))
       (\<lambda>_ _. io_fail (Network ''down'')) (\<lambda>_ _ _ _. io_fail (Network ''down''))"

theorem resolution_modes_witness:
  "\<exists>e. resolve_schema_key (offline_registry\<lparr>rg_lookup_schema := \<lambda>_ _ _ _. io_return None\<rparr>)
      LookupOnly FramingSchemaGuid ''orders-value'' ''{}'' Avro [] (0 :: nat) = (Inl e, 0) \<and> is_not_found e"
  using resolution_modes [where rg = "offline_registry\<lparr>rg_lookup_schema := \<lambda>_ _ _ _. io_return None\<rparr>"
      and f = FramingSchemaGuid and subject = "''orders-value''" and sch = "''{}''" and ty = Avro and refs = "[]"
      and s = "0 :: nat" and s' = 0 and m = LookupOnly and reg = "\<lambda>_ _ _ _. io_return (SchemaId 2)"
      and lk = "\<lambda>_ _ _ _. io_return None" and lt = "\<lambda>_. io_return undefined"]
  by auto

text \<open>
  No identifier is fabricated. A successful resolution gives an identifier of the kind the
  framing asks for, and it is one the registry reported: under a sound registry it means some
  schema, except for a numeric identifier that a registration has just assigned.
\<close>

theorem resolution_truthful:
  assumes "sound_registry means rg"
    and "resolve_schema_key rg m f subject sch ty refs s = (Inr key, t)"
  shows "(case key of Id _ \<Rightarrow> f = FramingSchemaId | Guid _ \<Rightarrow> f = FramingSchemaGuid) \<and>
    ((\<exists>x. means key x) \<or>
     m = AutoRegister \<and> (\<exists>i s'. key = Id i \<and> rg_register_schema rg subject sch ty refs s = (Inr i, s')))"
  using assms(2)
proof (cases rule: resolve_InrE)
  case (Direct r)
  then show ?thesis
  proof (cases "m = AutoRegister")
    case True
    then obtain i where "rg_register_schema rg subject sch ty refs s = (Inr i, t)" "r = \<lparr>ri_id = Some i, ri_guid = None\<rparr>"
      using Direct(1) by (auto simp: resolve_identity_def io_bind_Inr_iff)
    with True Direct(2) show ?thesis by (auto simp: select_Inr split: schema_key.splits)
  next
    case False
    from resolve_identity_reported [OF assms(1) False Direct(1)] Direct(2)
    show ?thesis by (auto simp: select_Inr split: schema_key.splits)
  qed
next
  case (By_Id r i x s')
  then show ?thesis using by_id_means [OF assms(1) By_Id(5)] by auto
qed

theorem resolution_truthful_witness:
  "\<exists>x. one_means (Guid (SchemaGuid 7)) x"
  using resolution_truthful [OF one_sound, of AutoRegister FramingSchemaGuid "''s''" "''{}''" Avro "[]" 0 "Guid (SchemaGuid 7)" 1]
  by (simp add: resolve_schema_key_def resolve_identity_def learn_guid_def io_bind_def one_registry_def trait_defaults_def
      one_schema_def with_guid_def schema_new_def)

end
