(* ===== verification/Cached_Registry.thy ===== *)
theory Cached_Registry
  imports Registry Cache_Inner
begin

text \<open>
  The caching wrappers: \<open>CachedSchemaRegistry\<close> (\<open>src/cache.rs\<close>) and
  \<open>CachedGlueSchemaRegistry\<close> (\<open>src/glue/mod.rs\<close>). The state of a call is the wrapper's
  caches and the world of the inner client. A call that awaits the inner client and then
  indexes the answer lets other tasks run in between: \<open>during\<close> is what they do to the caches
  in that time. The wrapper as a client is \<open>cached_client\<close>.
\<close>

definition schema_lookup_cancelled_error :: "schema_id \<Rightarrow> sreg_error" where
  "schema_lookup_cancelled_error i = InvalidState (Cancel (IdLookupCancelled (as_u32 i)))"

definition guid_lookup_cancelled_error :: "schema_guid \<Rightarrow> sreg_error" where
  "guid_lookup_cancelled_error g = InvalidState (Cancel (GuidLookupCancelled (as_uuid g)))"

section \<open>The wrapper's state\<close>

record cached_registry =
  cr_cache :: "(schema_id, schema) cache"
  cr_guid_cache :: "(schema_guid, schema) cache"

type_synonym ('s, 'a) cached_io = "(cached_registry \<times> 's, 'a) io"

definition DEFAULT_MAX_CACHE_ENTRIES :: nat where "DEFAULT_MAX_CACHE_ENTRIES = 1000"

definition with_max_entries :: "nat \<Rightarrow> cached_registry" where
  "with_max_entries max_entries =
     (let max_entries = max max_entries 1
      in \<lparr>cr_cache = cache_new (Some max_entries), cr_guid_cache = cache_new (Some max_entries)\<rparr>)"

definition cached_new :: cached_registry where
  "cached_new = with_max_entries DEFAULT_MAX_CACHE_ENTRIES"

record generations =
  gen_id :: u64
  gen_guid :: u64

definition generations_of :: "cached_registry \<Rightarrow> generations" where
  "generations_of c = \<lparr>gen_id = ca_generation (cr_cache c), gen_guid = ca_generation (cr_guid_cache c)\<rparr>"

definition index_by_id :: "schema \<Rightarrow> generations \<Rightarrow> cached_registry \<Rightarrow> cached_registry" where
  "index_by_id x at c =
     (case sch_id x of
        Some i \<Rightarrow> c\<lparr>cr_cache := insert_if_current i x (gen_id at) (cr_cache c)\<rparr>
      | None \<Rightarrow> c)"

definition index_by_guid :: "schema \<Rightarrow> generations \<Rightarrow> cached_registry \<Rightarrow> cached_registry" where
  "index_by_guid x at c =
     (case sch_guid x of
        Some g \<Rightarrow> c\<lparr>cr_guid_cache := insert_if_current g x (gen_guid at) (cr_guid_cache c)\<rparr>
      | None \<Rightarrow> c)"

definition populate :: "schema \<Rightarrow> generations \<Rightarrow> cached_registry \<Rightarrow> cached_registry" where
  "populate x at c = index_by_guid x at (index_by_id x at c)"

definition cached_len :: "cached_registry \<Rightarrow> nat" where
  "cached_len c = cache_len (cr_cache c)"

definition guid_cache_len :: "cached_registry \<Rightarrow> nat" where
  "guid_cache_len c = cache_len (cr_guid_cache c)"

definition cached_is_empty :: "cached_registry \<Rightarrow> bool" where
  "cached_is_empty c \<longleftrightarrow> cache_is_empty (cr_cache c) \<and> cache_is_empty (cr_guid_cache c)"

definition clear_cache :: "cached_registry \<Rightarrow> cached_registry" where
  "clear_cache c =
     c\<lparr>cr_cache := snd (clear schema_lookup_cancelled_error (cr_cache c)),
       cr_guid_cache := snd (clear guid_lookup_cancelled_error (cr_guid_cache c))\<rparr>"

definition invalidate_id :: "schema_id \<Rightarrow> cached_registry \<Rightarrow> cached_registry" where
  "invalidate_id i c = c\<lparr>cr_cache := snd (invalidate schema_lookup_cancelled_error i (cr_cache c))\<rparr>"

definition invalidate_guid :: "schema_guid \<Rightarrow> cached_registry \<Rightarrow> cached_registry" where
  "invalidate_guid g c = c\<lparr>cr_guid_cache := snd (invalidate guid_lookup_cancelled_error g (cr_guid_cache c))\<rparr>"

definition of_subject :: "string \<Rightarrow> schema \<Rightarrow> bool" where
  "of_subject subject x \<longleftrightarrow> sch_subject x = Some subject"

definition invalidate_subject :: "string \<Rightarrow> cached_registry \<Rightarrow> cached_registry" where
  "invalidate_subject subject c =
     c\<lparr>cr_cache := snd (invalidate_matching schema_lookup_cancelled_error (of_subject subject) (cr_cache c)),
       cr_guid_cache := snd (invalidate_matching guid_lookup_cancelled_error (of_subject subject) (cr_guid_cache c))\<rparr>"

section \<open>Operations\<close>

definition cached_get_schema_by_id ::
    "(cached_registry \<Rightarrow> cached_registry) \<Rightarrow> 's registry \<Rightarrow> schema_id \<Rightarrow> ('s, schema) cached_io" where
  "cached_get_schema_by_id during inner i cs =
     (case cs of (c, s) \<Rightarrow>
        (let at = generations_of c
         in case get_or_fetch schema_lookup_cancelled_error i (rg_get_schema_by_id inner i) (cr_cache c, s) of
              (Inl e, (ca, s')) \<Rightarrow> (Inl e, (during (c\<lparr>cr_cache := ca\<rparr>), s'))
            | (Inr x, (ca, s')) \<Rightarrow> (Inr x, (index_by_guid x at (during (c\<lparr>cr_cache := ca\<rparr>)), s'))))"

definition cached_get_schema_by_guid ::
    "(cached_registry \<Rightarrow> cached_registry) \<Rightarrow> 's registry \<Rightarrow> schema_guid \<Rightarrow> ('s, schema) cached_io" where
  "cached_get_schema_by_guid during inner g cs =
     (case cs of (c, s) \<Rightarrow>
        (let at = generations_of c
         in case get_or_fetch guid_lookup_cancelled_error g (rg_get_schema_by_guid inner g) (cr_guid_cache c, s) of
              (Inl e, (ca, s')) \<Rightarrow> (Inl e, (during (c\<lparr>cr_guid_cache := ca\<rparr>), s'))
            | (Inr x, (ca, s')) \<Rightarrow> (Inr x, (index_by_id x at (during (c\<lparr>cr_guid_cache := ca\<rparr>)), s'))))"

text \<open>\<open>get_latest_schema\<close> and \<open>get_schema_by_version\<close>: always fetch, then populate.\<close>

definition fetch_and_populate ::
    "(cached_registry \<Rightarrow> cached_registry) \<Rightarrow> ('s, schema) io \<Rightarrow> ('s, schema) cached_io" where
  "fetch_and_populate during fetch cs =
     (case cs of (c, s) \<Rightarrow>
        (let at = generations_of c
         in case fetch s of
              (Inl e, s') \<Rightarrow> (Inl e, (during c, s'))
            | (Inr x, s') \<Rightarrow> (Inr x, (populate x at (during c), s'))))"

text \<open>Calls that only reach the inner client, and \<open>delete_*\<close>, which invalidate afterwards.\<close>

definition pass_through :: "('s, 'a) io \<Rightarrow> ('s, 'a) cached_io" where
  "pass_through m cs = (case cs of (c, s) \<Rightarrow> (case m s of (r, s') \<Rightarrow> (r, (c, s'))))"

definition delete_then_invalidate ::
    "(cached_registry \<Rightarrow> cached_registry) \<Rightarrow> string \<Rightarrow> ('s, 'a) io \<Rightarrow> ('s, 'a) cached_io" where
  "delete_then_invalidate during subject delete cs =
     (case cs of (c, s) \<Rightarrow>
        (case delete s of
           (Inl e, s') \<Rightarrow> (Inl e, (during c, s'))
         | (Inr d, s') \<Rightarrow> (Inr d, (invalidate_subject subject (during c), s'))))"

definition cached_client :: "(cached_registry \<Rightarrow> cached_registry) \<Rightarrow> 's registry \<Rightarrow> (cached_registry \<times> 's) registry" where
  "cached_client during inner =
     \<lparr>rg_get_schema_by_id = cached_get_schema_by_id during inner,
      rg_get_schema_by_guid = cached_get_schema_by_guid during inner,
      rg_get_latest_schema = (\<lambda>subject. fetch_and_populate during (rg_get_latest_schema inner subject)),
      rg_get_schema_by_version = (\<lambda>subject v. fetch_and_populate during (rg_get_schema_by_version inner subject v)),
      rg_lookup_schema = (\<lambda>subject sch ty refs. pass_through (rg_lookup_schema inner subject sch ty refs)),
      rg_register_schema = (\<lambda>subject sch ty refs. pass_through (rg_register_schema inner subject sch ty refs)),
      rg_check_compatibility = (\<lambda>subject sch ty refs. pass_through (rg_check_compatibility inner subject sch ty refs)),
      rg_delete_subject = (\<lambda>subject p. delete_then_invalidate during subject (rg_delete_subject inner subject p)),
      rg_delete_version = (\<lambda>subject v p. delete_then_invalidate during subject (rg_delete_version inner subject v p)),
      rg_get_subjects = pass_through (rg_get_subjects inner),
      rg_get_versions = (\<lambda>subject. pass_through (rg_get_versions inner subject)),
      rg_get_compatibility = (\<lambda>subject. pass_through (rg_get_compatibility inner subject)),
      rg_set_compatibility = (\<lambda>subject level. pass_through (rg_set_compatibility inner subject level)),
      rg_health_check = pass_through (rg_health_check inner)\<rparr>"

section \<open>Warming\<close>

text \<open>
  \<open>warm_cache\<close>: the identifiers in the order the hash set gives them, each fetched unless it
  is cached. The fetches run one after another here; \<open>Warm_Concurrency\<close> treats those that overlap.
\<close>

fun warm_each ::
    "('k \<Rightarrow> sreg_error) \<Rightarrow> ('k \<Rightarrow> ('s, 'v) io) \<Rightarrow> 'k list \<Rightarrow> ('k, 'v) cache \<times> 's \<Rightarrow>
     ('k \<times> sreg_error) list \<times> (('k, 'v) cache \<times> 's)" where
  "warm_each mk fetch [] cs = ([], cs)"
| "warm_each mk fetch (k # ks) cs =
     (case get_or_fetch mk k (fetch k) cs of
        (Inl e, cs') \<Rightarrow> (let (failures, cs'') = warm_each mk fetch ks cs' in ((k, e) # failures, cs''))
      | (Inr _, cs') \<Rightarrow> warm_each mk fetch ks cs')"

definition warm_cache ::
    "(schema_id list \<Rightarrow> schema_id list) \<Rightarrow> 's registry \<Rightarrow> schema_id list \<Rightarrow> cached_registry \<times> 's \<Rightarrow>
     ((schema_id \<times> sreg_error) list + unit) \<times> (cached_registry \<times> 's)" where
  "warm_cache hash_order inner ids cs =
     (case cs of (c, s) \<Rightarrow>
        (let unique = hash_order (remdups ids)
         in if unique = [] then (Inr (), (c, s))
            else case warm_each schema_lookup_cancelled_error (rg_get_schema_by_id inner) unique (cr_cache c, s) of
                   (failures, (ca, s')) \<Rightarrow>
                     ((if failures = [] then Inr () else Inl failures), (c\<lparr>cr_cache := ca\<rparr>, s'))))"

definition any_cache_warm ::
    "(schema_id list \<Rightarrow> schema_id list) \<Rightarrow> 's registry \<Rightarrow> schema_id list \<Rightarrow> ('s, unit) cached_io" where
  "any_cache_warm hash_order inner ids cs =
     (case warm_cache hash_order inner ids cs of
        (Inl failures, cs') \<Rightarrow> (Inl (InvalidState (Cancel (WarmCacheFailed (length failures)))), cs')
      | (Inr u, cs') \<Rightarrow> (Inr u, cs'))"

section \<open>The Glue wrapper\<close>

type_synonym glue_cache = "(glue_version_id, glue_schema) cache"

definition glue_schema_lookup_cancelled_error :: "glue_version_id \<Rightarrow> sreg_error" where
  "glue_schema_lookup_cancelled_error v = InvalidState (Cancel (GlueLookupCancelled (version_uuid v)))"

definition DEFAULT_MAX_GLUE_CACHE_ENTRIES :: nat where "DEFAULT_MAX_GLUE_CACHE_ENTRIES = 1000"

definition glue_with_max_entries :: "nat \<Rightarrow> glue_cache" where
  "glue_with_max_entries max_entries = cache_new (Some (max max_entries 1))"

definition glue_clear_cache :: "glue_cache \<Rightarrow> glue_cache" where
  "glue_clear_cache c = snd (clear glue_schema_lookup_cancelled_error c)"

definition glue_invalidate :: "glue_version_id \<Rightarrow> glue_cache \<Rightarrow> glue_cache" where
  "glue_invalidate v c = snd (invalidate glue_schema_lookup_cancelled_error v c)"

definition glue_get_schema_by_version_id ::
    "'s glue_registry \<Rightarrow> glue_version_id \<Rightarrow> (glue_cache \<times> 's, glue_schema) io" where
  "glue_get_schema_by_version_id inner v =
     get_or_fetch glue_schema_lookup_cancelled_error v (gr_get_schema_by_version_id inner v)"

definition glue_pass_through :: "('s, 'a) io \<Rightarrow> (glue_cache \<times> 's, 'a) io" where
  "glue_pass_through m cs = (case cs of (c, s) \<Rightarrow> (case m s of (r, s') \<Rightarrow> (r, (c, s'))))"

definition cached_glue_client :: "'s glue_registry \<Rightarrow> (glue_cache \<times> 's) glue_registry" where
  "cached_glue_client inner =
     \<lparr>gr_get_schema_by_version_id = glue_get_schema_by_version_id inner,
      gr_register_schema = (\<lambda>name sch format. glue_pass_through (gr_register_schema inner name sch format)),
      gr_health_check = glue_pass_through (gr_health_check inner)\<rparr>"

definition glue_warm_cache ::
    "(glue_version_id list \<Rightarrow> glue_version_id list) \<Rightarrow> 's glue_registry \<Rightarrow> glue_version_id list \<Rightarrow> glue_cache \<times> 's \<Rightarrow>
     ((glue_version_id \<times> sreg_error) list + unit) \<times> (glue_cache \<times> 's)" where
  "glue_warm_cache hash_order inner ids cs =
     (let unique = hash_order (remdups ids)
      in if unique = [] then (Inr (), cs)
         else case warm_each glue_schema_lookup_cancelled_error (gr_get_schema_by_version_id inner) unique cs of
                (failures, cs') \<Rightarrow> ((if failures = [] then Inr () else Inl failures), cs'))"

section \<open>Lemmas\<close>

lemma insert_if_current_idle:
  "cache_idle c \<Longrightarrow> cache_idle (insert_if_current k v gen c)"
  by (auto simp: insert_if_current_def cache_idle_def cache_ok_def intro: store_ok_insert)

lemma insert_if_current_get:
  assumes "cache_idle c"
  shows "cache_get (insert_if_current k v gen c) k' = Some w \<Longrightarrow> k' = k \<and> w = v \<or> cache_get c k' = Some w"
    and "ca_generation c = gen \<Longrightarrow> cache_get (insert_if_current k v gen c) k = Some v"
  using assms insert_locked_get [of "ca_max_entries c" "ca_store c" k v k' w]
    insert_locked_stored [of "ca_max_entries c" "ca_store c" k v]
  by (auto simp: insert_if_current_def cache_idle_def cache_ok_def cache_get_def split: if_splits)

lemma idle_invalidate: "cache_idle c \<Longrightarrow> cache_idle (snd (invalidate mk k c))"
  using invalidate_ok [of c mk k]
  by (auto simp: cache_idle_def invalidate_def remove_in_flight_def bump_generation_def Let_def)

lemma idle_clear: "cache_idle c \<Longrightarrow> cache_idle (snd (clear mk c))"
  using clear_ok [of c mk]
  by (auto simp: cache_idle_def clear_def drain_in_flight_def bump_generation_def Let_def)

lemma remove_all_in_flight_none: "ca_in_flight c = [] \<Longrightarrow> remove_all_in_flight ks c = ([], c)"
  by (induction ks) auto

lemma idle_invalidate_matching:
  assumes "cache_idle c" shows "cache_idle (snd (invalidate_matching mk P c))"
  using assms
  by (auto simp: cache_idle_def cache_ok_def invalidate_matching_def bump_generation_def Let_def
      remove_all_in_flight_none intro: store_ok_remove_doomed)

lemma generation_after:
  "ca_generation (snd (invalidate mk k c)) = ca_generation c + 1"
  "ca_generation (snd (clear mk c)) = ca_generation c + 1"
  "ca_generation (snd (invalidate_matching mk P c)) = ca_generation c + 1"
  by (simp_all add: invalidate_def clear_def invalidate_matching_def remove_in_flight_def drain_in_flight_def
      bump_generation_def Let_def case_prod_beta remove_all_in_flight_frame)

lemma get_or_fetch_generation:
  "get_or_fetch mk k f (c, s) = (r, (c', s')) \<Longrightarrow> ca_generation c' = ca_generation c"
  by (auto simp: get_or_fetch_def join_or_lead_def take_in_flight_def store_fetched_def Let_def
      split: option.splits role.splits prod.splits sum.splits if_splits)

section \<open>Coherence\<close>

text \<open>Every entry of a cache satisfies an invariant, and no fetch is in flight.\<close>

definition entries_ok :: "('k \<Rightarrow> 'v \<Rightarrow> bool) \<Rightarrow> ('k, 'v) cache \<Rightarrow> bool" where
  "entries_ok P c \<longleftrightarrow> cache_idle c \<and> (\<forall>k v. cache_get c k = Some v \<longrightarrow> P k v)"

lemma entries_ok_new: "0 < n \<Longrightarrow> entries_ok P (cache_new (Some n))"
  by (simp add: entries_ok_def cache_idle_def cache_ok_new) (simp add: cache_new_def cache_get_def)

lemma entries_ok_insert: "entries_ok P c \<Longrightarrow> P k v \<Longrightarrow> entries_ok P (insert_if_current k v gen c)"
  unfolding entries_ok_def using insert_if_current_get(1) insert_if_current_idle by metis

lemma entries_ok_invalidate: "entries_ok P c \<Longrightarrow> entries_ok P (snd (invalidate mk k c))"
  by (auto simp: entries_ok_def invalidate_get intro: idle_invalidate split: if_splits)

lemma entries_ok_clear: "entries_ok P c \<Longrightarrow> entries_ok P (snd (clear mk c))"
  by (auto simp: entries_ok_def clear_get intro: idle_clear)

lemma entries_ok_invalidate_matching:
  assumes "entries_ok P c" shows "entries_ok P (snd (invalidate_matching mk Q c))"
proof -
  have "cache_ok c" using assms by (simp add: entries_ok_def cache_idle_def)
  from assms invalidate_matching_get [OF this, of mk Q] show ?thesis
    by (auto simp: entries_ok_def intro: idle_invalidate_matching split: option.splits if_splits)
qed

lemma entries_ok_fetch:
  assumes "entries_ok P c" and "\<And>v s'. f s = (Inr v, s') \<Longrightarrow> P k v" and "get_or_fetch mk k f (c, s) = (r, (c', s'))"
  shows "entries_ok P c' \<and> (\<forall>v. r = Inr v \<longrightarrow> P k v)"
  using fc.coherent [of c f s P k mk r c' s'] assms unfolding entries_ok_def by blast

text \<open>Every cached schema is one that the registry may give for its identifier.\<close>

definition names_truly :: "(schema_key \<Rightarrow> schema \<Rightarrow> bool) \<Rightarrow> schema_key \<Rightarrow> schema \<Rightarrow> bool" where
  "names_truly means key x \<longleftrightarrow> means key x \<and> reports_truly means x"

definition coherent :: "(schema_key \<Rightarrow> schema \<Rightarrow> bool) \<Rightarrow> cached_registry \<Rightarrow> bool" where
  "coherent means c \<longleftrightarrow>
     entries_ok (\<lambda>i. names_truly means (Id i)) (cr_cache c) \<and>
     entries_ok (\<lambda>g. names_truly means (Guid g)) (cr_guid_cache c)"

lemma reports_names:
  "reports_truly means x \<Longrightarrow> sch_id x = Some i \<Longrightarrow> names_truly means (Id i) x"
  "reports_truly means x \<Longrightarrow> sch_guid x = Some g \<Longrightarrow> names_truly means (Guid g) x"
  by (simp_all add: names_truly_def reports_truly_def)

lemma lookup_names:
  "sound_registry means rg \<Longrightarrow> get_schema_by_key rg key s = (Inr x, s') \<Longrightarrow> names_truly means key x"
  using sound_lookup sound_reports(1) by (fastforce simp: names_truly_def)

lemma coherent_new [inv_intros]: "coherent means (with_max_entries n)"
  by (simp add: coherent_def with_max_entries_def Let_def entries_ok_new)

lemma coherent_index [inv_intros]:
  assumes "coherent means c" and "reports_truly means x"
  shows "coherent means (index_by_id x at c)" and "coherent means (index_by_guid x at c)"
  using assms
  by (auto simp: coherent_def index_by_id_def index_by_guid_def split: option.splits
      intro!: entries_ok_insert reports_names)

lemma coherent_populate [inv_intros]:
  "coherent means c \<Longrightarrow> reports_truly means x \<Longrightarrow> coherent means (populate x at c)"
  by (simp add: populate_def coherent_index)

lemma coherent_invalidations [inv_intros]:
  assumes "coherent means c"
  shows "coherent means (invalidate_id i c)" and "coherent means (invalidate_guid g c)"
    and "coherent means (clear_cache c)" and "coherent means (invalidate_subject subject c)"
  using assms
  by (auto simp: coherent_def invalidate_id_def invalidate_guid_def clear_cache_def invalidate_subject_def
      intro: entries_ok_invalidate entries_ok_clear entries_ok_invalidate_matching)

text \<open>One coherence lemma for each kind of call.\<close>

lemma by_id_coherent:
  assumes "sound_registry means rg" and "coherent means c" and "\<forall>c. coherent means c \<longrightarrow> coherent means (during c)"
    and "cached_get_schema_by_id during rg i (c, s) = (r, (c', s'))"
  shows "coherent means c' \<and> (\<forall>x. r = Inr x \<longrightarrow> names_truly means (Id i) x)"
proof -
  obtain q ca t where g: "get_or_fetch schema_lookup_cancelled_error i (rg_get_schema_by_id rg i) (cr_cache c, s) = (q, (ca, t))"
    by (metis surj_pair)
  have "entries_ok (\<lambda>i. names_truly means (Id i)) ca \<and> (\<forall>x. q = Inr x \<longrightarrow> names_truly means (Id i) x)"
    using assms(2) lookup_names [OF assms(1), of "Id i" s]
    by (intro entries_ok_fetch [OF _ _ g]) (auto simp: coherent_def get_schema_by_key_def)
  then have "coherent means (c\<lparr>cr_cache := ca\<rparr>)" "\<forall>x. q = Inr x \<longrightarrow> names_truly means (Id i) x"
    using assms(2) by (auto simp: coherent_def)
  then show ?thesis
    using assms(3,4) g coherent_index(2)
    by (auto simp: cached_get_schema_by_id_def Let_def names_truly_def split: sum.splits)
qed

lemma by_guid_coherent:
  assumes "sound_registry means rg" and "coherent means c" and "\<forall>c. coherent means c \<longrightarrow> coherent means (during c)"
    and "cached_get_schema_by_guid during rg g (c, s) = (r, (c', s'))"
  shows "coherent means c' \<and> (\<forall>x. r = Inr x \<longrightarrow> names_truly means (Guid g) x)"
proof -
  obtain q ca t where f: "get_or_fetch guid_lookup_cancelled_error g (rg_get_schema_by_guid rg g) (cr_guid_cache c, s) = (q, (ca, t))"
    by (metis surj_pair)
  have "entries_ok (\<lambda>g. names_truly means (Guid g)) ca \<and> (\<forall>x. q = Inr x \<longrightarrow> names_truly means (Guid g) x)"
    using assms(2) lookup_names [OF assms(1), of "Guid g" s]
    by (intro entries_ok_fetch [OF _ _ f]) (auto simp: coherent_def get_schema_by_key_def)
  then have "coherent means (c\<lparr>cr_guid_cache := ca\<rparr>)" "\<forall>x. q = Inr x \<longrightarrow> names_truly means (Guid g) x"
    using assms(2) by (auto simp: coherent_def)
  then show ?thesis
    using assms(3,4) f coherent_index(1)
    by (auto simp: cached_get_schema_by_guid_def Let_def names_truly_def split: sum.splits)
qed

lemma cached_client_sel [simp]:
  "rg_get_schema_by_id (cached_client during rg) = cached_get_schema_by_id during rg"
  "rg_get_schema_by_guid (cached_client during rg) = cached_get_schema_by_guid during rg"
  "rg_get_latest_schema (cached_client during rg) subject = fetch_and_populate during (rg_get_latest_schema rg subject)"
  "rg_get_schema_by_version (cached_client during rg) subject v =
     fetch_and_populate during (rg_get_schema_by_version rg subject v)"
  "rg_register_schema (cached_client during rg) subject sch ty refs = pass_through (rg_register_schema rg subject sch ty refs)"
  "rg_delete_subject (cached_client during rg) subject p =
     delete_then_invalidate during subject (rg_delete_subject rg subject p)"
  "rg_delete_version (cached_client during rg) subject v p =
     delete_then_invalidate during subject (rg_delete_version rg subject v p)"
  by (simp_all add: cached_client_def)

lemma pass_through_frame [simp]: "fst (snd (pass_through m (c, s))) = c"
  by (simp add: pass_through_def case_prod_beta)

lemma surjective_pairs: "m = (fst m, (fst (snd m), snd (snd m)))"
  by simp

lemma by_key_coherent:
  assumes "sound_registry means rg" and "coherent means c" and "\<forall>c. coherent means c \<longrightarrow> coherent means (during c)"
  shows "coherent means (fst (snd (get_schema_by_key (cached_client during rg) key (c, s)))) \<and>
    (\<forall>x. fst (get_schema_by_key (cached_client during rg) key (c, s)) = Inr x \<longrightarrow> names_truly means key x)"
  using by_id_coherent [where during = during, OF assms surjective_pairs] by_guid_coherent [where during = during, OF assms surjective_pairs]
  by (cases key) (simp_all add: get_schema_by_key_def cached_client_def)

lemma fetch_and_populate_coherent:
  assumes "answers_truly means m" and "coherent means c" and "\<forall>c. coherent means c \<longrightarrow> coherent means (during c)"
    and "fetch_and_populate during m (c, s) = (r, (c', s'))"
  shows "coherent means c' \<and> (\<forall>x. r = Inr x \<longrightarrow> reports_truly means x)"
proof (cases "m s")
  case (Pair q t)
  have "reports_truly means x" if "q = Inr x" for x
    using assms(1) Pair that unfolding answers_truly_def by blast
  then show ?thesis
    using assms(2-4) Pair coherent_populate
    by (auto simp: fetch_and_populate_def Let_def split: sum.splits)
qed

lemma delete_coherent:
  assumes "coherent means c" and "\<forall>c. coherent means c \<longrightarrow> coherent means (during c)"
    and "delete_then_invalidate during subject m (c, s) = (r, (c', s'))"
  shows "coherent means c'"
  using assms coherent_invalidations(4)
  by (auto simp: delete_then_invalidate_def split: prod.splits sum.splits)

lemma warm_each_coherent:
  assumes "entries_ok P c" and "\<And>k v s s'. k \<in> set ks \<Longrightarrow> fetch k s = (Inr v, s') \<Longrightarrow> P k v"
  shows "entries_ok P (fst (snd (warm_each mk fetch ks (c, s))))"
  using assms
proof (induction ks arbitrary: c s)
  case (Cons k ks)
  obtain r c1 s1 where f: "get_or_fetch mk k (fetch k) (c, s) = (r, (c1, s1))" by (metis surj_pair)
  have "entries_ok P c1" using entries_ok_fetch [OF Cons.prems(1) _ f] Cons.prems(2) by simp
  from Cons.IH [OF this] Cons.prems(2) have "entries_ok P (fst (snd (warm_each mk fetch ks (c1, s1))))" by simp
  then show ?case using f by (cases r) (simp_all add: case_prod_beta Let_def)
qed simp

lemma warm_cache_coherent:
  assumes "sound_registry means rg" and "coherent means c"
  shows "coherent means (fst (snd (warm_cache hash_order rg ids (c, s))))"
    and "coherent means (fst (snd (any_cache_warm hash_order rg ids (c, s))))"
proof -
  show one: "coherent means (fst (snd (warm_cache hash_order rg ids (c, s))))"
  proof -
    let ?w = "warm_each schema_lookup_cancelled_error (rg_get_schema_by_id rg) (hash_order (remdups ids)) (cr_cache c, s)"
    have "entries_ok (\<lambda>i. names_truly means (Id i)) (fst (snd ?w))"
      using assms(2) lookup_names [OF assms(1), of "Id _"]
      by (intro warm_each_coherent) (auto simp: coherent_def get_schema_by_key_def)
    with assms(2) show ?thesis
      by (simp add: warm_cache_def Let_def coherent_def case_prod_beta)
  qed
  then show "coherent means (fst (snd (any_cache_warm hash_order rg ids (c, s))))"
    by (auto simp: any_cache_warm_def split: prod.splits sum.splits)
qed

text \<open>The same, with the result and the state a call leaves taken apart.\<close>

lemma keeps_key:
  assumes "sound_registry means rg" and "coherent means c" and "\<forall>c. coherent means c \<longrightarrow> coherent means (during c)"
  shows "case get_schema_by_key (cached_client during rg) key (c, s) of (r, (c', s')) \<Rightarrow>
    coherent means c' \<and> (\<forall>x. r = Inr x \<longrightarrow> means key x \<and> reports_truly means x)"
  using by_key_coherent [where during = during and key = key and s = s, OF assms] by (simp add: case_prod_beta names_truly_def)

lemma keeps_fetch:
  assumes "answers_truly means m" and "coherent means c" and "\<forall>c. coherent means c \<longrightarrow> coherent means (during c)"
  shows "case fetch_and_populate during m (c, s) of (r, (c', s')) \<Rightarrow>
    coherent means c' \<and> (\<forall>x. r = Inr x \<longrightarrow> reports_truly means x)"
  using fetch_and_populate_coherent [OF assms surjective_pairs] by (simp add: case_prod_beta)

lemma keeps_delete:
  assumes "coherent means c" and "\<forall>c. coherent means c \<longrightarrow> coherent means (during c)"
  shows "case delete_then_invalidate during subject m (c, s) of (r, (c', s')) \<Rightarrow> coherent means c'"
  using delete_coherent [OF assms surjective_pairs] by (simp add: case_prod_beta)

lemma keeps_pass:
  assumes "coherent means c" and "\<And>r s'. m s = (r, s') \<Longrightarrow> P r"
  shows "case pass_through m (c, s) of (r, (c', s')) \<Rightarrow> coherent means c' \<and> P r"
  using assms by (simp add: pass_through_def split: prod.split)

section \<open>Local answers\<close>

text \<open>A lookup is local when it answers at once, in every world.\<close>

definition local_answer :: "('s, schema) cached_io \<Rightarrow> cached_registry \<Rightarrow> schema \<Rightarrow> bool" where
  "local_answer m c x \<longleftrightarrow> (\<forall>s. \<exists>c'. m (c, s) = (Inr x, (c', s)))"

lemma local_by_id:
  "cache_get (cr_cache c) i = Some x \<Longrightarrow> local_answer (rg_get_schema_by_id (cached_client during rg) i) c x"
  by (simp add: local_answer_def cached_client_def cached_get_schema_by_id_def get_or_fetch_hit)

lemma local_by_guid:
  "cache_get (cr_guid_cache c) g = Some x \<Longrightarrow> local_answer (rg_get_schema_by_guid (cached_client during rg) g) c x"
  by (simp add: local_answer_def cached_client_def cached_get_schema_by_guid_def get_or_fetch_hit)

definition idle :: "cached_registry \<Rightarrow> bool" where
  "idle c \<longleftrightarrow> cache_idle (cr_cache c) \<and> cache_idle (cr_guid_cache c)"

lemma idle_with_max_entries [simp]: "idle (with_max_entries n)"
  using coherent_new [of "\<lambda>_ _. True" n] by (simp add: idle_def coherent_def entries_ok_def)

lemma index_frame [simp]:
  "cr_guid_cache (index_by_id x at c) = cr_guid_cache c"
  "cr_cache (index_by_guid x at c) = cr_cache c"
  by (simp_all add: index_by_id_def index_by_guid_def split: option.splits)

lemma index_by_id_get:
  assumes "cache_idle (cr_cache c)" and "sch_id x = Some i" and "ca_generation (cr_cache c) = gen_id at"
  shows "cache_get (cr_cache (index_by_id x at c)) i = Some x"
  using insert_if_current_get(2) [OF assms(1,3)] assms(2) by (simp add: index_by_id_def)

lemma index_by_guid_get:
  assumes "cache_idle (cr_guid_cache c)" and "sch_guid x = Some g" and "ca_generation (cr_guid_cache c) = gen_guid at"
  shows "cache_get (cr_guid_cache (index_by_guid x at c)) g = Some x"
  using insert_if_current_get(2) [OF assms(1,3)] assms(2) by (simp add: index_by_guid_def)

lemma populate_get:
  assumes "idle c"
  shows "sch_id x = Some i \<Longrightarrow> cache_get (cr_cache (populate x (generations_of c) c)) i = Some x"
    and "sch_guid x = Some g \<Longrightarrow> cache_get (cr_guid_cache (populate x (generations_of c) c)) g = Some x"
  using assms
  by (simp_all add: populate_def idle_def index_by_id_get index_by_guid_get generations_of_def)

lemma by_id_cached:
  assumes "idle c" and "cached_get_schema_by_id (\<lambda>c. c) rg i (c, s) = (Inr x, (c', s'))"
  shows "cache_get (cr_cache c') i = Some x" and "sch_guid x = Some g \<Longrightarrow> cache_get (cr_guid_cache c') g = Some x"
proof -
  obtain q ca t where f: "get_or_fetch schema_lookup_cancelled_error i (rg_get_schema_by_id rg i) (cr_cache c, s) = (q, (ca, t))"
    by (metis surj_pair)
  have q: "q = Inr x" and c': "c' = index_by_guid x (generations_of c) (c\<lparr>cr_cache := ca\<rparr>)"
    using assms(2) f by (auto simp: cached_get_schema_by_id_def Let_def split: sum.splits)
  have "cache_idle (cr_cache c)" using assms(1) by (simp add: idle_def)
  from this f have "cache_get ca i = Some x"
    unfolding q by (cases rule: fc.fetch_cases) auto
  then show "cache_get (cr_cache c') i = Some x" by (simp add: c')
  show "sch_guid x = Some g \<Longrightarrow> cache_get (cr_guid_cache c') g = Some x"
    unfolding c' using assms(1) by (intro index_by_guid_get) (simp_all add: idle_def generations_of_def)
qed

lemma by_guid_cached:
  assumes "idle c" and "cached_get_schema_by_guid (\<lambda>c. c) rg g (c, s) = (Inr x, (c', s'))"
  shows "cache_get (cr_guid_cache c') g = Some x" and "sch_id x = Some i \<Longrightarrow> cache_get (cr_cache c') i = Some x"
proof -
  obtain q ca t where f: "get_or_fetch guid_lookup_cancelled_error g (rg_get_schema_by_guid rg g) (cr_guid_cache c, s) = (q, (ca, t))"
    by (metis surj_pair)
  have q: "q = Inr x" and c': "c' = index_by_id x (generations_of c) (c\<lparr>cr_guid_cache := ca\<rparr>)"
    using assms(2) f by (auto simp: cached_get_schema_by_guid_def Let_def split: sum.splits)
  have "cache_idle (cr_guid_cache c)" using assms(1) by (simp add: idle_def)
  from this f have "cache_get ca g = Some x"
    unfolding q by (cases rule: fc.fetch_cases) auto
  then show "cache_get (cr_guid_cache c') g = Some x" by (simp add: c')
  show "sch_id x = Some i \<Longrightarrow> cache_get (cr_cache c') i = Some x"
    unfolding c' using assms(1) by (intro index_by_id_get) (simp_all add: idle_def generations_of_def)
qed

lemma invalidate_subject_get:
  assumes "idle c"
  shows "cache_get (cr_cache (invalidate_subject subject c)) i =
      (case cache_get (cr_cache c) i of Some x \<Rightarrow> if of_subject subject x then None else Some x | None \<Rightarrow> None)"
    and "cache_get (cr_guid_cache (invalidate_subject subject c)) g =
      (case cache_get (cr_guid_cache c) g of Some x \<Rightarrow> if of_subject subject x then None else Some x | None \<Rightarrow> None)"
  using assms by (simp_all add: invalidate_subject_def idle_def cache_idle_def invalidate_matching_get)

lemma populate_stale:
  assumes "ca_generation (cr_cache c) \<noteq> gen_id at"
  shows "cr_cache (populate x at c) = cr_cache c"
  using assms by (simp add: populate_def index_by_id_def insert_if_current_def split: option.splits)

lemma populate_stale_guid:
  assumes "ca_generation (cr_guid_cache c) \<noteq> gen_guid at"
  shows "cr_guid_cache (populate x at c) = cr_guid_cache c"
  using assms by (simp add: populate_def index_by_guid_def insert_if_current_def split: option.splits)

section \<open>Warming without eviction\<close>

lemma insert_locked_roomy:
  assumes "store_ok (Some mx) st" and "hm_len (st_entries st) < mx"
  shows "hm_get (st_entries (insert_locked (Some mx) k v st)) = (hm_get (st_entries st))(k \<mapsto> v) \<and>
    hm_len (st_entries (insert_locked (Some mx) k v st)) \<le> hm_len (st_entries st) + 1"
proof (cases "hm_get (st_entries st) k")
  case None
  let ?e = "hm_put k v (st_entries st)" and ?o = "st_order st @ [k]"
  have pre: "hm_wf ?e" "distinct ?o" "set ?o = dom (hm_get ?e)"
    using assms(1) None by (auto simp: store_ok_def hm.dom_put)
  have len: "hm_len ?e = hm_len (st_entries st) + 1"
    using assms(1) None by (simp add: store_ok_def hm.len_put)
  then have "\<not> mx < hm_len ?e" using assms(2) by simp
  then have "evict_loop mx ?e ?o = \<lparr>st_entries = ?e, st_order = ?o\<rparr>"
    by (cases ?o) simp_all
  then show ?thesis using None len by (simp add: insert_locked_def Let_def fun_eq_iff)
next
  case (Some w)
  then show ?thesis
    using assms(1) by (simp add: insert_locked_def Let_def fun_eq_iff hm.len_put store_ok_def)
qed

lemma fetch_roomy:
  assumes "cache_idle c" and "ca_max_entries c = Some mx" and "cache_len c < mx"
    and "get_or_fetch mk k f (c, s) = (r, (c', s'))"
  shows "cache_idle c' \<and> ca_max_entries c' = Some mx \<and> cache_len c' \<le> cache_len c + 1 \<and>
    (\<forall>k'. k' \<noteq> k \<longrightarrow> cache_get c' k' = cache_get c k') \<and>
    (\<forall>v. r = Inr v \<longrightarrow> cache_get c' k = Some v) \<and> (\<forall>e. r = Inl e \<longrightarrow> cache_get c' = cache_get c \<and> cache_get c k = None)"
proof (cases "cache_get c k")
  case (Some v)
  then show ?thesis using assms get_or_fetch_hit [OF Some, of mk f s] by auto
next
  case None
  obtain q t where f: "f s = (q, t)" by fastforce
  have st: "store_ok (Some mx) (ca_store c)" and len: "hm_len (st_entries (ca_store c)) < mx"
    using assms(1-3) by (auto simp: cache_idle_def cache_ok_def cache_len_def)
  show ?thesis
  proof (cases q)
    case (Inl e)
    then show ?thesis
      using get_or_fetch_err [OF assms(1) None, of f s e t mk] f assms None
      by (auto simp: cache_idle_def cache_ok_def cache_get_def cache_len_def)
  next
    case (Inr v)
    then show ?thesis
      using get_or_fetch_ok [OF assms(1) None, of f s v t mk] f assms None insert_locked_roomy [OF st len, of k v]
        store_ok_insert [OF st, of k v]
      by (auto simp: cache_idle_def cache_ok_def cache_get_def cache_len_def)
  qed
qed


lemma warm_each_complete:
  assumes "cache_idle c" and "ca_max_entries c = Some mx" and "cache_len c + length ks \<le> mx" and "distinct ks"
    and "warm_each mk fetch ks (c, s) = (failures, (c', s'))"
  shows "(\<forall>k \<in> set ks. (cache_get c' k = None) = (\<exists>e. (k, e) \<in> set failures)) \<and> fst ` set failures \<subseteq> set ks \<and>
    (\<forall>k. k \<notin> set ks \<longrightarrow> cache_get c' k = cache_get c k)"
  using assms
proof (induction ks arbitrary: c s failures)
  case Nil
  then show ?case by simp
next
  case (Cons k ks)
  obtain r c1 s1 where f: "get_or_fetch mk k (fetch k) (c, s) = (r, (c1, s1))" by (metis surj_pair)
  define fs where "fs = fst (warm_each mk fetch ks (c1, s1))"
  have rest: "warm_each mk fetch ks (c1, s1) = (fs, (c', s'))"
    and failures: "failures = (case r of Inl e \<Rightarrow> (k, e) # fs | Inr _ \<Rightarrow> fs)"
    using Cons.prems(5) f by (auto simp: case_prod_beta Let_def fs_def prod_eq_iff split: sum.splits)
  have "cache_len c < mx" using Cons.prems(3) by simp
  note room = fetch_roomy [OF Cons.prems(1,2) this f]
  then have "cache_len c1 + length ks \<le> mx" using Cons.prems(3) by simp
  with Cons.IH [OF _ _ this _ rest] Cons.prems(4) room
  have ih: "\<forall>k \<in> set ks. (cache_get c' k = None) = (\<exists>e. (k, e) \<in> set fs)" "fst ` set fs \<subseteq> set ks"
    "\<forall>k. k \<notin> set ks \<longrightarrow> cache_get c' k = cache_get c1 k"
    by auto
  have "k \<notin> set ks" using Cons.prems(4) by simp
  then have "cache_get c' k = cache_get c1 k" "\<nexists>e. (k, e) \<in> set fs" using ih by force+
  with ih room failures \<open>k \<notin> set ks\<close> show ?case by (cases r) auto
qed

section \<open>Properties\<close>

text \<open>
  C8. The caching client is as sound as the registry behind it. Suppose that identifiers mean what
  the inner registry says they mean, and that what other tasks do to the caches during a call
  keeps them coherent (every entry is a schema its identifier means, with identifiers of its own
  that are true), as every operation here does. A new wrapper is coherent, and every operation of
  the wrapper, the fourteen of the trait, the two forms of warming, the three invalidations and
  the clearing, keeps it so. Every lookup by identifier, hit or miss, gives a schema that its
  identifier means; and every schema that any operation returns, from the caches or not, reports
  only identifiers that mean it.
\<close>

theorem cached_registry_sound:
  assumes "sound_registry means rg" and "coherent means c" and "\<forall>c. coherent means c \<longrightarrow> coherent means (during c)"
  shows "let cl = cached_client during rg
    in coherent means (with_max_entries n) \<and>
       (\<forall>key. case get_schema_by_key cl key (c, s) of (r, (c', s')) \<Rightarrow>
          coherent means c' \<and> (\<forall>x. r = Inr x \<longrightarrow> means key x \<and> reports_truly means x)) \<and>
       (\<forall>subject. case rg_get_latest_schema cl subject (c, s) of (r, (c', s')) \<Rightarrow>
          coherent means c' \<and> (\<forall>x. r = Inr x \<longrightarrow> reports_truly means x)) \<and>
       (\<forall>subject v. case rg_get_schema_by_version cl subject v (c, s) of (r, (c', s')) \<Rightarrow>
          coherent means c' \<and> (\<forall>x. r = Inr x \<longrightarrow> reports_truly means x)) \<and>
       (\<forall>subject sch ty refs. case rg_lookup_schema cl subject sch ty refs (c, s) of (r, (c', s')) \<Rightarrow>
          coherent means c' \<and> (\<forall>x. r = Inr (Some x) \<longrightarrow> reports_truly means x)) \<and>
       (\<forall>subject p. case rg_delete_subject cl subject p (c, s) of (r, (c', s')) \<Rightarrow> coherent means c') \<and>
       (\<forall>subject v p. case rg_delete_version cl subject v p (c, s) of (r, (c', s')) \<Rightarrow> coherent means c') \<and>
       (\<forall>subject sch ty refs. case rg_register_schema cl subject sch ty refs (c, s) of (r, (c', s')) \<Rightarrow> coherent means c') \<and>
       (\<forall>subject sch ty refs. case rg_check_compatibility cl subject sch ty refs (c, s) of (r, (c', s')) \<Rightarrow> coherent means c') \<and>
       (case rg_get_subjects cl (c, s) of (r, (c', s')) \<Rightarrow> coherent means c') \<and>
       (\<forall>subject. case rg_get_versions cl subject (c, s) of (r, (c', s')) \<Rightarrow> coherent means c') \<and>
       (\<forall>subject. case rg_get_compatibility cl subject (c, s) of (r, (c', s')) \<Rightarrow> coherent means c') \<and>
       (\<forall>subject level. case rg_set_compatibility cl subject level (c, s) of (r, (c', s')) \<Rightarrow> coherent means c') \<and>
       (case rg_health_check cl (c, s) of (r, (c', s')) \<Rightarrow> coherent means c') \<and>
       (\<forall>hash_order ids. coherent means (fst (snd (warm_cache hash_order rg ids (c, s)))) \<and>
          coherent means (fst (snd (any_cache_warm hash_order rg ids (c, s))))) \<and>
       (\<forall>i. coherent means (invalidate_id i c)) \<and> (\<forall>g. coherent means (invalidate_guid g c)) \<and>
       (\<forall>subject. coherent means (invalidate_subject subject c)) \<and> coherent means (clear_cache c)"
proof -
  have m: "answers_truly means (rg_get_latest_schema rg subject)" "answers_truly means (rg_get_schema_by_version rg subject v)"
    for subject v using assms(1) by (simp_all add: sound_registry_def)
  have lookup: "case pass_through (rg_lookup_schema rg subject sch ty refs) (c, s) of (r, (c', s')) \<Rightarrow>
      coherent means c' \<and> (\<forall>x. r = Inr (Some x) \<longrightarrow> reports_truly means x)" for subject sch ty refs
    by (rule keeps_pass [OF assms(2)]) (use sound_reports(4) [OF assms(1)] in blast)
  have client: "rg_lookup_schema (cached_client during rg) = (\<lambda>subject sch ty refs. pass_through (rg_lookup_schema rg subject sch ty refs))"
    "rg_check_compatibility (cached_client during rg) = (\<lambda>subject sch ty refs. pass_through (rg_check_compatibility rg subject sch ty refs))"
    "rg_get_subjects (cached_client during rg) = pass_through (rg_get_subjects rg)"
    "rg_get_versions (cached_client during rg) = (\<lambda>subject. pass_through (rg_get_versions rg subject))"
    "rg_get_compatibility (cached_client during rg) = (\<lambda>subject. pass_through (rg_get_compatibility rg subject))"
    "rg_set_compatibility (cached_client during rg) = (\<lambda>subject level. pass_through (rg_set_compatibility rg subject level))"
    "rg_health_check (cached_client during rg) = pass_through (rg_health_check rg)"
    by (simp_all add: cached_client_def)
  show ?thesis
    unfolding Let_def client cached_client_sel
    by (intro conjI allI coherent_new keeps_key [OF assms] keeps_fetch [OF m(1) assms(2,3)]
        keeps_fetch [OF m(2) assms(2,3)] lookup keeps_delete [OF assms(2,3)]
        warm_cache_coherent [OF assms(1,2)] coherent_invalidations [OF assms(2)])
      (simp_all add: pass_through_def assms(2) split: prod.split)
qed

theorem cached_registry_sound_witness:
  "one_means (Id (SchemaId 1)) one_schema \<and>
   coherent one_means (fst (snd (rg_delete_subject (cached_client clear_cache one_registry) ''s'' False (with_max_entries 1, 0))))"
proof -
  have "\<forall>c. coherent one_means c \<longrightarrow> coherent one_means (clear_cache c)"
    by (simp add: coherent_invalidations)
  note sound = cached_registry_sound [OF one_sound coherent_new this, of 1 1 0, unfolded Let_def case_prod_beta]
  have "fst (get_schema_by_key (cached_client clear_cache one_registry) (Id (SchemaId 1)) (with_max_entries 1, 0)) =
      Inr one_schema"
    by (simp add: get_schema_by_key_def cached_get_schema_by_id_def with_max_entries_def cache_new_def get_or_fetch_def
        cache_get_def join_or_lead_def take_in_flight_def store_fetched_def one_registry_def trait_defaults_def Let_def)
  with sound [THEN conjunct2, THEN conjunct1] have "one_means (Id (SchemaId 1)) one_schema" by blast
  moreover from sound [THEN conjunct2, THEN conjunct2, THEN conjunct2, THEN conjunct2, THEN conjunct2, THEN conjunct1]
  have "coherent one_means (fst (snd (rg_delete_subject (cached_client clear_cache one_registry) ''s'' False (with_max_entries 1, 0))))"
    by blast
  ultimately show ?thesis by blast
qed

text \<open>
  C32. A schema that was seen is served locally. After a lookup by either identifier, or of the
  latest or a given version, without interference, looking it up by the identifiers the
  registry reported with it (and by the one that was asked) makes no call to the inner client
  and returns the same schema.
\<close>

theorem seen_schema_is_local:
  assumes "idle c"
  shows "let cl = cached_client (\<lambda>c. c) rg; by_id = rg_get_schema_by_id cl; by_guid = rg_get_schema_by_guid cl
    in (\<forall>x c' s'. by_id i (c, s) = (Inr x, (c', s')) \<longrightarrow>
          local_answer (by_id i) c' x \<and> (\<forall>g. sch_guid x = Some g \<longrightarrow> local_answer (by_guid g) c' x)) \<and>
       (\<forall>x c' s'. by_guid g (c, s) = (Inr x, (c', s')) \<longrightarrow>
          local_answer (by_guid g) c' x \<and> (\<forall>i. sch_id x = Some i \<longrightarrow> local_answer (by_id i) c' x)) \<and>
       (\<forall>x c' s'. rg_get_latest_schema cl subject (c, s) = (Inr x, (c', s')) \<or>
            rg_get_schema_by_version cl subject v (c, s) = (Inr x, (c', s')) \<longrightarrow>
          (\<forall>i. sch_id x = Some i \<longrightarrow> local_answer (by_id i) c' x) \<and>
          (\<forall>g. sch_guid x = Some g \<longrightarrow> local_answer (by_guid g) c' x))"
proof -
  note local = local_by_id [where during = "\<lambda>c. c" and rg = rg] local_by_guid [where during = "\<lambda>c. c" and rg = rg]
  note local = local [unfolded cached_client_sel]
  have populated: "c' = populate x (generations_of c) c"
    if "fetch_and_populate (\<lambda>c. c) m (c, s) = (Inr x, (c', s'))" for m :: "('a, schema) io" and x c' s'
    using that by (auto simp: fetch_and_populate_def Let_def split: prod.splits sum.splits)
  show ?thesis
    unfolding Let_def cached_client_sel
    by (intro conjI allI impI local)
      (auto intro: by_id_cached [OF assms] by_guid_cached [OF assms] simp: populate_get [OF assms] dest!: populated)
qed


definition seen_world :: "cached_registry \<times> nat" where
  "seen_world = snd (rg_get_latest_schema (cached_client (\<lambda>c. c) one_registry) ''s'' (with_max_entries 1, 0))"

theorem seen_schema_is_local_witness:
  "local_answer (rg_get_schema_by_id (cached_client (\<lambda>c. c) one_registry) (SchemaId 1)) (fst seen_world) one_schema \<and>
   local_answer (rg_get_schema_by_guid (cached_client (\<lambda>c. c) one_registry) (SchemaGuid 7)) (fst seen_world) one_schema"
proof -
  have "rg_get_latest_schema (cached_client (\<lambda>c. c) one_registry) ''s'' (with_max_entries 1, 0) =
      (Inr one_schema, (fst seen_world, snd seen_world))"
    by (simp add: seen_world_def fetch_and_populate_def one_registry_def trait_defaults_def Let_def)
  moreover have "sch_id one_schema = Some (SchemaId 1)" "sch_guid one_schema = Some (SchemaGuid 7)"
    by (simp_all add: one_schema_def with_guid_def schema_new_def)
  ultimately show ?thesis
    using seen_schema_is_local [of "with_max_entries 1" one_registry "SchemaId 1" 0 "SchemaGuid 7" "''s''" "SchemaVersion 1",
        unfolded Let_def] by (simp only: idle_with_max_entries) blast
qed

text \<open>
  Deletion. After a successful deletion no entry of either cache carries
  the subject, and the entries of other subjects and those without one are as before; a failed
  deletion changes nothing.
\<close>

theorem deletion_forgets_subject:
  assumes "idle c" and "rg_delete_subject (cached_client (\<lambda>c. c) rg) subject p (c, s) = (r, (c', s'))"
  shows "case r of
      Inl _ \<Rightarrow> c' = c
    | Inr _ \<Rightarrow>
        (\<forall>i x. cache_get (cr_cache c') i = Some x \<longleftrightarrow> cache_get (cr_cache c) i = Some x \<and> sch_subject x \<noteq> Some subject) \<and>
        (\<forall>g x. cache_get (cr_guid_cache c') g = Some x \<longleftrightarrow>
           cache_get (cr_guid_cache c) g = Some x \<and> sch_subject x \<noteq> Some subject)"
  using assms(2) invalidate_subject_get [OF assms(1)]
  by (auto simp: delete_then_invalidate_def of_subject_def split: prod.splits sum.splits option.splits if_splits)

theorem deletion_forgets_subject_witness:
  "cache_get (cr_cache (fst (snd (rg_delete_subject (cached_client (\<lambda>c. c)
      (one_registry\<lparr>rg_delete_subject := \<lambda>_ _. io_return []\<rparr>)) ''s'' False (with_max_entries 1, 0))))) (SchemaId 1) = None"
  using deletion_forgets_subject [of "with_max_entries 1" "one_registry\<lparr>rg_delete_subject := \<lambda>_ _. io_return []\<rparr>" "''s''"
      False 0 "Inr []" "invalidate_subject ''s'' (with_max_entries 1)" 0]
  by (simp add: delete_then_invalidate_def) (simp add: with_max_entries_def cache_new_def cache_get_def)

text \<open>
  Invalidation during a fetch. When other tasks clear the caches or invalidate a subject
  while a version is being fetched, the answer is returned and not cached; when they
  invalidate one identifier, its cache is left as they left it.
\<close>

theorem invalidation_during_fetch:
  assumes "rg_get_latest_schema rg subject s = (Inr x, s')"
  shows "(\<forall>during \<in> {clear_cache, invalidate_subject other}.
      rg_get_latest_schema (cached_client during rg) subject (c, s) = (Inr x, (during c, s'))) \<and>
    cr_cache (fst (snd (rg_get_latest_schema (cached_client (invalidate_id i) rg) subject (c, s)))) =
      cr_cache (invalidate_id i c) \<and>
    cr_guid_cache (fst (snd (rg_get_latest_schema (cached_client (invalidate_guid g) rg) subject (c, s)))) =
      cr_guid_cache (invalidate_guid g c)"
proof -
  have both: "populate x (generations_of c) d = d"
    if "ca_generation (cr_cache d) \<noteq> ca_generation (cr_cache c)" "ca_generation (cr_guid_cache d) \<noteq> ca_generation (cr_guid_cache c)" for d
    using that by (intro cached_registry.equality) (simp_all add: populate_stale populate_stale_guid generations_of_def)
  show ?thesis
    using assms
    by (auto simp: fetch_and_populate_def Let_def both populate_stale populate_stale_guid generations_of_def
        clear_cache_def invalidate_subject_def invalidate_id_def invalidate_guid_def generation_after)
qed

theorem invalidation_during_fetch_witness:
  "rg_get_latest_schema (cached_client clear_cache one_registry) ''s'' (with_max_entries 1, 0) =
     (Inr one_schema, (clear_cache (with_max_entries 1), 0))"
  using invalidation_during_fetch [of one_registry "''s''" 0 one_schema 0 "''t''" "with_max_entries 1"]
  by (simp add: one_registry_def trait_defaults_def)

text \<open>
  Warming. When the requested identifiers fit beside what is cached, every one of them is
  afterwards either cached or reported as a failure, and nothing else has changed.
\<close>

theorem warm_cache_complete:
  assumes "idle c" and "ca_max_entries (cr_cache c) = Some mx" and "cached_len c + card (set ids) \<le> mx"
    and "set (hash_order (remdups ids)) = set ids" and "distinct (hash_order (remdups ids))"
    and "warm_cache hash_order rg ids (c, s) = (r, (c', s'))"
  shows "(\<forall>i \<in> set ids. (cache_get (cr_cache c') i = None) = (case r of Inl fs \<Rightarrow> \<exists>e. (i, e) \<in> set fs | Inr _ \<Rightarrow> False)) \<and>
    (\<forall>i. i \<notin> set ids \<longrightarrow> cache_get (cr_cache c') i = cache_get (cr_cache c) i)"
proof (cases "hash_order (remdups ids) = []")
  case True
  then have "ids = []" using assms(4) by simp
  with assms(6) True show ?thesis by (simp add: warm_cache_def Let_def)
next
  case False
  let ?ks = "hash_order (remdups ids)"
  obtain fs ca t where w: "warm_each schema_lookup_cancelled_error (rg_get_schema_by_id rg) ?ks (cr_cache c, s) = (fs, (ca, t))"
    by (metis surj_pair)
  have r: "r = (if fs = [] then Inr () else Inl fs)" and c': "c' = c\<lparr>cr_cache := ca\<rparr>"
    using assms(6) w False by (simp_all add: warm_cache_def Let_def)
  have "length ?ks = card (set ids)" using assms(4,5) by (metis distinct_card)
  then have "cache_len (cr_cache c) + length ?ks \<le> mx" using assms(3) by (simp add: cached_len_def)
  then have "(\<forall>k \<in> set ?ks. (cache_get ca k = None) = (\<exists>e. (k, e) \<in> set fs)) \<and> fst ` set fs \<subseteq> set ?ks \<and>
      (\<forall>k. k \<notin> set ?ks \<longrightarrow> cache_get ca k = cache_get (cr_cache c) k)"
    using assms(1) by (intro warm_each_complete [OF _ assms(2) _ assms(5) w]) (simp_all add: idle_def)
  then show ?thesis unfolding r c' assms(4) by auto
qed

lemmas cache_eval = warm_cache_def cached_len_def cache_len_def with_max_entries_def cache_new_def get_or_fetch_def
  cache_get_def join_or_lead_def take_in_flight_def store_fetched_def insert_locked_def

theorem warm_cache_complete_witness:
  "fst (warm_cache rev one_registry [SchemaId 1, SchemaId 2, SchemaId 1] (with_max_entries 2, 0)) =
     Inl [(SchemaId 2, Http 404 (Text []))] \<and>
   cache_get (cr_cache (fst (snd (warm_cache rev one_registry [SchemaId 1, SchemaId 2, SchemaId 1] (with_max_entries 2, 0)))))
     (SchemaId 1) \<noteq> None"
proof -
  let ?ids = "[SchemaId 1, SchemaId 2, SchemaId 1]"
  let ?w = "warm_cache rev one_registry ?ids (with_max_entries 2, 0)"
  have fails: "fst ?w = Inl [(SchemaId 2, Http 404 (Text []))]"
    by (simp add: cache_eval one_registry_def trait_defaults_def Let_def)
  have "ca_max_entries (cr_cache (with_max_entries 2)) = Some 2" "cached_len (with_max_entries 2) = 0"
    by (simp_all add: with_max_entries_def cache_new_def cached_len_def cache_len_def)
  moreover have "set ?ids = {SchemaId 1, SchemaId 2}" "card {SchemaId 1, SchemaId 2} = 2" by auto
  ultimately have "\<forall>i \<in> set ?ids. (cache_get (cr_cache (fst (snd ?w))) i = None) =
      (case fst ?w of Inl fs \<Rightarrow> \<exists>e. (i, e) \<in> set fs | Inr _ \<Rightarrow> False)"
    using warm_cache_complete [of "with_max_entries 2" 2 ?ids rev one_registry 0 "fst ?w" "fst (snd ?w)" "snd (snd ?w)"]
    by simp
  with fails show ?thesis by simp
qed

text \<open>
  Without that room a successful warm does not leave everything cached: with one entry and two
  identifiers that both load, nothing is reported and the first is evicted.
\<close>

theorem warm_cache_may_evict:
  "let rg = one_registry\<lparr>rg_get_schema_by_id := \<lambda>_. io_return one_schema\<rparr>;
       w = warm_cache (\<lambda>ids. ids) rg [SchemaId 1, SchemaId 2] (with_max_entries 1, 0)
   in fst w = Inr () \<and> cache_get (cr_cache (fst (snd w))) (SchemaId 1) = None"
  by (simp add: cache_eval Let_def)

end
