(* ===== verification/Subject.thy ===== *)
theory Subject
  imports Schema_Types
begin

text \<open>
  Subject name strategies (\<open>src/subject.rs\<close>). A custom function is a value of the strategy; its
  address, which equality and hashing look at, stands beside it.
\<close>

datatype subject_strategy =
    TopicName
  | RecordName
  | TopicRecordName
  | ApicurioGroupRecordName string
  | Custom "string \<Rightarrow> string option \<Rightarrow> encode_target \<Rightarrow> string res"

fun subject_name :: "subject_strategy \<Rightarrow> string \<Rightarrow> string option \<Rightarrow> encode_target \<Rightarrow> string res" where
  "subject_name TopicName topic record_name target = Inr (topic @ ''-'' @ target_str target)"
| "subject_name RecordName topic record_name target =
     ok_or record_name (Config (Types (RecordNameRequired ''RecordName'')))"
| "subject_name TopicRecordName topic record_name target =
     res_bind (ok_or record_name (Config (Types (RecordNameRequired ''TopicRecordName'')))) (\<lambda>name.
       Inr (topic @ ''-'' @ name))"
| "subject_name (ApicurioGroupRecordName group_id) topic record_name target =
     res_bind (ok_or record_name (Config (Types (RecordNameRequired ''ApicurioGroupRecordName'')))) (\<lambda>name.
       Inr (group_id @ ''/'' @ name))"
| "subject_name (Custom f) topic record_name target = f topic record_name target"

fun needs_record_name :: "subject_strategy \<Rightarrow> bool" where
  "needs_record_name TopicName \<longleftrightarrow> False"
| "needs_record_name (Custom f) \<longleftrightarrow> False"
| "needs_record_name _ \<longleftrightarrow> True"

lemma target_str_lengths: "length (target_str Key) = 3" "length (target_str Value) = 5"
  by simp_all

lemma topic_name_inj:
  assumes "topic @ ''-'' @ target_str target = topic' @ ''-'' @ target_str target'"
  shows "topic = topic' \<and> target = target'"
proof -
  have "rsplit_once CHR ''-'' (topic @ ''-'' @ target_str target) = Some (topic, target_str target)" for topic target
    by (cases target) simp_all
  from this [of topic target] this [of topic' target'] have "topic = topic'" "target_str target = target_str target'"
    unfolding assms by simp_all
  then show ?thesis by (cases target; cases target') simp_all
qed

section \<open>Equality and hashing\<close>

text \<open>
  \<open>PartialEq\<close> and \<open>Hash\<close>. A strategy comes with the address of the allocation of its custom
  function (which the other strategies ignore); a hash is what is written to the hasher.
\<close>

type_synonym strategy_handle = "subject_strategy \<times> nat"

fun strategy_eq :: "strategy_handle \<Rightarrow> strategy_handle \<Rightarrow> bool" where
  "strategy_eq (TopicName, _) (TopicName, _) = True"
| "strategy_eq (RecordName, _) (RecordName, _) = True"
| "strategy_eq (TopicRecordName, _) (TopicRecordName, _) = True"
| "strategy_eq (ApicurioGroupRecordName a, _) (ApicurioGroupRecordName b, _) = (a = b)"
| "strategy_eq (Custom _, a) (Custom _, b) = (a = b)"
| "strategy_eq _ _ = False"

fun discriminant :: "subject_strategy \<Rightarrow> nat" where
  "discriminant TopicName = 0"
| "discriminant RecordName = 1"
| "discriminant TopicRecordName = 2"
| "discriminant (ApicurioGroupRecordName _) = 3"
| "discriminant (Custom _) = 4"

datatype hash_write = HashDiscriminant nat | HashStr string | HashUsize nat

fun strategy_hash :: "strategy_handle \<Rightarrow> hash_write list" where
  "strategy_hash (ApicurioGroupRecordName group_id, _) = [HashDiscriminant 3, HashStr group_id]"
| "strategy_hash (Custom _, f) = [HashDiscriminant 4, HashUsize f]"
| "strategy_hash (strategy, _) = [HashDiscriminant (discriminant strategy)]"

text \<open>An allocation holds one function.\<close>

definition allocated :: "(nat \<Rightarrow> string \<Rightarrow> string option \<Rightarrow> encode_target \<Rightarrow> string res) \<Rightarrow> strategy_handle \<Rightarrow> bool" where
  "allocated heap h = (case h of (Custom f, a) \<Rightarrow> heap a = f | _ \<Rightarrow> True)"

lemma strategy_eq_hash: "strategy_eq a b = (strategy_hash a = strategy_hash b)"
  by (cases "(a, b)" rule: strategy_eq.cases) simp_all

section \<open>Properties\<close>

text \<open>
  Subject names. The default strategy gives different topics and targets different
  subjects; a strategy that needs a record name fails without one, with a configuration
  error, and with one never fails; an Apicurio group subject is parsed back into its group and
  artifact when the group has no slash; a topic-record subject can belong to two topics.
\<close>

theorem subject_names:
  "(subject_name TopicName t r k = subject_name TopicName t' r' k' \<longleftrightarrow> t = t' \<and> k = k') \<and>
   (needs_record_name st \<longrightarrow>
      (\<exists>m. subject_name st t None k = Inl (Config m)) \<and> (\<exists>s. subject_name st t (Some n) k = Inr s)) \<and>
   (CHR ''/'' \<notin> set g \<longrightarrow>
      map_sum id artifact_from_subject (subject_name (ApicurioGroupRecordName g) t (Some n) k) =
        Inr \<lparr>art_group = g, art_name = n\<rparr>) \<and>
   subject_name TopicRecordName ''a-b'' (Some ''c'') k = subject_name TopicRecordName ''a'' (Some ''b-c'') k"
  using topic_name_inj [of t k t' k']
  by (cases st) (auto simp: artifact_from_subject_def)

theorem subject_names_witness:
  "subject_name TopicName ''orders'' None Value \<noteq> subject_name TopicName ''orders'' None Key \<and>
   map_sum id artifact_from_subject (subject_name (ApicurioGroupRecordName ''g'') ''t'' (Some ''Order'') Key) =
     Inr \<lparr>art_group = ''g'', art_name = ''Order''\<rparr>"
  using subject_names [of "''orders''" None Value "''orders''" None Key RecordName "''Order''" "''g''"]
    subject_names [of "''t''" None Key "''t''" None Key RecordName "''Order''" "''g''"]
  by simp

text \<open>
  Strategies as keys. Equality of strategies is an equivalence that agrees with their
  hashes in both directions, and strategies that are equal, with custom functions in
  allocations that hold one function each, give every topic, record and target the same subject.
\<close>

theorem strategies_as_keys:
  "equivp strategy_eq \<and> (strategy_eq a b = (strategy_hash a = strategy_hash b)) \<and>
   (strategy_eq a b \<and> allocated heap a \<and> allocated heap b \<longrightarrow> subject_name (fst a) = subject_name (fst b))"
proof (intro conjI impI)
  show "equivp strategy_eq" by (intro equivpI reflpI sympI transpI) (simp_all add: strategy_eq_hash)
  show "strategy_eq a b = (strategy_hash a = strategy_hash b)" by (rule strategy_eq_hash)
  assume "strategy_eq a b \<and> allocated heap a \<and> allocated heap b"
  then show "subject_name (fst a) = subject_name (fst b)"
    by (cases "(a, b)" rule: strategy_eq.cases) (auto simp: allocated_def fun_eq_iff)
qed

theorem strategies_as_keys_witness:
  "subject_name (fst (Custom (\<lambda>t _ _. Inr t), 7)) = subject_name (fst (Custom (\<lambda>t _ _. Inr t), 7)) \<and>
   \<not> strategy_eq (Custom (\<lambda>t _ _. Inr t), 7) (Custom (\<lambda>t _ _. Inr t), 8)"
  using strategies_as_keys [of "(Custom (\<lambda>t _ _. Inr t), 7)" "(Custom (\<lambda>t _ _. Inr t), 7)" "\<lambda>_ t _ _. Inr t"]
  by (simp add: allocated_def)

end
