(* ===== verification/Confluent_Encoder.thy ===== *)
theory Confluent_Encoder
  imports Resolver Subject Wire Cache_Inner
begin

text \<open>
  The Confluent payload encoder (\<open>src/confluent/encoder.rs\<close>): builder, resolution through the
  per-subject cache, framing in front of the payload or in a record header. The state of a
  call is the encoder's cache and the world of its registry.
\<close>

record 's confluent_encoder =
  en_registry :: "'s registry"
  en_schema :: string
  en_schema_type :: schema_type
  en_strategy :: subject_strategy
  en_references :: "schema_reference list"
  en_indexes :: "u32 list"
  en_resolution :: schema_resolution
  en_framing :: framing

type_synonym key_cache = "(string, schema_key) cache"
type_synonym ('s, 'a) key_io = "(key_cache \<times> 's, 'a) io"

definition resolve_key :: "'s confluent_encoder \<Rightarrow> string \<Rightarrow> ('s, schema_key) key_io" where
  "resolve_key en subject =
     get_or_fetch subject_resolution_cancelled subject
       (resolve_schema_key (en_registry en) (en_resolution en) (en_framing en) subject (en_schema en)
          (en_schema_type en) (en_references en))"

definition subject_for :: "'s confluent_encoder \<Rightarrow> string \<Rightarrow> string option \<Rightarrow> encode_target \<Rightarrow> string res" where
  "subject_for en topic record_name target = subject_name (en_strategy en) topic record_name target"

definition frame :: "'s confluent_encoder \<Rightarrow> schema_key \<Rightarrow> bytes \<Rightarrow> bytes" where
  "frame en key payload =
     (if en_schema_type en = Protobuf then encode_protobuf_wire_format key (en_indexes en) payload
      else encode_wire_format key payload)"

definition encode ::
    "'s confluent_encoder \<Rightarrow> bytes \<Rightarrow> string \<Rightarrow> string option \<Rightarrow> encode_target \<Rightarrow> ('s, bytes) key_io" where
  "encode en payload topic record_name target =
     io_bind (io_lift (subject_for en topic record_name target)) (\<lambda>subject.
     io_bind (resolve_key en subject) (\<lambda>key.
     io_return (frame en key payload)))"

definition encode_with_header ::
    "'s confluent_encoder \<Rightarrow> bytes \<Rightarrow> string \<Rightarrow> string option \<Rightarrow> encode_target \<Rightarrow> ('s, header_framed) key_io" where
  "encode_with_header en payload topic record_name target =
     io_bind (io_lift (subject_for en topic record_name target)) (\<lambda>subject.
     io_bind (resolve_key en subject) (\<lambda>key.
     let indexes = (if en_schema_type en = Protobuf then Some (en_indexes en) else None)
     in io_return (header_framed_new target key indexes payload)))"

text \<open>The object-safe trait \<open>PayloadEncoder\<close>, its default method, and the encoder as an instance of it.\<close>

record 'w payload_encoder =
  py_encode :: "bytes \<Rightarrow> string \<Rightarrow> string option \<Rightarrow> encode_target \<Rightarrow> ('w, bytes) io"
  py_encode_with_header :: "bytes \<Rightarrow> string \<Rightarrow> string option \<Rightarrow> encode_target \<Rightarrow> ('w, header_framed) io"

definition payload_encoder_defaults ::
    "(bytes \<Rightarrow> string \<Rightarrow> string option \<Rightarrow> encode_target \<Rightarrow> ('w, bytes) io) \<Rightarrow> 'w payload_encoder" where
  "payload_encoder_defaults enc =
     \<lparr>py_encode = enc, py_encode_with_header = (\<lambda>_ _ _ _. not_supported ''header placement'')\<rparr>"

definition confluent_payload_encoder :: "'s confluent_encoder \<Rightarrow> (key_cache \<times> 's) payload_encoder" where
  "confluent_payload_encoder en =
     \<lparr>py_encode = (\<lambda>payload topic record_name target.
        io_bind (io_lift (subject_for en topic record_name target)) (\<lambda>subject.
        io_bind (resolve_key en subject) (\<lambda>key.
        io_return (frame en key payload)))),
      py_encode_with_header = encode_with_header en\<rparr>"

lemma payload_encoder_same:
  "py_encode (confluent_payload_encoder en) = encode en"
  "refused (fst (py_encode_with_header (payload_encoder_defaults enc) payload topic record_name target w))"
  by (simp_all add: confluent_payload_encoder_def payload_encoder_defaults_def fun_eq_iff encode_def not_supported_def
      refused_def)

definition cached_schema_key :: "key_cache \<Rightarrow> string \<Rightarrow> schema_key option" where
  "cached_schema_key c subject = cache_get c subject"

definition cached_schema_id :: "key_cache \<Rightarrow> string \<Rightarrow> schema_id option" where
  "cached_schema_id c subject = Option.bind (cached_schema_key c subject) as_id"

definition cached_subject_count :: "key_cache \<Rightarrow> nat" where
  "cached_subject_count c = cache_len c"

definition invalidate_subject_key :: "string \<Rightarrow> key_cache \<Rightarrow> key_cache" where
  "invalidate_subject_key subject c = snd (invalidate subject_resolution_cancelled subject c)"

section \<open>Builder\<close>

record 's encoder_builder =
  eb_registry :: "'s registry option"
  eb_schema :: "string option"
  eb_schema_type :: schema_type
  eb_strategy :: subject_strategy
  eb_references :: "schema_reference list"
  eb_indexes :: "u32 list"
  eb_resolution :: schema_resolution
  eb_framing :: framing
  eb_max_entries :: nat

definition builder_new :: "'s encoder_builder" where
  "builder_new =
     \<lparr>eb_registry = None, eb_schema = None, eb_schema_type = Avro, eb_strategy = TopicName,
      eb_references = [], eb_indexes = [0], eb_resolution = AutoRegister, eb_framing = FramingSchemaId,
      eb_max_entries = DEFAULT_MAX_SUBJECT_CACHE_ENTRIES\<rparr>"

definition with_schema :: "string \<Rightarrow> schema_type \<Rightarrow> 's encoder_builder \<Rightarrow> 's encoder_builder" where
  "with_schema sch ty b = b\<lparr>eb_schema := Some sch, eb_schema_type := ty\<rparr>"

text \<open>The setters.\<close>

definition encoder_set_resolution :: "schema_resolution \<Rightarrow> 's encoder_builder \<Rightarrow> 's encoder_builder" where
  "encoder_set_resolution x b = b\<lparr>eb_resolution := x\<rparr>"

definition encoder_set_framing :: "framing \<Rightarrow> 's encoder_builder \<Rightarrow> 's encoder_builder" where
  "encoder_set_framing x b = b\<lparr>eb_framing := x\<rparr>"

definition encoder_set_max_subject_cache_entries :: "nat \<Rightarrow> 's encoder_builder \<Rightarrow> 's encoder_builder" where
  "encoder_set_max_subject_cache_entries x b = b\<lparr>eb_max_entries := x\<rparr>"

definition encoder_set_registry :: "'s registry \<Rightarrow> 's encoder_builder \<Rightarrow> 's encoder_builder" where
  "encoder_set_registry x b = b\<lparr>eb_registry := Some x\<rparr>"

definition encoder_set_strategy :: "subject_strategy \<Rightarrow> 's encoder_builder \<Rightarrow> 's encoder_builder" where
  "encoder_set_strategy x b = b\<lparr>eb_strategy := x\<rparr>"

definition encoder_set_references :: "schema_reference list \<Rightarrow> 's encoder_builder \<Rightarrow> 's encoder_builder" where
  "encoder_set_references x b = b\<lparr>eb_references := x\<rparr>"

definition encoder_set_protobuf_message_indexes :: "u32 list \<Rightarrow> 's encoder_builder \<Rightarrow> 's encoder_builder" where
  "encoder_set_protobuf_message_indexes x b = b\<lparr>eb_indexes := x\<rparr>"

definition build :: "'s encoder_builder \<Rightarrow> ('s confluent_encoder \<times> key_cache) res" where
  "build b =
     res_bind (ok_or (eb_registry b) (Config (Client (MustBeSet ''ConfluentSchemaEncoder: registry'')))) (\<lambda>registry.
     res_bind (ok_or (eb_schema b) (Config (Client (MustBeSet ''ConfluentSchemaEncoder: schema'')))) (\<lambda>sch.
       Inr (\<lparr>en_registry = registry, en_schema = sch, en_schema_type = eb_schema_type b,
             en_strategy = eb_strategy b, en_references = eb_references b, en_indexes = eb_indexes b,
             en_resolution = eb_resolution b, en_framing = eb_framing b\<rparr>,
            cache_new (Some (max (eb_max_entries b) 1)))))"

section \<open>Lemmas\<close>

lemma idle_new: "0 < n \<Longrightarrow> cache_idle (cache_new (Some n))"
  by (simp add: cache_idle_def cache_ok_new) (simp add: cache_new_def)

lemma build_idle: "build b = Inr (en, c) \<Longrightarrow> cache_idle c \<and> cache_get c = (\<lambda>_. None)"
  by (auto simp: build_def intro: idle_new) (simp add: cache_new_def cache_get_def fun_eq_iff)

lemma encode_InrE:
  assumes "encode en payload topic rn target st = (Inr out, st')"
  obtains subject key where "subject_name (en_strategy en) topic rn target = Inr subject"
    "resolve_key en subject st = (Inr key, st')" "out = frame en key payload"
  using assms by (auto simp: encode_def subject_for_def io_bind_Inr_iff)

text \<open>A resolved subject is served from the cache.\<close>

lemma resolve_key_again:
  assumes "cache_idle c" and "resolve_key en subject (c, s) = (Inr key, (c', s'))"
  shows "resolve_key en subject (c', t) = (Inr key, (c', t))"
  unfolding resolve_key_def
  by (rule fc.second_call [OF assms(1) assms(2) [unfolded resolve_key_def]])

text \<open>The cache holds for every subject a key that a resolution of this subject returned.\<close>

definition keys_resolved :: "'s confluent_encoder \<Rightarrow> key_cache \<Rightarrow> bool" where
  "keys_resolved en c \<longleftrightarrow>
     (\<forall>subject key. cache_get c subject = Some key \<longrightarrow>
        (\<exists>s s'. resolve_schema_key (en_registry en) (en_resolution en) (en_framing en) subject (en_schema en)
           (en_schema_type en) (en_references en) s = (Inr key, s')))"

lemma resolve_key_resolved:
  assumes "cache_idle c" and "keys_resolved en c" and "resolve_key en subject (c, s) = (r, (c', s'))"
  shows "cache_idle c' \<and> keys_resolved en c' \<and>
    (\<forall>key. r = Inr key \<longrightarrow> (\<exists>s s'. resolve_schema_key (en_registry en) (en_resolution en) (en_framing en) subject
       (en_schema en) (en_schema_type en) (en_references en) s = (Inr key, s')))"
proof -
  let ?fetch = "\<lambda>subject. resolve_schema_key (en_registry en) (en_resolution en) (en_framing en) subject
    (en_schema en) (en_schema_type en) (en_references en)"
  show ?thesis
    using fc.coherent [where P = "\<lambda>subject key. \<exists>s s'. ?fetch subject s = (Inr key, s')", OF assms(1), of "?fetch subject"
      s subject subject_resolution_cancelled r c' s'] assms(2,3)
    unfolding resolve_key_def keys_resolved_def by blast
qed

section \<open>Properties\<close>

text \<open>
  Resolution is cached. Once an encode of a subject has succeeded, encoding any payload
  for the same topic, record and target makes no registry call and carries the same
  identifier, in either placement, until the subject is invalidated; then the identifier is
  forgotten, and those of other subjects are kept.
\<close>

theorem encode_again_is_local:
  assumes "cache_idle c" and "encode en payload topic rn target (c, s) = (Inr out, (c', s'))"
  shows "\<exists>subject key. subject_name (en_strategy en) topic rn target = Inr subject \<and>
    out = frame en key payload \<and> cached_schema_key c' subject = Some key \<and>
    (\<forall>p t. encode en p topic rn target (c', t) = (Inr (frame en key p), (c', t)) \<and>
       encode_with_header en p topic rn target (c', t) =
         (Inr (header_framed_new target key (if en_schema_type en = Protobuf then Some (en_indexes en) else None) p),
          (c', t))) \<and>
    cached_schema_key (invalidate_subject_key subject c') subject = None \<and>
    (\<forall>other. other \<noteq> subject \<longrightarrow>
       cached_schema_key (invalidate_subject_key subject c') other = cached_schema_key c' other)"
  using assms(2)
proof (rule encode_InrE)
  fix subject key
  assume subj: "subject_name (en_strategy en) topic rn target = Inr subject"
    and res: "resolve_key en subject (c, s) = (Inr key, (c', s'))" and out: "out = frame en key payload"
  note again = resolve_key_again [OF assms(1) res]
  have "cache_get c' subject = Some key"
    using assms(1) res unfolding resolve_key_def by (cases rule: fc.fetch_cases) auto
  with subj out again show ?thesis
    by (auto simp: encode_def encode_with_header_def subject_for_def io_bind_def cached_schema_key_def
        invalidate_subject_key_def invalidate_get Let_def)
qed

definition demo_encoder :: "nat confluent_encoder" where
  "demo_encoder =
     \<lparr>en_registry = one_registry, en_schema = ''{}'', en_schema_type = Protobuf, en_strategy = TopicName,
      en_references = [], en_indexes = [1, 0], en_resolution = AutoRegister, en_framing = FramingSchemaGuid\<rparr>"

lemma demo_resolve:
  "resolve_key demo_encoder subject (cache_new (Some 1), 0) =
     (Inr (Guid (SchemaGuid 7)),
      ((cache_new (Some 1))\<lparr>ca_next_token := 1,
        ca_store := insert_locked (Some 1) subject (Guid (SchemaGuid 7)) \<lparr>st_entries = [], st_order = []\<rparr>\<rparr>, 1))"
proof -
  have "resolve_schema_key one_registry AutoRegister FramingSchemaGuid subject ''{}'' Protobuf [] 0 =
      (Inr (Guid (SchemaGuid 7)), 1)"
    by (simp add: resolve_schema_key_def resolve_identity_def learn_guid_def io_bind_def one_registry_def
        trait_defaults_def one_schema_def with_guid_def schema_new_def)
  from get_or_fetch_ok [where mk = subject_resolution_cancelled and key = subject and c = "cache_new (Some 1)"
      and fetch = "resolve_schema_key one_registry AutoRegister FramingSchemaGuid subject ''{}'' Protobuf []",
      OF idle_new _ this]
  show ?thesis
    by (simp add: resolve_key_def demo_encoder_def cache_new_def cache_get_def)
qed

theorem encode_again_is_local_witness:
  "\<exists>c key. \<forall>t. encode demo_encoder [1, 2] ''orders'' None Value (c, t) = (Inr (frame demo_encoder key [1, 2]), (c, t))"
proof -
  obtain c where "encode demo_encoder [9] ''orders'' None Value (cache_new (Some 1), 0) =
      (Inr (frame demo_encoder (Guid (SchemaGuid 7)) [9]), (c, 1))"
    using demo_resolve [of "''orders-value''"]
    by (simp add: encode_def subject_for_def io_bind_def demo_encoder_def)
  from encode_again_is_local [OF _ this] show ?thesis
    using idle_new [of 1] by (simp del: One_nat_def) blast
qed

end
