(* ===== verification/Decoder.thy ===== *)
theory Decoder
  imports Registry Glue_Wire
begin

text \<open>
  The multi-format decoder (\<open>src/decoder.rs\<close>). Its two backends are optional; flate2, and
  whether it is compiled in, is the parameter of \<open>Glue_Wire\<close>, as is the presence of the
  Glue decoding itself (the \<open>glue\<close> feature).
\<close>

datatype schema_format = FmtAvro | FmtProtobuf | FmtJson | FmtUnknown

fun format_of_type :: "schema_type \<Rightarrow> schema_format" where
  "format_of_type Avro = FmtAvro"
| "format_of_type Protobuf = FmtProtobuf"
| "format_of_type Json = FmtJson"

fun format_of_glue :: "glue_data_format \<Rightarrow> schema_format" where
  "format_of_glue GlueAvro = FmtAvro"
| "format_of_glue GlueJson = FmtJson"
| "format_of_glue GlueProtobuf = FmtProtobuf"

datatype schema_metadata = ConfluentMeta schema | GlueMeta glue_schema

fun metadata_format :: "schema_metadata \<Rightarrow> schema_format" where
  "metadata_format (ConfluentMeta s) = format_of_type (sch_type s)"
| "metadata_format (GlueMeta g) = format_of_glue (gs_format g)"

record decoded_message =
  dm_format :: schema_format
  dm_payload :: bytes
  dm_metadata :: "schema_metadata option"
  dm_indexes :: "u32 list option"

record 's wire_format_decoder =
  wd_confluent :: "'s registry option"
  wd_glue :: "'s glue_registry option"

definition decoder_new :: "'s wire_format_decoder" where
  "decoder_new = \<lparr>wd_confluent = None, wd_glue = None\<rparr>"

definition with_confluent :: "'s registry \<Rightarrow> 's wire_format_decoder \<Rightarrow> 's wire_format_decoder" where
  "with_confluent rg d = d\<lparr>wd_confluent := Some rg\<rparr>"

definition confluent_decoder :: "'s registry \<Rightarrow> 's wire_format_decoder" where
  "confluent_decoder rg = with_confluent rg decoder_new"

definition with_glue :: "'s glue_registry \<Rightarrow> 's wire_format_decoder \<Rightarrow> 's wire_format_decoder" where
  "with_glue gr d = d\<lparr>wd_glue := Some gr\<rparr>"

definition glue_decoder :: "'s glue_registry \<Rightarrow> 's wire_format_decoder" where
  "glue_decoder gr = with_glue gr decoder_new"

definition passthrough_message :: "bytes \<Rightarrow> decoded_message" where
  "passthrough_message data =
     \<lparr>dm_format = FmtUnknown, dm_payload = data, dm_metadata = None, dm_indexes = None\<rparr>"

definition decode_confluent :: "'s wire_format_decoder \<Rightarrow> bytes \<Rightarrow> schema_key \<Rightarrow> nat \<Rightarrow> ('s, decoded_message) io" where
  "decode_confluent d data key payload_offset =
     (case wd_confluent d of
        None \<Rightarrow> io_fail (InvalidState (Client NoConfluentBackend))
      | Some client \<Rightarrow>
          (let after_header = drop payload_offset data
           in io_bind (get_schema_by_key client key) (\<lambda>x.
              io_bind
                (if sch_type x = Protobuf
                 then io_lift (map_sum id (\<lambda>(indexes, consumed). (drop consumed after_header, Some indexes))
                        (decode_protobuf_message_indexes after_header))
                 else io_return (after_header, None)) (\<lambda>(payload, indexes).
              io_return \<lparr>dm_format = format_of_type (sch_type x), dm_payload = payload,
                dm_metadata = Some (ConfluentMeta x), dm_indexes = indexes\<rparr>))))"

definition decode_glue ::
    "zlib option \<Rightarrow> 's wire_format_decoder \<Rightarrow> bytes \<Rightarrow> glue_version_id \<Rightarrow> glue_compression \<Rightarrow> nat \<Rightarrow>
     ('s, decoded_message) io" where
  "decode_glue z d data version_id compression payload_offset =
     (case wd_glue d of
        None \<Rightarrow> io_fail (InvalidState (Client NoGlueBackend))
      | Some client \<Rightarrow>
          io_bind (io_lift (case compression of
             NoCompression \<Rightarrow> Inr (drop payload_offset data)
           | Zlib \<Rightarrow> decompress_zlib z (drop payload_offset data))) (\<lambda>payload.
          io_bind (gr_get_schema_by_version_id client version_id) (\<lambda>x.
          io_return \<lparr>dm_format = format_of_glue (gs_format x), dm_payload = payload,
            dm_metadata = Some (GlueMeta x), dm_indexes = None\<rparr>)))"

text \<open>\<open>glue\<close> says whether the crate is compiled with the feature of that name.\<close>

definition decode :: "bool \<Rightarrow> zlib option \<Rightarrow> 's wire_format_decoder \<Rightarrow> bytes \<Rightarrow> ('s, decoded_message) io" where
  "decode glue z d data =
     (case detect_wire_format data of
        DetConfluent key payload_offset \<Rightarrow> decode_confluent d data key payload_offset
      | DetGlue version_id compression payload_offset \<Rightarrow>
          if glue then decode_glue z d data version_id compression payload_offset
          else io_fail (NotSupported (Client (Unsupported ''glue'')))
      | InvalidConfluent \<Rightarrow> io_return (passthrough_message data)
      | InvalidGlue \<Rightarrow> io_return (passthrough_message data)
      | Unknown \<Rightarrow> io_return (passthrough_message data))"

definition payload_decode :: "bool \<Rightarrow> zlib option \<Rightarrow> 's wire_format_decoder \<Rightarrow> bytes \<Rightarrow> string \<Rightarrow> encode_target \<Rightarrow> ('s, bytes) io" where
  "payload_decode glue z d payload topic target =
     io_bind (decode glue z d payload) (\<lambda>m. io_return (dm_payload m))"

section \<open>Lemmas\<close>

lemma detect_confluent_frame:
  "detect_wire_format (encode_wire_format key payload) = DetConfluent key (encoded_len key)"
  by (simp add: detect_confluent encode_wire_format_def decode_put_prefix)

lemma decode_of_frame:
  assumes "wd_confluent d = Some rg" and "get_schema_by_key rg key s = (Inr x, s')"
  shows "decode glue z d (encode_wire_format key payload) s =
    (if sch_type x = Protobuf
     then (case decode_protobuf_message_indexes payload of
             Inl e \<Rightarrow> (Inl e, s')
           | Inr (ixs, n) \<Rightarrow>
               (Inr \<lparr>dm_format = FmtProtobuf, dm_payload = drop n payload, dm_metadata = Some (ConfluentMeta x),
                  dm_indexes = Some ixs\<rparr>, s'))
     else (Inr \<lparr>dm_format = format_of_type (sch_type x), dm_payload = payload,
             dm_metadata = Some (ConfluentMeta x), dm_indexes = None\<rparr>, s'))"
proof -
  have "drop (encoded_len key) (encode_wire_format key payload) = payload"
    by (simp add: encode_wire_format_def)
  then show ?thesis
    using assms detect_confluent_frame [of key payload]
    by (auto simp: decode_def decode_confluent_def io_bind_def Let_def split: sum.splits prod.splits)
qed

lemma detect_glue_frame:
  "detect_wire_format (glue_header (compression_byte c) v @ payload) = DetGlue v c GLUE_HEADER_SIZE"
  by (simp add: detect_glue validate_glue_header)

lemma decode_confluent_meta:
  "decode_confluent d data key n s = (Inr m, s') \<Longrightarrow>
   \<exists>x. dm_metadata m = Some (ConfluentMeta x) \<and> dm_format m = format_of_type (sch_type x)"
  by (auto simp: decode_confluent_def Let_def io_bind_Inr_iff split: option.splits if_splits)

lemma decode_glue_meta:
  "decode_glue z d data v c n s = (Inr m, s') \<Longrightarrow>
   \<exists>x. dm_metadata m = Some (GlueMeta x) \<and> dm_format m = format_of_glue (gs_format x)"
  by (auto simp: decode_glue_def io_bind_Inr_iff split: option.splits)

text \<open>Where the metadata of a message comes from.\<close>

lemma decode_confluent_source:
  "decode_confluent d data key n s = (Inr m, s') \<Longrightarrow>
   \<exists>rg x. wd_confluent d = Some rg \<and> get_schema_by_key rg key s = (Inr x, s') \<and> dm_metadata m = Some (ConfluentMeta x)"
  by (cases "wd_confluent d")
    (auto simp: decode_confluent_def Let_def io_bind_def split: prod.splits sum.splits if_splits)

lemma decode_glue_source:
  "decode_glue z d data v c n s = (Inr m, s') \<Longrightarrow>
   \<exists>gr x. wd_glue d = Some gr \<and> gr_get_schema_by_version_id gr v s = (Inr x, s') \<and> dm_metadata m = Some (GlueMeta x)"
  by (cases "wd_glue d") (auto simp: decode_glue_def io_bind_def split: prod.splits sum.splits)

lemma decode_meta:
  assumes "decode glue z d data s = (Inr m, s')"
  shows "(\<exists>meta. dm_metadata m = Some meta \<and> dm_format m = metadata_format meta) \<or> m = passthrough_message data \<and> s' = s"
proof (cases "detect_wire_format data")
  case (DetConfluent key n)
  then have "decode_confluent d data key n s = (Inr m, s')" using assms by (simp add: decode_def)
  from decode_confluent_meta [OF this] show ?thesis by auto
next
  case (DetGlue v c n)
  then have "decode_glue z d data v c n s = (Inr m, s')" using assms by (cases glue) (simp_all add: decode_def)
  from decode_glue_meta [OF this] show ?thesis by auto
qed (use assms in \<open>simp_all add: decode_def\<close>)

text \<open>
  A message agrees with the bytes and the decoder it comes from: the format is that of the
  metadata, a message path comes with a Protobuf schema only, metadata only from a configured
  backend that the prefix names, and the payload is the end of the bytes unless it was compressed.
\<close>

definition well_formed_message :: "bool \<Rightarrow> 's wire_format_decoder \<Rightarrow> bytes \<Rightarrow> decoded_message \<Rightarrow> bool" where
  "well_formed_message glue d data m \<longleftrightarrow>
     (case dm_metadata m of
        None \<Rightarrow> m = passthrough_message data
      | Some (ConfluentMeta x) \<Rightarrow>
          dm_format m = format_of_type (sch_type x) \<and> (dm_indexes m \<noteq> None) = (sch_type x = Protobuf) \<and>
          wd_confluent d \<noteq> None \<and> (\<exists>key n. detect_wire_format data = DetConfluent key n) \<and>
          (\<exists>prefix. data = prefix @ dm_payload m)
      | Some (GlueMeta x) \<Rightarrow>
          dm_format m = format_of_glue (gs_format x) \<and> dm_indexes m = None \<and> glue \<and> wd_glue d \<noteq> None \<and>
          (\<exists>v c n. detect_wire_format data = DetGlue v c n \<and> (c = Zlib \<or> (\<exists>prefix. data = prefix @ dm_payload m))))"

lemma drop_suffix: "\<exists>prefix. xs = prefix @ drop k xs"
  by (intro exI [of _ "take k xs"]) simp

lemma well_formed_confluent:
  assumes "decode_confluent d data key n s = (Inr m, s')" "detect_wire_format data = DetConfluent key n"
  shows "well_formed_message glue d data m"
proof -
  from assms(1) obtain rg x s1 where r: "wd_confluent d = Some rg" "get_schema_by_key rg key s = (Inr x, s1)"
    by (auto simp: decode_confluent_def Let_def io_bind_Inr_iff split: option.splits)
  show ?thesis
  proof (cases "sch_type x = Protobuf")
    case True
    with r assms(1) obtain ixs k where "dm_payload m = drop (k + n) data" "dm_indexes m = Some ixs"
        "dm_metadata m = Some (ConfluentMeta x)" "dm_format m = FmtProtobuf"
      by (cases "decode_protobuf_message_indexes (drop n data)")
        (auto simp: decode_confluent_def Let_def io_bind_def)
    with True r(1) assms(2) drop_suffix show ?thesis by (simp add: well_formed_message_def)
  next
    case False
    with r assms show ?thesis
      by (auto simp: decode_confluent_def Let_def io_bind_def well_formed_message_def drop_suffix)
  qed
qed

lemma well_formed_glue:
  assumes "glue" "decode_glue z d data v c n s = (Inr m, s')" "detect_wire_format data = DetGlue v c n"
  shows "well_formed_message glue d data m"
  using assms
  by (auto simp: decode_glue_def io_bind_Inr_iff well_formed_message_def drop_suffix split: option.splits glue_compression.splits)

text \<open>What is done with a frame of a Glue producer: the payload is unpacked, then the version is looked up.\<close>

lemma decode_glue_frame:
  assumes "encode_glue_wire_format z v payload c = Inr data"
    and "c = Zlib \<Longrightarrow> \<exists>zl raw. z = Some zl \<and> zl_deflate zl payload = Inr raw \<and>
      zl_inflate zl raw = (payload, None) \<and> length payload \<le> MAX_DECOMPRESSED_SIZE"
    and "wd_glue d = Some gr"
  shows "decode True z d data s =
    io_bind (gr_get_schema_by_version_id gr v) (\<lambda>x. io_return
      \<lparr>dm_format = format_of_glue (gs_format x), dm_payload = payload, dm_metadata = Some (GlueMeta x),
       dm_indexes = None\<rparr>) s"
proof (cases c)
  case NoCompression
  then have "data = glue_header (compression_byte c) v @ payload"
    using assms(1) by (simp add: encode_glue_eq)
  then show ?thesis
    using assms(3) detect_glue_frame [of c v payload] NoCompression
    by (simp add: decode_def decode_glue_def io_bind_def)
next
  case Zlib
  then obtain zl raw where z: "z = Some zl" "zl_deflate zl payload = Inr raw" "zl_inflate zl raw = (payload, None)"
      "length payload \<le> MAX_DECOMPRESSED_SIZE"
    using assms(2) by blast
  then have data: "data = glue_header (compression_byte c) v @ raw"
    using assms(1) by (simp add: encode_glue_eq Zlib)
  have "decompress_zlib z raw = Inr payload" unfolding z(1) by (rule decompress_of_stream [OF z(3,4)])
  then show ?thesis
    using assms(3) detect_glue_frame [of c v raw] Zlib
    by (simp add: decode_def decode_glue_def io_bind_def data)
qed

definition io_registry :: "schema \<Rightarrow> 's registry" where
  "io_registry x =
     trait_defaults (\<lambda>_. io_return x) (\<lambda>_. io_return x) (\<lambda>_ _. io_return x) (\<lambda>_ _ _ _. not_supported ''register_schema'')"

section \<open>Properties\<close>

text \<open>
  Dispatch. Data that is no frame of either kind comes back unchanged and unclassified,
  without any call; a frame whose backend is missing is an error, without any call; a frame of
  a schema that is not Protobuf gives the bytes behind the prefix; a Glue payload that does not
  decompress is an error before the registry is asked; and the metadata, when there is any,
  always agrees with the reported format.
\<close>

theorem decoder_dispatch:
  "((\<forall>key n. detect_wire_format data \<noteq> DetConfluent key n) \<and> (\<forall>v c n. detect_wire_format data \<noteq> DetGlue v c n) \<longrightarrow>
      decode glue z d data s = (Inr (passthrough_message data), s)) \<and>
   (wd_confluent d = None \<longrightarrow>
      (\<exists>e. decode glue z d (encode_wire_format key payload) s = (Inl e, s) \<and> is_invalid_state e)) \<and>
   (wd_glue d = None \<longrightarrow>
      (\<exists>e. decode glue z d (glue_header (compression_byte c) v @ payload) s = (Inl e, s) \<and> \<not> is_retryable e)) \<and>
   (decompress_zlib z payload = Inl e \<longrightarrow>
      (\<exists>e'. decode glue z d (glue_header GLUE_COMPRESSION_ZLIB_BYTE v @ payload) s = (Inl e', s))) \<and>
   (\<forall>m s' meta. decode glue z d data s = (Inr m, s') \<longrightarrow> dm_metadata m = Some meta \<longrightarrow>
      dm_format m = metadata_format meta) \<and>
   (\<forall>m s'. decode glue z d data s = (Inr m, s') \<longrightarrow> dm_metadata m = None \<longrightarrow> m = passthrough_message data \<and> s' = s)"
proof (intro conjI allI impI)
  show "decode glue z d data s = (Inr (passthrough_message data), s)"
    if "(\<forall>key n. detect_wire_format data \<noteq> DetConfluent key n) \<and> (\<forall>v c n. detect_wire_format data \<noteq> DetGlue v c n)"
    using that by (cases "detect_wire_format data") (auto simp: decode_def)
  show "\<exists>e. decode glue z d (encode_wire_format key payload) s = (Inl e, s) \<and> is_invalid_state e"
    if "wd_confluent d = None"
    using that by (simp add: decode_def detect_confluent_frame decode_confluent_def)
  show "\<exists>e. decode glue z d (glue_header (compression_byte c) v @ payload) s = (Inl e, s) \<and> \<not> is_retryable e"
    if "wd_glue d = None"
    using that by (simp add: decode_def detect_glue_frame decode_glue_def)
  show "\<exists>e'. decode glue z d (glue_header GLUE_COMPRESSION_ZLIB_BYTE v @ payload) s = (Inl e', s)"
    if "decompress_zlib z payload = Inl e"
    using that detect_glue_frame [of Zlib v payload]
    by (auto simp: decode_def decode_glue_def io_bind_def split: option.splits)
  show "dm_format m = metadata_format meta"
    if "decode glue z d data s = (Inr m, s')" "dm_metadata m = Some meta" for m s' meta
    using decode_meta [OF that(1)] that(2) by (auto simp: passthrough_message_def)
  show "m = passthrough_message data" "s' = s"
    if "decode glue z d data s = (Inr m, s')" "dm_metadata m = None" for m s'
    using decode_meta [OF that(1)] that(2) by auto
qed

theorem decoder_dispatch_witness:
  "decode True None (decoder_new :: nat wire_format_decoder) [0x00, 0x01] 0 = (Inr (passthrough_message [0x00, 0x01]), 0)"
proof -
  have "detect_wire_format [0x00, 0x01] = InvalidConfluent"
    by (simp add: detect_wire_format_def decode_wire_prefix_def wire_consts)
  then have "(\<forall>key n. detect_wire_format [0x00, 0x01] \<noteq> DetConfluent key n) \<and>
      (\<forall>v c n. detect_wire_format [0x00, 0x01] \<noteq> DetGlue v c n)"
    by simp
  then show ?thesis by (rule decoder_dispatch [THEN conjunct1, THEN mp])
qed



text \<open>
  Glue consumers. What a Glue producer framed, compressed or not, is decoded to the
  payload it framed, with the schema that the Glue registry has for the version in the frame.
\<close>

theorem glue_consumer:
  assumes "encode_glue_wire_format z v payload c = Inr data"
    and "c = Zlib \<Longrightarrow> \<exists>zl raw. z = Some zl \<and> zl_deflate zl payload = Inr raw \<and>
      zl_inflate zl raw = (payload, None) \<and> length payload \<le> MAX_DECOMPRESSED_SIZE"
    and "wd_glue d = Some gr" and "gr_get_schema_by_version_id gr v s = (Inr x, s')"
  shows "decode True z d data s =
    (Inr \<lparr>dm_format = format_of_glue (gs_format x), dm_payload = payload, dm_metadata = Some (GlueMeta x),
       dm_indexes = None\<rparr>, s')"
  using decode_glue_frame [OF assms(1-3)] assms(4) by (simp add: io_bind_def)

theorem glue_consumer_witness:
  "\<exists>m. fst (decode True None (with_glue (glue_trait_defaults (\<lambda>v. io_return (glue_schema_new v GlueJson ''{}''))
      (\<lambda>_ _ _. io_return (GlueVersionId 1))) decoder_new)
      (glue_header GLUE_COMPRESSION_NONE_BYTE (GlueVersionId 9) @ [0x7b]) (0 :: nat)) = Inr m \<and> dm_payload m = [0x7b]"
  using glue_consumer [of None "GlueVersionId 9" "[0x7b]" NoCompression
      "glue_header GLUE_COMPRESSION_NONE_BYTE (GlueVersionId 9) @ [0x7b]"
      "with_glue (glue_trait_defaults (\<lambda>v. io_return (glue_schema_new v GlueJson ''{}''))
        (\<lambda>_ _ _. io_return (GlueVersionId 1))) decoder_new"
      "glue_trait_defaults (\<lambda>v. io_return (glue_schema_new v GlueJson ''{}'')) (\<lambda>_ _ _. io_return (GlueVersionId 1))"
      "0 :: nat" "glue_schema_new (GlueVersionId 9) GlueJson ''{}''" 0]
  by (simp add: encode_glue_wire_format_def with_glue_def decoder_new_def glue_trait_defaults_def)

end
