(* ===== verification/Serde_Json.thy ===== *)
theory Serde_Json
  imports Errors
begin

text \<open>
  The value type of \<open>serde_json\<close>, with the accessors the sources call. Parsing and printing
  are parameters wherever they are used. An object is the association list of a \<open>BTreeMap\<close>
  (the default of the crate): keys in order, each once, so that equality of values is equality
  of lists. A number is an integer or the text of a float.
\<close>

datatype json_number = JInt int | JFloat string

datatype json =
    JNull | JBool bool | JNumber json_number | JString string
  | JArray "json list" | JObject "(string \<times> json) list"

fun as_object :: "json \<Rightarrow> (string \<times> json) list option" where
  "as_object (JObject m) = Some m"
| "as_object _ = None"

fun as_str :: "json \<Rightarrow> string option" where
  "as_str (JString s) = Some s"
| "as_str _ = None"

end
