(* ===== verification/Topo_Order.thy ===== *)
theory Topo_Order
  imports Main
begin

text \<open>
  Kahn's algorithm as \<open>order_schemata\<close> in \<open>src/avro/schema_set.rs\<close> runs it: a heap of ready
  indices (a sorted list, the least first), the number of prerequisites each index still waits
  for, and the lists of dependents. \<open>None\<close> is a panic: an index out of range or a counter
  below zero.
\<close>

fun release :: "nat list \<Rightarrow> nat list \<Rightarrow> nat list \<Rightarrow> (nat list \<times> nat list) option" where
  "release [] remaining ready = Some (remaining, ready)"
| "release (dependent # ds) remaining ready =
     (if length remaining \<le> dependent \<or> remaining ! dependent = 0 then None
      else let remaining = remaining[dependent := remaining ! dependent - 1]
           in release ds remaining (if remaining ! dependent = 0 then insort dependent ready else ready))"

definition waiting :: "nat list \<Rightarrow> nat" where
  "waiting remaining = card {d. d < length remaining \<and> 0 < remaining ! d}"

lemma waiting_decrement:
  assumes "d < length remaining" and "0 < remaining ! d"
  shows "waiting (remaining[d := remaining ! d - 1]) = (if remaining ! d = 1 then waiting remaining - 1 else waiting remaining)"
    and "0 < waiting remaining"
proof -
  let ?S = "{d. d < length remaining \<and> 0 < remaining ! d}"
  have "d \<in> ?S" "finite ?S" using assms by auto
  moreover have "{e. e < length remaining \<and> 0 < remaining[d := remaining ! d - 1] ! e} =
      (if remaining ! d = 1 then ?S - {d} else ?S)"
    using assms by (auto simp: nth_list_update split: if_splits)
  ultimately show "waiting (remaining[d := remaining ! d - 1]) =
      (if remaining ! d = 1 then waiting remaining - 1 else waiting remaining)"
    by (simp add: waiting_def)
  show "0 < waiting remaining"
    using \<open>d \<in> ?S\<close> \<open>finite ?S\<close> by (auto simp: waiting_def card_gt_0_iff)
qed

lemma release_measure:
  "release ds remaining ready = Some (remaining', ready') \<Longrightarrow>
   2 * waiting remaining' + length ready' \<le> 2 * waiting remaining + length ready"
proof (induction ds remaining ready rule: release.induct)
  case (2 d ds remaining ready)
  then have d: "d < length remaining" "0 < remaining ! d"
    and IH: "2 * waiting remaining' + length ready' \<le>
      2 * waiting (remaining[d := remaining ! d - 1]) +
      length (if remaining[d := remaining ! d - 1] ! d = 0 then insort d ready else ready)"
    by (auto simp: Let_def split: if_splits)
  show ?case
    using IH waiting_decrement [OF d] d by (auto split: if_splits)
qed simp

function kahn :: "nat list list \<Rightarrow> nat list \<Rightarrow> nat list \<Rightarrow> nat list \<Rightarrow> (nat list \<times> nat list) option" where
  "kahn dependents [] remaining order = Some (order, remaining)"
| "kahn dependents (index # ready) remaining order =
     (if length dependents \<le> index then None
      else case release (dependents ! index) remaining ready of
             None \<Rightarrow> None
           | Some (remaining, ready) \<Rightarrow> kahn dependents ready remaining (order @ [index]))"
  by pat_completeness auto

termination kahn
  by (relation "measure (\<lambda>(_, ready, remaining, _). 2 * waiting remaining + length ready)")
    (auto dest!: release_measure)

text \<open>What one round does to the counters and the heap.\<close>

lemma release_spec:
  assumes "distinct ds" and "\<forall>d \<in> set ds. d < length remaining \<and> 0 < remaining ! d"
  shows "\<exists>remaining' ready'. release ds remaining ready = Some (remaining', ready') \<and>
    length remaining' = length remaining \<and>
    (\<forall>d < length remaining. remaining' ! d = (if d \<in> set ds then remaining ! d - 1 else remaining ! d)) \<and>
    set ready' = set ready \<union> {d \<in> set ds. remaining ! d = 1} \<and>
    (sorted ready \<longrightarrow> sorted ready') \<and>
    (distinct ready \<and> set ds \<inter> set ready = {} \<longrightarrow> distinct ready')"
  using assms
proof (induction ds arbitrary: remaining ready)
  case Nil
  then show ?case by simp
next
  case (Cons d ds)
  let ?rem = "remaining[d := remaining ! d - 1]"
  let ?ready = "if ?rem ! d = 0 then insort d ready else ready"
  have d: "d < length remaining" "0 < remaining ! d" "d \<notin> set ds" "distinct ds"
    using Cons.prems by auto
  have "\<forall>e \<in> set ds. e < length ?rem \<and> 0 < ?rem ! e"
    using Cons.prems d(3) by (auto simp: nth_list_update)
  from Cons.IH [OF d(4) this, of ?ready] obtain rem' ready' where
    r: "release ds ?rem ?ready = Some (rem', ready')" "length rem' = length ?rem"
      "\<forall>e < length ?rem. rem' ! e = (if e \<in> set ds then ?rem ! e - 1 else ?rem ! e)"
      "set ready' = set ?ready \<union> {e \<in> set ds. ?rem ! e = 1}"
      "sorted ?ready \<longrightarrow> sorted ready'"
      "distinct ?ready \<and> set ds \<inter> set ?ready = {} \<longrightarrow> distinct ready'"
    by blast
  have "release (d # ds) remaining ready = Some (rem', ready')"
    using d r(1) by (simp add: Let_def)
  moreover have "\<forall>e < length remaining. rem' ! e = (if e \<in> set (d # ds) then remaining ! e - 1 else remaining ! e)"
    using r(3) d by (auto simp: nth_list_update)
  moreover have "set ready' = set ready \<union> {e \<in> set (d # ds). remaining ! e = 1}"
  proof -
    have "{e \<in> set ds. ?rem ! e = 1} = {e \<in> set ds. remaining ! e = 1}"
      using d(3) by (metis nth_list_update_neq)
    moreover have "set ?ready = set ready \<union> (if remaining ! d = 1 then {d} else {})"
      using d by (auto simp: set_insort_key)
    ultimately show ?thesis unfolding r(4) by auto
  qed
  moreover have "sorted ready \<longrightarrow> sorted ready'"
    using r(5) by (auto simp: sorted_insort)
  moreover have "distinct ready \<and> set (d # ds) \<inter> set ready = {} \<longrightarrow> distinct ready'"
    using r(6) d(3) by (auto simp: distinct_insort set_insort_key split: if_splits)
  ultimately show ?case using r(2) by (intro exI [of _ rem'] exI [of _ ready']) simp
qed

section \<open>Topological orders\<close>

definition topological :: "nat \<Rightarrow> (nat \<Rightarrow> nat set) \<Rightarrow> nat list \<Rightarrow> bool" where
  "topological n pre order \<longleftrightarrow>
     distinct order \<and> set order = {..<n} \<and> (\<forall>k < length order. pre (order ! k) \<subseteq> set (take k order))"

text \<open>The edges of the graph, and the nodes that are on a cycle or wait for one.\<close>

definition edges :: "nat \<Rightarrow> (nat \<Rightarrow> nat set) \<Rightarrow> (nat \<times> nat) set" where
  "edges n pre = {(d, i). d < n \<and> i \<in> pre d}"

definition blocked :: "nat \<Rightarrow> (nat \<Rightarrow> nat set) \<Rightarrow> nat \<Rightarrow> bool" where
  "blocked n pre d \<longleftrightarrow> (\<exists>c. (d, c) \<in> (edges n pre)\<^sup>* \<and> (c, c) \<in> (edges n pre)\<^sup>+)"

text \<open>A walk that never leaves a finite set closes a cycle.\<close>

lemma walk_closes_cycle:
  assumes "finite S" and succ: "\<And>x. x \<in> S \<Longrightarrow> \<exists>y \<in> S. (x, y) \<in> R" and "d \<in> S"
  shows "\<exists>c. (d, c) \<in> R\<^sup>* \<and> (c, c) \<in> R\<^sup>+"
proof -
  obtain f where f: "\<And>x. x \<in> S \<Longrightarrow> f x \<in> S \<and> (x, f x) \<in> R" using succ by metis
  let ?w = "\<lambda>k. (f ^^ k) d"
  have inS: "?w k \<in> S" for k by (induction k) (use f assms(3) in auto)
  have step: "(?w k, ?w (Suc k)) \<in> R" for k using f [OF inS] by simp
  have walk: "(?w i, ?w (i + k)) \<in> R\<^sup>*" for i k
    by (induction k) (use step in \<open>auto intro: rtrancl_into_rtrancl\<close>)
  have "\<not> inj ?w"
    using assms(1) inS by (meson finite_subset finite_imageD image_subsetI infinite_UNIV_nat)
  then obtain i j where "i < j" "?w i = ?w j" by (metis injI linorder_neqE_nat)
  then obtain k where k: "?w i = ?w (Suc (i + k))" using less_imp_Suc_add by blast
  have "(?w i, ?w (Suc (i + k))) \<in> R\<^sup>+" by (rule rtrancl_into_trancl1 [OF walk step])
  then have "(?w i, ?w i) \<in> R\<^sup>+" using k by simp
  moreover have "(d, ?w i) \<in> R\<^sup>*" using walk [of 0 i] by simp
  ultimately show ?thesis by blast
qed

text \<open>The interface between the graph a client builds and the algorithm.\<close>

locale prerequisite_graph =
  fixes n :: nat and pre :: "nat \<Rightarrow> nat set" and dependents :: "nat list list"
  assumes len: "length dependents = n"
    and pre_range: "pre d \<subseteq> {..<n}"
    and deps: "i < n \<Longrightarrow> set (dependents ! i) = {d. d < n \<and> i \<in> pre d}"
    and deps_distinct: "i < n \<Longrightarrow> distinct (dependents ! i)"
begin

lemma finite_pre: "finite (pre d)"
  using pre_range finite_subset by blast

definition state_ok :: "nat list \<Rightarrow> nat list \<Rightarrow> nat list \<Rightarrow> bool" where
  "state_ok ready remaining order \<longleftrightarrow>
     length remaining = n \<and> distinct (order @ ready) \<and> sorted ready \<and>
     set (order @ ready) = {d. d < n \<and> remaining ! d = 0} \<and>
     (\<forall>d < n. remaining ! d = card (pre d - set order)) \<and>
     (\<forall>k < length order. pre (order ! k) \<subseteq> set (take k order))"

lemma state_ok_step:
  assumes "state_ok (i # ready) remaining order"
  shows "\<exists>remaining' ready'. i < length dependents \<and>
    release (dependents ! i) remaining ready = Some (remaining', ready') \<and>
    state_ok ready' remaining' (order @ [i])"
proof -
  have st: "length remaining = n" "distinct order" "distinct (i # ready)" "set order \<inter> set (i # ready) = {}"
      "sorted ready" "set (order @ i # ready) = {d. d < n \<and> remaining ! d = 0}"
      "\<And>d. d < n \<Longrightarrow> remaining ! d = card (pre d - set order)"
      "\<forall>k < length order. pre (order ! k) \<subseteq> set (take k order)"
    using assms by (auto simp: state_ok_def)
  have i: "i < n" "remaining ! i = 0" "i \<notin> set order" using st(4,6) by auto
  have pos: "0 < remaining ! d" if "d < n" "i \<in> pre d" for d
    using st(7) [OF that(1)] that(2) i(3) finite_pre [of d] by (auto simp: card_gt_0_iff)
  have "\<forall>d \<in> set (dependents ! i). d < length remaining \<and> 0 < remaining ! d"
    using deps [OF i(1)] pos st(1) by auto
  from release_spec [OF deps_distinct [OF i(1)] this, of ready] obtain rem' ready' where
    r: "release (dependents ! i) remaining ready = Some (rem', ready')" "length rem' = n"
      "\<forall>d < n. rem' ! d = (if i \<in> pre d then remaining ! d - 1 else remaining ! d)"
      "set ready' = set ready \<union> {d. d < n \<and> i \<in> pre d \<and> remaining ! d = 1}" "sorted ready'"
      "distinct ready \<and> set (dependents ! i) \<inter> set ready = {} \<longrightarrow> distinct ready'"
    using deps [OF i(1)] st(1,5) by auto
  have zero: "remaining ! d = 0" if "d \<in> set order \<union> set ready" for d
    using st(6) that by auto
  have dr: "distinct ready'"
    using r(6) st(3) zero pos deps [OF i(1)] by fastforce
  have "remaining ! d - 1 = card (pre d - set (order @ [i]))" if "d < n" "i \<in> pre d" for d
  proof -
    have "pre d - set (order @ [i]) = (pre d - set order) - {i}" by auto
    then show ?thesis
      using st(7) [OF that(1)] that(2) i(3) by simp
  qed
  moreover have "card (pre d - set order) = card (pre d - set (order @ [i]))" if "i \<notin> pre d" for d
    using that by (intro arg_cong [where f = card]) auto
  ultimately have counts: "rem' ! d = card (pre d - set (order @ [i]))" if "d < n" for d
    using r(3) st(7) that by metis
  have "d \<in> set (order @ [i] @ ready') \<longleftrightarrow> d < n \<and> rem' ! d = 0" for d
  proof -
    have old: "d \<in> set order \<union> {i} \<union> set ready \<longleftrightarrow> d < n \<and> remaining ! d = 0" using st(6) by auto
    have "d < n \<Longrightarrow> rem' ! d = 0 \<longleftrightarrow> remaining ! d = 0 \<or> i \<in> pre d \<and> remaining ! d = 1"
      using r(3) by auto
    moreover have "d \<in> set ready' \<longleftrightarrow> d \<in> set ready \<or> d < n \<and> i \<in> pre d \<and> remaining ! d = 1"
      using r(4) by auto
    ultimately show ?thesis using old by auto
  qed
  then have "set (order @ [i] @ ready') = {d. d < n \<and> rem' ! d = 0}" by blast
  moreover have "distinct ((order @ [i]) @ ready')"
  proof -
    have "set ready' \<subseteq> set ready \<union> {d. 0 < remaining ! d}" using r(4) by auto
    moreover have "set (order @ [i]) \<inter> {d. 0 < remaining ! d} = {}" using zero i(2) by auto
    ultimately show ?thesis using st(2-4) dr by auto
  qed
  moreover have "pre i \<subseteq> set order"
    using st(7) [OF i(1)] i(2) finite_pre [of i] by simp
  then have "\<forall>k < length (order @ [i]). pre ((order @ [i]) ! k) \<subseteq> set (take k (order @ [i]))"
    using st(8) by (auto simp: nth_append less_Suc_eq)
  ultimately show ?thesis
    using r(1,2,5) counts len i(1) by (auto simp: state_ok_def)
qed

text \<open>The loop ends, without a panic, in a state of which any property of the rounds holds.\<close>

lemma kahn_ends:
  assumes "state_ok ready remaining order" and "P order"
    and "\<forall>i ready remaining order. state_ok (i # ready) remaining order \<longrightarrow> P order \<longrightarrow> P (order @ [i])"
  shows "\<exists>order' remaining'. kahn dependents ready remaining order = Some (order', remaining') \<and>
    state_ok [] remaining' order' \<and> P order'"
  using assms(1,2)
proof (induction "2 * waiting remaining + length ready" arbitrary: ready remaining order rule: less_induct)
  case less
  show ?case
  proof (cases ready)
    case Nil
    then show ?thesis using less.prems by simp
  next
    case (Cons i rs)
    from state_ok_step [OF less.prems(1) [unfolded Cons]] obtain rem' rs' where
      s: "i < length dependents" "release (dependents ! i) remaining rs = Some (rem', rs')"
        "state_ok rs' rem' (order @ [i])" by blast
    have "2 * waiting rem' + length rs' < 2 * waiting remaining + length ready"
      using release_measure [OF s(2)] Cons by simp
    from less.hyps [OF this s(3)] assms(3) less.prems Cons obtain order' remaining' where
      "kahn dependents rs' rem' (order @ [i]) = Some (order', remaining')" "state_ok [] remaining' order'" "P order'"
      by blast
    with s(1,2) Cons show ?thesis by auto
  qed
qed

lemma state_ok_init:
  assumes "length remaining = n" and "\<And>d. d < n \<Longrightarrow> remaining ! d = card (pre d)"
  shows "state_ok (filter (\<lambda>d. remaining ! d = 0) [0..<n]) remaining []"
  using assms by (auto simp: state_ok_def intro: sorted_filter [where f = id, simplified])

lemma kahn_complete:
  assumes "state_ok [] remaining order" and "length order = n"
  shows "topological n pre order"
proof -
  have "set order \<subseteq> {..<n}" "distinct order" using assms(1) by (auto simp: state_ok_def)
  moreover from this have "set order = {..<n}"
    using assms(2) by (intro card_subset_eq) (auto simp: distinct_card)
  ultimately show ?thesis using assms(1) by (simp add: topological_def state_ok_def)
qed

lemma kahn_stuck:
  assumes "state_ok [] remaining order" and "topological n pre perm"
  shows "length order = n"
proof -
  have inv: "distinct order" "set order = {d. d < n \<and> remaining ! d = 0}"
      "\<And>d. d < n \<Longrightarrow> remaining ! d = card (pre d - set order)"
    using assms(1) by (auto simp: state_ok_def)
  have t: "set perm = {..<n}" "\<forall>k < length perm. pre (perm ! k) \<subseteq> set (take k perm)"
    using assms(2) by (auto simp: topological_def)
  have "perm ! k \<in> set order" if "k < length perm" for k
    using that
  proof (induction k rule: less_induct)
    case (less k)
    have "set (take k perm) \<subseteq> set order"
      using less by (auto simp: set_conv_nth)
    then have "pre (perm ! k) - set order = {}" using t(2) less.prems by blast
    moreover have "perm ! k < n" using t(1) less.prems nth_mem by blast
    moreover from this have "remaining ! (perm ! k) = 0"
      using inv(3) \<open>pre (perm ! k) - set order = {}\<close> by (metis card.empty)
    ultimately show ?case using inv(2) by simp
  qed
  then have "set perm \<subseteq> set order" by (metis in_set_conv_nth subsetI)
  then have "{..<n} \<subseteq> set order" using t(1) by simp
  then have "set order = {..<n}" using inv(2) by auto
  then show ?thesis using distinct_card [OF inv(1)] by simp
qed

text \<open>What is left over when the loop ends is exactly what a cycle blocks.\<close>

lemma ordered_before:
  assumes "state_ok ready remaining order" and "(d, c) \<in> (edges n pre)\<^sup>+" and "k < length order" and "order ! k = d"
  shows "\<exists>l < k. order ! l = c"
  using assms(2-4)
proof (induction arbitrary: k rule: converse_trancl_induct)
  case (base d)
  then have "c \<in> set (take k order)" using assms(1) by (auto simp: state_ok_def edges_def)
  then show ?case by (auto simp: in_set_conv_nth)
next
  case (step d e)
  then have "e \<in> set (take k order)" using assms(1) by (auto simp: state_ok_def edges_def)
  then obtain l where "l < k" "order ! l = e" by (auto simp: in_set_conv_nth)
  with step.IH [of l] step.prems show ?case by (metis less_trans)
qed

lemma kahn_leaves_blocked:
  assumes "state_ok [] remaining order" and "d < n"
  shows "0 < remaining ! d \<longleftrightarrow> blocked n pre d"
proof
  have inv: "set order = {d. d < n \<and> remaining ! d = 0}" "\<And>d. d < n \<Longrightarrow> remaining ! d = card (pre d - set order)"
    using assms(1) by (auto simp: state_ok_def)
  let ?S = "{d. d < n \<and> 0 < remaining ! d}"
  show "blocked n pre d" if "0 < remaining ! d"
    unfolding blocked_def
  proof (rule walk_closes_cycle [of ?S])
    show "\<exists>y \<in> ?S. (x, y) \<in> edges n pre" if x: "x \<in> ?S" for x
    proof -
      have "0 < card (pre x - set order)" using inv(2) x by auto
      then obtain y where "y \<in> pre x" "y \<notin> set order" by (auto simp: card_gt_0_iff)
      moreover from this have "y < n" using pre_range by blast
      ultimately show ?thesis using inv(1) x by (auto simp: edges_def intro!: bexI [of _ y])
    qed
  qed (use assms(2) that in auto)
  show "0 < remaining ! d" if "blocked n pre d"
  proof (rule ccontr)
    assume "\<not> 0 < remaining ! d"
    then have "d \<in> set order" using inv(1) assms(2) by simp
    then obtain k where k: "k < length order" "order ! k = d" by (auto simp: in_set_conv_nth)
    from that obtain c where c: "(d, c) \<in> (edges n pre)\<^sup>*" "(c, c) \<in> (edges n pre)\<^sup>+"
      by (auto simp: blocked_def)
    have "\<exists>l < length order. order ! l = c"
    proof (cases "d = c")
      case False
      with c(1) have "(d, c) \<in> (edges n pre)\<^sup>+" by (simp add: rtrancl_eq_or_trancl)
      from ordered_before [OF assms(1) this k] obtain l where "l < k" "order ! l = c" by blast
      with k(1) show ?thesis by (intro exI [of _ l]) simp
    qed (use k in blast)
    then obtain l where l: "l < length order" "order ! l = c" by blast
    from ordered_before [OF assms(1) c(2) l] obtain l' where "l' < l" "order ! l' = c" by blast
    then show False using assms(1) l by (auto simp: state_ok_def distinct_conv_nth)
  qed
qed

text \<open>With the identity topological, every round appends the next index.\<close>

lemma identity_step:
  assumes "\<forall>d < n. pre d \<subseteq> {..<d}" and "state_ok (i # ready) remaining order" and "order = [0..<length order]"
  shows "order @ [i] = [0..<length (order @ [i])]"
proof -
  let ?m = "length order"
  have inv: "distinct (order @ i # ready)" "sorted (i # ready)"
      "set (order @ i # ready) = {d. d < n \<and> remaining ! d = 0}"
      "\<And>d. d < n \<Longrightarrow> remaining ! d = card (pre d - set order)"
    using assms(2) by (auto simp: state_ok_def)
  have so: "set order = {..<?m}" using assms(3) by (metis atLeast_upt)
  have i: "i < n" "i \<notin> set order" using inv(1,3) by auto
  then have "?m \<le> i" using so by auto
  then have m: "?m < n" using i(1) by simp
  have "pre ?m - set order = {}" using assms(1) m so by auto
  then have "remaining ! ?m = 0" using inv(4) [OF m] by (metis card.empty)
  then have "?m \<in> set (order @ i # ready)" using inv(3) m by auto
  then have "?m \<in> set (i # ready)" using so by auto
  then have "i \<le> ?m" using inv(2) by auto
  with \<open>?m \<le> i\<close> have "i = ?m" by simp
  then show ?thesis using assms(3) by simp
qed

theorem kahn_result:
  assumes "length remaining = n" and "\<And>d. d < n \<Longrightarrow> remaining ! d = card (pre d)"
  shows "\<exists>order remaining'. kahn dependents (filter (\<lambda>d. remaining ! d = 0) [0..<n]) remaining [] = Some (order, remaining') \<and>
    distinct order \<and> set order \<subseteq> {..<n} \<and> length remaining' = n \<and>
    (\<forall>d < n. 0 < remaining' ! d \<longleftrightarrow> blocked n pre d) \<and>
    set order = {d. d < n \<and> \<not> blocked n pre d} \<and>
    (length order = n \<longleftrightarrow> (\<exists>perm. topological n pre perm)) \<and>
    (length order = n \<longrightarrow> topological n pre order) \<and>
    ((\<forall>d < n. pre d \<subseteq> {..<d}) \<longrightarrow> order = [0..<n])"
proof -
  let ?P = "\<lambda>order. (\<forall>d < n. pre d \<subseteq> {..<d}) \<longrightarrow> order = [0..<length order]"
  have init: "state_ok (filter (\<lambda>d. remaining ! d = 0) [0..<n]) remaining []"
    by (rule state_ok_init [OF assms])
  have step: "\<forall>i ready remaining order. state_ok (i # ready) remaining order \<longrightarrow> ?P order \<longrightarrow> ?P (order @ [i])"
    using identity_step by blast
  have "?P []" by simp
  from kahn_ends [where P = ?P, OF init this step] obtain order rem' where
    k: "kahn dependents (filter (\<lambda>d. remaining ! d = 0) [0..<n]) remaining [] = Some (order, rem')"
      "state_ok [] rem' order" "?P order"
    by blast
  have id: "topological n pre [0..<n]" if "\<forall>d < n. pre d \<subseteq> {..<d}"
    using that by (auto simp: topological_def subset_iff)
  have "length order = n \<longleftrightarrow> (\<exists>perm. topological n pre perm)"
    using kahn_complete [OF k(2)] kahn_stuck [OF k(2)] by blast
  moreover have "(\<forall>d < n. pre d \<subseteq> {..<d}) \<longrightarrow> order = [0..<n]"
    using k(3) kahn_stuck [OF k(2) id] by metis
  moreover have "set order = {d. d < n \<and> \<not> blocked n pre d}"
  proof -
    have "set order = {d. d < n \<and> rem' ! d = 0}" using k(2) by (simp add: state_ok_def)
    also have "\<dots> = {d. d < n \<and> \<not> blocked n pre d}" using kahn_leaves_blocked [OF k(2)] by fastforce
    finally show ?thesis .
  qed
  moreover have "distinct order" "set order \<subseteq> {..<n}" "length rem' = n"
    using k(2) by (auto simp: state_ok_def)
  moreover have "\<forall>d < n. 0 < rem' ! d \<longleftrightarrow> blocked n pre d" using kahn_leaves_blocked [OF k(2)] by blast
  moreover have "length order = n \<longrightarrow> topological n pre order" using kahn_complete [OF k(2)] by blast
  ultimately show ?thesis
    by (intro exI [where x = order] exI [where x = rem'] conjI k(1))
qed

end

end
