(* ===== verification/Avro_Set.thy ===== *)
theory Avro_Set
  imports Serde_Json Topo_Order "HOL-Library.List_Lexorder" "HOL-Library.Char_ord"
begin

text \<open>
  An Avro schema together with the schemas it references (\<open>src/avro/schema_set.rs\<close>): names
  defined and referenced, dropping repeated definitions, ordering the set for the codec, and
  the entry points \<open>parse\<close> and \<open>from_parsed\<close>.

  \<open>apache_avro\<close> and \<open>serde_json\<close> are not part of the sources: their functions are the fields of
  \<open>avro_api\<close>, and an \<open>apache_avro::Schema\<close> is reduced to what this module looks at (the names
  and the nesting); the attributes it only passes on are one opaque field.
\<close>

section \<open>The codec's interface\<close>

record avro_name =
  an_name :: string
  an_namespace :: "string option"

datatype avro =
    AArray avro | AMap avro | AUnion "avro list"
  | AEnum avro_name string | AFixed avro_name string
  | ARecord avro_name "avro list" string
  | ARef avro_name | AOther string

record 'v avro_api =
  av_qualified :: "avro_name \<Rightarrow> string option \<Rightarrow> avro_name"
  av_fullname :: "avro_name \<Rightarrow> string option \<Rightarrow> string"
  av_eq :: "avro \<Rightarrow> avro \<Rightarrow> bool"
  av_parse_str :: "string \<Rightarrow> string + avro"
  av_parse_list :: "string list \<Rightarrow> string + avro list"
  av_json :: "string \<Rightarrow> string + json"
  av_to_datum :: "avro \<Rightarrow> 'v \<Rightarrow> string + u8 list"
  av_to_datum_schemata :: "avro \<Rightarrow> avro list \<Rightarrow> 'v \<Rightarrow> string + u8 list"
  av_from_datum :: "avro \<Rightarrow> u8 list \<Rightarrow> string + 'v"
  av_from_datum_schemata :: "avro \<Rightarrow> avro list \<Rightarrow> u8 list \<Rightarrow> string + 'v"
  av_from_datum_reader :: "avro \<Rightarrow> avro list \<Rightarrow> u8 list \<Rightarrow> avro \<Rightarrow> avro list \<Rightarrow> string + 'v"

definition MAX_REFERENCES :: nat where "MAX_REFERENCES = 256"

section \<open>Names\<close>

text \<open>A \<open>BTreeSet\<close> is its elements in ascending order.\<close>

definition fullname :: "'v avro_api \<Rightarrow> avro_name \<Rightarrow> string option \<Rightarrow> string" where
  "fullname api name enclosing = av_fullname api (av_qualified api name enclosing) None"

fun walk_names ::
    "'v avro_api \<Rightarrow> avro \<Rightarrow> string option \<Rightarrow> string list \<times> string list \<Rightarrow> string list \<times> string list" where
  "walk_names api (AArray items) enclosing names = walk_names api items enclosing names"
| "walk_names api (AMap types) enclosing names = walk_names api types enclosing names"
| "walk_names api (AUnion variants) enclosing names =
     fold (\<lambda>variant names. walk_names api variant enclosing names) variants names"
| "walk_names api (AEnum name _) enclosing (defines, refs) =
     (insort_insert (fullname api name enclosing) defines, refs)"
| "walk_names api (AFixed name _) enclosing (defines, refs) =
     (insort_insert (fullname api name enclosing) defines, refs)"
| "walk_names api (ARecord name schemas _) enclosing (defines, refs) =
     (let name = av_qualified api name enclosing
      in fold (\<lambda>s names. walk_names api s (an_namespace name) names) schemas
           (insort_insert (av_fullname api name None) defines, refs))"
| "walk_names api (ARef name) enclosing (defines, refs) =
     (defines, insort_insert (fullname api name enclosing) refs)"
| "walk_names api (AOther _) enclosing names = names"

definition names_of :: "'v avro_api \<Rightarrow> avro \<Rightarrow> string list \<times> string list" where
  "names_of api s = walk_names api s None ([], [])"

fun name_of :: "'v avro_api \<Rightarrow> avro \<Rightarrow> string option" where
  "name_of api (ARecord name _ _) = Some (av_fullname api name (an_namespace name))"
| "name_of api (AEnum name _) = Some (av_fullname api name (an_namespace name))"
| "name_of api (AFixed name _) = Some (av_fullname api name (an_namespace name))"
| "name_of api _ = None"

section \<open>Errors\<close>

text \<open>The third argument of the message is the typo hint: an unqualified name.\<close>

definition missing_definition :: "string \<Rightarrow> string option \<Rightarrow> schema_role \<Rightarrow> sreg_error" where
  "missing_definition name referencing role =
     Config (Codec (MissingTypeDefinition role name referencing (CHR ''.'' \<notin> set name)))"

definition nested_definition :: "string \<Rightarrow> string option \<Rightarrow> schema_role \<Rightarrow> sreg_error" where
  "nested_definition name inside role = Config (Codec (NestedTypeDefinition role name inside))"

fun nested_owner :: "'v avro_api \<Rightarrow> string \<Rightarrow> string list \<Rightarrow> string option" where
  "nested_owner api name [] = None"
| "nested_owner api name (dependency # ds) =
     (case av_parse_str api dependency of
        Inl _ \<Rightarrow> nested_owner api name ds
      | Inr s \<Rightarrow>
          let top_level = name_of api s
          in if top_level = Some name then nested_owner api name ds
             else if name \<in> set (fst (names_of api s))
                  then Some (case top_level of Some n \<Rightarrow> n | None \<Rightarrow> ''another supplied schema'')
                  else nested_owner api name ds)"

definition parse_failed :: "'v avro_api \<Rightarrow> string \<Rightarrow> schema_role \<Rightarrow> string list \<Rightarrow> sreg_error" where
  "parse_failed api message role dependencies =
     (case strip_prefix ''Unknown primitive type: '' message of
        Some name \<Rightarrow>
          (case nested_owner api name dependencies of
             Some owner \<Rightarrow> nested_definition name (Some owner) role
           | None \<Rightarrow> missing_definition name None role)
      | None \<Rightarrow>
          Config (Codec (if dependencies = [] then InvalidSchema role message
                         else InvalidSchemaWith role (length dependencies) message)))"

section \<open>Ordering\<close>

fun insert_names :: "schema_role \<Rightarrow> nat \<Rightarrow> string list \<Rightarrow> (string, nat) hashmap \<Rightarrow> (string, nat) hashmap res" where
  "insert_names role index [] definer = Inr definer"
| "insert_names role index (name # names) definer =
     (if hm_get definer name \<noteq> None then Inl (Config (Codec (DuplicateDefinition role name)))
      else insert_names role index names (hm_put name index definer))"

fun definers :: "schema_role \<Rightarrow> nat \<Rightarrow> (string list \<times> string list) list \<Rightarrow> (string, nat) hashmap
    \<Rightarrow> (string, nat) hashmap res" where
  "definers role index [] definer = Inr definer"
| "definers role index ((defines, _) # infos) definer =
     res_bind (insert_names role index defines definer) (definers role (Suc index) infos)"

type_synonym avro_graph = "nat list list \<times> nat list list"

fun link_names :: "'v avro_api \<Rightarrow> schema_role \<Rightarrow> avro list \<Rightarrow> (string, nat) hashmap \<Rightarrow> nat \<Rightarrow> string list
    \<Rightarrow> string list \<Rightarrow> avro_graph \<Rightarrow> avro_graph res" where
  "link_names api role parsed definer index defines [] g = Inr g"
| "link_names api role parsed definer index defines (name # names) (prerequisites, dependents) =
     (if name \<in> set defines
      then link_names api role parsed definer index defines names (prerequisites, dependents)
      else case hm_get definer name of
             None \<Rightarrow> Inl (missing_definition name (name_of api (parsed ! index)) role)
           | Some definer_index \<Rightarrow>
               if name_of api (parsed ! definer_index) \<noteq> Some name
               then Inl (nested_definition name (name_of api (parsed ! definer_index)) role)
               else link_names api role parsed definer index defines names
                 (if definer_index \<in> set (prerequisites ! index) then (prerequisites, dependents)
                  else (prerequisites[index := insort definer_index (prerequisites ! index)],
                        dependents[definer_index := dependents ! definer_index @ [index]])))"

fun link_all :: "'v avro_api \<Rightarrow> schema_role \<Rightarrow> avro list \<Rightarrow> (string, nat) hashmap \<Rightarrow> nat
    \<Rightarrow> (string list \<times> string list) list \<Rightarrow> avro_graph \<Rightarrow> avro_graph res" where
  "link_all api role parsed definer index [] g = Inr g"
| "link_all api role parsed definer index ((defines, refs) # infos) g =
     res_bind (link_names api role parsed definer index defines refs g)
       (link_all api role parsed definer (Suc index) infos)"

definition avro_graph :: "'v avro_api \<Rightarrow> schema_role \<Rightarrow> avro list \<Rightarrow> avro_graph res" where
  "avro_graph api role parsed =
     (let infos = map (names_of api) parsed
      in res_bind (definers role 0 infos []) (\<lambda>definer.
           link_all api role parsed definer 0 infos
             (replicate (length parsed) [], replicate (length parsed) [])))"

text \<open>The last step takes each schema out of its slot, once.\<close>

fun take_slots :: "nat list \<Rightarrow> 'a option list \<Rightarrow> 'a list" where
  "take_slots [] slots = []"
| "take_slots (index # order) slots =
     (case slots ! index of
        None \<Rightarrow> take_slots order (slots[index := None])
      | Some s \<Rightarrow> s # take_slots order (slots[index := None]))"

definition cycle_names :: "'v avro_api \<Rightarrow> avro list \<Rightarrow> nat list \<Rightarrow> string list" where
  "cycle_names api parsed remaining =
     List.map_filter (\<lambda>index. name_of api (parsed ! index))
       (filter (\<lambda>index. 0 < remaining ! index) [0..<length parsed])"

definition order_schemata :: "'v avro_api \<Rightarrow> schema_role \<Rightarrow> avro list \<Rightarrow> avro list res option" where
  "order_schemata api role parsed =
     (case avro_graph api role parsed of
        Inl e \<Rightarrow> Some (Inl e)
      | Inr (prerequisites, dependents) \<Rightarrow>
          let ready = filter (\<lambda>index. prerequisites ! index = []) [0..<length prerequisites];
              remaining = map length prerequisites
          in case kahn dependents ready remaining [] of
               None \<Rightarrow> None
             | Some (order, remaining) \<Rightarrow>
                 Some (if length order \<noteq> length parsed
                       then Inl (Config (Codec (CircularReference role (cycle_names api parsed remaining))))
                       else Inr (take_slots order (map Some parsed))))"

section \<open>Deduplication\<close>

definition top_level_fullname :: "json \<Rightarrow> string option" where
  "top_level_fullname j =
     (case as_object j of
        None \<Rightarrow> None
      | Some object \<Rightarrow>
          (case Option.bind (hm_get object ''name'') as_str of
             None \<Rightarrow> None
           | Some name \<Rightarrow>
               Some (if CHR ''.'' \<in> set name then name
                     else case Option.bind (hm_get object ''namespace'') as_str of
                            Some namespace \<Rightarrow>
                              if namespace \<noteq> [] then namespace @ ''.'' @ name else name
                          | None \<Rightarrow> name)))"

fun dedupe_loop :: "'v avro_api \<Rightarrow> schema_role \<Rightarrow> string list \<Rightarrow> (string, json) hashmap \<Rightarrow> string list
    \<Rightarrow> string list res" where
  "dedupe_loop api role [] seen kept = Inr kept"
| "dedupe_loop api role (dep # deps) seen kept =
     (case av_json api dep of
        Inl e \<Rightarrow> Inl (Config (Codec (InvalidDependency role e)))
      | Inr j \<Rightarrow>
          (case top_level_fullname j of
             None \<Rightarrow> dedupe_loop api role deps seen (kept @ [dep])
           | Some name \<Rightarrow>
               (case hm_get seen name of
                  Some previous \<Rightarrow>
                    if previous = j then dedupe_loop api role deps seen kept
                    else Inl (Config (Codec (ConflictingDefinitions role name)))
                | None \<Rightarrow> dedupe_loop api role deps (hm_put name j seen) (kept @ [dep]))))"

definition dedupe_dependencies :: "'v avro_api \<Rightarrow> string \<Rightarrow> string list \<Rightarrow> schema_role \<Rightarrow> string list res" where
  "dedupe_dependencies api root deps role =
     (case av_json api root of
        Inl e \<Rightarrow> Inl (Config (Codec (InvalidSchema role e)))
      | Inr root_json \<Rightarrow>
          dedupe_loop api role deps
            (case top_level_fullname root_json of None \<Rightarrow> [] | Some name \<Rightarrow> hm_put name root_json []) [])"

section \<open>A schema and its definitions\<close>

record resolved_avro =
  ra_root :: avro
  ra_schemata :: "avro list"

text \<open>\<open>None\<close> is a panic inside \<open>order_schemata\<close>.\<close>

definition with_schemata :: "avro \<Rightarrow> avro list res option \<Rightarrow> resolved_avro res option" where
  "with_schemata root ordered =
     map_option (\<lambda>r. res_bind r (\<lambda>schemata. Inr \<lparr>ra_root = root, ra_schemata = schemata\<rparr>)) ordered"

definition parse_alone :: "'v avro_api \<Rightarrow> string \<Rightarrow> schema_role \<Rightarrow> resolved_avro res" where
  "parse_alone api schema_str role =
     (case av_parse_str api schema_str of
        Inl e \<Rightarrow> Inl (parse_failed api e role [])
      | Inr root \<Rightarrow> Inr \<lparr>ra_root = root, ra_schemata = []\<rparr>)"

definition parse_set :: "'v avro_api \<Rightarrow> string \<Rightarrow> string list \<Rightarrow> schema_role \<Rightarrow> resolved_avro res option" where
  "parse_set api schema_str inputs role =
     (case av_parse_list api (inputs @ [schema_str]) of
        Inl e \<Rightarrow> Some (Inl (parse_failed api e role inputs))
      | Inr parsed \<Rightarrow>
          if parsed = [] then Some (Inl (Config (Codec EmptySchemaList)))
          else with_schemata (last parsed) (order_schemata api role parsed))"

definition resolved_parse :: "'v avro_api \<Rightarrow> string \<Rightarrow> string list \<Rightarrow> schema_role \<Rightarrow> resolved_avro res option" where
  "resolved_parse api schema_str deps role =
     (if MAX_REFERENCES < length deps then Some (Inl (Config (Codec (TooManyDependencies role (length deps)))))
      else case (if deps = [] then Inr [] else dedupe_dependencies api schema_str deps role) of
             Inl e \<Rightarrow> Some (Inl e)
           | Inr inputs \<Rightarrow>
               if inputs = [] then Some (parse_alone api schema_str role)
               else parse_set api schema_str inputs role)"

fun distinct_deps :: "'v avro_api \<Rightarrow> avro \<Rightarrow> avro list \<Rightarrow> avro list \<Rightarrow> avro list" where
  "distinct_deps api root [] acc = acc"
| "distinct_deps api root (dep # deps) acc =
     distinct_deps api root deps
       (if \<not> av_eq api dep root \<and> \<not> list_ex (\<lambda>s. av_eq api s dep) acc then acc @ [dep] else acc)"

definition from_parsed :: "'v avro_api \<Rightarrow> avro \<Rightarrow> avro list \<Rightarrow> schema_role \<Rightarrow> resolved_avro res option" where
  "from_parsed api root deps role =
     (if MAX_REFERENCES < length deps then Some (Inl (Config (Codec (TooManyDependencies role (length deps)))))
      else let schemas = distinct_deps api root deps []
           in if schemas = []
              then let (defines, refs) = names_of api root
                   in case filter (\<lambda>r. r \<notin> set defines) refs of
                        missing # _ \<Rightarrow> Some (Inl (missing_definition missing (name_of api root) role))
                      | [] \<Rightarrow> Some (Inr \<lparr>ra_root = root, ra_schemata = []\<rparr>)
              else with_schemata root (order_schemata api role (schemas @ [root])))"

definition resolved_fullname :: "'v avro_api \<Rightarrow> resolved_avro \<Rightarrow> string option" where
  "resolved_fullname api r = name_of api (ra_root r)"

definition codec_schemata :: "resolved_avro \<Rightarrow> avro list" where
  "codec_schemata r = (if ra_schemata r = [] then [ra_root r] else ra_schemata r)"

definition avro_serialize :: "'v avro_api \<Rightarrow> resolved_avro \<Rightarrow> 'v \<Rightarrow> u8 list res" where
  "avro_serialize api r v =
     (case (if ra_schemata r = [] then av_to_datum api (ra_root r) v
            else av_to_datum_schemata api (ra_root r) (codec_schemata r) v) of
        Inl e \<Rightarrow> Inl (WireFormat (Codec (AvroSerializationFailed e)))
      | Inr bs \<Rightarrow> Inr bs)"

definition avro_deserialize :: "'v avro_api \<Rightarrow> resolved_avro \<Rightarrow> u8 list \<Rightarrow> resolved_avro option \<Rightarrow> 'v res" where
  "avro_deserialize api r bs reader =
     (case (case reader of
              None \<Rightarrow>
                if ra_schemata r = [] then av_from_datum api (ra_root r) bs
                else av_from_datum_schemata api (ra_root r) (codec_schemata r) bs
            | Some rd \<Rightarrow>
                av_from_datum_reader api (ra_root r) (codec_schemata r) bs (ra_root rd) (codec_schemata rd)) of
        Inl e \<Rightarrow> Inl (WireFormat (Codec (AvroDeserializationFailed e)))
      | Inr v \<Rightarrow> Inr v)"

end
