(* ===== verification/Avro_Order.thy ===== *)
theory Avro_Order
  imports Avro_Set "HOL-Library.Sublist" "HOL-Library.Multiset"
begin

text \<open>
  Correctness of the ordering of \<open>Avro_Set\<close>: what the codec accepts, what the graph of a set
  contains, and that the order found is the one the codec needs whenever there is one.
\<close>

section \<open>What the codec accepts\<close>

definition defs :: "'v avro_api \<Rightarrow> avro \<Rightarrow> string set" where
  "defs api s = set (fst (names_of api s))"

definition refs :: "'v avro_api \<Rightarrow> avro \<Rightarrow> string set" where
  "refs api s = set (snd (names_of api s))"

text \<open>
  \<open>apache_avro\<close> builds its name table in one pass over the list: a name is defined once, and a
  schema refers to names of the table or to its own.
\<close>

fun codec_accepts :: "'v avro_api \<Rightarrow> string set \<Rightarrow> avro list \<Rightarrow> bool" where
  "codec_accepts api table [] \<longleftrightarrow> True"
| "codec_accepts api table (s # ss) \<longleftrightarrow>
     defs api s \<inter> table = {} \<and> refs api s \<subseteq> table \<union> defs api s \<and> codec_accepts api (table \<union> defs api s) ss"

definition permutes_indices :: "nat list \<Rightarrow> nat \<Rightarrow> bool" where
  "permutes_indices perm n \<longleftrightarrow> distinct perm \<and> set perm = {..<n}"

definition pick :: "'a list \<Rightarrow> nat list \<Rightarrow> 'a list" where
  "pick xs perm = map (\<lambda>i. xs ! i) perm"

text \<open>A reference to another schema of the set names that schema's top-level type.\<close>

definition top_level_refs :: "'v avro_api \<Rightarrow> avro list \<Rightarrow> bool" where
  "top_level_refs api parsed \<longleftrightarrow>
     (\<forall>s \<in> set parsed. \<forall>name \<in> refs api s - defs api s.
        \<exists>t \<in> set parsed. name \<in> defs api t \<and> name_of api t = Some name)"

definition disjoint_defs :: "'v avro_api \<Rightarrow> avro list \<Rightarrow> bool" where
  "disjoint_defs api parsed \<longleftrightarrow>
     (\<forall>i < length parsed. \<forall>j < i. defs api (parsed ! i) \<inter> defs api (parsed ! j) = {})"

lemma disjoint_defsD:
  assumes "disjoint_defs api parsed" "i < length parsed" "j < length parsed"
    "name \<in> defs api (parsed ! i)" "name \<in> defs api (parsed ! j)"
  shows "i = j"
  using assms by (metis IntI disjoint_defs_def emptyE nat_neq_iff)

lemma codec_accepts_iff:
  "codec_accepts api table ss \<longleftrightarrow>
     (\<forall>k < length ss. defs api (ss ! k) \<inter> (table \<union> \<Union> (defs api ` set (take k ss))) = {} \<and>
        refs api (ss ! k) \<subseteq> table \<union> \<Union> (defs api ` set (take (Suc k) ss)))"
proof (induction ss arbitrary: table)
  case (Cons s ss)
  show ?case
    unfolding codec_accepts.simps Cons.IH
    by (simp add: All_less_Suc2 Un_assoc)
qed simp

section \<open>Names\<close>

lemma distinct_insort_insert [simp]: "distinct (insort_insert x xs) = distinct xs"
  by (simp add: insort_insert_key_def distinct_insort)

lemma walk_names_distinct:
  "distinct (fst names) \<and> distinct (snd names) \<Longrightarrow>
   distinct (fst (walk_names api s enclosing names)) \<and> distinct (snd (walk_names api s enclosing names))"
proof (induction api s enclosing names rule: walk_names.induct)
  case (3 api variants enclosing names)
  show ?case
    using 3 unfolding walk_names.simps
    by (intro fold_invariant [where P = "\<lambda>names. distinct (fst names) \<and> distinct (snd names)"
        and Q = "\<lambda>v. v \<in> set variants"]) auto
next
  case (6 api name schemas rest enclosing ds rs)
  show ?case
    using 6 unfolding walk_names.simps Let_def
    by (intro fold_invariant [where P = "\<lambda>names. distinct (fst names) \<and> distinct (snd names)"
        and Q = "\<lambda>v. v \<in> set schemas"]) auto
qed simp_all

lemma names_of_distinct: "distinct (fst (names_of api s))" "distinct (snd (names_of api s))"
  using walk_names_distinct [of "([], [])" api s None] by (simp_all add: names_of_def)

section \<open>Definers\<close>

lemma insert_names_Inr:
  "insert_names role index names d = Inr d' \<longleftrightarrow>
     distinct names \<and> (\<forall>name \<in> set names. hm_get d name = None) \<and> d' = fold (\<lambda>name. hm_put name index) names d"
  by (induction names arbitrary: d) (auto split: if_splits)

lemma fold_put_get:
  "hm_get (fold (\<lambda>name. hm_put name index) names d) n = (if n \<in> set names then Some index else hm_get d n)"
  by (induction names arbitrary: d) auto

lemma insert_names_get:
  "insert_names role index names d = Inr d' \<Longrightarrow>
   hm_get d' n = (if n \<in> set names then Some index else hm_get d n)"
  by (simp add: insert_names_Inr fold_put_get)

lemma definers_Inr:
  assumes "\<forall>info \<in> set infos. distinct (fst info)"
  shows "(\<exists>d'. definers role k infos d = Inr d') \<longleftrightarrow>
    (\<forall>i < length infos. (\<forall>name \<in> set (fst (infos ! i)). hm_get d name = None) \<and>
       (\<forall>j < i. set (fst (infos ! i)) \<inter> set (fst (infos ! j)) = {}))"
  using assms
proof (induction infos arbitrary: k d)
  case (Cons info infos)
  obtain ns rs where info: "info = (ns, rs)" by (cases info)
  show ?case
  proof (cases "\<forall>name \<in> set ns. hm_get d name = None")
    case True
    let ?d = "fold (\<lambda>name. hm_put name k) ns d"
    have "(\<exists>d'. definers role k (info # infos) d = Inr d') \<longleftrightarrow> (\<exists>d'. definers role (Suc k) infos ?d = Inr d')"
      using True Cons.prems by (simp add: info insert_names_Inr)
    also have "\<dots> \<longleftrightarrow> (\<forall>i < length infos. (\<forall>name \<in> set (fst (infos ! i)). hm_get ?d name = None) \<and>
       (\<forall>j < i. set (fst (infos ! i)) \<inter> set (fst (infos ! j)) = {}))"
      using Cons.prems by (intro Cons.IH) simp
    also have "\<dots> \<longleftrightarrow> (\<forall>i < length (info # infos). (\<forall>name \<in> set (fst ((info # infos) ! i)). hm_get d name = None) \<and>
       (\<forall>j < i. set (fst ((info # infos) ! i)) \<inter> set (fst ((info # infos) ! j)) = {}))"
      using True by (simp add: info fold_put_get All_less_Suc2 disjoint_iff split: if_splits) blast
    finally show ?thesis .
  next
    case False
    then show ?thesis by (auto simp: info insert_names_Inr)
  qed
qed simp

lemma definers_get:
  "definers role k infos d = Inr d' \<Longrightarrow> hm_get d' n = Some i \<longleftrightarrow>
   hm_get d n = Some i \<or> (\<exists>j < length infos. i = k + j \<and> n \<in> set (fst (infos ! j)))"
proof (induction infos arbitrary: k d)
  case (Cons info infos)
  obtain ns rs where info: "info = (ns, rs)" by (cases info)
  from Cons.prems obtain d1 where
    d1: "insert_names role k ns d = Inr d1" "definers role (Suc k) infos d1 = Inr d'"
    by (auto simp: info)
  have "hm_get d1 n = Some i \<longleftrightarrow> hm_get d n = Some i \<or> n \<in> set ns \<and> i = k"
    using insert_names_get [OF d1(1), of n] d1(1) [unfolded insert_names_Inr] by (cases "n \<in> set ns") auto
  then show ?case
    using Cons.IH [OF d1(2)] by (simp add: info Ex_less_Suc2) blast
qed simp

lemma insert_names_Inl:
  "insert_names role index names d = Inl e \<Longrightarrow> distinct names \<Longrightarrow>
   \<exists>name \<in> set names. e = Config (Codec (DuplicateDefinition role name)) \<and> hm_get d name \<noteq> None"
proof (induction names arbitrary: d)
  case (Cons name names)
  show ?case
  proof (cases "hm_get d name")
    case None
    with Cons.prems have "insert_names role index names (hm_put name index d) = Inl e" "name \<notin> set names"
      by simp_all
    moreover from Cons.IH [OF this(1)] Cons.prems(2) obtain n where
      n: "n \<in> set names" "e = Config (Codec (DuplicateDefinition role n))" "hm_get (hm_put name index d) n \<noteq> None"
      by auto
    ultimately have "hm_get d n \<noteq> None" by (auto split: if_splits)
    with n(1,2) show ?thesis by (intro bexI [of _ n]) simp_all
  qed (use Cons.prems in auto)
qed simp

lemma definers_Inl:
  assumes "definers role k infos d = Inl e" and "\<forall>info \<in> set infos. distinct (fst info)"
  shows "\<exists>i < length infos. \<exists>name \<in> set (fst (infos ! i)). e = Config (Codec (DuplicateDefinition role name)) \<and>
    (hm_get d name \<noteq> None \<or> (\<exists>j < i. name \<in> set (fst (infos ! j))))"
  using assms
proof (induction infos arbitrary: k d)
  case (Cons info infos)
  obtain ns rs where info: "info = (ns, rs)" by (cases info)
  show ?case
  proof (cases "insert_names role k ns d")
    case (Inl e')
    with Cons.prems have "e' = e" by (simp add: info)
    with insert_names_Inl [OF Inl] Cons.prems(2) show ?thesis by (auto simp: info intro!: exI [of _ 0])
  next
    case (Inr d1)
    with Cons.prems have "definers role (Suc k) infos d1 = Inl e" by (simp add: info)
    from Cons.IH [OF this] Cons.prems(2) obtain i name where
      i: "i < length infos" "name \<in> set (fst (infos ! i))" "e = Config (Codec (DuplicateDefinition role name))"
        "hm_get d1 name \<noteq> None \<or> (\<exists>j < i. name \<in> set (fst (infos ! j)))" by auto
    have "hm_get d name \<noteq> None \<or> (\<exists>j < Suc i. name \<in> set (fst ((info # infos) ! j)))"
      using i(4) insert_names_get [OF Inr, of name] by (auto simp: info Ex_less_Suc2 split: if_splits)
    with i(1-3) show ?thesis by (intro exI [of _ "Suc i"]) auto
  qed
qed simp

section \<open>The graph of a set\<close>

definition graph_ok :: "nat \<Rightarrow> avro_graph \<Rightarrow> bool" where
  "graph_ok n g \<longleftrightarrow> length (fst g) = n \<and> length (snd g) = n \<and>
     (\<forall>d < n. distinct (fst g ! d) \<and> set (fst g ! d) \<subseteq> {..<n}) \<and>
     (\<forall>i < n. distinct (snd g ! i) \<and> set (snd g ! i) = {d. d < n \<and> i \<in> set (fst g ! d)})"

lemma graph_ok_empty: "graph_ok n (replicate n [], replicate n [])"
  by (simp add: graph_ok_def)

definition add_edge :: "nat \<Rightarrow> nat \<Rightarrow> avro_graph \<Rightarrow> avro_graph" where
  "add_edge index i g =
     (if i \<in> set (fst g ! index) then g
      else ((fst g)[index := insort i (fst g ! index)], (snd g)[i := snd g ! i @ [index]]))"

lemma graph_ok_add_edge:
  assumes "graph_ok n g" "index < n" "i < n"
  shows "graph_ok n (add_edge index i g)"
    and "d < n \<Longrightarrow> set (fst (add_edge index i g) ! d) = set (fst g ! d) \<union> (if d = index then {i} else {})"
proof -
  have len: "length (fst g) = n" "length (snd g) = n" using assms(1) by (simp_all add: graph_ok_def)
  show sets: "set (fst (add_edge index i g) ! d) = set (fst g ! d) \<union> (if d = index then {i} else {})"
    if "d < n" for d
    using that len by (auto simp: add_edge_def nth_list_update set_insort_key)
  have "index \<notin> set (snd g ! i)" if "i \<notin> set (fst g ! index)"
    using that assms by (auto simp: graph_ok_def)
  then have "distinct (snd (add_edge index i g) ! j) \<and>
      set (snd (add_edge index i g) ! j) = {d. d < n \<and> j \<in> set (fst (add_edge index i g) ! d)}" if "j < n" for j
    using that assms len sets
    by (auto simp: graph_ok_def add_edge_def nth_list_update set_insort_key split: if_splits)
  moreover have "distinct (fst (add_edge index i g) ! d)" if "d < n" for d
    using that assms len by (auto simp: graph_ok_def add_edge_def nth_list_update distinct_insort)
  moreover have "set (fst (add_edge index i g) ! d) \<subseteq> {..<n}" if "d < n" for d
    using that assms sets [OF that] by (auto simp: graph_ok_def)
  moreover have "length (fst (add_edge index i g)) = n" "length (snd (add_edge index i g)) = n"
    using len by (simp_all add: add_edge_def)
  ultimately show "graph_ok n (add_edge index i g)" by (simp add: graph_ok_def)
qed

lemma link_names_Cons:
  "link_names api role parsed definer index ds (name # names) g =
     (if name \<in> set ds then link_names api role parsed definer index ds names g
      else case hm_get definer name of
             None \<Rightarrow> Inl (missing_definition name (name_of api (parsed ! index)) role)
           | Some i \<Rightarrow>
               if name_of api (parsed ! i) \<noteq> Some name
               then Inl (nested_definition name (name_of api (parsed ! i)) role)
               else link_names api role parsed definer index ds names (add_edge index i g))"
  by (cases g) (simp add: add_edge_def split: option.split)

definition resolves :: "'v avro_api \<Rightarrow> avro list \<Rightarrow> (string, nat) hashmap \<Rightarrow> string \<Rightarrow> bool" where
  "resolves api parsed definer name \<longleftrightarrow>
     (\<exists>i. hm_get definer name = Some i \<and> name_of api (parsed ! i) = Some name)"

lemma link_names_spec:
  assumes "graph_ok n g" "index < n" "\<forall>name i. hm_get definer name = Some i \<longrightarrow> i < n"
  shows "(\<exists>g'. link_names api role parsed definer index ds names g = Inr g') \<longleftrightarrow>
      (\<forall>name \<in> set names - set ds. resolves api parsed definer name)"
    and "link_names api role parsed definer index ds names g = Inr g' \<Longrightarrow>
      graph_ok n g' \<and> (\<forall>d < n. set (fst g' ! d) = set (fst g ! d) \<union>
        (if d = index then {i. \<exists>name \<in> set names - set ds. hm_get definer name = Some i} else {}))"
  using assms(1)
proof (induction names arbitrary: g)
  case Nil
  { case 1 show ?case by simp }
  { case 2 then show ?case by simp }
next
  case (Cons name names)
  { case 1
    show ?case
    proof (cases "name \<in> set ds")
      case True
      then have "set (name # names) - set ds = set names - set ds" by auto
      with True Cons.IH(1) [OF 1] show ?thesis by (simp add: link_names_Cons del: link_names.simps)
    next
      case False
      then have split: "(\<forall>x \<in> set (name # names) - set ds. resolves api parsed definer x) \<longleftrightarrow>
          resolves api parsed definer name \<and> (\<forall>x \<in> set names - set ds. resolves api parsed definer x)"
        by auto
      show ?thesis
      proof (cases "resolves api parsed definer name")
        case True
        then obtain i where i: "hm_get definer name = Some i" "name_of api (parsed ! i) = Some name"
          by (auto simp: resolves_def)
        with assms(3) have "i < n" by blast
        with Cons.IH(1) [OF graph_ok_add_edge(1) [OF 1 assms(2)]] split i True False
        show ?thesis by (simp add: link_names_Cons del: link_names.simps)
      next
        case unresolved: False
        with False split show ?thesis
          by (auto simp: link_names_Cons resolves_def simp del: link_names.simps split: option.splits if_splits)
      qed
    qed }
  { case 2
    show ?case
    proof (cases "name \<in> set ds")
      case True
      with Cons.IH(2) [OF _ 2(2)] 2(1) show ?thesis by (auto simp: link_names_Cons simp del: link_names.simps)
    next
      case False
      with 2(1) obtain i where i: "hm_get definer name = Some i"
          "link_names api role parsed definer index ds names (add_edge index i g) = Inr g'"
        by (auto simp: link_names_Cons simp del: link_names.simps split: option.splits if_splits)
      have "i < n" using assms(3) i(1) by blast
      from Cons.IH(2) [OF i(2) graph_ok_add_edge(1) [OF 2(2) assms(2) this]]
        graph_ok_add_edge(2) [OF 2(2) assms(2) this] False i(1)
      show ?thesis by auto
    qed }
qed

text \<open>The two errors of a reference that does not resolve.\<close>

definition unresolved ::
    "'v avro_api \<Rightarrow> schema_role \<Rightarrow> avro list \<Rightarrow> (string, nat) hashmap \<Rightarrow> nat \<Rightarrow> string \<Rightarrow> sreg_error \<Rightarrow> bool" where
  "unresolved api role parsed definer index name e \<longleftrightarrow>
     (case hm_get definer name of
        None \<Rightarrow> e = missing_definition name (name_of api (parsed ! index)) role
      | Some i \<Rightarrow> name_of api (parsed ! i) \<noteq> Some name \<and>
          e = nested_definition name (name_of api (parsed ! i)) role)"

lemma link_names_Inl:
  "link_names api role parsed definer index ds names g = Inl e \<Longrightarrow>
   \<exists>name \<in> set names - set ds. unresolved api role parsed definer index name e"
proof (induction names arbitrary: g)
  case (Cons name names)
  show ?case
  proof (cases "name \<in> set ds \<or> resolves api parsed definer name")
    case True
    with Cons.prems have "\<exists>g'. link_names api role parsed definer index ds names g' = Inl e"
      by (auto simp: link_names_Cons resolves_def simp del: link_names.simps split_paired_Ex split: if_splits)
    then obtain g' where "link_names api role parsed definer index ds names g' = Inl e" ..
    from Cons.IH [OF this] show ?thesis by auto
  next
    case False
    with Cons.prems have "unresolved api role parsed definer index name e"
      by (auto simp: link_names_Cons unresolved_def resolves_def simp del: link_names.simps
          split: option.splits if_splits)
    with False show ?thesis by auto
  qed
qed simp

definition outside :: "string list \<times> string list \<Rightarrow> string set" where
  "outside info = set (snd info) - set (fst info)"

lemma link_all_spec:
  assumes "graph_ok n g" "k + length infos \<le> n" "\<forall>name i. hm_get definer name = Some i \<longrightarrow> i < n"
  shows "(\<exists>g'. link_all api role parsed definer k infos g = Inr g') \<longleftrightarrow>
      (\<forall>info \<in> set infos. \<forall>name \<in> outside info. resolves api parsed definer name)"
    and "link_all api role parsed definer k infos g = Inr g' \<Longrightarrow>
      graph_ok n g' \<and> (\<forall>d < n. set (fst g' ! d) = set (fst g ! d) \<union>
        (if k \<le> d \<and> d < k + length infos
         then {i. \<exists>name \<in> outside (infos ! (d - k)). hm_get definer name = Some i} else {}))"
  using assms(1,2)
proof (induction infos arbitrary: k g)
  case Nil
  { case 1 show ?case by simp }
  { case 2 then show ?case by (auto simp: not_le) }
next
  case (Cons info infos)
  obtain ns rs where info: "info = (ns, rs)" by (cases info)
  have out: "outside info = set rs - set ns" by (simp add: outside_def info)
  { case 1
    have k: "k < n" using 1 by simp
    note names = link_names_spec [OF 1(1) k assms(3), where api = api and role = role and parsed = parsed
        and ds = ns and names = rs]
    show ?case
    proof (cases "\<forall>name \<in> outside info. resolves api parsed definer name")
      case True
      with names(1) out obtain g1 where g1: "link_names api role parsed definer k ns rs g = Inr g1" by auto
      with names(2) have "graph_ok n g1" by blast
      with Cons.IH(1) [of g1 "Suc k"] 1(2) True g1 show ?thesis by (simp add: info)
    next
      case False
      with names(1) out have "\<nexists>g1. link_names api role parsed definer k ns rs g = Inr g1" by simp
      with False show ?thesis by (auto simp: info)
    qed }
  { case 2
    have k: "k < n" using 2 by simp
    from 2(1) obtain g1 where g1: "link_names api role parsed definer k ns rs g = Inr g1"
        "link_all api role parsed definer (Suc k) infos g1 = Inr g'"
      by (auto simp: info)
    have one: "graph_ok n g1" "\<forall>d < n. set (fst g1 ! d) = set (fst g ! d) \<union>
        (if d = k then {i. \<exists>name \<in> outside info. hm_get definer name = Some i} else {})"
      using link_names_spec(2) [OF 2(2) k assms(3) g1(1)] out by simp_all
    have rest: "graph_ok n g'" "\<forall>d < n. set (fst g' ! d) = set (fst g1 ! d) \<union>
        (if Suc k \<le> d \<and> d < Suc k + length infos
         then {i. \<exists>name \<in> outside (infos ! (d - Suc k)). hm_get definer name = Some i} else {})"
      using Cons.IH(2) [OF g1(2) one(1)] 2(3) by simp_all
    have "set (fst g' ! d) = set (fst g ! d) \<union>
        (if k \<le> d \<and> d < k + length (info # infos)
         then {i. \<exists>name \<in> outside ((info # infos) ! (d - k)). hm_get definer name = Some i} else {})"
      if "d < n" for d
    proof (cases "d \<le> k")
      case True
      with that one(2) rest(2) show ?thesis by (cases "d = k") auto
    next
      case False
      then have "(info # infos) ! (d - k) = infos ! (d - Suc k)" by (simp add: nth_Cons')
      with False that one(2) rest(2) show ?thesis by simp
    qed
    with rest(1) show ?case by blast }
qed

lemma link_all_Inl:
  "link_all api role parsed definer k infos g = Inl e \<Longrightarrow>
   \<exists>j < length infos. \<exists>name \<in> outside (infos ! j). unresolved api role parsed definer (k + j) name e"
proof (induction infos arbitrary: k g)
  case (Cons info infos)
  obtain ns rs where info: "info = (ns, rs)" by (cases info)
  show ?case
  proof (cases "link_names api role parsed definer k ns rs g")
    case (Inl e')
    with Cons.prems have "e' = e" by (simp add: info)
    with link_names_Inl [OF Inl] show ?thesis by (auto simp: info outside_def intro!: exI [of _ 0])
  next
    case (Inr g1)
    with Cons.prems have "link_all api role parsed definer (Suc k) infos g1 = Inl e" by (simp add: info)
    from Cons.IH [OF this] obtain j where
      "j < length infos" "\<exists>name \<in> outside (infos ! j). unresolved api role parsed definer (Suc k + j) name e" by blast
    then show ?thesis by (intro exI [of _ "Suc j"]) simp
  qed
qed simp

text \<open>The schemas a schema needs before it.\<close>

definition needs :: "'v avro_api \<Rightarrow> avro list \<Rightarrow> nat \<Rightarrow> nat set" where
  "needs api parsed d =
     {i. i < length parsed \<and> (\<exists>name \<in> refs api (parsed ! d) - defs api (parsed ! d). name \<in> defs api (parsed ! i))}"

lemma avro_graph_spec:
  shows "(\<exists>g. avro_graph api role parsed = Inr g) \<longleftrightarrow> disjoint_defs api parsed \<and> top_level_refs api parsed"
    and "avro_graph api role parsed = Inr g \<Longrightarrow> graph_ok (length parsed) g \<and>
      (\<forall>d < length parsed. set (fst g ! d) = needs api parsed d)"
proof -
  let ?infos = "map (names_of api) parsed" and ?n = "length parsed"
  let ?empty = "(replicate ?n [], replicate ?n []) :: avro_graph"
  have d0: "(\<exists>d'. definers role 0 ?infos [] = Inr d') \<longleftrightarrow> disjoint_defs api parsed"
    by (subst definers_Inr) (auto simp: names_of_distinct disjoint_defs_def defs_def)
  have get: "hm_get d' name = Some i \<longleftrightarrow> i < ?n \<and> name \<in> defs api (parsed ! i)"
    if "definers role 0 ?infos [] = Inr d'" for d' name i
    using definers_get [OF that] by (auto simp: defs_def)
  have out: "outside (names_of api s) = refs api s - defs api s" for s
    by (simp add: outside_def refs_def defs_def)
  have bound: "\<forall>name i. hm_get d' name = Some i \<longrightarrow> i < ?n" if "definers role 0 ?infos [] = Inr d'" for d'
    using get [OF that] by blast
  have empty: "graph_ok ?n ?empty" by (rule graph_ok_empty)
  have len: "0 + length ?infos \<le> ?n" by simp
  have top: "(\<exists>g. link_all api role parsed d' 0 ?infos ?empty = Inr g) \<longleftrightarrow> top_level_refs api parsed"
    if d': "definers role 0 ?infos [] = Inr d'" for d'
  proof -
    have "resolves api parsed d' name \<longleftrightarrow> (\<exists>t \<in> set parsed. name \<in> defs api t \<and> name_of api t = Some name)" for name
      by (simp add: resolves_def get [OF d'] in_set_conv_nth Bex_def) blast
    then show ?thesis
      unfolding link_all_spec(1) [OF empty len bound [OF d']] by (simp add: out top_level_refs_def)
  qed
  show "(\<exists>g. avro_graph api role parsed = Inr g) \<longleftrightarrow> disjoint_defs api parsed \<and> top_level_refs api parsed"
  proof (cases "\<exists>d'. definers role 0 ?infos [] = Inr d'")
    case True
    then obtain d' where "definers role 0 ?infos [] = Inr d'" by blast
    with top [OF this] d0 show ?thesis by (simp add: avro_graph_def)
  next
    case False
    with d0 show ?thesis by (cases "definers role 0 ?infos []") (auto simp: avro_graph_def)
  qed
  show "graph_ok ?n g \<and> (\<forall>d < ?n. set (fst g ! d) = needs api parsed d)" if g: "avro_graph api role parsed = Inr g"
  proof -
    from g obtain d' where d': "definers role 0 ?infos [] = Inr d'" "link_all api role parsed d' 0 ?infos ?empty = Inr g"
      by (simp only: avro_graph_def Let_def res_bind_Inr_iff) blast
    from link_all_spec(2) [OF empty len bound [OF d'(1)] d'(2)]
    show ?thesis by (auto simp: get [OF d'(1)] out needs_def)
  qed
qed

section \<open>The order\<close>

lemma take_slots_eq:
  "distinct order \<Longrightarrow> \<forall>i \<in> set order. i < length slots \<and> slots ! i = Some (xs ! i) \<Longrightarrow>
   take_slots order slots = pick xs order"
proof (induction order slots rule: take_slots.induct)
  case (2 index order slots)
  then have "\<forall>i \<in> set order. i < length (slots[index := None]) \<and> slots[index := None] ! i = Some (xs ! i)"
    by (auto simp: nth_list_update)
  with 2 show ?case by (auto simp: pick_def)
qed (simp add: pick_def)

text \<open>The set's graph, empty when the set is rejected, is a graph for Kahn's algorithm.\<close>

definition linked :: "'v avro_api \<Rightarrow> schema_role \<Rightarrow> avro list \<Rightarrow> avro_graph" where
  "linked api role parsed = (case avro_graph api role parsed of Inl _ \<Rightarrow> ([], []) | Inr g \<Rightarrow> g)"

definition prereq :: "avro_graph \<Rightarrow> nat \<Rightarrow> nat set" where
  "prereq g d = (if d < length (fst g) then set (fst g ! d) else {})"

lemma linked_ok: "graph_ok (length (fst (linked api role parsed))) (linked api role parsed)"
proof (cases "avro_graph api role parsed")
  case (Inr g)
  then have "graph_ok (length parsed) g" using avro_graph_spec(2) by blast
  with Inr show ?thesis by (simp add: linked_def graph_ok_def)
qed (simp add: linked_def graph_ok_def)

interpretation ag: prerequisite_graph "length (fst (linked api role parsed))" "prereq (linked api role parsed)"
    "snd (linked api role parsed)" for api role parsed
  using linked_ok [of api role parsed]
  by unfold_locales (auto simp: graph_ok_def prereq_def)

lemma avro_kahn:
  assumes g: "avro_graph api role parsed = Inr g" and n: "n = length parsed"
  shows "\<exists>order remaining.
    kahn (snd g) (filter (\<lambda>i. fst g ! i = []) [0..<length (fst g)]) (map length (fst g)) [] = Some (order, remaining) \<and>
    distinct order \<and> set order \<subseteq> {..<n} \<and>
    (\<forall>d < n. 0 < remaining ! d \<longleftrightarrow> blocked n (needs api parsed) d) \<and>
    set order = {d. d < n \<and> \<not> blocked n (needs api parsed) d} \<and>
    (length order = n \<longleftrightarrow> (\<exists>perm. topological n (needs api parsed) perm)) \<and>
    (length order = n \<longrightarrow> topological n (needs api parsed) order) \<and>
    ((\<forall>d < n. needs api parsed d \<subseteq> {..<d}) \<longrightarrow> order = [0..<n])"
proof -
  have ok: "graph_ok n g" "\<forall>d < n. set (fst g ! d) = needs api parsed d"
    using avro_graph_spec(2) [OF g] n by simp_all
  then have len: "length (fst g) = n" by (simp add: graph_ok_def)
  have lk: "linked api role parsed = g" by (simp add: linked_def g)
  have pre: "prereq g d = needs api parsed d" if "d < n" for d using ok len that by (simp add: prereq_def)
  have top: "topological n (prereq g) perm \<longleftrightarrow> topological n (needs api parsed) perm" for perm
    unfolding topological_def
    by (rule conj_cong [OF refl conj_cong [OF refl]]) (metis lessThan_iff nth_mem pre)
  have blk: "blocked n (prereq g) d \<longleftrightarrow> blocked n (needs api parsed) d" for d
  proof -
    have "edges n (prereq g) = edges n (needs api parsed)" using pre by (auto simp: edges_def)
    then show ?thesis by (simp add: blocked_def)
  qed
  have ready: "filter (\<lambda>i. map length (fst g) ! i = 0) [0..<n] = filter (\<lambda>i. fst g ! i = []) [0..<n]"
    using len by (intro filter_cong) auto
  have card: "map length (fst g) ! d = card (prereq g d)" if "d < n" for d
    using ok(1) that len by (simp add: prereq_def graph_ok_def distinct_card)
  have id: "(\<forall>d < n. prereq g d \<subseteq> {..<d}) \<longleftrightarrow> (\<forall>d < n. needs api parsed d \<subseteq> {..<d})"
    using pre by auto
  have "length (map length (fst g)) = n" using len by simp
  note r = ag.kahn_result [where api = api and role = role and parsed = parsed, unfolded lk len, OF this card]
  show ?thesis
    unfolding len
    by (rule exE [OF r [unfolded ready top blk id]], assumption, elim exE conjE) (intro exI conjI, assumption+)
qed

lemma codec_accepts_topological:
  assumes "disjoint_defs api parsed" "top_level_refs api parsed" "permutes_indices perm (length parsed)"
  shows "codec_accepts api {} (pick parsed perm) \<longleftrightarrow> topological (length parsed) (needs api parsed) perm"
proof -
  let ?n = "length parsed"
  let ?D = "\<lambda>is. \<Union>i \<in> is. defs api (parsed ! i)"
  have p: "distinct perm" "set perm = {..<?n}" using assms(3) by (simp_all add: permutes_indices_def)
  have at: "perm ! k < ?n" if "k < length perm" for k using p(2) nth_mem [OF that] by simp
  have D: "\<Union> (defs api ` set (take m (pick parsed perm))) = ?D (set (take m perm))" for m
    by (simp add: pick_def take_map image_image)
  have fresh: "perm ! k \<notin> set (take k perm)" if "k < length perm" for k
    using p(1) that by (simp add: distinct_conv_nth in_set_conv_nth)
  have lt: "set (take m perm) \<subseteq> {..<?n}" for m using p(2) set_take_subset by fastforce
  have disj: "defs api (parsed ! (perm ! k)) \<inter> ?D (set (take k perm)) = {}" if "k < length perm" for k
    using disjoint_defsD [OF assms(1) at [OF that]] fresh [OF that] lt [of k] by blast
  have refs_iff: "refs api (parsed ! (perm ! k)) \<subseteq> ?D (set (take (Suc k) perm)) \<longleftrightarrow>
      needs api parsed (perm ! k) \<subseteq> set (take k perm)" if k: "k < length perm" for k
  proof -
    let ?d = "perm ! k"
    have Suc: "set (take (Suc k) perm) = insert ?d (set (take k perm))"
      using k by (simp add: take_Suc_conv_app_nth)
    show ?thesis
    proof
      assume sub: "refs api (parsed ! ?d) \<subseteq> ?D (set (take (Suc k) perm))"
      show "needs api parsed ?d \<subseteq> set (take k perm)"
      proof
        fix i assume "i \<in> needs api parsed ?d"
        then obtain name where name: "i < ?n" "name \<in> refs api (parsed ! ?d)" "name \<notin> defs api (parsed ! ?d)"
            "name \<in> defs api (parsed ! i)" by (auto simp: needs_def)
        with sub Suc obtain j where "j \<in> set (take k perm)" "name \<in> defs api (parsed ! j)" by auto
        with disjoint_defsD [OF assms(1) name(1) _ name(4)] lt show "i \<in> set (take k perm)" by blast
      qed
    next
      assume sub: "needs api parsed ?d \<subseteq> set (take k perm)"
      show "refs api (parsed ! ?d) \<subseteq> ?D (set (take (Suc k) perm))"
      proof
        fix name assume r: "name \<in> refs api (parsed ! ?d)"
        show "name \<in> ?D (set (take (Suc k) perm))"
        proof (cases "name \<in> defs api (parsed ! ?d)")
          case False
          with r assms(2) at [OF k] obtain t where "t \<in> set parsed" "name \<in> defs api t"
            unfolding top_level_refs_def by (meson DiffI nth_mem)
          then obtain i where i: "i < ?n" "name \<in> defs api (parsed ! i)" by (auto simp: in_set_conv_nth)
          then have "i \<in> needs api parsed ?d" using r False by (auto simp: needs_def)
          with sub i Suc show ?thesis by auto
        qed (simp add: Suc)
      qed
    qed
  qed
  have "codec_accepts api {} (pick parsed perm) \<longleftrightarrow>
      (\<forall>k < length perm. needs api parsed (perm ! k) \<subseteq> set (take k perm))"
    using disj refs_iff by (simp add: codec_accepts_iff D) (simp add: pick_def)
  then show ?thesis using p by (simp add: topological_def)
qed

definition orderable :: "'v avro_api \<Rightarrow> avro list \<Rightarrow> bool" where
  "orderable api parsed \<longleftrightarrow>
     top_level_refs api parsed \<and>
     (\<exists>perm. permutes_indices perm (length parsed) \<and> codec_accepts api {} (pick parsed perm))"

lemma accepted_disjoint:
  assumes "codec_accepts api {} (pick parsed perm)" "permutes_indices perm (length parsed)"
  shows "disjoint_defs api parsed"
proof -
  let ?D = "\<lambda>k. defs api (parsed ! (perm ! k))"
  have p: "distinct perm" "set perm = {..<length parsed}" using assms(2) by (simp_all add: permutes_indices_def)
  have disj: "?D k \<inter> ?D l = {}" if "k < length perm" "l < k" for k l
  proof -
    have "?D k \<inter> \<Union> (defs api ` set (take k (pick parsed perm))) = {}"
      using assms(1) that(1) unfolding codec_accepts_iff by (simp add: pick_def)
    moreover have "pick parsed perm ! l \<in> set (take k (pick parsed perm))"
      using that by (auto simp: in_set_conv_nth pick_def)
    ultimately show ?thesis using that by (auto simp: pick_def)
  qed
  have "defs api (parsed ! i) \<inter> defs api (parsed ! j) = {}" if "i < length parsed" "j < i" for i j
  proof -
    from that p(2) have "i \<in> set perm" "j \<in> set perm" by simp_all
    then obtain k l where "k < length perm" "perm ! k = i" "l < length perm" "perm ! l = j"
      by (meson in_set_conv_nth)
    with disj [of k l] disj [of l k] that(2) show ?thesis by (metis inf_commute nat_neq_iff)
  qed
  then show ?thesis by (simp add: disjoint_defs_def)
qed

text \<open>
  Why a set is refused. The function looks for the first of these that applies: a name that two
  schemas define; a reference to another schema that no schema of the set defines, or that one
  defines below its top level; and a cycle. A cycle is reported with the names of the schemas
  that are on one or wait for one, in the order of the set.
\<close>

definition cycle_members :: "'v avro_api \<Rightarrow> avro list \<Rightarrow> nat list" where
  "cycle_members api parsed = filter (blocked (length parsed) (needs api parsed)) [0..<length parsed]"

definition refusal_reason :: "'v avro_api \<Rightarrow> schema_role \<Rightarrow> avro list \<Rightarrow> sreg_error \<Rightarrow> bool" where
  "refusal_reason api role parsed e \<longleftrightarrow>
     (\<exists>name i j. j < i \<and> i < length parsed \<and> name \<in> defs api (parsed ! i) \<inter> defs api (parsed ! j) \<and>
        e = Config (Codec (DuplicateDefinition role name))) \<or>
     disjoint_defs api parsed \<and>
     ((\<exists>s \<in> set parsed. \<exists>name \<in> refs api s - defs api s.
         (\<forall>t \<in> set parsed. name \<notin> defs api t) \<and>
         e = Config (Codec (MissingTypeDefinition role name (name_of api s) (CHR ''.'' \<notin> set name)))) \<or>
      (\<exists>s \<in> set parsed. \<exists>name \<in> refs api s - defs api s. \<exists>t \<in> set parsed.
         name \<in> defs api t \<and> name_of api t \<noteq> Some name \<and>
         e = Config (Codec (NestedTypeDefinition role name (name_of api t)))) \<or>
      top_level_refs api parsed \<and> cycle_members api parsed \<noteq> [] \<and>
      e = Config (Codec (CircularReference role
        (List.map_filter (\<lambda>i. name_of api (parsed ! i)) (cycle_members api parsed)))))"

lemma avro_graph_refusal:
  assumes "avro_graph api role parsed = Inl e"
  shows "refusal_reason api role parsed e"
proof (cases "definers role 0 (map (names_of api) parsed) []")
  case (Inl e')
  with assms have "e' = e" by (simp add: avro_graph_def)
  with definers_Inl [OF Inl] obtain i j name where
    ij: "i < length parsed" "j < i" and name: "name \<in> set (fst (map (names_of api) parsed ! i))"
      "name \<in> set (fst (map (names_of api) parsed ! j))" and e: "e = Config (Codec (DuplicateDefinition role name))"
    by (auto simp: names_of_distinct simp del: nth_map)
  from ij name have "name \<in> defs api (parsed ! i)" "name \<in> defs api (parsed ! j)" by (simp_all add: defs_def)
  note ij this e
  then show ?thesis unfolding refusal_reason_def by (metis IntI)
next
  case (Inr definer)
  have disj: "disjoint_defs api parsed"
  proof -
    have "\<exists>d'. definers role 0 (map (names_of api) parsed) [] = Inr d'" using Inr by blast
    then show ?thesis
      by (subst (asm) definers_Inr) (auto simp: names_of_distinct disjoint_defs_def defs_def)
  qed
  have get: "hm_get definer name = Some i \<longleftrightarrow> i < length parsed \<and> name \<in> defs api (parsed ! i)" for name i
    using definers_get [OF Inr] by (auto simp: defs_def)
  obtain j name where j: "j < length parsed" "name \<in> refs api (parsed ! j) - defs api (parsed ! j)"
      "unresolved api role parsed definer j name e"
  proof -
    have "link_all api role parsed definer 0 (map (names_of api) parsed)
        (replicate (length parsed) [], replicate (length parsed) []) = Inl e"
      using assms Inr by (simp add: avro_graph_def)
    from link_all_Inl [OF this] show thesis
      using that by (auto simp: outside_def refs_def defs_def)
  qed
  show ?thesis
  proof (cases "hm_get definer name")
    case None
    then have "\<forall>t \<in> set parsed. name \<notin> defs api t"
      using get [of name] by (auto simp: in_set_conv_nth)
    with None j disj show ?thesis
      unfolding refusal_reason_def unresolved_def missing_definition_def by (auto dest: nth_mem)
  next
    case (Some i)
    with get have "i < length parsed" "name \<in> defs api (parsed ! i)" by blast+
    with Some j disj show ?thesis
      unfolding refusal_reason_def unresolved_def nested_definition_def by (auto dest: nth_mem)
  qed
qed

text \<open>What the function returns, by cases of the graph and of the search.\<close>

lemma order_schemata_cases:
  "(case order_schemata api role parsed of
      None \<Rightarrow> False
    | Some (Inl e) \<Rightarrow> \<not> orderable api parsed \<and> refusal_reason api role parsed e
    | Some (Inr out) \<Rightarrow> orderable api parsed \<and>
        (\<exists>perm. permutes_indices perm (length parsed) \<and> out = pick parsed perm) \<and> codec_accepts api {} out \<and>
        (codec_accepts api {} parsed \<longrightarrow> out = parsed))"
proof (cases "avro_graph api role parsed")
  case (Inl e)
  then have "\<not> (disjoint_defs api parsed \<and> top_level_refs api parsed)"
    unfolding avro_graph_spec(1) [of api role parsed, symmetric] by simp
  with Inl avro_graph_refusal [OF Inl] show ?thesis
    using accepted_disjoint by (auto simp: order_schemata_def orderable_def)
next
  case (Inr g)
  let ?n = "length parsed"
  have ok: "disjoint_defs api parsed" "top_level_refs api parsed"
    using avro_graph_spec(1) [of api role parsed] Inr by blast+
  note accept = codec_accepts_topological [OF ok]
  have len: "length (fst g) = ?n"
    using avro_graph_spec(2) [OF Inr] by (simp add: graph_ok_def)
  obtain order remaining where
    k: "kahn (snd g) (filter (\<lambda>i. fst g ! i = []) [0..<?n]) (map length (fst g)) [] = Some (order, remaining)"
      "distinct order" "set order \<subseteq> {..<?n}"
      "\<forall>d < ?n. 0 < remaining ! d \<longleftrightarrow> blocked ?n (needs api parsed) d"
      "set order = {d. d < ?n \<and> \<not> blocked ?n (needs api parsed) d}"
      "length order = ?n \<longleftrightarrow> (\<exists>perm. topological ?n (needs api parsed) perm)"
      "length order = ?n \<longrightarrow> topological ?n (needs api parsed) order"
      "(\<forall>d < ?n. needs api parsed d \<subseteq> {..<d}) \<longrightarrow> order = [0..<?n]"
    using avro_kahn [OF Inr refl] unfolding len by (elim exE conjE) (rule that, assumption+)
  have perm: "topological ?n (needs api parsed) p \<Longrightarrow> permutes_indices p ?n" for p
    by (simp add: topological_def permutes_indices_def)
  have iff: "orderable api parsed \<longleftrightarrow> length order = ?n"
    unfolding orderable_def k(6) using ok(2) accept perm by blast
  have take: "take_slots order (map Some parsed) = pick parsed order"
    using k(2,3) by (intro take_slots_eq) auto
  have out: "order_schemata api role parsed =
      Some (if length order \<noteq> ?n then Inl (Config (Codec (CircularReference role (cycle_names api parsed remaining))))
            else Inr (pick parsed order))"
    using Inr k(1) take len by (cases g) (simp add: order_schemata_def Let_def)
  have "order = [0..<?n]" if "codec_accepts api {} parsed"
  proof -
    have id: "pick parsed [0..<?n] = parsed" by (simp add: pick_def map_nth)
    have "permutes_indices [0..<?n] ?n" by (simp add: permutes_indices_def atLeast0LessThan)
    from accept [OF this] id that have "topological ?n (needs api parsed) [0..<?n]" by simp
    then have "\<forall>d < ?n. needs api parsed d \<subseteq> {..<d}" by (simp add: topological_def atLeast0LessThan)
    with k(8) show ?thesis by blast
  qed
  then have stable: "codec_accepts api {} parsed \<longrightarrow> pick parsed order = parsed"
    by (auto simp: pick_def map_nth)
  show ?thesis
  proof (cases "length order = ?n")
    case True
    then have "permutes_indices order ?n" "codec_accepts api {} (pick parsed order)"
      using k(7) perm accept by blast+
    with True iff stable out show ?thesis by auto
  next
    case False
    have members: "filter (\<lambda>i. 0 < remaining ! i) [0..<?n] = cycle_members api parsed"
      unfolding cycle_members_def using k(4) by (intro filter_cong) auto
    have "cycle_members api parsed \<noteq> []"
    proof
      assume "cycle_members api parsed = []"
      then have "\<forall>d < ?n. \<not> blocked ?n (needs api parsed) d"
        by (auto simp: cycle_members_def filter_empty_conv)
      with k(5) have "set order = {..<?n}" by auto
      with k(2) False show False using distinct_card by force
    qed
    with ok have "refusal_reason api role parsed
        (Config (Codec (CircularReference role (cycle_names api parsed remaining))))"
      by (simp add: refusal_reason_def cycle_names_def members)
    with False iff out show ?thesis by simp
  qed
qed

section \<open>Deduplication\<close>

text \<open>The name a text declares at its top level, with its value.\<close>

definition declared :: "'v avro_api \<Rightarrow> string \<Rightarrow> (string \<times> json) option" where
  "declared api doc =
     (case av_json api doc of
        Inl _ \<Rightarrow> None
      | Inr j \<Rightarrow> map_option (\<lambda>name. (name, j)) (top_level_fullname j))"

definition declarations :: "'v avro_api \<Rightarrow> string list \<Rightarrow> (string \<times> json) list" where
  "declarations api docs = List.map_filter (declared api) docs"

lemma declarations_append [simp]:
  "declarations api (xs @ ys) = declarations api xs @ declarations api ys"
  by (simp add: declarations_def map_filter_def)

lemma declarations_single [simp]:
  "declarations api [doc] = (case declared api doc of None \<Rightarrow> [] | Some d \<Rightarrow> [d])"
  by (simp add: declarations_def map_filter_def split: option.split)

lemma set_declarations: "(name, j) \<in> set (declarations api docs) \<longleftrightarrow>
    (\<exists>doc \<in> set docs. av_json api doc = Inr j \<and> top_level_fullname j = Some name)"
  by (induction docs)
    (auto simp: declarations_def map_filter_simps declared_def split: option.splits sum.splits)

lemma dedupe_loop_spec:
  assumes "dedupe_loop api role deps seen kept = Inr kept'"
    and "\<forall>name j. hm_get seen name = Some j \<longleftrightarrow> (name, j) \<in> set (declarations api (root # kept))"
    and "distinct (map fst (declarations api (root # kept)))"
  shows "(\<exists>more. kept' = kept @ more \<and> subseq more deps) \<and>
    distinct (map fst (declarations api (root # kept'))) \<and>
    (\<forall>dep \<in> set deps. \<exists>j. av_json api dep = Inr j \<and> (\<exists>doc \<in> set (root # kept'). av_json api doc = Inr j))"
  using assms
proof (induction api role deps seen kept arbitrary: kept' rule: dedupe_loop.induct)
  case (1 api role seen kept)
  then show ?case by simp
next
  case (2 api role dep deps seen kept)
  from 2(4) obtain j where j: "av_json api dep = Inr j" by (auto split: sum.splits)
  show ?case
  proof (cases "top_level_fullname j")
    case None
    then have decl: "declarations api (root # kept @ [dep]) = declarations api (root # kept)"
      using j declarations_append [of api "root # kept" "[dep]"] by (simp add: declared_def)
    have "dedupe_loop api role deps seen (kept @ [dep]) = Inr kept'" using 2(4) j None by simp
    from 2(1) [OF j None this] 2(5,6) obtain more where
      more: "kept' = (kept @ [dep]) @ more" "subseq more deps"
        "distinct (map fst (declarations api (root # kept')))"
        "\<forall>d \<in> set deps. \<exists>j. av_json api d = Inr j \<and> (\<exists>doc \<in> set (root # kept'). av_json api doc = Inr j)"
      unfolding decl by blast
    have "kept' = kept @ dep # more" "subseq (dep # more) (dep # deps)" using more(1,2) by simp_all
    with more j show ?thesis by (metis in_set_conv_decomp list.set_intros(2) set_ConsD)
  next
    case (Some name)
    show ?thesis
    proof (cases "hm_get seen name")
      case None
      have decl: "declarations api (root # kept @ [dep]) = declarations api (root # kept) @ [(name, j)]"
        using j Some declarations_append [of api "root # kept" "[dep]"] by (simp add: declared_def)
      have fresh: "name \<notin> fst ` set (declarations api (root # kept))" using None 2(5) by force
      have run: "dedupe_loop api role deps (hm_put name j seen) (kept @ [dep]) = Inr kept'"
        using 2(4) j Some None by simp
      have inv: "\<forall>n i. hm_get (hm_put name j seen) n = Some i \<longleftrightarrow> (n, i) \<in> set (declarations api (root # kept @ [dep]))"
        unfolding decl using 2(5) fresh by (auto simp: image_iff)
      have dist: "distinct (map fst (declarations api (root # kept @ [dep])))"
        unfolding decl using 2(6) fresh by simp
      from 2(2) [OF j Some None run inv dist] obtain more where
        more: "kept' = (kept @ [dep]) @ more" "subseq more deps"
          "distinct (map fst (declarations api (root # kept')))"
          "\<forall>d \<in> set deps. \<exists>j. av_json api d = Inr j \<and> (\<exists>doc \<in> set (root # kept'). av_json api doc = Inr j)"
        by blast
      have "kept' = kept @ dep # more" "subseq (dep # more) (dep # deps)" using more(1,2) by simp_all
      with more j show ?thesis by (metis in_set_conv_decomp list.set_intros(2) set_ConsD)
    next
      case seen: (Some previous)
      with 2(4) j Some have "previous = j" "dedupe_loop api role deps seen kept = Inr kept'"
        by (simp_all split: if_splits)
      from 2(3) [OF j Some seen this 2(5,6)] obtain more where
        more: "kept' = kept @ more" "subseq more deps"
          "distinct (map fst (declarations api (root # kept')))"
          "\<forall>d \<in> set deps. \<exists>j. av_json api d = Inr j \<and> (\<exists>doc \<in> set (root # kept'). av_json api doc = Inr j)"
        by blast
      have "(name, j) \<in> set (declarations api (root # kept))" using 2(5) seen \<open>previous = j\<close> by blast
      then have "\<exists>doc \<in> set (root # kept'). av_json api doc = Inr j"
        unfolding set_declarations more(1) by auto
      with more j show ?thesis using subseq_Cons' by (metis list_emb_Cons set_ConsD)
    qed
  qed
qed

lemma dedupe_spec:
  assumes "dedupe_dependencies api root deps role = Inr kept"
  shows "subseq kept deps \<and> distinct (map fst (declarations api (root # kept))) \<and>
    (\<forall>dep \<in> set deps. \<exists>j. av_json api dep = Inr j \<and> (\<exists>doc \<in> set (root # kept). av_json api doc = Inr j))"
proof -
  from assms obtain j where j: "av_json api root = Inr j"
    by (auto simp: dedupe_dependencies_def split: sum.splits)
  let ?seen = "case top_level_fullname j of None \<Rightarrow> [] | Some name \<Rightarrow> hm_put name j []"
  have run: "dedupe_loop api role deps ?seen [] = Inr kept"
    using assms j by (simp add: dedupe_dependencies_def)
  have "\<forall>name i. hm_get ?seen name = Some i \<longleftrightarrow> (name, i) \<in> set (declarations api [root])"
    using j by (auto simp: declared_def split: option.splits if_splits)
  moreover have "distinct (map fst (declarations api [root]))"
    by (simp split: option.splits)
  ultimately show ?thesis using dedupe_loop_spec [OF run] by auto
qed

section \<open>Resolved schemas\<close>

lemma order_schemata_Inr:
  assumes "order_schemata api role parsed = Some (Inr out)"
  shows "codec_accepts api {} out" "set out = set parsed" "length out = length parsed"
proof -
  from order_schemata_cases [of api parsed role] assms obtain perm where
    p: "permutes_indices perm (length parsed)" "out = pick parsed perm" "codec_accepts api {} out"
    by (simp add: split_def) blast
  then show "codec_accepts api {} out" by simp
  have "set out = (!) parsed ` {..<length parsed}" using p by (simp add: pick_def permutes_indices_def)
  then show "set out = set parsed" by (auto simp: set_conv_nth)
  have "length perm = card {..<length parsed}"
    using p(1) distinct_card unfolding permutes_indices_def by metis
  then show "length out = length parsed" using p(2) by (simp add: pick_def)
qed

lemma order_schemata_total: "\<exists>res. order_schemata api role parsed = Some res"
  using order_schemata_cases [of api parsed role] by (cases "order_schemata api role parsed") simp_all

lemma distinct_deps_spec:
  "(\<forall>s. av_eq api s s) \<Longrightarrow> set (distinct_deps api root deps acc) \<subseteq> set acc \<union> set deps \<and>
   set acc \<subseteq> set (distinct_deps api root deps acc) \<and>
   (\<forall>dep \<in> set deps. av_eq api dep root \<or> (\<exists>s \<in> set (distinct_deps api root deps acc). av_eq api s dep))"
proof (induction deps arbitrary: acc)
  case (Cons dep deps)
  obtain acc' where acc': "acc' = (if \<not> av_eq api dep root \<and> \<not> list_ex (\<lambda>s. av_eq api s dep) acc
      then acc @ [dep] else acc)" by blast
  then have "av_eq api dep root \<or> (\<exists>s \<in> set acc'. av_eq api s dep)"
    using Cons.prems by (auto simp: list_ex_iff)
  moreover have "set acc \<subseteq> set acc'" "set acc' \<subseteq> set acc \<union> {dep}" using acc' by (auto split: if_splits)
  ultimately show ?case
    using Cons.IH [OF Cons.prems, of acc'] unfolding distinct_deps.simps acc' [symmetric] by fastforce
qed simp

lemma mset_pick: "permutes_indices perm (length parsed) \<Longrightarrow> mset (pick parsed perm) = mset parsed"
proof -
  assume perm: "permutes_indices perm (length parsed)"
  then have "mset perm = mset [0..<length parsed]"
    by (metis permutes_indices_def distinct_upt set_eq_iff_mset_eq_distinct atLeast_upt)
  then have "mset (pick parsed perm) = mset (map (\<lambda>i. parsed ! i) [0..<length parsed])"
    by (simp add: pick_def)
  then show ?thesis by (simp only: map_nth)
qed

section \<open>Properties\<close>

text \<open>
  C9. Ordering a set of schemas never panics. It succeeds exactly when some order of the set is
  acceptable to the codec's one-pass name table and every reference across schemas names a
  top-level type; the result is then such an order of the same schemas, and a set that is already
  in order comes back unchanged. A set that is refused is refused for a reason that is there
  (\<open>refusal_reason\<close>): the error names a type that two of the schemas define; or else a reference
  of one of the schemas that none of them defines, or that one defines below its top level; or
  else, when neither occurs, the types of the schemas that are on a cycle of references or wait
  for one, which are some, all of them and no others.
\<close>

theorem avro_definitions_first:
  "case order_schemata api role parsed of
     None \<Rightarrow> False
   | Some (Inl e) \<Rightarrow> \<not> orderable api parsed \<and> refusal_reason api role parsed e
   | Some (Inr out) \<Rightarrow> orderable api parsed \<and> mset out = mset parsed \<and> codec_accepts api {} out \<and>
       (codec_accepts api {} parsed \<longrightarrow> out = parsed)"
  using order_schemata_cases [of api parsed role] mset_pick [of _ parsed]
  by (auto split: option.splits sum.splits)

text \<open>A set in the wrong order, with references through the enclosing namespace.\<close>

definition demo_qualified :: "avro_name \<Rightarrow> string option \<Rightarrow> avro_name" where
  "demo_qualified name enclosing =
     (if an_namespace name = None then name\<lparr>an_namespace := enclosing\<rparr> else name)"

definition demo_fullname :: "avro_name \<Rightarrow> string option \<Rightarrow> string" where
  "demo_fullname name enclosing =
     (case an_namespace (demo_qualified name enclosing) of
        None \<Rightarrow> an_name name
      | Some namespace \<Rightarrow> namespace @ ''.'' @ an_name name)"

definition demo_avro_parse :: "string \<Rightarrow> string + avro" where
  "demo_avro_parse s =
     (if s = ''address'' \<or> s = ''address again'' then Inr (ARecord \<lparr>an_name = ''Address'', an_namespace = Some ''x''\<rparr> [AOther ''string''] [])
      else if s = ''customer'' then Inr (ARecord \<lparr>an_name = ''Customer'', an_namespace = Some ''x''\<rparr>
        [ARef \<lparr>an_name = ''Address'', an_namespace = None\<rparr>] [])
      else Inl ''unexpected end of input'')"

definition demo_json :: "string \<Rightarrow> string + json" where
  "demo_json s =
     (if s = ''address'' \<or> s = ''address again'' then Inr (JObject [(''name'', JString ''Address''), (''namespace'', JString ''x'')])
      else if s = ''customer'' then Inr (JObject [(''name'', JString ''Customer''), (''namespace'', JString ''x'')])
      else Inl ''expected value'')"

fun demo_parse_list :: "string list \<Rightarrow> string + avro list" where
  "demo_parse_list [] = Inr []"
| "demo_parse_list (s # ss) =
     (case (demo_avro_parse s, demo_parse_list ss) of
        (Inr a, Inr as) \<Rightarrow> Inr (a # as)
      | (Inl e, _) \<Rightarrow> Inl e
      | (_, Inl e) \<Rightarrow> Inl e)"

definition demo_avro :: "u8 avro_api" where
  "demo_avro = \<lparr>av_qualified = demo_qualified, av_fullname = demo_fullname, av_eq = (=),
     av_parse_str = demo_avro_parse, av_parse_list = demo_parse_list, av_json = demo_json,
     av_to_datum = (\<lambda>_ v. Inr [v]), av_to_datum_schemata = (\<lambda>_ _ v. Inr [v]),
     av_from_datum = (\<lambda>_ bs. case bs of [v] \<Rightarrow> Inr v | _ \<Rightarrow> Inl ''trailing bytes''),
     av_from_datum_schemata = (\<lambda>_ _ bs. case bs of [v] \<Rightarrow> Inr v | _ \<Rightarrow> Inl ''trailing bytes''),
     av_from_datum_reader = (\<lambda>_ _ bs _ _. case bs of [v] \<Rightarrow> Inr v | _ \<Rightarrow> Inl ''trailing bytes'')\<rparr>"

lemmas demo_avro_simps =
  demo_avro_def demo_qualified_def demo_fullname_def demo_avro_parse_def demo_json_def

lemma demo_wrong_order:
  "resolved_parse demo_avro ''address'' [''customer''] WriterLocal =
     Some (Inr \<lparr>ra_root = ARecord \<lparr>an_name = ''Address'', an_namespace = Some ''x''\<rparr> [AOther ''string''] [],
       ra_schemata = [ARecord \<lparr>an_name = ''Address'', an_namespace = Some ''x''\<rparr> [AOther ''string''] [],
         ARecord \<lparr>an_name = ''Customer'', an_namespace = Some ''x''\<rparr>
           [ARef \<lparr>an_name = ''Address'', an_namespace = None\<rparr>] []]\<rparr>)"
  by code_simp

text \<open>Two schemas that refer to each other, and one that waits for them.\<close>

definition demo_record :: "string \<Rightarrow> string list \<Rightarrow> avro" where
  "demo_record name names =
     ARecord \<lparr>an_name = name, an_namespace = None\<rparr> (map (\<lambda>n. ARef \<lparr>an_name = n, an_namespace = None\<rparr>) names) []"

theorem avro_definitions_first_witness:
  "orderable demo_avro [projr (demo_avro_parse ''customer''), projr (demo_avro_parse ''address'')] \<and>
   codec_accepts demo_avro {} [projr (demo_avro_parse ''address''), projr (demo_avro_parse ''customer'')] \<and>
   refusal_reason demo_avro Reader [demo_record ''C'' [''A''], demo_record ''A'' [''B''], demo_record ''B'' [''A''], demo_record ''D'' []]
     (Config (Codec (CircularReference Reader [''C'', ''A'', ''B''])))"
proof -
  have order: "order_schemata demo_avro WriterLocal [projr (demo_avro_parse ''customer''), projr (demo_avro_parse ''address'')] =
      Some (Inr [projr (demo_avro_parse ''address''), projr (demo_avro_parse ''customer'')])"
    by code_simp
  have cycle: "order_schemata demo_avro Reader
        [demo_record ''C'' [''A''], demo_record ''A'' [''B''], demo_record ''B'' [''A''], demo_record ''D'' []] =
      Some (Inl (Config (Codec (CircularReference Reader [''C'', ''A'', ''B'']))))"
    by code_simp
  show ?thesis
    using order cycle avro_definitions_first [where api = demo_avro and role = WriterLocal
        and parsed = "[projr (demo_avro_parse ''customer''), projr (demo_avro_parse ''address'')]"]
      avro_definitions_first [where api = demo_avro and role = Reader
        and parsed = "[demo_record ''C'' [''A''], demo_record ''A'' [''B''], demo_record ''B'' [''A''], demo_record ''D'' []]"]
    by simp
qed

text \<open>
  C25. Deduplication keeps a subsequence of the dependencies in which, together with the root, no
  type name is declared twice, and of every dependency a document with the same JSON value stays.
\<close>

theorem dedupe_keeps_definitions:
  "dedupe_dependencies api root deps role = Inr kept \<Longrightarrow>
     subseq kept deps \<and> distinct (map fst (declarations api (root # kept))) \<and>
     (\<forall>dep \<in> set deps. \<exists>j. av_json api dep = Inr j \<and> (\<exists>doc \<in> set (root # kept). av_json api doc = Inr j))"
  by (rule dedupe_spec)

theorem dedupe_keeps_definitions_witness:
  "subseq [''address''] [''address'', ''customer'', ''address again''] \<and>
   dedupe_dependencies demo_avro ''customer'' [''address'', ''customer'', ''address again''] Reader = Inr [''address'']"
proof -
  have run: "dedupe_dependencies demo_avro ''customer'' [''address'', ''customer'', ''address again''] Reader = Inr [''address'']"
    by code_simp
  show ?thesis using dedupe_keeps_definitions [OF run] run by blast
qed

lemma resolved_parse_cases:
  "case resolved_parse api schema_str deps role of
     None \<Rightarrow> False
   | Some (Inl _) \<Rightarrow> True
   | Some (Inr r) \<Rightarrow>
       ra_schemata r = [] \<and> av_parse_str api schema_str = Inr (ra_root r) \<or>
       ra_root r \<in> set (ra_schemata r) \<and> codec_accepts api {} (ra_schemata r)"
proof -
  have alone: "case parse_alone api schema_str role of Inl _ \<Rightarrow> True
      | Inr r \<Rightarrow> ra_schemata r = [] \<and> av_parse_str api schema_str = Inr (ra_root r)"
    by (simp add: parse_alone_def split: sum.split)
  have set_case: "case parse_set api schema_str inputs role of None \<Rightarrow> False | Some (Inl _) \<Rightarrow> True
      | Some (Inr r) \<Rightarrow> ra_root r \<in> set (ra_schemata r) \<and> codec_accepts api {} (ra_schemata r)" for inputs
  proof (cases "av_parse_list api (inputs @ [schema_str])")
    case (Inr parsed)
    show ?thesis
    proof (cases "parsed = []")
      case False
      from order_schemata_total [of api role parsed] obtain res where
        res: "order_schemata api role parsed = Some res" by blast
      show ?thesis
        using order_schemata_Inr [of api role parsed] res Inr False
        by (cases res) (simp_all add: parse_set_def with_schemata_def)
    qed (simp add: parse_set_def Inr)
  qed (simp add: parse_set_def)
  show ?thesis
  proof (cases "MAX_REFERENCES < length deps")
    case False
    show ?thesis
    proof (cases "if deps = [] then Inr [] else dedupe_dependencies api schema_str deps role")
      case (Inr inputs)
      show ?thesis
      proof (cases "inputs = []")
        case True
        with False Inr have "resolved_parse api schema_str deps role = Some (parse_alone api schema_str role)"
          by (simp add: resolved_parse_def del: if_split)
        with alone show ?thesis by (simp split: sum.splits)
      next
        case ne: False
        with False Inr have r: "resolved_parse api schema_str deps role = parse_set api schema_str inputs role"
          by (simp add: resolved_parse_def del: if_split)
        show ?thesis
          unfolding r using set_case [of inputs]
          by (cases "parse_set api schema_str inputs role") (simp, auto split: sum.splits)
      qed
    qed (use False in \<open>simp add: resolved_parse_def del: if_split\<close>)
  qed (simp add: resolved_parse_def)
qed

lemma from_parsed_cases:
  "case from_parsed api root schemas role of
     None \<Rightarrow> False
   | Some (Inl _) \<Rightarrow> True
   | Some (Inr r) \<Rightarrow>
       ra_root r = root \<and> root \<in> set (codec_schemata r) \<and> codec_accepts api {} (codec_schemata r) \<and>
       set (codec_schemata r) = insert root (set (distinct_deps api root schemas []))"
proof -
  let ?set = "distinct_deps api root schemas []"
  show ?thesis
  proof (cases "MAX_REFERENCES < length schemas")
    case False
    show ?thesis
    proof (cases "?set = []")
      case True
      obtain ns rs where names: "names_of api root = (ns, rs)" by force
      show ?thesis
      proof (cases "filter (\<lambda>r. r \<notin> set ns) rs")
        case Nil
        then have "refs api root \<subseteq> defs api root"
          using names by (auto simp: refs_def defs_def filter_empty_conv)
        with Nil False True names show ?thesis
          by (simp add: from_parsed_def codec_schemata_def)
      qed (use False True names in \<open>simp add: from_parsed_def\<close>)
    next
      case set_ne: False
      from order_schemata_total [of api role "?set @ [root]"] obtain res where
        res: "order_schemata api role (?set @ [root]) = Some res" by blast
      have r: "from_parsed api root schemas role =
          Some (res_bind res (\<lambda>schemata. Inr \<lparr>ra_root = root, ra_schemata = schemata\<rparr>))"
        using False set_ne res by (simp add: from_parsed_def with_schemata_def Let_def)
      show ?thesis
      proof (cases res)
        case (Inr out)
        with res have "order_schemata api role (?set @ [root]) = Some (Inr out)" by simp
        from order_schemata_Inr [OF this] have
          "codec_accepts api {} out" "set out = insert root (set ?set)" "out \<noteq> []" by auto
        with r Inr show ?thesis by (simp add: codec_schemata_def)
      qed (simp add: r)
    qed
  qed (simp add: from_parsed_def)
qed

text \<open>
  C24. A schema resolved from text or from parsed schemas either stands alone or carries a name
  table that contains it, in an order the codec accepts; resolving never panics. From parsed
  schemas, the table holds nothing but the root and dependencies, and when equality of schemas is
  reflexive, of every dependency an equal schema.
\<close>

theorem resolved_schema_usable:
  assumes "\<forall>s. av_eq api s s"
  shows "(case resolved_parse api schema_str deps role of
      None \<Rightarrow> False
    | Some (Inl _) \<Rightarrow> True
    | Some (Inr r) \<Rightarrow>
        ra_schemata r = [] \<and> av_parse_str api schema_str = Inr (ra_root r) \<or>
        ra_root r \<in> set (ra_schemata r) \<and> codec_accepts api {} (ra_schemata r)) \<and>
   (case from_parsed api root schemas role of
      None \<Rightarrow> False
    | Some (Inl _) \<Rightarrow> True
    | Some (Inr r) \<Rightarrow>
        ra_root r = root \<and> root \<in> set (codec_schemata r) \<and> codec_accepts api {} (codec_schemata r) \<and>
        set (codec_schemata r) \<subseteq> insert root (set schemas) \<and>
        (\<forall>dep \<in> set schemas. \<exists>s \<in> set (codec_schemata r). av_eq api s dep \<or> av_eq api dep s))"
proof (rule conjI [OF resolved_parse_cases])
  note d = distinct_deps_spec [where api = api and root = root and deps = schemas and acc = "[]", OF assms]
  show "case from_parsed api root schemas role of
      None \<Rightarrow> False
    | Some (Inl _) \<Rightarrow> True
    | Some (Inr r) \<Rightarrow>
        ra_root r = root \<and> root \<in> set (codec_schemata r) \<and> codec_accepts api {} (codec_schemata r) \<and>
        set (codec_schemata r) \<subseteq> insert root (set schemas) \<and>
        (\<forall>dep \<in> set schemas. \<exists>s \<in> set (codec_schemata r). av_eq api s dep \<or> av_eq api dep s)"
    using from_parsed_cases [where api = api and root = root and schemas = schemas and role = role] d
    by (cases "from_parsed api root schemas role") (auto split: sum.splits)
qed

theorem resolved_schema_usable_witness:
  "codec_accepts demo_avro {} (ra_schemata (projr (the (resolved_parse demo_avro ''address'' [''customer''] WriterLocal))))"
proof -
  have eq: "\<forall>s. av_eq demo_avro s s" by (simp add: demo_avro_def)
  show ?thesis
    using resolved_schema_usable [where schema_str = "''address''" and deps = "[''customer'']" and role = WriterLocal,
        OF eq, THEN conjunct1]
    unfolding demo_wrong_order by simp
qed

end
