(* ===== verification/Reference_Closure.thy ===== *)
theory Reference_Closure
  imports Registry
begin

text \<open>
  The depth-first fetch of every schema that a schema references, directly or not
  (\<open>collect_reference_closure\<close> of \<open>src/avro/mod.rs\<close> and of \<open>src/json/mod.rs\<close>). The two
  functions differ in what they collect and in a bound they check before a fetch; both are
  instances of one recursion, so that the theorems about the traversal are proved once.
\<close>

definition MAX_REFERENCE_DEPTH :: nat where "MAX_REFERENCE_DEPTH = 32"

type_synonym marker = "string \<times> int"

definition marker_of :: "schema_reference \<Rightarrow> marker" where
  "marker_of r = (ref_subject r, as_i32 (ref_version r))"

text \<open>
  What an instance collects: the error for a nesting that is too deep, the check before a
  fetch, and how a fetched schema is added.
\<close>

record 'o collector =
  co_too_deep :: sreg_error
  co_check :: "'o \<Rightarrow> sreg_error option"
  co_add :: "schema_reference \<Rightarrow> schema \<Rightarrow> 'o \<Rightarrow> 'o res"

text \<open>
  The entry of the function and its loop; \<open>visited\<close> and \<open>out\<close> are the two \<open>&mut\<close> arguments,
  which no caller looks at after an error. The recursion is bounded by the depth.
\<close>

function (sequential)
  closure :: "'o collector \<Rightarrow> 's registry \<Rightarrow> schema_reference list \<Rightarrow> nat \<Rightarrow> marker list \<times> 'o
    \<Rightarrow> ('s, marker list \<times> 'o) io" and
  closure_each :: "'o collector \<Rightarrow> 's registry \<Rightarrow> schema_reference list \<Rightarrow> nat \<Rightarrow> marker list \<times> 'o
    \<Rightarrow> ('s, marker list \<times> 'o) io"
where
  "closure co rg references depth st s =
     (if references = [] then (Inr st, s)
      else if MAX_REFERENCE_DEPTH \<le> depth then (Inl (co_too_deep co), s)
      else closure_each co rg references depth st s)"
| "closure_each co rg [] depth st s = (Inr st, s)"
| "closure_each co rg (reference # references) depth (visited, out) s =
     (if marker_of reference \<in> set visited then closure_each co rg references depth (visited, out) s
      else case co_check co out of
             Some e \<Rightarrow> (Inl e, s)
           | None \<Rightarrow>
               (case rg_get_schema_by_version rg (ref_subject reference) (ref_version reference) s of
                  (Inl e, s1) \<Rightarrow> (Inl e, s1)
                | (Inr referenced, s1) \<Rightarrow>
                    (case closure co rg (sch_references referenced) (Suc depth) (marker_of reference # visited, out) s1 of
                       (Inl e, s2) \<Rightarrow> (Inl e, s2)
                     | (Inr (visited, out), s2) \<Rightarrow>
                         (case co_add co reference referenced out of
                            Inl e \<Rightarrow> (Inl e, s2)
                          | Inr out \<Rightarrow> closure_each co rg references depth (visited, out) s2))))"
  by pat_completeness auto

termination
  by (relation "measures
      [\<lambda>x. case x of Inl (_, _, _, depth, _, _) \<Rightarrow> 2 * (MAX_REFERENCE_DEPTH - depth)
                   | Inr (_, _, _, depth, _, _) \<Rightarrow> 2 * (MAX_REFERENCE_DEPTH - depth) - 1,
       \<lambda>x. case x of Inl _ \<Rightarrow> 0 | Inr (_, _, references, _, _, _) \<Rightarrow> Suc (length references)]")
    auto

declare closure.simps [simp del] closure_each.simps [simp del]

section \<open>Registries with a fixed content\<close>

text \<open>
  A registry whose versions do not change while the closure runs, with the log of the requests
  it has answered.
\<close>

definition catalog_fetch :: "(marker \<Rightarrow> schema option) \<Rightarrow> string \<Rightarrow> schema_version \<Rightarrow> (marker list, schema) io" where
  "catalog_fetch F subject version log =
     ((case F (subject, as_i32 version) of
         Some x \<Rightarrow> Inr x
       | None \<Rightarrow> Inl (Api VERSION_NOT_FOUND (Text ''version not found''))), log @ [(subject, as_i32 version)])"

definition catalog :: "(marker \<Rightarrow> schema option) \<Rightarrow> marker list registry" where
  "catalog F =
     trait_defaults (\<lambda>_. io_fail (Api SCHEMA_NOT_FOUND (Text []))) (\<lambda>_. io_fail (Api SUBJECT_NOT_FOUND (Text [])))
       (catalog_fetch F) (\<lambda>_ _ _ _. not_supported ''register_schema'')"

lemma catalog_version [simp]: "rg_get_schema_by_version (catalog F) = catalog_fetch F"
  by (simp add: catalog_def trait_defaults_def)

text \<open>The schemas that references lead to.\<close>

inductive reached :: "(marker \<Rightarrow> schema option) \<Rightarrow> marker set \<Rightarrow> marker \<Rightarrow> bool" for F roots where
  root: "m \<in> roots \<Longrightarrow> reached F roots m"
| link: "reached F roots m \<Longrightarrow> F m = Some x \<Longrightarrow> r \<in> set (sch_references x) \<Longrightarrow> reached F roots (marker_of r)"

abbreviation markers :: "schema_reference list \<Rightarrow> marker set" where
  "markers references \<equiv> marker_of ` set references"

lemma reached_mono: "reached F roots m \<Longrightarrow> roots \<subseteq> roots' \<Longrightarrow> reached F roots' m"
  by (induction rule: reached.induct) (auto intro: reached.intros)

lemma reached_below:
  assumes "F m = Some x" "reached F roots m"
  shows "reached F (markers (sch_references x)) n \<Longrightarrow> reached F roots n"
  by (induction rule: reached.induct) (use assms in \<open>auto intro: reached.intros\<close>)

lemma reached_closed:
  "reached F roots m \<Longrightarrow> roots \<subseteq> S \<Longrightarrow> (\<forall>n \<in> S. \<forall>x. F n = Some x \<longrightarrow> markers (sch_references x) \<subseteq> S) \<Longrightarrow> m \<in> S"
  by (induction rule: reached.induct) blast+

section \<open>The traversal\<close>

lemma closure_each_step:
  assumes "closure_each co rg (r # rs) depth (visited, out) s = (Inr st', s')" "marker_of r \<notin> set visited"
  obtains x s1 v1 o1 s2 o2 where "co_check co out = None"
    "rg_get_schema_by_version rg (ref_subject r) (ref_version r) s = (Inr x, s1)"
    "closure co rg (sch_references x) (Suc depth) (marker_of r # visited, out) s1 = (Inr (v1, o1), s2)"
    "co_add co r x o1 = Inr o2" "closure_each co rg rs depth (v1, o2) s2 = (Inr st', s')"
  using assms by (auto simp: closure_each.simps split: option.splits prod.splits sum.splits)

text \<open>
  The interface of a collector: a schema added is held, what is held stays, and one schema adds
  at most one to the weight that \<open>co_check\<close> bounds.
\<close>

locale reference_collector =
  fixes co :: "'o collector"
    and holds :: "'o \<Rightarrow> schema_reference \<Rightarrow> schema \<Rightarrow> bool"
    and weight :: "'o \<Rightarrow> nat"
  assumes add_holds: "co_add co r x out = Inr out' \<Longrightarrow> holds out' r x"
    and add_keeps: "co_add co r x out = Inr out' \<Longrightarrow> holds out q y \<Longrightarrow> holds out' q y"
    and add_weight: "co_add co r x out = Inr out' \<Longrightarrow> weight out' \<le> Suc (weight out)"
begin

definition explored :: "(marker \<Rightarrow> schema option) \<Rightarrow> marker set \<Rightarrow> marker list \<times> 'o \<Rightarrow> marker list \<Rightarrow>
    marker list \<times> 'o \<Rightarrow> marker list \<Rightarrow> bool" where
  "explored F roots st log st' log' \<longleftrightarrow>
     (\<exists>fetched. fst st' = rev fetched @ fst st \<and> log' = log @ fetched \<and> distinct fetched \<and>
        set fetched \<inter> set (fst st) = {} \<and> roots \<subseteq> set (fst st') \<and>
        (\<forall>m \<in> set fetched. reached F roots m \<and>
           (\<exists>r x. marker_of r = m \<and> F m = Some x \<and> markers (sch_references x) \<subseteq> set (fst st') \<and> holds (snd st') r x)) \<and>
        (\<forall>r x. holds (snd st) r x \<longrightarrow> holds (snd st') r x) \<and>
        weight (snd st') \<le> weight (snd st) + length fetched)"

lemma explored_nil: "roots \<subseteq> set (fst st) \<Longrightarrow> explored F roots st log st log"
  by (simp add: explored_def)

lemma explored_weaken:
  "explored F roots st log st' log' \<Longrightarrow> roots \<subseteq> roots' \<Longrightarrow> roots' \<subseteq> roots \<union> set (fst st) \<Longrightarrow>
   explored F roots' st log st' log'"
  unfolding explored_def by (elim exE, rule exI) (auto intro: reached_mono)

lemma explored_step:
  assumes r: "marker_of r \<notin> set visited" "F (marker_of r) = Some x"
    and inner: "explored F (markers (sch_references x)) (marker_of r # visited, out) (log @ [marker_of r]) (v1, o1) log1"
    and add: "co_add co r x o1 = Inr o2"
    and rest: "explored F (markers rs) (v1, o2) log1 (v3, o3) log3"
  shows "explored F (markers (r # rs)) (visited, out) log (v3, o3) log3"
proof -
  let ?roots = "markers (r # rs)"
  from inner obtain f1 where f1: "v1 = rev f1 @ marker_of r # visited" "log1 = log @ marker_of r # f1" "distinct f1"
      "set f1 \<inter> set (marker_of r # visited) = {}" "markers (sch_references x) \<subseteq> set v1"
      "\<forall>m \<in> set f1. reached F (markers (sch_references x)) m \<and>
         (\<exists>q y. marker_of q = m \<and> F m = Some y \<and> markers (sch_references y) \<subseteq> set v1 \<and> holds o1 q y)"
      "\<forall>q y. holds out q y \<longrightarrow> holds o1 q y" "weight o1 \<le> weight out + length f1"
    by (auto simp: explored_def)
  from rest obtain f2 where f2: "v3 = rev f2 @ v1" "log3 = log1 @ f2" "distinct f2" "set f2 \<inter> set v1 = {}"
      "markers rs \<subseteq> set v3"
      "\<forall>m \<in> set f2. reached F (markers rs) m \<and>
         (\<exists>q y. marker_of q = m \<and> F m = Some y \<and> markers (sch_references y) \<subseteq> set v3 \<and> holds o3 q y)"
      "\<forall>q y. holds o2 q y \<longrightarrow> holds o3 q y" "weight o3 \<le> weight o2 + length f2"
    by (auto simp: explored_def)
  let ?f = "marker_of r # f1 @ f2"
  have keep: "holds o3 q y" if "holds o1 q y" for q y using that add_keeps [OF add] f2(7) by blast
  have sub: "set v1 \<subseteq> set v3" using f2(1) by auto
  have root: "reached F ?roots (marker_of r)" by (rule reached.root) simp
  have "reached F ?roots m \<and>
      (\<exists>q y. marker_of q = m \<and> F m = Some y \<and> markers (sch_references y) \<subseteq> set v3 \<and> holds o3 q y)"
    if "m \<in> set ?f" for m
  proof -
    from that consider "m = marker_of r" | "m \<in> set f1" | "m \<in> set f2" by auto
    then show ?thesis
    proof cases
      case 1
      then show ?thesis using root r(2) f1(5) sub add_holds [OF add] f2(7) by blast
    next
      case 2
      with f1(6) obtain q y where q: "reached F (markers (sch_references x)) m" "marker_of q = m" "F m = Some y"
          "markers (sch_references y) \<subseteq> set v1" "holds o1 q y" by blast
      have "reached F ?roots m" by (rule reached_below [OF r(2) root q(1)])
      moreover have "markers (sch_references y) \<subseteq> set v3" using q(4) sub by blast
      ultimately show ?thesis using q(2,3) keep [OF q(5)] by blast
    next
      case 3
      then have "reached F (markers rs) m" using f2(6) by blast
      then have "reached F ?roots m" by (rule reached_mono) auto
      with 3 show ?thesis using f2(6) by blast
    qed
  qed
  then have each: "\<forall>m \<in> set ?f. reached F ?roots m \<and>
      (\<exists>q y. marker_of q = m \<and> F m = Some y \<and> markers (sch_references y) \<subseteq> set v3 \<and> holds o3 q y)"
    by blast
  have "distinct ?f" "set ?f \<inter> set visited = {}"
    using r(1) f1(1,3,4) f2(3,4) by auto
  moreover have "?roots \<subseteq> set v3" using f2(1,5) f1(1) by auto
  moreover have "\<forall>q y. holds out q y \<longrightarrow> holds o3 q y" using f1(7) keep by blast
  moreover have "weight o3 \<le> weight out + length ?f" using f1(8) f2(8) add_weight [OF add] by simp
  ultimately show ?thesis
    unfolding explored_def fst_conv snd_conv
    by (intro exI [of _ ?f] conjI each) (simp_all add: f1(1,2) f2(1,2))
qed

lemma closure_explores_all:
  "c = co \<Longrightarrow> rg = catalog F \<Longrightarrow> closure c rg references depth st log = (Inr st', log') \<Longrightarrow>
     explored F (markers references) st log st' log'"
  "c = co \<Longrightarrow> rg = catalog F \<Longrightarrow> closure_each c rg references depth st log = (Inr st', log') \<Longrightarrow>
     explored F (markers references) st log st' log'"
proof (induction c rg references depth st log and c rg references depth st log
    arbitrary: st' log' and st' log' rule: closure_closure_each.induct)
  case (1 c rg references depth st s)
  then show ?case by (auto simp: closure.simps [of _ "catalog F"] explored_nil split: if_splits)
next
  case (2 c rg depth st s)
  then show ?case by (simp add: closure_each.simps explored_nil)
next
  case (3 c rg r rs depth visited out s)
  show ?case
  proof (cases "marker_of r \<in> set visited")
    case True
    with 3 have "explored F (markers rs) (visited, out) s st' log'"
      by (simp add: closure_each.simps)
    then show ?thesis by (rule explored_weaken) (use True in auto)
  next
    case False
    from 3(6) False obtain x s1 v1 o1 s2 o2 where s: "co_check c out = None"
        "rg_get_schema_by_version rg (ref_subject r) (ref_version r) s = (Inr x, s1)"
        "closure c rg (sch_references x) (Suc depth) (marker_of r # visited, out) s1 = (Inr (v1, o1), s2)"
        "co_add c r x o1 = Inr o2" "closure_each c rg rs depth (v1, o2) s2 = (Inr st', log')"
      by (rule closure_each_step)
    have F: "F (marker_of r) = Some x" "s1 = s @ [marker_of r]"
      using s(2) 3(5) by (auto simp: catalog_fetch_def marker_of_def split: option.splits)
    have "explored F (markers (sch_references x)) (marker_of r # visited, out) s1 (v1, o1) s2"
      by (rule 3(2) [OF False s(1) s(2) [symmetric] refl 3(4,5) s(3)])
    moreover obtain v3 o3 where st': "st' = (v3, o3)" by force
    moreover have "explored F (markers rs) (v1, o2) s2 st' log'"
      by (rule 3(3) [OF False s(1) s(2) [symmetric] refl s(3) [symmetric] refl refl s(4) 3(4,5) s(5)])
    ultimately show ?thesis
      using explored_step [where F = F and r = r, OF False F(1)] s(4) 3(4) F(2) st' by blast
  qed
qed

lemmas closure_explores = closure_explores_all(1) [OF refl refl]

text \<open>From nothing visited, the schemas reached are fetched, each once.\<close>

lemma closure_reaches:
  assumes "closure co (catalog F) references 0 ([], out) [] = (Inr (visited, out'), log)"
  shows "distinct log \<and> set log = {m. reached F (markers references) m} \<and>
    (\<forall>m. reached F (markers references) m \<longrightarrow> (\<exists>r x. marker_of r = m \<and> F m = Some x \<and> holds out' r x))"
proof -
  from closure_explores [OF assms] obtain fetched where f: "visited = rev fetched" "log = fetched" "distinct fetched"
      "markers references \<subseteq> set visited"
      "\<forall>m \<in> set fetched. reached F (markers references) m \<and>
         (\<exists>r x. marker_of r = m \<and> F m = Some x \<and> markers (sch_references x) \<subseteq> set visited \<and> holds out' r x)"
    unfolding explored_def by auto
  have "m \<in> set fetched" if "reached F (markers references) m" for m
    using that f(1,4,5) by (intro reached_closed [OF that]) fastforce+
  with f show ?thesis by blast
qed

end

text \<open>
  A collector whose check passes below a limit and whose additions never fail. With fewer
  schemas to reach than the recursion may nest, the closure succeeds, cycles or not.
\<close>

locale bounded_collector = reference_collector +
  fixes limit :: nat
  assumes check_below: "weight out < limit \<Longrightarrow> co_check co out = None"
    and add_total: "\<exists>out'. co_add co r x out = Inr out'"
    and limit: "MAX_REFERENCE_DEPTH \<le> limit"
begin

definition closed_catalog :: "(marker \<Rightarrow> schema option) \<Rightarrow> marker set \<Rightarrow> bool" where
  "closed_catalog F R \<longleftrightarrow> finite R \<and> card R < MAX_REFERENCE_DEPTH \<and>
     (\<forall>m \<in> R. \<exists>x. F m = Some x \<and> markers (sch_references x) \<subseteq> R)"

definition room :: "marker set \<Rightarrow> nat \<Rightarrow> marker list \<times> 'a \<Rightarrow> bool" where
  "room R depth st \<longleftrightarrow> set (fst st) \<subseteq> R \<and> distinct (fst st) \<and> depth \<le> length (fst st) \<and>
     weight (snd st) \<le> length (fst st)"

lemma room_length: "closed_catalog F R \<Longrightarrow> room R depth st \<Longrightarrow> length (fst st) < MAX_REFERENCE_DEPTH"
  using card_mono [of R "set (fst st)"] distinct_card [of "fst st"] by (simp add: closed_catalog_def room_def)

lemma room_explored:
  assumes "closed_catalog F R" "room R depth st" "roots \<subseteq> R" "explored F roots st log st' log'"
  shows "room R depth st'"
proof -
  from assms(4) obtain fetched where f: "fst st' = rev fetched @ fst st" "distinct fetched"
      "set fetched \<inter> set (fst st) = {}" "\<forall>m \<in> set fetched. reached F roots m"
      "weight (snd st') \<le> weight (snd st) + length fetched"
    unfolding explored_def by blast
  have "set fetched \<subseteq> R"
  proof
    fix m assume "m \<in> set fetched"
    with f(4) have "reached F roots m" by blast
    from reached_closed [OF this assms(3)] assms(1) show "m \<in> R"
      unfolding closed_catalog_def by fastforce
  qed
  with f assms(2) show ?thesis by (auto simp: room_def)
qed

lemma closure_succeeds_all:
  "c = co \<Longrightarrow> rg = catalog F \<Longrightarrow> closed_catalog F R \<Longrightarrow> room R depth st \<Longrightarrow> markers references \<subseteq> R \<Longrightarrow>
     \<exists>st' log'. closure c rg references depth st log = (Inr st', log')"
  "c = co \<Longrightarrow> rg = catalog F \<Longrightarrow> closed_catalog F R \<Longrightarrow> room R depth st \<Longrightarrow> markers references \<subseteq> R \<Longrightarrow>
     \<exists>st' log'. closure_each c rg references depth st log = (Inr st', log')"
proof (induction c rg references depth st log and c rg references depth st log
    rule: closure_closure_each.induct)
  case (1 c rg references depth st s)
  have "depth < MAX_REFERENCE_DEPTH"
    using room_length [OF 1(4,5)] 1(5) by (simp add: room_def)
  with 1 show ?case by (simp add: closure.simps)
next
  case (2 c rg depth st s)
  then show ?case by (simp add: closure_each.simps)
next
  case (3 c rg r rs depth visited out s)
  note room = 3(7) and closed = 3(6)
  show ?case
  proof (cases "marker_of r \<in> set visited")
    case True
    with 3 show ?thesis by (simp add: closure_each.simps)
  next
    case False
    have inR: "marker_of r \<in> R" "markers rs \<subseteq> R" using 3(8) by auto
    with closed obtain x where x: "F (marker_of r) = Some x" "markers (sch_references x) \<subseteq> R"
      unfolding closed_catalog_def by blast
    have check: "co_check c out = None"
      using room room_length [OF closed room] check_below limit 3(4) by (simp add: room_def)
    let ?s1 = "s @ [marker_of r]"
    have fetch: "rg_get_schema_by_version rg (ref_subject r) (ref_version r) s = (Inr x, ?s1)"
      using x(1) 3(5) by (simp add: catalog_fetch_def marker_of_def)
    have room1: "room R (Suc depth) (marker_of r # visited, out)"
      using room False inR by (simp add: room_def)
    from 3(2) [OF False check fetch [symmetric] refl 3(4,5) closed room1 x(2)] obtain v1 o1 s2 where
      inner: "closure c rg (sch_references x) (Suc depth) (marker_of r # visited, out) ?s1 = (Inr (v1, o1), s2)"
      by force
    have exp1: "explored F (markers (sch_references x)) (marker_of r # visited, out) ?s1 (v1, o1) s2"
      using closure_explores inner 3(4,5) by blast
    from add_total obtain o2 where add: "co_add co r x o1 = Inr o2" by blast
    have "room R (Suc depth) (v1, o1)" by (rule room_explored [OF closed room1 x(2) exp1])
    moreover have "weight o1 + 1 \<le> length v1"
    proof -
      from exp1 obtain fetched where "v1 = rev fetched @ marker_of r # visited" "weight o1 \<le> weight out + length fetched"
        unfolding explored_def by auto
      with room show ?thesis by (simp add: room_def)
    qed
    ultimately have room2: "room R depth (v1, o2)"
      using add_weight [OF add] by (simp add: room_def)
    have add': "co_add c r x o1 = Inr o2" using add 3(4) by simp
    from 3(3) [OF False check fetch [symmetric] refl inner [symmetric] refl refl add' 3(4,5) closed room2 inR(2)]
    show ?thesis using False check fetch inner add' by (simp add: closure_each.simps)
  qed
qed

lemmas closure_succeeds = closure_succeeds_all(1) [OF refl refl]

end

end
