(* ===== verification/Avro_Codec.thy ===== *)
theory Avro_Codec
  imports Avro_Order Reference_Closure Confluent_Encoder
begin

text \<open>
  The Avro encoder and decoder (\<open>src/avro/mod.rs\<close>): builders, the per-subject cache of the
  encoder, the parsed-schema cache of the decoder with the fetch of the reference closure, and
  the framing around the codec. \<open>resolved_parse\<close> never panics (\<open>resolved_parse_cases\<close>), so its
  result is taken out of the option.
\<close>

section \<open>The reference closure\<close>

definition avro_collector :: "string list collector" where
  "avro_collector =
     \<lparr>co_too_deep = Config (Codec AvroReferencesTooDeep),
      co_check = (\<lambda>out. if MAX_REFERENCES \<le> length out then Some (Config (Codec AvroTooManyReferences)) else None),
      co_add = (\<lambda>_ referenced out. Inr (out @ [sch_text referenced]))\<rparr>"

definition avro_closure ::
    "'s registry \<Rightarrow> schema_reference list \<Rightarrow> nat \<Rightarrow> marker list \<times> string list \<Rightarrow> ('s, marker list \<times> string list) io" where
  "avro_closure rg references depth st = closure avro_collector rg references depth st"

interpretation avro_refs: bounded_collector avro_collector "\<lambda>out _ x. sch_text x \<in> set out" length MAX_REFERENCES
  by unfold_locales (auto simp: avro_collector_def MAX_REFERENCE_DEPTH_def MAX_REFERENCES_def)

section \<open>Encoder\<close>

type_synonym avro_entry = "schema_key \<times> resolved_avro"
type_synonym avro_key_cache = "(string, avro_entry) cache"

record 's avro_encoder =
  ae_registry :: "'s registry"
  ae_schema_str :: string
  ae_avro :: resolved_avro
  ae_fullname :: "string option"
  ae_strategy :: subject_strategy
  ae_references :: "schema_reference list"
  ae_resolution :: schema_resolution
  ae_framing :: framing

definition avro_resolve_subject :: "'s avro_encoder \<Rightarrow> string \<Rightarrow> (avro_key_cache \<times> 's, avro_entry) io" where
  "avro_resolve_subject en subject =
     get_or_fetch subject_resolution_cancelled subject
       (io_bind (resolve_schema_key (ae_registry en) (ae_resolution en) (ae_framing en) subject (ae_schema_str en)
          Avro (ae_references en)) (\<lambda>key.
        io_return (key, ae_avro en)))"

definition avro_cached_schema_key :: "avro_key_cache \<Rightarrow> string \<Rightarrow> schema_key option" where
  "avro_cached_schema_key c subject = map_option fst (cache_get c subject)"

definition avro_cached_schema_id :: "avro_key_cache \<Rightarrow> string \<Rightarrow> schema_id option" where
  "avro_cached_schema_id c subject = Option.bind (avro_cached_schema_key c subject) as_id"

definition avro_cached_subject_count :: "avro_key_cache \<Rightarrow> nat" where
  "avro_cached_subject_count c = cache_len c"

definition avro_invalidate_subject :: "string \<Rightarrow> avro_key_cache \<Rightarrow> avro_key_cache" where
  "avro_invalidate_subject subject c = snd (invalidate subject_resolution_cancelled subject c)"

definition avro_encode ::
    "'v avro_api \<Rightarrow> 's avro_encoder \<Rightarrow> 'v \<Rightarrow> string \<Rightarrow> encode_target \<Rightarrow> (avro_key_cache \<times> 's, bytes) io" where
  "avro_encode api en v topic target =
     io_bind (io_lift (subject_name (ae_strategy en) topic (ae_fullname en) target)) (\<lambda>subject.
     io_bind (avro_resolve_subject en subject) (\<lambda>entry.
     io_bind (io_lift (avro_serialize api (snd entry) v)) (\<lambda>raw.
     io_return (encode_wire_format (fst entry) raw))))"

definition avro_encode_with_header ::
    "'v avro_api \<Rightarrow> 's avro_encoder \<Rightarrow> 'v \<Rightarrow> string \<Rightarrow> encode_target \<Rightarrow> (avro_key_cache \<times> 's, header_framed) io" where
  "avro_encode_with_header api en v topic target =
     io_bind (io_lift (subject_name (ae_strategy en) topic (ae_fullname en) target)) (\<lambda>subject.
     io_bind (avro_resolve_subject en subject) (\<lambda>entry.
     io_bind (io_lift (avro_serialize api (snd entry) v)) (\<lambda>raw.
     io_return (header_framed_new target (fst entry) None raw))))"

text \<open>\<open>apache_avro::to_value\<close> and \<open>from_value\<close> are parameters.\<close>

definition avro_encode_ser ::
    "'v avro_api \<Rightarrow> ('t \<Rightarrow> string + 'v) \<Rightarrow> 's avro_encoder \<Rightarrow> 't \<Rightarrow> string \<Rightarrow> encode_target
     \<Rightarrow> (avro_key_cache \<times> 's, bytes) io" where
  "avro_encode_ser api to_value en t topic target =
     (case to_value t of
        Inl e \<Rightarrow> io_fail (WireFormat (Codec (ToAvroFailed e)))
      | Inr v \<Rightarrow> avro_encode api en v topic target)"

record 's avro_encoder_builder =
  aeb_registry :: "'s registry option"
  aeb_schema :: "string option"
  aeb_dependencies :: "string list"
  aeb_strategy :: subject_strategy
  aeb_references :: "schema_reference list"
  aeb_resolution :: schema_resolution
  aeb_framing :: framing
  aeb_max_entries :: nat

definition avro_encoder_builder_new :: "'s avro_encoder_builder" where
  "avro_encoder_builder_new =
     \<lparr>aeb_registry = None, aeb_schema = None, aeb_dependencies = [], aeb_strategy = TopicName,
      aeb_references = [], aeb_resolution = AutoRegister, aeb_framing = FramingSchemaId,
      aeb_max_entries = DEFAULT_MAX_SUBJECT_CACHE_ENTRIES\<rparr>"

text \<open>The setters.\<close>

definition avro_encoder_set_resolution :: "schema_resolution \<Rightarrow> 's avro_encoder_builder \<Rightarrow> 's avro_encoder_builder" where
  "avro_encoder_set_resolution x b = b\<lparr>aeb_resolution := x\<rparr>"

definition avro_encoder_set_framing :: "framing \<Rightarrow> 's avro_encoder_builder \<Rightarrow> 's avro_encoder_builder" where
  "avro_encoder_set_framing x b = b\<lparr>aeb_framing := x\<rparr>"

definition avro_encoder_set_max_subject_cache_entries :: "nat \<Rightarrow> 's avro_encoder_builder \<Rightarrow> 's avro_encoder_builder" where
  "avro_encoder_set_max_subject_cache_entries x b = b\<lparr>aeb_max_entries := x\<rparr>"

definition avro_encoder_set_registry :: "'s registry \<Rightarrow> 's avro_encoder_builder \<Rightarrow> 's avro_encoder_builder" where
  "avro_encoder_set_registry x b = b\<lparr>aeb_registry := Some x\<rparr>"

definition avro_encoder_set_schema :: "string \<Rightarrow> 's avro_encoder_builder \<Rightarrow> 's avro_encoder_builder" where
  "avro_encoder_set_schema x b = b\<lparr>aeb_schema := Some x\<rparr>"

definition avro_encoder_set_strategy :: "subject_strategy \<Rightarrow> 's avro_encoder_builder \<Rightarrow> 's avro_encoder_builder" where
  "avro_encoder_set_strategy x b = b\<lparr>aeb_strategy := x\<rparr>"

definition avro_encoder_set_references :: "schema_reference list \<Rightarrow> 's avro_encoder_builder \<Rightarrow> 's avro_encoder_builder" where
  "avro_encoder_set_references x b = b\<lparr>aeb_references := x\<rparr>"

definition avro_encoder_set_dependencies :: "string list \<Rightarrow> 's avro_encoder_builder \<Rightarrow> 's avro_encoder_builder" where
  "avro_encoder_set_dependencies x b = b\<lparr>aeb_dependencies := x\<rparr>"

definition avro_encoder_build ::
    "'v avro_api \<Rightarrow> 's avro_encoder_builder \<Rightarrow> ('s avro_encoder \<times> avro_key_cache) res" where
  "avro_encoder_build api b =
     res_bind (ok_or (aeb_registry b) (Config (Client (MustBeSet ''AvroSchemaEncoder: registry'')))) (\<lambda>registry.
     res_bind (ok_or (aeb_schema b) (Config (Client (MustBeSet ''AvroSchemaEncoder: schema'')))) (\<lambda>schema_str.
     res_bind (the (resolved_parse api schema_str (aeb_dependencies b) WriterLocal)) (\<lambda>avro_schema.
       Inr (\<lparr>ae_registry = registry, ae_schema_str = schema_str, ae_avro = avro_schema,
             ae_fullname = resolved_fullname api avro_schema, ae_strategy = aeb_strategy b,
             ae_references = aeb_references b, ae_resolution = aeb_resolution b, ae_framing = aeb_framing b\<rparr>,
            cache_new (Some (max (aeb_max_entries b) 1))))))"

section \<open>Decoder\<close>

definition DEFAULT_MAX_AVRO_SCHEMA_CACHE_ENTRIES :: nat where "DEFAULT_MAX_AVRO_SCHEMA_CACHE_ENTRIES = 1000"

type_synonym avro_schema_cache = "(schema_key, resolved_avro) cache"

record 's avro_decoder =
  ad_registry :: "'s registry"
  ad_reader :: "resolved_avro option"

definition avro_schema_lookup_cancelled :: "schema_key \<Rightarrow> sreg_error" where
  "avro_schema_lookup_cancelled key = InvalidState (Cancel (CodecLookupCancelled ''Avro schema lookup'' (key_words key)))"

definition avro_decoder_new :: "'s registry \<Rightarrow> 's avro_decoder \<times> avro_schema_cache" where
  "avro_decoder_new registry =
     (\<lparr>ad_registry = registry, ad_reader = None\<rparr>, cache_new (Some DEFAULT_MAX_AVRO_SCHEMA_CACHE_ENTRIES))"

definition has_reader_schema :: "'s avro_decoder \<Rightarrow> bool" where
  "has_reader_schema d \<longleftrightarrow> ad_reader d \<noteq> None"

definition avro_decoder_cache_len :: "avro_schema_cache \<Rightarrow> nat" where
  "avro_decoder_cache_len c = cache_len c"

definition avro_decoder_clear_cache :: "avro_schema_cache \<Rightarrow> avro_schema_cache" where
  "avro_decoder_clear_cache c = snd (clear avro_schema_lookup_cancelled c)"

definition fetch_avro_schema :: "'v avro_api \<Rightarrow> 's registry \<Rightarrow> schema_key \<Rightarrow> ('s, resolved_avro) io" where
  "fetch_avro_schema api rg key =
     io_bind (get_schema_by_key rg key) (\<lambda>registry_schema.
     io_bind (avro_closure rg (sch_references registry_schema) 0 ([], [])) (\<lambda>(_, deps).
     io_lift (the (resolved_parse api (sch_text registry_schema) deps WriterRegistry))))"

definition get_avro_schema :: "'v avro_api \<Rightarrow> 's avro_decoder \<Rightarrow> schema_key \<Rightarrow> (avro_schema_cache \<times> 's, resolved_avro) io" where
  "get_avro_schema api d key = get_or_fetch avro_schema_lookup_cancelled key (fetch_avro_schema api (ad_registry d) key)"

definition avro_decode :: "'v avro_api \<Rightarrow> 's avro_decoder \<Rightarrow> bytes \<Rightarrow> (avro_schema_cache \<times> 's, 'v) io" where
  "avro_decode api d data =
     io_bind (io_lift (decode_wire_format_bytes data)) (\<lambda>(key, payload).
     io_bind (get_avro_schema api d key) (\<lambda>writer_schema.
     io_lift (avro_deserialize api writer_schema payload (ad_reader d))))"

definition avro_decode_de ::
    "'v avro_api \<Rightarrow> ('v \<Rightarrow> string + 't) \<Rightarrow> 's avro_decoder \<Rightarrow> bytes \<Rightarrow> (avro_schema_cache \<times> 's, 't) io" where
  "avro_decode_de api from_value d data =
     io_bind (avro_decode api d data) (\<lambda>v.
     io_lift (case from_value v of Inl e \<Rightarrow> Inl (WireFormat (Codec (FromAvroFailed e))) | Inr t \<Rightarrow> Inr t))"

datatype reader_schema_input = ReaderJson string | ReaderParsed avro
datatype reader_dependencies = DepsJson "string list" | DepsParsed "avro list"

fun reader_deps_empty :: "reader_dependencies \<Rightarrow> bool" where
  "reader_deps_empty (DepsJson deps) \<longleftrightarrow> deps = []"
| "reader_deps_empty (DepsParsed deps) \<longleftrightarrow> deps = []"

record 's avro_decoder_builder =
  adb_registry :: "'s registry option"
  adb_reader_schema :: "reader_schema_input option"
  adb_reader_dependencies :: reader_dependencies
  adb_max_entries :: nat

definition avro_decoder_builder_new :: "'s avro_decoder_builder" where
  "avro_decoder_builder_new =
     \<lparr>adb_registry = None, adb_reader_schema = None, adb_reader_dependencies = DepsJson [],
      adb_max_entries = DEFAULT_MAX_AVRO_SCHEMA_CACHE_ENTRIES\<rparr>"

text \<open>The setters.\<close>

definition avro_decoder_set_registry :: "'s registry \<Rightarrow> 's avro_decoder_builder \<Rightarrow> 's avro_decoder_builder" where
  "avro_decoder_set_registry x b = b\<lparr>adb_registry := Some x\<rparr>"

definition avro_decoder_set_reader_schema :: "string \<Rightarrow> 's avro_decoder_builder \<Rightarrow> 's avro_decoder_builder" where
  "avro_decoder_set_reader_schema x b = b\<lparr>adb_reader_schema := Some (ReaderJson x)\<rparr>"

definition avro_decoder_set_reader_dependencies :: "string list \<Rightarrow> 's avro_decoder_builder \<Rightarrow> 's avro_decoder_builder" where
  "avro_decoder_set_reader_dependencies x b = b\<lparr>adb_reader_dependencies := DepsJson x\<rparr>"

definition avro_decoder_set_reader_schema_parsed :: "avro \<Rightarrow> 's avro_decoder_builder \<Rightarrow> 's avro_decoder_builder" where
  "avro_decoder_set_reader_schema_parsed x b = b\<lparr>adb_reader_schema := Some (ReaderParsed x)\<rparr>"

definition avro_decoder_set_reader_dependencies_parsed :: "avro list \<Rightarrow> 's avro_decoder_builder \<Rightarrow> 's avro_decoder_builder" where
  "avro_decoder_set_reader_dependencies_parsed x b = b\<lparr>adb_reader_dependencies := DepsParsed x\<rparr>"

definition avro_decoder_set_max_cache_entries :: "nat \<Rightarrow> 's avro_decoder_builder \<Rightarrow> 's avro_decoder_builder" where
  "avro_decoder_set_max_cache_entries x b = b\<lparr>adb_max_entries := x\<rparr>"

definition mixed_reader_forms :: "string \<Rightarrow> sreg_error" where
  "mixed_reader_forms setter = Config (Codec (MixedReaderForms setter))"

fun reader_schema_of ::
    "'v avro_api \<Rightarrow> reader_schema_input option \<Rightarrow> reader_dependencies \<Rightarrow> resolved_avro option res" where
  "reader_schema_of api (Some (ReaderJson sch)) (DepsJson deps) =
     res_bind (the (resolved_parse api sch deps Reader)) (\<lambda>r. Inr (Some r))"
| "reader_schema_of api (Some (ReaderParsed sch)) (DepsParsed deps) =
     res_bind (the (from_parsed api sch deps Reader)) (\<lambda>r. Inr (Some r))"
| "reader_schema_of api (Some (ReaderJson sch)) (DepsParsed deps) =
     (if deps \<noteq> [] then Inl (mixed_reader_forms ''reader_dependencies_parsed'')
      else res_bind (the (resolved_parse api sch [] Reader)) (\<lambda>r. Inr (Some r)))"
| "reader_schema_of api (Some (ReaderParsed sch)) (DepsJson deps) =
     (if deps \<noteq> [] then Inl (mixed_reader_forms ''reader_dependencies'')
      else res_bind (the (from_parsed api sch [] Reader)) (\<lambda>r. Inr (Some r)))"
| "reader_schema_of api None deps =
     (if \<not> reader_deps_empty deps then Inl (Config (Codec ReaderDepsWithoutSchema)) else Inr None)"

definition avro_decoder_build ::
    "'v avro_api \<Rightarrow> 's avro_decoder_builder \<Rightarrow> ('s avro_decoder \<times> avro_schema_cache) res" where
  "avro_decoder_build api b =
     res_bind (ok_or (adb_registry b) (Config (Client (MustBeSet ''AvroSchemaDecoder: registry'')))) (\<lambda>registry.
     res_bind (reader_schema_of api (adb_reader_schema b) (adb_reader_dependencies b)) (\<lambda>reader.
       Inr (\<lparr>ad_registry = registry, ad_reader = reader\<rparr>, cache_new (Some (max (adb_max_entries b) 1)))))"

section \<open>Lemmas\<close>

text \<open>Every entry of the encoder's cache carries the encoder's schema.\<close>

definition avro_entries :: "'s avro_encoder \<Rightarrow> avro_key_cache \<Rightarrow> bool" where
  "avro_entries en c \<longleftrightarrow> (\<forall>subject entry. cache_get c subject = Some entry \<longrightarrow> snd entry = ae_avro en)"

lemma avro_resolve_entry:
  assumes "cache_idle c" "avro_entries en c" "avro_resolve_subject en subject (c, s) = (Inr entry, (c', s'))"
  shows "snd entry = ae_avro en \<and> cache_get c' subject = Some entry \<and> cache_idle c' \<and> avro_entries en c'"
  using fc.entry [where P = "\<lambda>_ e. snd e = ae_avro en", OF assms(1) assms(2) [unfolded avro_entries_def] _
      assms(3) [unfolded avro_resolve_subject_def]]
  by (auto simp: avro_entries_def io_bind_Inr_iff)

text \<open>The role of a schema only words the errors: what parses for a producer parses for a consumer, alike.\<close>

lemma insert_names_role: "insert_names role i names d = Inr d' \<Longrightarrow> insert_names role' i names d = Inr d'"
  by (induction role i names d rule: insert_names.induct) (auto split: if_splits)

lemma definers_role: "definers role i infos d = Inr d' \<Longrightarrow> definers role' i infos d = Inr d'"
  by (induction role i infos d rule: definers.induct) (auto dest: insert_names_role)

lemma link_names_role:
  "link_names api role parsed d i ds names g = Inr g' \<Longrightarrow> link_names api role' parsed d i ds names g = Inr g'"
  by (induction api role parsed d i ds names g rule: link_names.induct) (auto split: if_splits option.splits)

lemma link_all_role: "link_all api role parsed d i infos g = Inr g' \<Longrightarrow> link_all api role' parsed d i infos g = Inr g'"
  by (induction api role parsed d i infos g rule: link_all.induct) (auto, blast dest: link_names_role)

lemma avro_graph_role:
  assumes "avro_graph api role parsed = Inr g" shows "avro_graph api role' parsed = Inr g"
proof -
  from assms obtain d where d: "definers role 0 (map (names_of api) parsed) [] = Inr d"
    and l: "link_all api role parsed d 0 (map (names_of api) parsed)
      (replicate (length parsed) [], replicate (length parsed) []) = Inr g"
    by (auto simp: avro_graph_def Let_def)
  from definers_role [OF d, of role'] link_all_role [OF l, of role'] show ?thesis
    by (simp add: avro_graph_def Let_def)
qed

lemma order_schemata_role:
  assumes "order_schemata api role parsed = Some (Inr out)" shows "order_schemata api role' parsed = Some (Inr out)"
proof (cases "avro_graph api role parsed")
  case (Inr g)
  from avro_graph_role [OF Inr, of role'] Inr assms show ?thesis
    by (cases g) (auto simp: order_schemata_def Let_def split: option.splits if_splits)
qed (use assms in \<open>simp add: order_schemata_def\<close>)

lemma dedupe_loop_role: "dedupe_loop api role deps seen kept = Inr out \<Longrightarrow> dedupe_loop api role' deps seen kept = Inr out"
  by (induction api role deps seen kept rule: dedupe_loop.induct) (auto split: sum.splits option.splits if_splits)

lemma resolved_parse_role:
  assumes "resolved_parse api sch deps role = Some (Inr r)"
  shows "resolved_parse api sch deps role' = Some (Inr r)"
proof -
  have dedupe: "dedupe_dependencies api sch deps role' = Inr out" if "dedupe_dependencies api sch deps role = Inr out" for out
    using that dedupe_loop_role [where role' = role'] by (auto simp: dedupe_dependencies_def split: sum.splits)
  have alone: "parse_alone api sch role' = Inr r" if "parse_alone api sch role = Inr r"
    using that by (auto simp: parse_alone_def split: sum.splits)
  have parsed: "parse_set api sch inputs role' = Some (Inr r)" if "parse_set api sch inputs role = Some (Inr r)" for inputs
    using that by (auto simp: parse_set_def with_schemata_def order_schemata_role [where role' = role']
        split: sum.splits if_splits)
  from assms show ?thesis
    by (auto simp: resolved_parse_def alone parsed dest: dedupe split: sum.splits if_splits)
qed

lemma avro_decode_frame:
  "avro_decode api d (encode_wire_format key raw) st =
     (case get_avro_schema api d key st of
        (Inl e, st') \<Rightarrow> (Inl e, st')
      | (Inr w, st') \<Rightarrow> (avro_deserialize api w raw (ad_reader d), st'))"
  by (simp add: avro_decode_def decode_framed_bytes io_bind_def split: prod.splits sum.splits)

section \<open>Properties\<close>

text \<open>
  Producer and consumer of Avro. An encode that succeeds puts the identifier resolved for the
  subject, which the cache then holds, in front of the value serialised with the encoder's own
  schema; decoding such a frame with any decoder is deserialising exactly those bytes with the
  writer schema that the decoder has for this identifier, against its reader schema if it has
  one. The header variant carries the same identifier and the bare payload.
\<close>

theorem avro_producer_consumer:
  assumes "cache_idle c" "avro_entries en c" "avro_encode api en v topic target (c, s) = (Inr framed, (c', s'))"
  shows "\<exists>subject key raw.
    subject_name (ae_strategy en) topic (ae_fullname en) target = Inr subject \<and>
    avro_cached_schema_key c' subject = Some key \<and> avro_serialize api (ae_avro en) v = Inr raw \<and>
    framed = encode_wire_format key raw \<and>
    (\<forall>d st. avro_decode api d framed st =
       (case get_avro_schema api d key st of
          (Inl e, st') \<Rightarrow> (Inl e, st')
        | (Inr w, st') \<Rightarrow> (avro_deserialize api w raw (ad_reader d), st'))) \<and>
    (\<forall>t. avro_encode api en v topic target (c', t) = (Inr framed, (c', t)) \<and>
       avro_encode_with_header api en v topic target (c', t) = (Inr (header_framed_new target key None raw), (c', t)))"
proof -
  from assms(3) obtain subject entry raw where r:
    "subject_name (ae_strategy en) topic (ae_fullname en) target = Inr subject"
    "avro_resolve_subject en subject (c, s) = (Inr entry, (c', s'))"
    "avro_serialize api (snd entry) v = Inr raw" "framed = encode_wire_format (fst entry) raw"
    by (auto simp: avro_encode_def io_bind_Inr_iff)
  note e = avro_resolve_entry [OF assms(1,2) r(2)]
  have again: "avro_resolve_subject en subject (c', t) = (Inr entry, (c', t))" for t
    unfolding avro_resolve_subject_def
    by (rule fc.second_call [OF assms(1) r(2) [unfolded avro_resolve_subject_def]])
  have "avro_cached_schema_key c' subject = Some (fst entry)"
    using e by (simp add: avro_cached_schema_key_def)
  moreover have "avro_serialize api (ae_avro en) v = Inr raw" using e r(3) by simp
  moreover have "avro_encode api en v topic target (c', t) = (Inr framed, (c', t)) \<and>
      avro_encode_with_header api en v topic target (c', t) =
        (Inr (header_framed_new target (fst entry) None raw), (c', t))" for t
    using r again [of t] by (simp add: avro_encode_def avro_encode_with_header_def io_bind_def)
  ultimately show ?thesis using r(1,4) avro_decode_frame by blast
qed

definition demo_avro_encoder :: "nat avro_encoder" where
  "demo_avro_encoder =
     \<lparr>ae_registry = one_registry, ae_schema_str = ''address'',
      ae_avro = \<lparr>ra_root = ARecord \<lparr>an_name = ''Address'', an_namespace = Some ''x''\<rparr> [AOther ''string''] [], ra_schemata = []\<rparr>,
      ae_fullname = Some ''x.Address'', ae_strategy = RecordName, ae_references = [], ae_resolution = AutoRegister,
      ae_framing = FramingSchemaId\<rparr>"

theorem avro_producer_consumer_witness:
  "\<exists>key c. avro_cached_schema_key c ''x.Address'' = Some key \<and>
     (\<forall>t. avro_encode demo_avro demo_avro_encoder 5 ''orders'' Value (c, t) = (Inr (encode_wire_format key [5]), (c, t)))"
proof -
  have entries: "avro_entries demo_avro_encoder (cache_new (Some 1))"
    by (simp add: avro_entries_def cache_new_def cache_get_def)
  let ?fetch = "io_bind (resolve_schema_key one_registry AutoRegister FramingSchemaId ''x.Address'' ''address'' Avro [])
      (\<lambda>key. io_return (key, ae_avro demo_avro_encoder))"
  have "?fetch 0 = (Inr (Id (SchemaId 1), ae_avro demo_avro_encoder), 0)"
    by (simp add: resolve_schema_key_def resolve_identity_def learn_guid_def io_bind_def one_registry_def
        trait_defaults_def one_schema_def with_guid_def schema_new_def)
  from get_or_fetch_ok [where mk = subject_resolution_cancelled and c = "cache_new (Some 1)" and fetch = ?fetch and key = "''x.Address''", OF idle_new _ this]
  obtain c where "avro_resolve_subject demo_avro_encoder ''x.Address'' (cache_new (Some 1), 0) =
      (Inr (Id (SchemaId 1), ae_avro demo_avro_encoder), (c, 0))"
    by (simp add: avro_resolve_subject_def demo_avro_encoder_def cache_new_def cache_get_def)
  then have "avro_encode demo_avro demo_avro_encoder 5 ''orders'' Value (cache_new (Some 1), 0) =
      (Inr (encode_wire_format (Id (SchemaId 1)) [5]), (c, 0))"
    by (simp add: avro_encode_def io_bind_def avro_serialize_def demo_avro_def demo_avro_encoder_def)
  from avro_producer_consumer [OF idle_new entries this] obtain subject key raw where
    r: "subject_name (ae_strategy demo_avro_encoder) ''orders'' (ae_fullname demo_avro_encoder) Value = Inr subject"
    "avro_cached_schema_key c subject = Some key" "avro_serialize demo_avro (ae_avro demo_avro_encoder) 5 = Inr raw"
    "\<forall>t. avro_encode demo_avro demo_avro_encoder 5 ''orders'' Value (c, t) = (Inr (encode_wire_format key raw), (c, t))"
    by auto
  have "subject = ''x.Address''" using r(1) by (simp add: demo_avro_encoder_def)
  moreover have "raw = [5]" using r(3) by (simp add: avro_serialize_def demo_avro_def demo_avro_encoder_def)
  ultimately show ?thesis using r(2,4) by blast
qed

text \<open>
  C20. The reference closure of a writer schema. Whatever the closure of a registry's catalog
  returns holds the text of every schema that the references lead to; each of them was requested
  exactly once, and nothing else was requested.
\<close>

theorem avro_closure_complete:
  assumes "avro_closure (catalog F) references 0 ([], []) [] = (Inr (visited, deps), log)"
  shows "distinct log \<and> set log = {m. reached F (markers references) m} \<and>
    (\<forall>m. reached F (markers references) m \<longrightarrow> (\<exists>x. F m = Some x \<and> sch_text x \<in> set deps))"
  using avro_refs.closure_reaches [OF assms [unfolded avro_closure_def]] by blast

text \<open>Two schemas that refer to each other.\<close>

definition ref_to :: "string \<Rightarrow> schema_reference" where
  "ref_to subject = \<lparr>ref_name = subject, ref_subject = subject, ref_version = SchemaVersion 1\<rparr>"

definition refers_to :: "string \<Rightarrow> string list \<Rightarrow> schema" where
  "refers_to sch subjects = with_references (map ref_to subjects) (schema_new (Id (SchemaId 1)) Avro sch)"

definition mutual_catalog :: "marker \<Rightarrow> schema option" where
  "mutual_catalog m =
     (if m = (''a'', 1) then Some (refers_to ''A'' [''b''])
      else if m = (''b'', 1) then Some (refers_to ''B'' [''a'', ''b'']) else None)"

theorem avro_closure_complete_witness:
  "avro_closure (catalog mutual_catalog) [ref_to ''a''] 0 ([], []) [] = (Inr ([(''b'', 1), (''a'', 1)], [''B'', ''A'']), [(''a'', 1), (''b'', 1)]) \<and>
   {m. reached mutual_catalog (markers [ref_to ''a'']) m} = {(''a'', 1), (''b'', 1)}"
proof -
  have run: "avro_closure (catalog mutual_catalog) [ref_to ''a''] 0 ([], []) [] =
      (Inr ([(''b'', 1), (''a'', 1)], [''B'', ''A'']), [(''a'', 1), (''b'', 1)])"
    by code_simp
  from avro_closure_complete [OF run] run show ?thesis by simp
qed

text \<open>
  C26. Cycles do not stop the closure. When the references lead to a finite set of schemas that
  the registry has, fewer than the recursion may nest, fetching the closure succeeds, whether or
  not the schemas refer to each other in a circle.
\<close>

theorem avro_closure_total:
  assumes "finite R" "card R < MAX_REFERENCE_DEPTH" "markers references \<subseteq> R"
    and "\<forall>m \<in> R. \<exists>x. F m = Some x \<and> markers (sch_references x) \<subseteq> R"
  shows "\<exists>visited deps log. avro_closure (catalog F) references 0 ([], []) [] = (Inr (visited, deps), log) \<and>
    set log \<subseteq> R"
proof -
  have closed: "avro_refs.closed_catalog F R" using assms by (simp add: avro_refs.closed_catalog_def)
  have room: "avro_refs.room R 0 ([], [])" by (simp add: avro_refs.room_def)
  from avro_refs.closure_succeeds [OF closed room assms(3), of "[]"] obtain visited deps log where
    run: "closure avro_collector (catalog F) references 0 ([], []) [] = (Inr (visited, deps), log)" by force
  have "set log \<subseteq> R"
  proof
    fix m assume "m \<in> set log"
    then have "reached F (markers references) m" using avro_refs.closure_reaches [OF run] by blast
    from reached_closed [OF this assms(3)] assms(4) show "m \<in> R" by fastforce
  qed
  with run show ?thesis by (simp add: avro_closure_def)
qed

theorem avro_closure_total_witness:
  "\<exists>visited deps log. avro_closure (catalog mutual_catalog) [ref_to ''a''] 0 ([], []) [] = (Inr (visited, deps), log) \<and>
    set log \<subseteq> {(''a'', 1), (''b'', 1)}"
  by (rule avro_closure_total) (auto simp: MAX_REFERENCE_DEPTH_def mutual_catalog_def refers_to_def ref_to_def
      with_references_def schema_new_def marker_of_def)

text \<open>
  The message of the depth limit suspects a cycle, but cycles end at the visited set: it is a
  chain of distinct schemas that reaches it.
\<close>

definition chain_catalog :: "int \<Rightarrow> marker \<Rightarrow> schema option" where
  "chain_catalog len m =
     (if 0 < snd m \<and> snd m < len
      then Some (with_references [\<lparr>ref_name = ''next'', ref_subject = ''s'', ref_version = SchemaVersion (snd m + 1)\<rparr>]
        (schema_new (Id (SchemaId 1)) Avro ''t''))
      else if snd m = len then Some (schema_new (Id (SchemaId 1)) Avro ''t'') else None)"

theorem avro_deep_chain:
  "fst (avro_closure (catalog (chain_catalog 33))
     [\<lparr>ref_name = ''next'', ref_subject = ''s'', ref_version = SchemaVersion 1\<rparr>] 0 ([], []) []) =
   Inl (Config (Codec AvroReferencesTooDeep))"
  by code_simp

text \<open>
  A decoder asks the registry once per identifier. After a message was decoded, decoding any
  message with the same identifier makes no call and uses the same parsed writer schema.
\<close>

theorem avro_decoder_caches:
  assumes "cache_idle c" "decode_wire_format_bytes data = Inr (key, payload)"
    and "avro_decode api d data (c, s) = (Inr v, (c', s'))"
  shows "\<exists>w. cache_get c' key = Some w \<and> avro_deserialize api w payload (ad_reader d) = Inr v \<and>
    (\<forall>raw t. avro_decode api d (encode_wire_format key raw) (c', t) =
       (avro_deserialize api w raw (ad_reader d), (c', t)))"
proof -
  from assms(2,3) obtain w where w: "get_avro_schema api d key (c, s) = (Inr w, (c', s'))"
      "avro_deserialize api w payload (ad_reader d) = Inr v"
    by (auto simp: avro_decode_def io_bind_Inr_iff)
  have get: "cache_get c' key = Some w"
    using fc.entry [where P = "\<lambda>_ _. True", OF assms(1) _ _ w(1) [unfolded get_avro_schema_def]] by simp
  have "get_avro_schema api d key (c', t) = (Inr w, (c', t))" for t
    unfolding get_avro_schema_def by (rule get_or_fetch_hit [OF get])
  with get w(2) show ?thesis by (auto simp: avro_decode_frame)
qed

definition avro_text_registry :: "nat registry" where
  "avro_text_registry =
     trait_defaults (\<lambda>_ n. (Inr (schema_new (Id (SchemaId 1)) Avro ''address''), n + 1)) (\<lambda>_. not_supported []) (\<lambda>_ _. not_supported [])
       (\<lambda>_ _ _ _. not_supported [])"

theorem avro_decoder_caches_witness:
  "\<exists>c. \<forall>t. avro_decode demo_avro \<lparr>ad_registry = avro_text_registry, ad_reader = None\<rparr>
     (encode_wire_format (Id (SchemaId 1)) [8]) (c, t) = (Inr 8, (c, t))"
proof -
  let ?d = "\<lparr>ad_registry = avro_text_registry, ad_reader = None\<rparr>"
  let ?w = "\<lparr>ra_root = ARecord \<lparr>an_name = ''Address'', an_namespace = Some ''x''\<rparr> [AOther ''string''] [], ra_schemata = []\<rparr>"
  have parse: "resolved_parse demo_avro ''address'' [] WriterRegistry = Some (Inr ?w)" by code_simp
  have "fetch_avro_schema demo_avro avro_text_registry (Id (SchemaId 1)) 0 = (Inr ?w, 1)"
    by (simp add: fetch_avro_schema_def io_bind_def get_schema_by_key_def avro_text_registry_def trait_defaults_def
        avro_closure_def closure.simps schema_new_def parse)
  from get_or_fetch_ok [where mk = avro_schema_lookup_cancelled and c = "cache_new (Some 1)" and key = "Id (SchemaId 1)"
      and fetch = "fetch_avro_schema demo_avro avro_text_registry (Id (SchemaId 1))", OF idle_new _ this]
  obtain c where "get_avro_schema demo_avro ?d (Id (SchemaId 1)) (cache_new (Some 1), 0) = (Inr ?w, (c, 1))"
    by (simp add: get_avro_schema_def cache_new_def cache_get_def)
  then have run: "avro_decode demo_avro ?d (encode_wire_format (Id (SchemaId 1)) [5]) (cache_new (Some 1), 0) = (Inr 5, (c, 1))"
    by (simp add: avro_decode_frame avro_deserialize_def demo_avro_def)
  from avro_decoder_caches [OF idle_new decode_framed_bytes run] obtain w where
    w: "avro_deserialize demo_avro w [5] None = Inr 5"
      "\<forall>raw t. avro_decode demo_avro ?d (encode_wire_format (Id (SchemaId 1)) raw) (c, t) =
         (avro_deserialize demo_avro w raw None, (c, t))" by auto
  have "avro_deserialize demo_avro w [8] None = Inr 8"
    by (simp add: avro_deserialize_def demo_avro_def)
  with w(2) show ?thesis by metis
qed

end
