(* ===== verification/Json_Codec.thy ===== *)
theory Json_Codec
  imports Serde_Json Reference_Closure Confluent_Encoder
begin

text \<open>
  The JSON Schema encoder and decoder (\<open>src/json/mod.rs\<close>): the set of referenced documents,
  compilation, the caches of keys and validators, validation and framing. \<open>serde_json\<close> and
  \<open>jsonschema\<close> are the fields of \<open>json_api\<close>; \<^typ>\<open>'w\<close> is a compiled validator.
\<close>

record 'w json_api =
  js_parse :: "string \<Rightarrow> string + json"
  js_from_slice :: "u8 list \<Rightarrow> string + json"
  js_to_vec :: "json \<Rightarrow> string + u8 list"
  js_validator_for :: "json \<Rightarrow> string + 'w"
  js_build :: "(string \<Rightarrow> string + json) \<Rightarrow> json \<Rightarrow> string + 'w"
  js_errors :: "'w \<Rightarrow> json \<Rightarrow> string list"

definition JSON_MAX_REFERENCES :: nat where "JSON_MAX_REFERENCES = 256"
definition DEFAULT_MAX_JSON_VALIDATOR_CACHE_ENTRIES :: nat where "DEFAULT_MAX_JSON_VALIDATOR_CACHE_ENTRIES = 1000"

section \<open>Referenced documents\<close>

type_synonym reference_set = "(string, json) hashmap"

definition ref_set_is_empty :: "reference_set \<Rightarrow> bool" where
  "ref_set_is_empty refs \<longleftrightarrow> hm_len refs = 0"

definition last_segment :: "string \<Rightarrow> string option" where
  "last_segment s = map_option snd (rsplit_once CHR ''/'' s)"

definition index_tail :: "string \<Rightarrow> json \<Rightarrow> reference_set \<Rightarrow> reference_set" where
  "index_tail name doc refs =
     (case last_segment name of
        None \<Rightarrow> refs
      | Some tail \<Rightarrow> if tail \<noteq> name \<and> hm_get refs tail = None then hm_put tail doc refs else refs)"

definition ref_set_insert :: "string \<Rightarrow> json \<Rightarrow> reference_set \<Rightarrow> reference_set res" where
  "ref_set_insert name doc refs =
     (if JSON_MAX_REFERENCES * 2 \<le> hm_len refs then Inl (Config (Codec JsonTooManyReferences))
      else let refs = index_tail name doc refs
           in case hm_get refs name of
                Some existing \<Rightarrow>
                  if existing \<noteq> doc then Inl (Config (Codec (ConflictingDocuments name))) else Inr refs
              | None \<Rightarrow> Inr (hm_put name doc refs))"

definition ref_set_lookup :: "reference_set \<Rightarrow> string \<Rightarrow> json option" where
  "ref_set_lookup refs uri =
     (case hm_get refs uri of
        Some doc \<Rightarrow> Some doc
      | None \<Rightarrow> Option.bind (last_segment uri) (hm_get refs))"

text \<open>The error names the URI that was not supplied.\<close>

definition ref_set_retrieve :: "reference_set \<Rightarrow> string \<Rightarrow> string + json" where
  "ref_set_retrieve refs uri = (case ref_set_lookup refs uri of Some doc \<Rightarrow> Inr doc | None \<Rightarrow> Inl uri)"

definition compile_schema_with_refs :: "'w json_api \<Rightarrow> string \<Rightarrow> reference_set \<Rightarrow> 'w res" where
  "compile_schema_with_refs api schema_str refs =
     (case js_parse api schema_str of
        Inl e \<Rightarrow> Inl (Config (Codec (JsonSchemaParse e)))
      | Inr doc \<Rightarrow>
          if ref_set_is_empty refs
          then (case js_validator_for api doc of
                  Inl e \<Rightarrow> Inl (Config (Codec (JsonSchemaCompile e)))
                | Inr w \<Rightarrow> Inr w)
          else (case js_build api (ref_set_retrieve refs) doc of
                  Inl e \<Rightarrow> Inl (Config (Codec (JsonSchemaCompileRefs e)))
                | Inr w \<Rightarrow> Inr w))"

fun insert_pairs :: "'w json_api \<Rightarrow> (string \<times> string) list \<Rightarrow> reference_set \<Rightarrow> reference_set res" where
  "insert_pairs api [] refs = Inr refs"
| "insert_pairs api ((name, sch) # deps) refs =
     (case js_parse api sch of
        Inl e \<Rightarrow> Inl (Config (Codec (DependencyNotJson name e)))
      | Inr doc \<Rightarrow> res_bind (ref_set_insert name doc refs) (insert_pairs api deps))"

definition reference_set_from_pairs :: "'w json_api \<Rightarrow> (string \<times> string) list \<Rightarrow> reference_set res" where
  "reference_set_from_pairs api deps = insert_pairs api deps []"

definition json_collector :: "'w json_api \<Rightarrow> reference_set collector" where
  "json_collector api =
     \<lparr>co_too_deep = Config (Codec JsonReferencesTooDeep),
      co_check = (\<lambda>_. None),
      co_add = (\<lambda>r referenced out.
        case js_parse api (sch_text referenced) of
          Inl e \<Rightarrow> Inl (Config (Codec (ReferencedNotJson (ref_name r) (ref_subject r) e)))
        | Inr doc \<Rightarrow> ref_set_insert (ref_name r) doc out)\<rparr>"

definition json_closure ::
    "'w json_api \<Rightarrow> 's registry \<Rightarrow> schema_reference list \<Rightarrow> nat \<Rightarrow> marker list \<times> reference_set
     \<Rightarrow> ('s, marker list \<times> reference_set) io" where
  "json_closure api rg references depth st = closure (json_collector api) rg references depth st"

definition json_validate :: "'w json_api \<Rightarrow> 'w \<Rightarrow> json \<Rightarrow> unit res" where
  "json_validate api w v =
     (if js_errors api w v = [] then Inr () else Inl (WireFormat (Codec (ValidationFailed (js_errors api w v)))))"

section \<open>Encoder\<close>

record ('s, 'w) json_encoder =
  je_registry :: "'s registry"
  je_schema_str :: string
  je_validator :: 'w
  je_record_name :: "string option"
  je_strategy :: subject_strategy
  je_references :: "schema_reference list"
  je_validate_on_encode :: bool
  je_resolution :: schema_resolution
  je_framing :: framing

type_synonym 'w json_key_cache = "(string, schema_key \<times> 'w) cache"

definition json_cached_schema_key :: "'w json_key_cache \<Rightarrow> string \<Rightarrow> schema_key option" where
  "json_cached_schema_key c subject = map_option fst (cache_get c subject)"

definition json_cached_schema_id :: "'w json_key_cache \<Rightarrow> string \<Rightarrow> schema_id option" where
  "json_cached_schema_id c subject = Option.bind (json_cached_schema_key c subject) as_id"

definition json_cached_subject_count :: "'w json_key_cache \<Rightarrow> nat" where
  "json_cached_subject_count c = cache_len c"

definition json_invalidate_subject :: "string \<Rightarrow> 'w json_key_cache \<Rightarrow> 'w json_key_cache" where
  "json_invalidate_subject subject c = snd (invalidate subject_resolution_cancelled subject c)"

definition json_resolve_subject :: "('s, 'w) json_encoder \<Rightarrow> string \<Rightarrow> ('w json_key_cache \<times> 's, schema_key \<times> 'w) io" where
  "json_resolve_subject en subject =
     get_or_fetch subject_resolution_cancelled subject
       (io_bind (resolve_schema_key (je_registry en) (je_resolution en) (je_framing en) subject (je_schema_str en)
          Json (je_references en)) (\<lambda>key.
        io_return (key, je_validator en)))"

definition json_serialise ::
    "'w json_api \<Rightarrow> ('s, 'w) json_encoder \<Rightarrow> json \<Rightarrow> string \<Rightarrow> encode_target
     \<Rightarrow> ('w json_key_cache \<times> 's, schema_key \<times> bytes) io" where
  "json_serialise api en v topic target =
     io_bind (io_lift (subject_name (je_strategy en) topic (je_record_name en) target)) (\<lambda>subject.
     io_bind (json_resolve_subject en subject) (\<lambda>entry.
     io_bind (io_lift (if je_validate_on_encode en then json_validate api (snd entry) v else Inr ())) (\<lambda>_.
     io_lift (case js_to_vec api v of
                Inl e \<Rightarrow> Inl (WireFormat (Codec (JsonSerializationFailed e)))
              | Inr raw \<Rightarrow> Inr (fst entry, raw)))))"

definition json_encode ::
    "'w json_api \<Rightarrow> ('s, 'w) json_encoder \<Rightarrow> json \<Rightarrow> string \<Rightarrow> encode_target \<Rightarrow> ('w json_key_cache \<times> 's, bytes) io" where
  "json_encode api en v topic target =
     io_bind (json_serialise api en v topic target) (\<lambda>(key, raw). io_return (encode_wire_format key raw))"

definition json_encode_with_header ::
    "'w json_api \<Rightarrow> ('s, 'w) json_encoder \<Rightarrow> json \<Rightarrow> string \<Rightarrow> encode_target
     \<Rightarrow> ('w json_key_cache \<times> 's, header_framed) io" where
  "json_encode_with_header api en v topic target =
     io_bind (json_serialise api en v topic target) (\<lambda>(key, raw). io_return (header_framed_new target key None raw))"

text \<open>\<open>serde_json::to_value\<close> and \<open>from_value\<close> of the caller's type are parameters.\<close>

definition json_encode_ser ::
    "'w json_api \<Rightarrow> ('t \<Rightarrow> string + json) \<Rightarrow> ('s, 'w) json_encoder \<Rightarrow> 't \<Rightarrow> string \<Rightarrow> encode_target
     \<Rightarrow> ('w json_key_cache \<times> 's, bytes) io" where
  "json_encode_ser api to_value en t topic target =
     (case to_value t of
        Inl e \<Rightarrow> io_fail (WireFormat (Codec (ToJsonFailed e)))
      | Inr v \<Rightarrow> json_encode api en v topic target)"

record 's json_encoder_builder =
  jeb_registry :: "'s registry option"
  jeb_schema :: "string option"
  jeb_dependencies :: "(string \<times> string) list"
  jeb_record_name :: "string option"
  jeb_strategy :: subject_strategy
  jeb_references :: "schema_reference list"
  jeb_validate_on_encode :: bool
  jeb_resolution :: schema_resolution
  jeb_framing :: framing
  jeb_max_entries :: nat

definition json_encoder_builder_new :: "'s json_encoder_builder" where
  "json_encoder_builder_new =
     \<lparr>jeb_registry = None, jeb_schema = None, jeb_dependencies = [], jeb_record_name = None,
      jeb_strategy = TopicName, jeb_references = [], jeb_validate_on_encode = True,
      jeb_resolution = AutoRegister, jeb_framing = FramingSchemaId,
      jeb_max_entries = DEFAULT_MAX_SUBJECT_CACHE_ENTRIES\<rparr>"

text \<open>The setters.\<close>

definition json_encoder_set_resolution :: "schema_resolution \<Rightarrow> 's json_encoder_builder \<Rightarrow> 's json_encoder_builder" where
  "json_encoder_set_resolution x b = b\<lparr>jeb_resolution := x\<rparr>"

definition json_encoder_set_framing :: "framing \<Rightarrow> 's json_encoder_builder \<Rightarrow> 's json_encoder_builder" where
  "json_encoder_set_framing x b = b\<lparr>jeb_framing := x\<rparr>"

definition json_encoder_set_max_subject_cache_entries :: "nat \<Rightarrow> 's json_encoder_builder \<Rightarrow> 's json_encoder_builder" where
  "json_encoder_set_max_subject_cache_entries x b = b\<lparr>jeb_max_entries := x\<rparr>"

definition json_encoder_set_registry :: "'s registry \<Rightarrow> 's json_encoder_builder \<Rightarrow> 's json_encoder_builder" where
  "json_encoder_set_registry x b = b\<lparr>jeb_registry := Some x\<rparr>"

definition json_encoder_set_schema :: "string \<Rightarrow> 's json_encoder_builder \<Rightarrow> 's json_encoder_builder" where
  "json_encoder_set_schema x b = b\<lparr>jeb_schema := Some x\<rparr>"

definition json_encoder_set_record_name :: "string \<Rightarrow> 's json_encoder_builder \<Rightarrow> 's json_encoder_builder" where
  "json_encoder_set_record_name x b = b\<lparr>jeb_record_name := Some x\<rparr>"

definition json_encoder_set_strategy :: "subject_strategy \<Rightarrow> 's json_encoder_builder \<Rightarrow> 's json_encoder_builder" where
  "json_encoder_set_strategy x b = b\<lparr>jeb_strategy := x\<rparr>"

definition json_encoder_set_references :: "schema_reference list \<Rightarrow> 's json_encoder_builder \<Rightarrow> 's json_encoder_builder" where
  "json_encoder_set_references x b = b\<lparr>jeb_references := x\<rparr>"

definition json_encoder_set_dependencies :: "(string \<times> string) list \<Rightarrow> 's json_encoder_builder \<Rightarrow> 's json_encoder_builder" where
  "json_encoder_set_dependencies x b = b\<lparr>jeb_dependencies := x\<rparr>"

definition json_encoder_set_validate_on_encode :: "bool \<Rightarrow> 's json_encoder_builder \<Rightarrow> 's json_encoder_builder" where
  "json_encoder_set_validate_on_encode x b = b\<lparr>jeb_validate_on_encode := x\<rparr>"

definition json_encoder_build ::
    "'w json_api \<Rightarrow> 's json_encoder_builder \<Rightarrow> (('s, 'w) json_encoder \<times> 'w json_key_cache) res" where
  "json_encoder_build api b =
     res_bind (ok_or (jeb_registry b) (Config (Client (MustBeSet ''JsonSchemaEncoder: registry'')))) (\<lambda>registry.
     res_bind (ok_or (jeb_schema b) (Config (Client (MustBeSet ''JsonSchemaEncoder: schema'')))) (\<lambda>schema_str.
     res_bind (reference_set_from_pairs api (jeb_dependencies b)) (\<lambda>refs.
     res_bind (compile_schema_with_refs api schema_str refs) (\<lambda>validator.
       Inr (\<lparr>je_registry = registry, je_schema_str = schema_str, je_validator = validator,
             je_record_name = jeb_record_name b, je_strategy = jeb_strategy b, je_references = jeb_references b,
             je_validate_on_encode = jeb_validate_on_encode b, je_resolution = jeb_resolution b,
             je_framing = jeb_framing b\<rparr>,
            cache_new (Some (max (jeb_max_entries b) 1)))))))"

section \<open>Decoder\<close>

type_synonym 'w validator_cache = "(schema_key, 'w) cache"

record 's json_decoder =
  jd_registry :: "'s registry"
  jd_validate_on_decode :: bool

definition json_validator_lookup_cancelled :: "schema_key \<Rightarrow> sreg_error" where
  "json_validator_lookup_cancelled key =
     InvalidState (Cancel (CodecLookupCancelled ''JSON Schema validator lookup'' (key_words key)))"

definition json_decoder_build :: "'s registry \<Rightarrow> bool \<Rightarrow> nat \<Rightarrow> 's json_decoder \<times> 'w validator_cache" where
  "json_decoder_build registry validate max_entries =
     (\<lparr>jd_registry = registry, jd_validate_on_decode = validate\<rparr>, cache_new (Some (max max_entries 1)))"

definition json_decoder_new :: "'s registry \<Rightarrow> 's json_decoder \<times> 'w validator_cache" where
  "json_decoder_new registry = json_decoder_build registry False DEFAULT_MAX_JSON_VALIDATOR_CACHE_ENTRIES"

definition with_validation :: "'s registry \<Rightarrow> 's json_decoder \<times> 'w validator_cache" where
  "with_validation registry = json_decoder_build registry True DEFAULT_MAX_JSON_VALIDATOR_CACHE_ENTRIES"

definition with_max_cache_entries :: "nat \<Rightarrow> 's json_decoder \<times> 'w validator_cache \<Rightarrow> 's json_decoder \<times> 'w validator_cache" where
  "with_max_cache_entries max_entries d =
     json_decoder_build (jd_registry (fst d)) (jd_validate_on_decode (fst d)) max_entries"

definition json_decoder_cache_len :: "'w validator_cache \<Rightarrow> nat" where
  "json_decoder_cache_len c = cache_len c"

definition json_decoder_clear_cache :: "'w validator_cache \<Rightarrow> 'w validator_cache" where
  "json_decoder_clear_cache c = snd (clear json_validator_lookup_cancelled c)"

definition fetch_validator :: "'w json_api \<Rightarrow> 's registry \<Rightarrow> schema_key \<Rightarrow> ('s, 'w) io" where
  "fetch_validator api rg key =
     io_bind (get_schema_by_key rg key) (\<lambda>registry_schema.
     io_bind (json_closure api rg (sch_references registry_schema) 0 ([], [])) (\<lambda>(_, refs).
     io_lift (compile_schema_with_refs api (sch_text registry_schema) refs)))"

definition get_validator :: "'w json_api \<Rightarrow> 's json_decoder \<Rightarrow> schema_key \<Rightarrow> ('w validator_cache \<times> 's, 'w) io" where
  "get_validator api d key = get_or_fetch json_validator_lookup_cancelled key (fetch_validator api (jd_registry d) key)"

definition json_decode :: "'w json_api \<Rightarrow> 's json_decoder \<Rightarrow> bytes \<Rightarrow> ('w validator_cache \<times> 's, json) io" where
  "json_decode api d data =
     io_bind (io_lift (decode_wire_format_bytes data)) (\<lambda>(key, payload).
     io_bind (io_lift (case js_from_slice api payload of
                         Inl e \<Rightarrow> Inl (WireFormat (Codec (JsonDeserializationFailed e)))
                       | Inr v \<Rightarrow> Inr v)) (\<lambda>v.
     if jd_validate_on_decode d
     then io_bind (get_validator api d key) (\<lambda>validator.
          io_bind (io_lift (json_validate api validator v)) (\<lambda>_. io_return v))
     else io_return v))"

definition json_decode_de ::
    "'w json_api \<Rightarrow> (json \<Rightarrow> string + 't) \<Rightarrow> 's json_decoder \<Rightarrow> bytes \<Rightarrow> ('w validator_cache \<times> 's, 't) io" where
  "json_decode_de api from_value d data =
     io_bind (json_decode api d data) (\<lambda>v.
     io_lift (case from_value v of Inl e \<Rightarrow> Inl (WireFormat (Codec (FromJsonFailed e))) | Inr t \<Rightarrow> Inr t))"

section \<open>Lemmas\<close>

lemma last_segment_tail: "last_segment s = Some tail \<Longrightarrow> CHR ''/'' \<notin> set tail \<and> CHR ''/'' \<in> set s"
  by (auto simp: last_segment_def dest!: rsplit_once_SomeD)

lemma ref_set_insert_get:
  assumes "ref_set_insert name doc refs = Inr refs'"
  shows "hm_get refs' name = Some doc"
    and "hm_get refs uri = Some v \<Longrightarrow> hm_get refs' uri = Some v"
    and "hm_get refs uri = None \<Longrightarrow> uri \<noteq> name \<Longrightarrow>
      hm_get refs' uri = (if last_segment name = Some uri then Some doc else None)"
  using assms
  by (auto simp: ref_set_insert_def index_tail_def Let_def split: option.splits if_splits)

lemma ref_set_insert_lookup:
  assumes "ref_set_insert name doc refs = Inr refs'"
  shows "ref_set_lookup refs' name = Some doc"
    and "uri \<noteq> name \<Longrightarrow> ref_set_lookup refs uri = Some v \<Longrightarrow> ref_set_lookup refs' uri = Some v"
proof -
  note get = ref_set_insert_get [OF assms]
  show "ref_set_lookup refs' name = Some doc" by (simp add: ref_set_lookup_def get(1))
  assume ne: "uri \<noteq> name" and old: "ref_set_lookup refs uri = Some v"
  show "ref_set_lookup refs' uri = Some v"
  proof (cases "hm_get refs uri")
    case None
    with old obtain tail where tail: "last_segment uri = Some tail" "hm_get refs tail = Some v"
      by (auto simp: ref_set_lookup_def bind_eq_Some_conv)
    then have "last_segment name \<noteq> Some uri" using last_segment_tail by blast
    with get(3) [OF None ne] get(2) [OF tail(2)] tail(1) show ?thesis by (simp add: ref_set_lookup_def)
  next
    case (Some doc')
    with old get(2) [OF Some] show ?thesis by (simp add: ref_set_lookup_def)
  qed
qed

interpretation json_refs: reference_collector "json_collector api"
    "\<lambda>out r x. \<exists>doc. js_parse api (sch_text x) = Inr doc \<and> hm_get out (ref_name r) = Some doc" "\<lambda>_. 0"
  for api :: "'w json_api"
  by unfold_locales
    (auto simp: json_collector_def split: sum.splits dest: ref_set_insert_get(1) ref_set_insert_get(2))

text \<open>Every entry of the encoder's cache carries the encoder's validator.\<close>

definition json_entries :: "('s, 'w) json_encoder \<Rightarrow> 'w json_key_cache \<Rightarrow> bool" where
  "json_entries en c \<longleftrightarrow> (\<forall>subject entry. cache_get c subject = Some entry \<longrightarrow> snd entry = je_validator en)"

lemma json_resolve_entry:
  assumes "cache_idle c" "json_entries en c" "json_resolve_subject en subject (c, s) = (Inr entry, (c', s'))"
  shows "snd entry = je_validator en \<and> cache_get c' subject = Some entry \<and> cache_idle c' \<and> json_entries en c'"
  using fc.entry [where P = "\<lambda>_ e. snd e = je_validator en", OF assms(1) assms(2) [unfolded json_entries_def] _
      assms(3) [unfolded json_resolve_subject_def]]
  by (auto simp: json_entries_def io_bind_Inr_iff)

section \<open>Properties\<close>

text \<open>
  The referenced documents. A document inserted is found under its name, and inserting it
  changes no answer for another URI that had one; what the closure of a registry's catalog
  collects answers, for every schema reached, one of the names it is referenced by with the
  document of exactly that schema.
\<close>

theorem json_references_found:
  assumes "ref_set_insert name doc refs = Inr refs'" "uri \<noteq> name" "ref_set_lookup refs uri = Some other"
    and "json_closure api (catalog F) references 0 ([], []) [] = (Inr (visited, out), log)"
  shows "ref_set_lookup refs' name = Some doc \<and> ref_set_lookup refs' uri = Some other \<and>
    distinct log \<and> set log = {m. reached F (markers references) m} \<and>
    (\<forall>m. reached F (markers references) m \<longrightarrow> (\<exists>r x doc. marker_of r = m \<and> F m = Some x \<and>
       js_parse api (sch_text x) = Inr doc \<and> ref_set_lookup out (ref_name r) = Some doc))"
proof -
  from json_refs.closure_reaches [OF assms(4) [unfolded json_closure_def]] have
    "distinct log" "set log = {m. reached F (markers references) m}"
    "\<forall>m. reached F (markers references) m \<longrightarrow> (\<exists>r x. marker_of r = m \<and> F m = Some x \<and>
       (\<exists>doc. js_parse api (sch_text x) = Inr doc \<and> hm_get out (ref_name r) = Some doc))"
    by blast+
  moreover have "hm_get out n = Some d \<Longrightarrow> ref_set_lookup out n = Some d" for n d
    by (simp add: ref_set_lookup_def)
  ultimately show ?thesis
    using ref_set_insert_lookup [OF assms(1)] assms(2,3) by blast
qed

text \<open>Documents that are strings; a validator that accepts one value.\<close>

definition demo_json_api :: "json json_api" where
  "demo_json_api =
     \<lparr>js_parse = (\<lambda>s. Inr (JString s)),
      js_from_slice = (\<lambda>bs. case bs of [b] \<Rightarrow> Inr (JNumber (JInt (uint b))) | _ \<Rightarrow> Inl ''trailing characters''),
      js_to_vec = (\<lambda>v. case v of JNumber (JInt i) \<Rightarrow> Inr [word_of_int i] | _ \<Rightarrow> Inl ''unsupported''),
      js_validator_for = Inr, js_build = (\<lambda>_ doc. Inr (JNumber (JInt 7))),
      js_errors = (\<lambda>w v. if v = JNumber (JInt 7) then [] else [''not the value''])\<rparr>"

definition named_ref :: "string \<Rightarrow> string \<Rightarrow> schema_reference" where
  "named_ref name subject = \<lparr>ref_name = name, ref_subject = subject, ref_version = SchemaVersion 1\<rparr>"

definition one_doc :: "marker \<Rightarrow> schema option" where
  "one_doc m = (if m = (''s'', 1) then Some (schema_new (Id (SchemaId 1)) Json ''D'') else None)"

theorem json_references_found_witness:
  "ref_set_lookup [(''x/a.json'', JNull), (''a.json'', JNull), (''b.json'', JBool True)] ''http://y/b.json'' = Some (JBool True) \<and>
   fst (json_closure demo_json_api (catalog one_doc) [named_ref ''d.json'' ''s''] 0 ([], []) []) =
     Inr ([(''s'', 1)], [(''d.json'', JString ''D'')])"
proof -
  have ins: "ref_set_insert ''b.json'' (JBool True) [(''x/a.json'', JNull), (''a.json'', JNull)] =
      Inr [(''x/a.json'', JNull), (''a.json'', JNull), (''b.json'', JBool True)]"
    by code_simp
  have look: "ref_set_lookup [(''x/a.json'', JNull), (''a.json'', JNull)] ''http://y/a.json'' = Some JNull"
    by code_simp
  have run: "json_closure demo_json_api (catalog one_doc) [named_ref ''d.json'' ''s''] 0 ([], []) [] =
      (Inr ([(''s'', 1)], [(''d.json'', JString ''D'')]), [(''s'', 1)])"
    by code_simp
  have "distinct [(''s'', 1 :: int)]"
    using json_references_found [OF ins _ look run] by simp
  moreover have "ref_set_lookup [(''x/a.json'', JNull), (''a.json'', JNull), (''b.json'', JBool True)] ''http://y/b.json'' = Some (JBool True)"
    by code_simp
  ultimately show ?thesis using run by simp
qed

text \<open>
  A subject and version referenced under two names is indexed under the first only: the schema
  compiles in neither the registry's sense nor the one of the builder's pairs.
\<close>

theorem json_second_name_missing:
  "\<exists>visited out log.
     json_closure demo_json_api (catalog one_doc) [named_ref ''first.json'' ''s'', named_ref ''second.json'' ''s''] 0 ([], []) [] =
       (Inr (visited, out), log) \<and>
     ref_set_lookup out ''first.json'' = Some (JString ''D'') \<and> ref_set_lookup out ''second.json'' = None \<and>
     (\<exists>refs. reference_set_from_pairs demo_json_api [(''first.json'', ''D''), (''second.json'', ''D'')] = Inr refs \<and>
        ref_set_lookup refs ''second.json'' = Some (JString ''D''))"
proof -
  have closure: "json_closure demo_json_api (catalog one_doc) [named_ref ''first.json'' ''s'', named_ref ''second.json'' ''s'']
      0 ([], []) [] = (Inr ([(''s'', 1)], [(''first.json'', JString ''D'')]), [(''s'', 1)])"
    by code_simp
  have pairs: "reference_set_from_pairs demo_json_api [(''first.json'', ''D''), (''second.json'', ''D'')] =
      Inr [(''first.json'', JString ''D''), (''second.json'', JString ''D'')]"
    by code_simp
  have look: "ref_set_lookup [(''first.json'', JString ''D'')] ''first.json'' = Some (JString ''D'')"
      "ref_set_lookup [(''first.json'', JString ''D'')] ''second.json'' = None"
      "ref_set_lookup [(''first.json'', JString ''D''), (''second.json'', JString ''D'')] ''second.json'' = Some (JString ''D'')"
    by code_simp+
  from closure pairs look show ?thesis by blast
qed

text \<open>
  The order of dependencies matters: a document indexed by the last segment of its URI first
  takes the name that another document declares in full.
\<close>

theorem json_dependency_order_matters:
  "reference_set_from_pairs demo_json_api [(''http://x/a.json'', ''D''), (''a.json'', ''E'')] =
     Inl (Config (Codec (ConflictingDocuments ''a.json''))) \<and>
   reference_set_from_pairs demo_json_api [(''a.json'', ''E''), (''http://x/a.json'', ''D'')] =
     Inr [(''a.json'', JString ''E''), (''http://x/a.json'', JString ''D'')]"
  by code_simp

text \<open>
  Producer and consumer of JSON. With a serialiser whose output parses back, a value that was
  encoded had no validation errors if validation is on; its frame carries the identifier the
  cache now holds for the subject, and a decoder returns the same value: without validation with
  no call at all, with it exactly if the validator it has for the identifier finds no error.
\<close>

theorem json_producer_consumer:
  assumes "cache_idle c" "json_entries en c" "json_encode api en v topic target (c, s) = (Inr framed, (c', s'))"
    and "\<forall>bs. js_to_vec api v = Inr bs \<longrightarrow> js_from_slice api bs = Inr v"
  shows "\<exists>subject key raw.
    subject_name (je_strategy en) topic (je_record_name en) target = Inr subject \<and>
    json_cached_schema_key c' subject = Some key \<and> framed = encode_wire_format key raw \<and> js_to_vec api v = Inr raw \<and>
    \<not> (je_validate_on_encode en \<and> js_errors api (je_validator en) v \<noteq> []) \<and>
    (\<forall>d st. json_decode api d framed st =
       (if \<not> jd_validate_on_decode d then (Inr v, st)
        else case get_validator api d key st of
               (Inl e, st') \<Rightarrow> (Inl e, st')
             | (Inr w, st') \<Rightarrow>
                 ((if js_errors api w v = [] then Inr v
                   else Inl (WireFormat (Codec (ValidationFailed (js_errors api w v))))), st')))"
proof -
  from assms(3) obtain subject entry raw where r:
    "subject_name (je_strategy en) topic (je_record_name en) target = Inr subject"
    "json_resolve_subject en subject (c, s) = (Inr entry, (c', s'))"
    "\<not> (je_validate_on_encode en \<and> js_errors api (snd entry) v \<noteq> [])"
    "js_to_vec api v = Inr raw" "framed = encode_wire_format (fst entry) raw"
    by (auto simp: json_encode_def json_serialise_def io_bind_Inr_iff json_validate_def split: if_splits sum.splits)
  note e = json_resolve_entry [OF assms(1,2) r(2)]
  have parse: "js_from_slice api raw = Inr v" using assms(4) r(4) by blast
  have decode: "json_decode api d framed st =
       (if \<not> jd_validate_on_decode d then (Inr v, st)
        else case get_validator api d (fst entry) st of
               (Inl e, st') \<Rightarrow> (Inl e, st')
             | (Inr w, st') \<Rightarrow>
                 ((if js_errors api w v = [] then Inr v
                   else Inl (WireFormat (Codec (ValidationFailed (js_errors api w v))))), st'))" for d st
    by (auto simp: json_decode_def r(5) decode_framed_bytes parse io_bind_def json_validate_def
        split: prod.splits sum.splits)
  have "json_cached_schema_key c' subject = Some (fst entry)"
    using e by (simp add: json_cached_schema_key_def)
  moreover have "\<not> (je_validate_on_encode en \<and> js_errors api (je_validator en) v \<noteq> [])"
    using e r(3) by simp
  ultimately show ?thesis
    using r(1,4,5) decode by (intro exI [of _ subject] exI [of _ "fst entry"] exI [of _ raw] conjI allI)
qed

definition demo_json_encoder :: "(nat, json) json_encoder" where
  "demo_json_encoder =
     \<lparr>je_registry = one_registry, je_schema_str = ''D'', je_validator = JNumber (JInt 7), je_record_name = None,
      je_strategy = TopicName, je_references = [], je_validate_on_encode = True, je_resolution = AutoRegister,
      je_framing = FramingSchemaId\<rparr>"

theorem json_producer_consumer_witness:
  "\<exists>framed. \<forall>d st. jd_validate_on_decode d \<or> json_decode demo_json_api d framed st = (Inr (JNumber (JInt 7)), st)"
proof -
  let ?v = "JNumber (JInt 7)"
  let ?fetch = "io_bind (resolve_schema_key one_registry AutoRegister FramingSchemaId ''orders-value'' ''D'' Json [])
      (\<lambda>key. io_return (key, ?v))"
  have entries: "json_entries demo_json_encoder (cache_new (Some 1))"
    by (simp add: json_entries_def cache_new_def cache_get_def)
  have "?fetch 0 = (Inr (Id (SchemaId 1), ?v), 0)"
    by (simp add: resolve_schema_key_def resolve_identity_def learn_guid_def io_bind_def one_registry_def
        trait_defaults_def one_schema_def with_guid_def schema_new_def)
  from get_or_fetch_ok [where mk = subject_resolution_cancelled and c = "cache_new (Some 1)" and fetch = ?fetch
      and key = "''orders-value''", OF idle_new _ this]
  obtain c where "json_resolve_subject demo_json_encoder ''orders-value'' (cache_new (Some 1), 0) =
      (Inr (Id (SchemaId 1), ?v), (c, 0))"
    by (simp add: json_resolve_subject_def demo_json_encoder_def cache_new_def cache_get_def)
  then have run: "json_encode demo_json_api demo_json_encoder ?v ''orders'' Value (cache_new (Some 1), 0) =
      (Inr (encode_wire_format (Id (SchemaId 1)) [7]), (c, 0))"
    by (simp add: json_encode_def json_serialise_def io_bind_def json_validate_def demo_json_api_def demo_json_encoder_def)
  have "\<forall>bs. js_to_vec demo_json_api ?v = Inr bs \<longrightarrow> js_from_slice demo_json_api bs = Inr ?v"
    by (simp add: demo_json_api_def)
  note round_trip = json_producer_consumer [OF idle_new [OF zero_less_one] entries run this]
  show ?thesis
  proof (intro exI allI)
    fix d st
    show "jd_validate_on_decode d \<or> json_decode demo_json_api d (encode_wire_format (Id (SchemaId 1)) [7]) st = (Inr ?v, st)"
      using round_trip 
      by (elim exE conjE) (erule allE [where x = d], erule allE [where x = st], simp)
  qed
qed

end
