(* ===== verification/Protobuf_Codec.thy ===== *)
theory Protobuf_Codec
  imports Confluent_Encoder
begin

text \<open>
  The Protobuf encoder and decoder (\<open>src/protobuf/mod.rs\<close>): the message-index path of a
  descriptor, builder, encoder with its key cache, and the decoder with its check of the
  message type. \<open>prost\<close> is a pair of parameters, the encoding and decoding of a message; a
  descriptor is its path and its full name. An \<open>i32\<close> of a path is only compared and
  converted: it is an \<^typ>\<open>int\<close>.
\<close>

section \<open>Message-index paths\<close>

record message_descriptor =
  md_path :: "int list"
  md_full_name :: string

definition FILE_MESSAGE_TYPE_FIELD :: int where "FILE_MESSAGE_TYPE_FIELD = 4"
definition NESTED_TYPE_FIELD :: int where "NESTED_TYPE_FIELD = 3"

text \<open>\<open>as_chunks::<2>\<close>, and \<open>skip(1).step_by(2)\<close>.\<close>

fun chunks2 :: "'a list \<Rightarrow> ('a \<times> 'a) list" where
  "chunks2 (a # b # xs) = (a, b) # chunks2 xs"
| "chunks2 _ = []"

fun every_second :: "'a list \<Rightarrow> 'a list" where
  "every_second (_ # b # xs) = b # every_second xs"
| "every_second _ = []"

fun check_nested :: "string \<Rightarrow> nat \<Rightarrow> (int \<times> int) list \<Rightarrow> unit res" where
  "check_nested full_name level [] = Inr ()"
| "check_nested full_name level ((field, _) # chunks) =
     (if field \<noteq> NESTED_TYPE_FIELD then Inl (Config (Codec (NotNestedType full_name level field)))
      else check_nested full_name (Suc level) chunks)"

fun positions :: "string \<Rightarrow> int list \<Rightarrow> u32 list res" where
  "positions full_name [] = Inr []"
| "positions full_name (position # path) =
     (if position < 0 then Inl (Config (Codec (NegativePosition full_name position)))
      else res_bind (positions full_name path) (\<lambda>ixs. Inr (word_of_int position # ixs)))"

definition message_index_path_from :: "int list \<Rightarrow> string \<Rightarrow> u32 list res" where
  "message_index_path_from path full_name =
     (if length path < 2 \<or> odd (length path) then Inl (Config (Codec (BadDescriptorPath full_name path)))
      else if path ! 0 \<noteq> FILE_MESSAGE_TYPE_FIELD then Inl (Config (Codec (NotMessageType full_name (path ! 0))))
      else res_bind (check_nested full_name 1 (drop 1 (chunks2 path))) (\<lambda>_.
           positions full_name (every_second path)))"

definition message_index_path :: "message_descriptor \<Rightarrow> u32 list res" where
  "message_index_path d = message_index_path_from (md_path d) (md_full_name d)"

section \<open>Encoder\<close>

record 's protobuf_encoder =
  pe_registry :: "'s registry"
  pe_schema_str :: string
  pe_message_indexes :: "u32 list"
  pe_full_name :: string
  pe_strategy :: subject_strategy
  pe_references :: "schema_reference list"
  pe_resolution :: schema_resolution
  pe_framing :: framing

definition protobuf_cached_schema_key :: "key_cache \<Rightarrow> string \<Rightarrow> schema_key option" where
  "protobuf_cached_schema_key c subject = cache_get c subject"

definition protobuf_cached_schema_id :: "key_cache \<Rightarrow> string \<Rightarrow> schema_id option" where
  "protobuf_cached_schema_id c subject = Option.bind (protobuf_cached_schema_key c subject) as_id"

definition protobuf_cached_subject_count :: "key_cache \<Rightarrow> nat" where
  "protobuf_cached_subject_count c = cache_len c"

definition protobuf_invalidate_subject :: "string \<Rightarrow> key_cache \<Rightarrow> key_cache" where
  "protobuf_invalidate_subject subject c = snd (invalidate subject_resolution_cancelled subject c)"

definition protobuf_resolve_subject :: "'s protobuf_encoder \<Rightarrow> string \<Rightarrow> ('s, schema_key) key_io" where
  "protobuf_resolve_subject en subject =
     get_or_fetch subject_resolution_cancelled subject
       (resolve_schema_key (pe_registry en) (pe_resolution en) (pe_framing en) subject (pe_schema_str en)
          Protobuf (pe_references en))"

definition protobuf_encode ::
    "('m \<Rightarrow> bytes) \<Rightarrow> 's protobuf_encoder \<Rightarrow> 'm \<Rightarrow> string \<Rightarrow> encode_target \<Rightarrow> ('s, bytes) key_io" where
  "protobuf_encode encode_to_vec en message topic target =
     io_bind (io_lift (subject_name (pe_strategy en) topic (Some (pe_full_name en)) target)) (\<lambda>subject.
     io_bind (protobuf_resolve_subject en subject) (\<lambda>key.
     io_return (encode_protobuf_wire_format key (pe_message_indexes en) (encode_to_vec message))))"

definition protobuf_encode_with_header ::
    "('m \<Rightarrow> bytes) \<Rightarrow> 's protobuf_encoder \<Rightarrow> 'm \<Rightarrow> string \<Rightarrow> encode_target \<Rightarrow> ('s, header_framed) key_io" where
  "protobuf_encode_with_header encode_to_vec en message topic target =
     io_bind (io_lift (subject_name (pe_strategy en) topic (Some (pe_full_name en)) target)) (\<lambda>subject.
     io_bind (protobuf_resolve_subject en subject) (\<lambda>key.
     io_return (header_framed_new target key (Some (pe_message_indexes en)) (encode_to_vec message))))"

record 's protobuf_encoder_builder =
  peb_registry :: "'s registry option"
  peb_schema :: "string option"
  peb_descriptor :: "message_descriptor option"
  peb_message_indexes :: "u32 list option"
  peb_strategy :: subject_strategy
  peb_references :: "schema_reference list"
  peb_resolution :: schema_resolution
  peb_framing :: framing
  peb_max_entries :: nat

definition protobuf_encoder_builder_new :: "'s protobuf_encoder_builder" where
  "protobuf_encoder_builder_new =
     \<lparr>peb_registry = None, peb_schema = None, peb_descriptor = None, peb_message_indexes = None,
      peb_strategy = TopicName, peb_references = [], peb_resolution = AutoRegister, peb_framing = FramingSchemaId,
      peb_max_entries = DEFAULT_MAX_SUBJECT_CACHE_ENTRIES\<rparr>"

text \<open>The setters.\<close>

definition protobuf_encoder_set_resolution :: "schema_resolution \<Rightarrow> 's protobuf_encoder_builder \<Rightarrow> 's protobuf_encoder_builder" where
  "protobuf_encoder_set_resolution x b = b\<lparr>peb_resolution := x\<rparr>"

definition protobuf_encoder_set_framing :: "framing \<Rightarrow> 's protobuf_encoder_builder \<Rightarrow> 's protobuf_encoder_builder" where
  "protobuf_encoder_set_framing x b = b\<lparr>peb_framing := x\<rparr>"

definition protobuf_encoder_set_registry :: "'s registry \<Rightarrow> 's protobuf_encoder_builder \<Rightarrow> 's protobuf_encoder_builder" where
  "protobuf_encoder_set_registry x b = b\<lparr>peb_registry := Some x\<rparr>"

definition protobuf_encoder_set_schema :: "string \<Rightarrow> 's protobuf_encoder_builder \<Rightarrow> 's protobuf_encoder_builder" where
  "protobuf_encoder_set_schema x b = b\<lparr>peb_schema := Some x\<rparr>"

definition protobuf_encoder_set_descriptor :: "message_descriptor \<Rightarrow> 's protobuf_encoder_builder \<Rightarrow> 's protobuf_encoder_builder" where
  "protobuf_encoder_set_descriptor x b = b\<lparr>peb_descriptor := Some x\<rparr>"

definition protobuf_encoder_set_message_indexes :: "u32 list \<Rightarrow> 's protobuf_encoder_builder \<Rightarrow> 's protobuf_encoder_builder" where
  "protobuf_encoder_set_message_indexes x b = b\<lparr>peb_message_indexes := Some x\<rparr>"

definition protobuf_encoder_set_strategy :: "subject_strategy \<Rightarrow> 's protobuf_encoder_builder \<Rightarrow> 's protobuf_encoder_builder" where
  "protobuf_encoder_set_strategy x b = b\<lparr>peb_strategy := x\<rparr>"

definition protobuf_encoder_set_references :: "schema_reference list \<Rightarrow> 's protobuf_encoder_builder \<Rightarrow> 's protobuf_encoder_builder" where
  "protobuf_encoder_set_references x b = b\<lparr>peb_references := x\<rparr>"

definition protobuf_encoder_set_max_subject_cache_entries :: "nat \<Rightarrow> 's protobuf_encoder_builder \<Rightarrow> 's protobuf_encoder_builder" where
  "protobuf_encoder_set_max_subject_cache_entries x b = b\<lparr>peb_max_entries := x\<rparr>"

definition protobuf_encoder_build :: "'s protobuf_encoder_builder \<Rightarrow> ('s protobuf_encoder \<times> key_cache) res" where
  "protobuf_encoder_build b =
     res_bind (ok_or (peb_registry b) (Config (Client (MustBeSet ''ProtobufSchemaEncoder: registry'')))) (\<lambda>registry.
     res_bind (ok_or (peb_schema b) (Config (Client (MustBeSet ''ProtobufSchemaEncoder: schema'')))) (\<lambda>schema_str.
     res_bind (ok_or (peb_descriptor b) (Config (Client (MustBeSet ''ProtobufSchemaEncoder: descriptor'')))) (\<lambda>descriptor.
     res_bind (case peb_message_indexes b of Some explicit \<Rightarrow> Inr explicit | None \<Rightarrow> message_index_path descriptor) (\<lambda>indexes.
       Inr (\<lparr>pe_registry = registry, pe_schema_str = schema_str, pe_message_indexes = indexes,
             pe_full_name = md_full_name descriptor, pe_strategy = peb_strategy b,
             pe_references = peb_references b, pe_resolution = peb_resolution b, pe_framing = peb_framing b\<rparr>,
            cache_new (Some (max (peb_max_entries b) 1)))))))"

section \<open>Decoder\<close>

record unframed_protobuf =
  up_key :: schema_key
  up_message_indexes :: "u32 list"
  up_payload :: bytes

record 's protobuf_decoder =
  pd_registry :: "'s registry"
  pd_expected_indexes :: "u32 list option"
  pd_expected_name :: "string option"

definition protobuf_decoder_new :: "'s registry \<Rightarrow> 's protobuf_decoder" where
  "protobuf_decoder_new registry =
     \<lparr>pd_registry = registry, pd_expected_indexes = None, pd_expected_name = None\<rparr>"

definition with_expected_descriptor :: "message_descriptor \<Rightarrow> 's protobuf_decoder \<Rightarrow> 's protobuf_decoder res" where
  "with_expected_descriptor descriptor d =
     res_bind (message_index_path descriptor) (\<lambda>indexes.
       Inr (d\<lparr>pd_expected_indexes := Some indexes, pd_expected_name := Some (md_full_name descriptor)\<rparr>))"

definition unframe :: "'s protobuf_decoder \<Rightarrow> bytes \<Rightarrow> unframed_protobuf res" where
  "unframe d data =
     res_bind (decode_wire_format_bytes data) (\<lambda>(key, after_prefix).
     res_bind (decode_protobuf_message_indexes after_prefix) (\<lambda>(message_indexes, offset).
       case pd_expected_indexes d of
         Some expected \<Rightarrow>
           if message_indexes \<noteq> expected
           then Inl (WireFormat (Codec (IndexMismatch message_indexes expected (pd_expected_name d))))
           else Inr \<lparr>up_key = key, up_message_indexes = message_indexes, up_payload = drop offset after_prefix\<rparr>
       | None \<Rightarrow> Inr \<lparr>up_key = key, up_message_indexes = message_indexes, up_payload = drop offset after_prefix\<rparr>))"

definition protobuf_decode :: "(bytes \<Rightarrow> string + 'm) \<Rightarrow> 's protobuf_decoder \<Rightarrow> bytes \<Rightarrow> 'm res" where
  "protobuf_decode decode_message d data =
     res_bind (unframe d data) (\<lambda>unframed.
       case decode_message (up_payload unframed) of
         Inl e \<Rightarrow> Inl (WireFormat (Codec (ProtobufDeserializationFailed e)))
       | Inr m \<Rightarrow> Inr m)"

definition schema_for :: "'s protobuf_decoder \<Rightarrow> bytes \<Rightarrow> ('s, schema) io" where
  "schema_for d data =
     io_bind (io_lift (unframe d data)) (\<lambda>unframed. get_schema_by_key (pd_registry d) (up_key unframed))"

section \<open>Lemmas\<close>

text \<open>The descriptor path of a message-index path.\<close>

fun descriptor_path :: "u32 list \<Rightarrow> int list" where
  "descriptor_path [] = []"
| "descriptor_path (ix # ixs) = FILE_MESSAGE_TYPE_FIELD # uint ix # concat (map (\<lambda>i. [NESTED_TYPE_FIELD, uint i]) ixs)"

lemma check_nested_iff: "check_nested n level chunks = Inr u \<longleftrightarrow> (\<forall>c \<in> set chunks. fst c = NESTED_TYPE_FIELD)"
  by (induction n level chunks rule: check_nested.induct) auto

lemma positions_iff:
  "\<forall>p \<in> set path. p < 2 ^ 32 \<Longrightarrow> positions n path = Inr ixs \<longleftrightarrow> path = map uint ixs"
proof (induction path arbitrary: ixs)
  case Nil
  then show ?case by auto
next
  case (Cons p path)
  show ?case
  proof (cases "p < 0")
    case True
    then have "p # path \<noteq> map uint ixs"
      by (cases ixs) (auto simp: not_less)
    with True show ?thesis by simp
  next
    case False
    then have p: "uint (word_of_int p :: u32) = p"
      using Cons.prems by (simp add: word_of_int_inverse)
    with False Cons show ?thesis by (cases ixs) (auto simp: Cons_eq_map_conv)
  qed
qed

lemma chunks_of_path:
  "even (length path) \<Longrightarrow> chunks2 path = zip (map fst (chunks2 path)) (every_second path) \<and>
   path = concat (map (\<lambda>(a, b). [a, b]) (chunks2 path))"
proof (induction path rule: chunks2.induct)
  case (1 a b xs)
  then have "chunks2 xs = zip (map fst (chunks2 xs)) (every_second xs)"
    "xs = concat (map (\<lambda>(a, b). [a, b]) (chunks2 xs))" by simp_all
  then show ?case by simp
qed simp_all

lemma chunks_concat [simp]: "chunks2 (concat (map (\<lambda>i. [f, g i]) ixs)) = map (\<lambda>i. (f, g i)) ixs"
  by (induction ixs) auto

lemma every_second_concat [simp]: "every_second (concat (map (\<lambda>i. [f, g i]) ixs)) = map g ixs"
  by (induction ixs) auto

lemma nested_chunks:
  "even (length path) \<Longrightarrow> (\<forall>c \<in> set (chunks2 path). fst c = f) \<longleftrightarrow>
   path = concat (map (\<lambda>p. [f, p]) (every_second path))"
proof (induction path rule: chunks2.induct)
  case (1 a b xs)
  then show ?case by auto
qed simp_all

lemma index_path_iff:
  assumes "\<forall>p \<in> set path. p < 2 ^ 32"
  shows "message_index_path_from path n = Inr ixs \<longleftrightarrow> ixs \<noteq> [] \<and> path = descriptor_path ixs"
proof
  assume ok: "message_index_path_from path n = Inr ixs"
  then have len: "2 \<le> length path" "even (length path)" and hd: "path ! 0 = FILE_MESSAGE_TYPE_FIELD"
    by (auto simp: message_index_path_from_def split: if_splits)
  from len obtain a b xs where path: "path = a # b # xs" "even (length xs)"
    by (cases path rule: chunks2.cases) auto
  from ok have "\<forall>c \<in> set (chunks2 xs). fst c = NESTED_TYPE_FIELD" "positions n (b # every_second xs) = Inr ixs"
    using len hd by (auto simp: message_index_path_from_def path(1) check_nested_iff split: if_splits)
  then have nested: "xs = concat (map (\<lambda>p. [NESTED_TYPE_FIELD, p]) (every_second xs))"
    and pos: "positions n (b # every_second xs) = Inr ixs"
    using nested_chunks [OF path(2)] by simp_all
  have sub: "set (every_second xs) \<subseteq> set xs" for xs :: "int list"
    by (induction xs rule: every_second.induct) auto
  have "\<forall>p \<in> set (b # every_second xs). p < 2 ^ 32"
    using assms sub [of xs] by (auto simp: path(1))
  from positions_iff [OF this] pos have es: "b # every_second xs = map uint ixs" by simp
  then obtain i js where ixs: "ixs = i # js" "b = uint i" "every_second xs = map uint js" by (cases ixs) auto
  have "xs = concat (map (\<lambda>i. [NESTED_TYPE_FIELD, uint i]) js)"
    using nested unfolding ixs(3) map_map comp_def .
  with hd show "ixs \<noteq> [] \<and> path = descriptor_path ixs" by (simp add: path(1) ixs(1,2))
next
  assume ixs: "ixs \<noteq> [] \<and> path = descriptor_path ixs"
  then obtain i js where ij: "ixs = i # js" by (cases ixs) auto
  let ?tail = "concat (map (\<lambda>i. [NESTED_TYPE_FIELD, uint i]) js)"
  have path: "path = FILE_MESSAGE_TYPE_FIELD # uint i # ?tail" using ixs by (simp add: ij)
  have "even (length ?tail)" by (induction js) auto
  moreover have "positions n (map uint ixs) = Inr ixs"
  proof (rule positions_iff [THEN iffD2, OF _ refl])
    have "uint k < 2 ^ 32" for k :: u32 using uint_bounded [of k] by simp
    then show "\<forall>p \<in> set (map uint ixs). p < 2 ^ 32" by (simp only: set_map) blast
  qed
  moreover have "check_nested n 1 (map (\<lambda>i. (NESTED_TYPE_FIELD, uint i)) js) = Inr ()"
    by (simp add: check_nested_iff)
  ultimately show "message_index_path_from path n = Inr ixs"
    by (simp add: message_index_path_from_def path ij)
qed

lemma unframe_frame:
  assumes "length ixs \<le> 512"
  shows "unframe d (encode_protobuf_wire_format key ixs body) =
    (let sent = (if ixs = [] then [0] else ixs)
     in case pd_expected_indexes d of
          Some expected \<Rightarrow>
            if sent \<noteq> expected then Inl (WireFormat (Codec (IndexMismatch sent expected (pd_expected_name d))))
            else Inr \<lparr>up_key = key, up_message_indexes = sent, up_payload = body\<rparr>
        | None \<Rightarrow> Inr \<lparr>up_key = key, up_message_indexes = sent, up_payload = body\<rparr>)"
proof -
  have frame: "encode_protobuf_wire_format key ixs body = encode_wire_format key (put_message_indexes [] ixs @ body)"
    by (simp add: encode_protobuf_wire_format_def encode_wire_format_def put_message_indexes_eq [of "put_prefix [] key"])
  have indexes: "decode_protobuf_message_indexes (put_message_indexes [] ixs @ body) =
      Inr (if ixs = [] then [0] else ixs, length (put_message_indexes [] ixs))"
    by (rule mi.dec_enc [OF assms])
  show ?thesis
    unfolding unframe_def frame decode_framed_bytes
    by (simp add: indexes Let_def split: option.split)
qed

text \<open>A frame carries the key that the cache then holds, and the encoder's path.\<close>

lemma protobuf_frame_decoded:
  assumes "cache_idle c" "pe_message_indexes en = ixs" "ixs \<noteq> []" "length ixs \<le> 512"
    and "protobuf_encode encode_to_vec en m topic target (c, s) = (Inr framed, (c', s'))"
    and "decode_message (encode_to_vec m) = Inr m"
  shows "\<exists>subject key.
    subject_name (pe_strategy en) topic (Some (pe_full_name en)) target = Inr subject \<and>
    protobuf_cached_schema_key c' subject = Some key \<and>
    (\<forall>d. protobuf_decode decode_message d framed =
       (case pd_expected_indexes d of
          None \<Rightarrow> Inr m
        | Some expected \<Rightarrow>
            if expected = ixs then Inr m
            else Inl (WireFormat (Codec (IndexMismatch ixs expected (pd_expected_name d)))))) \<and>
    (\<forall>d st. pd_expected_indexes d = None \<or> pd_expected_indexes d = Some ixs \<longrightarrow>
       schema_for d framed st = get_schema_by_key (pd_registry d) key st)"
proof -
  from assms(5) obtain subject key where r:
    "subject_name (pe_strategy en) topic (Some (pe_full_name en)) target = Inr subject"
    "protobuf_resolve_subject en subject (c, s) = (Inr key, (c', s'))"
    "framed = encode_protobuf_wire_format key ixs (encode_to_vec m)"
    using assms(2) by (auto simp: protobuf_encode_def io_bind_Inr_iff)
  have get: "protobuf_cached_schema_key c' subject = Some key"
    using fc.entry [where P = "\<lambda>_ _. True", OF assms(1) _ _ r(2) [unfolded protobuf_resolve_subject_def]]
    by (simp add: protobuf_cached_schema_key_def)
  have unframed: "unframe d framed =
      (case pd_expected_indexes d of
         Some expected \<Rightarrow>
           if ixs \<noteq> expected then Inl (WireFormat (Codec (IndexMismatch ixs expected (pd_expected_name d))))
           else Inr \<lparr>up_key = key, up_message_indexes = ixs, up_payload = encode_to_vec m\<rparr>
       | None \<Rightarrow> Inr \<lparr>up_key = key, up_message_indexes = ixs, up_payload = encode_to_vec m\<rparr>)" for d
    using assms(3) by (simp add: r(3) unframe_frame [OF assms(4)] split: option.split)
  have "protobuf_decode decode_message d framed =
       (case pd_expected_indexes d of
          None \<Rightarrow> Inr m
        | Some expected \<Rightarrow>
            if expected = ixs then Inr m
            else Inl (WireFormat (Codec (IndexMismatch ixs expected (pd_expected_name d)))))" for d
    using assms(6) by (auto simp: protobuf_decode_def unframed split: option.split)
  moreover have "pd_expected_indexes d = None \<or> pd_expected_indexes d = Some ixs \<Longrightarrow> schema_for d framed st = get_schema_by_key (pd_registry d) key st" for d st
    by (auto simp: schema_for_def unframed io_bind_def)
  ultimately show ?thesis using r(1) get by blast
qed

lemma length_descriptor_path: "ixs \<noteq> [] \<Longrightarrow> length (descriptor_path ixs) = 2 * length ixs"
proof (cases ixs)
  case (Cons i js)
  have "length (concat (map (\<lambda>i. [NESTED_TYPE_FIELD, uint i]) js)) = 2 * length js" by (induction js) auto
  with Cons show ?thesis by simp
qed simp

section \<open>Properties\<close>

text \<open>
  C15. The message-index path is exact. A descriptor path of \<open>i32\<close> values yields a message-index
  path exactly if it is the path of a message: field 4 and a position, then for every level
  field 3 and a position; the result is those positions, so two messages of a file never share
  one, and every index path belongs to a message.
\<close>

theorem message_index_path_exact:
  assumes "\<forall>p \<in> set (md_path d). - (2 ^ 31) \<le> p \<and> p < 2 ^ 31"
  shows "(message_index_path d = Inr ixs) = (ixs \<noteq> [] \<and> md_path d = descriptor_path ixs)"
proof -
  have "\<forall>p \<in> set (md_path d). p < 2 ^ 32" using assms by fastforce
  from index_path_iff [OF this] show ?thesis by (simp add: message_index_path_def)
qed

theorem message_index_path_exact_witness:
  "message_index_path \<lparr>md_path = [4, 1, 3, 0], md_full_name = ''Order.Line''\<rparr> = Inr [1, 0]"
  by (subst message_index_path_exact) (simp_all add: FILE_MESSAGE_TYPE_FIELD_def NESTED_TYPE_FIELD_def)

text \<open>
  C27. Producer and consumer of Protobuf, from their descriptors. A frame that an encoder built
  for a descriptor writes for a message carries the identifier that the cache then holds for the
  subject. A decoder that expects no type decodes the message from it. So does a decoder that was
  given a descriptor with the same path, and both look the schema up by that identifier. A decoder
  that was given a descriptor with another path rejects the frame, whatever the two paths have in
  common, with the path that was sent, the one it expected and the full name of its descriptor, and
  never runs the message decoder on it. (The path has at most 512 levels, the limit of the
  decoder, and the entries of a descriptor's path are \<open>i32\<close> values.)
\<close>

theorem protobuf_producer_consumer:
  fixes rg :: "'t registry"
  assumes "protobuf_encoder_build b = Inr (en, c0)" and "peb_descriptor b = Some sent" and "peb_message_indexes b = None"
    and "length (md_path sent) \<le> 1024" and "\<forall>p \<in> set (md_path sent). - (2 ^ 31) \<le> p \<and> p < 2 ^ 31"
    and "cache_idle c" and "protobuf_encode encode_to_vec en m topic target (c, s) = (Inr framed, (c', s'))"
    and "decode_message (encode_to_vec m) = Inr m"
  shows "\<exists>subject key.
    subject_name (peb_strategy b) topic (Some (md_full_name sent)) target = Inr subject \<and>
    protobuf_cached_schema_key c' subject = Some key \<and>
    protobuf_decode decode_message (protobuf_decoder_new rg) framed = Inr m \<and>
    schema_for (protobuf_decoder_new rg) framed st = get_schema_by_key rg key st \<and>
    (\<forall>expected. md_path expected = md_path sent \<longrightarrow>
       (\<exists>d. with_expected_descriptor expected (protobuf_decoder_new rg) = Inr d \<and>
            protobuf_decode decode_message d framed = Inr m \<and> schema_for d framed st = get_schema_by_key rg key st)) \<and>
    (\<forall>expected d. (\<forall>p \<in> set (md_path expected). - (2 ^ 31) \<le> p \<and> p < 2 ^ 31) \<and> md_path expected \<noteq> md_path sent \<and>
         with_expected_descriptor expected (protobuf_decoder_new rg) = Inr d \<longrightarrow>
       (\<exists>ixs ixs'. md_path sent = descriptor_path ixs \<and> md_path expected = descriptor_path ixs' \<and>
          protobuf_decode decode_message d framed =
            Inl (WireFormat (Codec (IndexMismatch ixs ixs' (Some (md_full_name expected)))))))"
proof -
  have path: "(message_index_path d = Inr ixs) = (ixs \<noteq> [] \<and> md_path d = descriptor_path ixs)"
    if "\<forall>p \<in> set (md_path d). - (2 ^ 31) \<le> p \<and> p < 2 ^ 31" for d ixs
    unfolding message_index_path_def by (rule index_path_iff) (use that in fastforce)
  from assms(1-3) obtain ixs where ixs: "message_index_path sent = Inr ixs"
      and en: "pe_message_indexes en = ixs" "pe_full_name en = md_full_name sent" "pe_strategy en = peb_strategy b"
    by (auto simp: protobuf_encoder_build_def)
  have sent: "ixs \<noteq> []" "md_path sent = descriptor_path ixs" using path [OF assms(5), of ixs] ixs by blast+
  have "length ixs \<le> 512" using assms(4) unfolding sent(2) length_descriptor_path [OF sent(1)] by simp
  note frame = protobuf_frame_decoded [where decode_message = decode_message, OF assms(6) en(1) sent(1) this assms(7,8)]
  from frame obtain subject key where r: "subject_name (peb_strategy b) topic (Some (md_full_name sent)) target = Inr subject"
      "protobuf_cached_schema_key c' subject = Some key"
    and dec: "\<forall>d :: 't protobuf_decoder. protobuf_decode decode_message d framed =
       (case pd_expected_indexes d of
          None \<Rightarrow> Inr m
        | Some expected \<Rightarrow>
            if expected = ixs then Inr m
            else Inl (WireFormat (Codec (IndexMismatch ixs expected (pd_expected_name d)))))"
    and look: "\<forall>(d :: 't protobuf_decoder) st. pd_expected_indexes d = None \<or> pd_expected_indexes d = Some ixs \<longrightarrow>
       schema_for d framed st = get_schema_by_key (pd_registry d) key st"
    unfolding en by (elim exE conjE) (rule that)
  have plain: "pd_expected_indexes (protobuf_decoder_new rg) = None" "pd_registry (protobuf_decoder_new rg) = rg"
    by (simp_all add: protobuf_decoder_new_def)
  have same: "\<exists>d. with_expected_descriptor expected (protobuf_decoder_new rg) = Inr d \<and>
      protobuf_decode decode_message d framed = Inr m \<and> schema_for d framed st = get_schema_by_key rg key st"
    if "md_path expected = md_path sent" for expected
  proof -
    have "message_index_path expected = Inr ixs" using path [of expected ixs] sent assms(5) unfolding that by blast
    then show ?thesis
      using dec look by (simp add: with_expected_descriptor_def protobuf_decoder_new_def)
  qed
  have other: "\<exists>ixs ixs'. md_path sent = descriptor_path ixs \<and> md_path expected = descriptor_path ixs' \<and>
      protobuf_decode decode_message d framed =
        Inl (WireFormat (Codec (IndexMismatch ixs ixs' (Some (md_full_name expected)))))"
    if range: "\<forall>p \<in> set (md_path expected). - (2 ^ 31) \<le> p \<and> p < 2 ^ 31" and ne: "md_path expected \<noteq> md_path sent"
      and d: "with_expected_descriptor expected (protobuf_decoder_new rg) = Inr d" for expected d
  proof -
    from d obtain ixs' where ixs': "message_index_path expected = Inr ixs'"
        "pd_expected_indexes d = Some ixs'" "pd_expected_name d = Some (md_full_name expected)"
      by (auto simp: with_expected_descriptor_def)
    have "md_path expected = descriptor_path ixs'" using path [OF range, of ixs'] ixs'(1) by blast
    moreover from this have "ixs' \<noteq> ixs" using ne sent(2) by auto
    ultimately show ?thesis using dec ixs'(2,3) sent(2) by (intro exI [of _ ixs] exI [of _ ixs']) simp
  qed
  have none: "protobuf_decode decode_message (protobuf_decoder_new rg) framed = Inr m"
    "schema_for (protobuf_decoder_new rg) framed st = get_schema_by_key rg key st"
    using dec look plain by simp_all
  show ?thesis
    by (rule exI [of _ subject], rule exI [of _ key], intro conjI)
      (rule r none | (intro allI impI, rule same, assumption)
        | (intro allI impI, elim conjE, rule other, assumption+))+
qed

definition demo_protobuf_encoder :: "nat protobuf_encoder" where
  "demo_protobuf_encoder =
     \<lparr>pe_registry = one_registry, pe_schema_str = ''message A {}'', pe_message_indexes = [1, 0], pe_full_name = ''A.B'',
      pe_strategy = RecordName, pe_references = [], pe_resolution = AutoRegister, pe_framing = FramingSchemaGuid\<rparr>"

definition demo_descriptor :: message_descriptor where
  "demo_descriptor = \<lparr>md_path = [4, 1, 3, 0], md_full_name = ''A.B''\<rparr>"

definition demo_sibling :: message_descriptor where
  "demo_sibling = \<lparr>md_path = [4, 0, 3, 1], md_full_name = ''C.D''\<rparr>"

definition demo_protobuf_builder :: "nat protobuf_encoder_builder" where
  "demo_protobuf_builder =
     protobuf_encoder_set_registry one_registry (protobuf_encoder_set_schema ''message A {}''
       (protobuf_encoder_set_descriptor demo_descriptor (protobuf_encoder_set_strategy RecordName
         (protobuf_encoder_set_framing FramingSchemaGuid protobuf_encoder_builder_new))))"

lemma demo_descriptor_path: "message_index_path demo_descriptor = Inr [1, 0]"
  by code_simp

theorem protobuf_producer_consumer_witness:
  "\<exists>framed d d'. protobuf_decode Inr (protobuf_decoder_new one_registry) framed = Inr [8, 1] \<and>
     with_expected_descriptor demo_descriptor (protobuf_decoder_new one_registry) = Inr d \<and>
     protobuf_decode Inr d framed = Inr [8, 1] \<and>
     with_expected_descriptor demo_sibling (protobuf_decoder_new one_registry) = Inr d' \<and>
     protobuf_decode Inr d' framed \<noteq> Inr [8, 1]"
proof -
  have "resolve_schema_key one_registry AutoRegister FramingSchemaGuid ''A.B'' ''message A {}'' Protobuf [] 0 =
      (Inr (Guid (SchemaGuid 7)), 1)"
    by (simp add: resolve_schema_key_def resolve_identity_def learn_guid_def io_bind_def one_registry_def
        trait_defaults_def one_schema_def with_guid_def schema_new_def)
  from get_or_fetch_ok [where mk = subject_resolution_cancelled and key = "''A.B''" and c = "cache_new (Some 1)"
      and fetch = "resolve_schema_key one_registry AutoRegister FramingSchemaGuid ''A.B'' ''message A {}'' Protobuf []",
      OF idle_new _ this]
  obtain c where "protobuf_resolve_subject demo_protobuf_encoder ''A.B'' (cache_new (Some 1), 0) =
      (Inr (Guid (SchemaGuid 7)), (c, 1))"
    by (simp add: protobuf_resolve_subject_def demo_protobuf_encoder_def cache_new_def cache_get_def)
  then have run: "protobuf_encode (\<lambda>m. m) demo_protobuf_encoder [8, 1] ''orders'' Value (cache_new (Some 1), 0) =
      (Inr (encode_protobuf_wire_format (Guid (SchemaGuid 7)) [1, 0] [8, 1]), (c, 1))"
    by (simp add: protobuf_encode_def io_bind_def demo_protobuf_encoder_def)
  let ?framed = "encode_protobuf_wire_format (Guid (SchemaGuid 7)) [1, 0] [8, 1]"
  obtain c0 where built: "protobuf_encoder_build demo_protobuf_builder = Inr (demo_protobuf_encoder, c0)"
    by (simp add: protobuf_encoder_build_def demo_protobuf_builder_def protobuf_encoder_set_registry_def
        protobuf_encoder_set_schema_def protobuf_encoder_set_descriptor_def protobuf_encoder_set_strategy_def
        protobuf_encoder_set_framing_def protobuf_encoder_builder_new_def demo_protobuf_encoder_def
        demo_descriptor_path) (simp add: demo_descriptor_def)
  have b: "peb_descriptor demo_protobuf_builder = Some demo_descriptor" "peb_message_indexes demo_protobuf_builder = None"
    by (simp_all add: demo_protobuf_builder_def protobuf_encoder_set_registry_def
        protobuf_encoder_set_schema_def protobuf_encoder_set_descriptor_def protobuf_encoder_set_strategy_def
        protobuf_encoder_set_framing_def protobuf_encoder_builder_new_def)
  have d: "length (md_path demo_descriptor) \<le> 1024" "\<forall>p \<in> set (md_path demo_descriptor). - (2 ^ 31) \<le> p \<and> p < 2 ^ 31"
    "\<forall>p \<in> set (md_path demo_sibling). - (2 ^ 31) \<le> p \<and> p < 2 ^ 31" "md_path demo_sibling \<noteq> md_path demo_descriptor"
    by (simp_all add: demo_descriptor_def demo_sibling_def)
  have "message_index_path demo_sibling = Inr [0, 1]" by code_simp
  then obtain d' where d': "with_expected_descriptor demo_sibling (protobuf_decoder_new one_registry) = Inr d'"
    by (simp add: with_expected_descriptor_def)
  from protobuf_producer_consumer [OF built b d(1,2) idle_new [OF zero_less_one] run, where rg = one_registry and st = 0 and decode_message = Inr]
    d(3,4) d'
  have "protobuf_decode Inr (protobuf_decoder_new one_registry) ?framed = Inr [8, 1] \<and>
      (\<exists>d. with_expected_descriptor demo_descriptor (protobuf_decoder_new one_registry) = Inr d \<and>
        protobuf_decode Inr d ?framed = Inr [8, 1]) \<and> protobuf_decode Inr d' ?framed \<noteq> Inr [8, 1]"
    by (metis Inl_Inr_False)
  with d' show ?thesis by blast
qed

end
