(* ===== verification/Url_Guard.thy ===== *)
theory Url_Guard
  imports Errors
begin

text \<open>
  The checks on registry URLs and subject names (\<open>src/http.rs\<close>, second half), and the parts
  of \<open>std::net::IpAddr\<close> parsing they use. The \<open>percent_encoding\<close> crate is a parameter: the
  encoder takes the set of bytes to encode, as \<open>utf8_percent_encode\<close> does.
\<close>

section \<open>IP addresses\<close>

text \<open>Dotted-quad IPv4: four octets of one to three digits without a leading zero.\<close>

definition parse_octet :: "string \<Rightarrow> nat option" where
  "parse_octet s =
     (if s = [] \<or> 3 < length s \<or> (1 < length s \<and> hd s = CHR ''0'') then None
      else case parse_nat_digits s of Some n \<Rightarrow> if n \<le> 255 then Some n else None | None \<Rightarrow> None)"

fun all_some :: "'a option list \<Rightarrow> 'a list option" where
  "all_some [] = Some []"
| "all_some (None # xs) = None"
| "all_some (Some x # xs) = map_option ((#) x) (all_some xs)"

definition parse_ipv4 :: "string \<Rightarrow> nat list option" where
  "parse_ipv4 s =
     (case all_some (map parse_octet (split_on (\<lambda>c. c = CHR ''.'') s)) of
        Some os \<Rightarrow> if length os = 4 then Some os else None
      | None \<Rightarrow> None)"

definition hex_val :: "char \<Rightarrow> nat option" where
  "hex_val c =
     (let n = (of_char c :: nat)
      in if 48 \<le> n \<and> n \<le> 57 then Some (n - 48)
         else if 97 \<le> n \<and> n \<le> 102 then Some (n - 87)
         else if 65 \<le> n \<and> n \<le> 70 then Some (n - 55) else None)"

definition parse_hex_group :: "string \<Rightarrow> nat option" where
  "parse_hex_group s =
     (if s = [] \<or> 4 < length s then None
      else map_option (foldl (\<lambda>a d. 16 * a + d) 0) (all_some (map hex_val s)))"

text \<open>IPv6 groups; the last piece may be an IPv4 address, which is two groups.\<close>

fun parse_groups :: "string list \<Rightarrow> nat list option" where
  "parse_groups [] = Some []"
| "parse_groups [p] =
     (case parse_hex_group p of
        Some g \<Rightarrow> Some [g]
      | None \<Rightarrow>
          (case parse_ipv4 p of
             Some os \<Rightarrow> Some [256 * os ! 0 + os ! 1, 256 * os ! 2 + os ! 3]
           | None \<Rightarrow> None))"
| "parse_groups (p # ps) =
     (case (parse_hex_group p, parse_groups ps) of (Some g, Some gs) \<Rightarrow> Some (g # gs) | _ \<Rightarrow> None)"

definition pieces :: "string \<Rightarrow> string list" where
  "pieces s = (if s = [] then [] else split_on (\<lambda>c. c = CHR '':'') s)"

text \<open>A \<open>::\<close> stands for at least one group, and an IPv4 part is not allowed before it.\<close>

definition parse_ipv6 :: "string \<Rightarrow> nat list option" where
  "parse_ipv6 s =
     (case str_find ''::'' s of
        None \<Rightarrow>
          (case parse_groups (pieces s) of
             Some gs \<Rightarrow> if length gs = 8 then Some gs else None
           | None \<Rightarrow> None)
      | Some i \<Rightarrow>
          (case (all_some (map parse_hex_group (pieces (take i s))), parse_groups (pieces (drop (i + 2) s))) of
             (Some a, Some b) \<Rightarrow>
               if length a + length b \<le> 7 then Some (a @ replicate (8 - length a - length b) 0 @ b) else None
           | _ \<Rightarrow> None))"

text \<open>\<open>host.parse::<IpAddr>()\<close> followed by \<open>is_loopback\<close>.\<close>

definition ip_is_loopback :: "string \<Rightarrow> bool" where
  "ip_is_loopback host \<longleftrightarrow>
     (case parse_ipv4 host of
        Some os \<Rightarrow> os ! 0 = 127
      | None \<Rightarrow> parse_ipv6 host = Some [0, 0, 0, 0, 0, 0, 0, 1])"

section \<open>URLs\<close>

definition normalize_url :: "string \<Rightarrow> string" where
  "normalize_url url = trim_end_matches CHR ''/'' url"

definition ends_authority :: "char \<Rightarrow> bool" where
  "ends_authority c \<longleftrightarrow> c = CHR ''/'' \<or> c = CHR ''?'' \<or> c = CHR ''#''"

definition authority_of :: "string \<Rightarrow> string option" where
  "authority_of url =
     (case str_find ''://'' url of
        None \<Rightarrow> None
      | Some scheme_end \<Rightarrow>
          (let authority = drop (scheme_end + 3) url
           in Some (take (case find_char ends_authority authority of Some n \<Rightarrow> n | None \<Rightarrow> length authority) authority)))"

definition host_of :: "string \<Rightarrow> string" where
  "host_of authority =
     (let host = last (split_on (\<lambda>c. c = CHR ''@'') authority)
      in case strip_prefix ''['' host of
           Some rest \<Rightarrow> hd (split_on (\<lambda>c. c = CHR '']'') rest)
         | None \<Rightarrow> hd (split_on (\<lambda>c. c = CHR '':'') host))"

definition is_loopback_host :: "string \<Rightarrow> bool" where
  "is_loopback_host url \<longleftrightarrow>
     (case authority_of url of
        None \<Rightarrow> False
      | Some authority \<Rightarrow>
          (let host = host_of authority
           in if eq_ignore_ascii_case host ''localhost'' then True else ip_is_loopback host))"

definition reject_embedded_credentials :: "string \<Rightarrow> unit res" where
  "reject_embedded_credentials url =
     (case authority_of url of
        None \<Rightarrow> Inr ()
      | Some authority \<Rightarrow>
          if CHR ''@'' \<in> set authority then Inl (Config (Http_Msg EmbeddedCredentials)) else Inr ())"

section \<open>Subjects\<close>

definition MAX_SUBJECT_LEN :: nat where "MAX_SUBJECT_LEN = 512"

definition PATH_SEGMENT_ENCODE_SET :: "char \<Rightarrow> bool" where
  "PATH_SEGMENT_ENCODE_SET c \<longleftrightarrow>
     (of_char c :: nat) < 32 \<or> (of_char c :: nat) = 127 \<or> c \<in> set '' \"#<>?`{}/%[]'' \<or> c = CHR 0x5C \<or> c \<in> set ''^@''"

definition percent_encode :: "((char \<Rightarrow> bool) \<Rightarrow> string \<Rightarrow> string) \<Rightarrow> string \<Rightarrow> string" where
  "percent_encode utf8_percent_encode input = utf8_percent_encode PATH_SEGMENT_ENCODE_SET input"

definition is_slash :: "char \<Rightarrow> bool" where
  "is_slash c \<longleftrightarrow> c = CHR ''/'' \<or> c = CHR 0x5C"

definition has_no_dot_segments :: "string \<Rightarrow> unit res" where
  "has_no_dot_segments candidate =
     (if \<exists>segment \<in> set (split_on is_slash candidate). segment = ''..'' \<or> segment = ''.''
      then Inl (Config (Http_Msg DotSegment)) else Inr ())"

definition validate_subject :: "(string \<Rightarrow> string) \<Rightarrow> string \<Rightarrow> unit res" where
  "validate_subject percent_decode_lossy subject =
     (if subject = [] then Inl (Config (Http_Msg EmptySubject))
      else if MAX_SUBJECT_LEN < length subject then Inl (Config (Http_Msg (SubjectTooLong (length subject))))
      else res_bind (has_no_dot_segments subject) (\<lambda>_.
        if CHR ''%'' \<in> set subject then
          (let decoded = percent_decode_lossy subject
           in if decoded \<noteq> subject then has_no_dot_segments decoded else Inr ())
        else Inr ()))"

section \<open>Lemmas\<close>

lemma starts_with_append [simp]: "starts_with (p @ s) p"
  by (simp add: starts_with_def)

lemma str_find_after:
  assumes "CHR '':'' \<notin> set a"
  shows "str_find ''://'' (a @ ''://'' @ b) = Some (length a)"
  using assms
proof (induction a)
  case Nil
  show ?case by (simp add: starts_with_def)
next
  case (Cons x a)
  then have "\<not> starts_with ((x # a) @ ''://'' @ b) ''://''" by (auto simp: starts_with_def)
  with Cons show ?case by simp
qed

lemma find_char_append:
  assumes "\<forall>c \<in> set a. \<not> p c" and "t = [] \<or> p (hd t)"
  shows "take (case find_char p (a @ t) of Some n \<Rightarrow> n | None \<Rightarrow> length (a @ t)) (a @ t) = a"
proof -
  have "takeWhile (\<lambda>c. \<not> p c) (a @ t) = a"
    using assms by (cases t) (auto simp: takeWhile_append)
  moreover have "(case find_char p s of Some n \<Rightarrow> n | None \<Rightarrow> length s) =
      (case find_char p s of None \<Rightarrow> length s | Some n \<Rightarrow> n)" for s
    by (cases "find_char p s") simp_all
  ultimately show ?thesis using find_char_takeWhile [of "a @ t" p] by simp
qed

lemma authority_of_url:
  assumes "CHR '':'' \<notin> set scheme" and "\<forall>c \<in> set authority. \<not> ends_authority c"
    and "tail = [] \<or> ends_authority (hd tail)"
  shows "authority_of (scheme @ ''://'' @ authority @ tail) = Some authority"
proof -
  have "drop (length scheme + 3) (scheme @ ''://'' @ authority @ tail) = authority @ tail" by simp
  then show ?thesis
    using find_char_append [OF assms(2,3)] str_find_after [OF assms(1), of "authority @ tail"]
    by (simp add: authority_of_def Let_def)
qed

lemma host_of_plain:
  assumes "CHR ''@'' \<notin> set host" "CHR '':'' \<notin> set host" "CHR ''['' \<notin> set host"
    and "CHR ''@'' \<notin> set port" and that: "port = [] \<or> hd port = CHR '':''"
  shows "host_of (host @ port) = host"
proof -
  have "split_on (\<lambda>c. c = CHR ''@'') (host @ port) = [host @ port]"
    using assms by (intro split_on_no_sep) auto
  moreover have "\<not> starts_with (host @ port) ''[''"
    using assms(3) that by (cases host; cases port) (auto simp: starts_with_def)
  moreover have "hd (split_on (\<lambda>c. c = CHR '':'') (host @ port)) = host"
  proof (cases port)
    case Nil
    have "split_on (\<lambda>c. c = CHR '':'') host = [host]" by (rule split_on_no_sep) (use assms(2) in auto)
    then show ?thesis using Nil by simp
  next
    case (Cons c rest)
    moreover have "split_on (\<lambda>c. c = CHR '':'') host = [host]" by (rule split_on_no_sep) (use assms(2) in auto)
    ultimately show ?thesis
      using that by (simp add: split_on_append_sep)
  qed
  ultimately show ?thesis by (simp add: host_of_def strip_prefix_def)
qed

lemma no_dot_segments_iff:
  "has_no_dot_segments s = Inr () \<longleftrightarrow> (\<forall>seg \<in> set (split_on is_slash s). seg \<noteq> ''..'' \<and> seg \<noteq> ''.'')"
  by (auto simp: has_no_dot_segments_def)

lemma validate_subject_iff:
  "validate_subject dec s = Inr () \<longleftrightarrow>
     s \<noteq> [] \<and> length s \<le> 512 \<and> has_no_dot_segments s = Inr () \<and>
     (CHR ''%'' \<in> set s \<longrightarrow> dec s \<noteq> s \<longrightarrow> has_no_dot_segments (dec s) = Inr ())"
  by (auto simp: validate_subject_def MAX_SUBJECT_LEN_def Let_def)

text \<open>Normalisation keeps the authority of a URL, so the checks hold of the normalised one too.\<close>

lemma trim_end_matches_append:
  "trim_end_matches c (xs @ ys) =
     (if \<forall>y \<in> set ys. y = c then trim_end_matches c xs else xs @ trim_end_matches c ys)"
  by (simp add: trim_end_matches_def dropWhile_append)

lemma trim_end_matches_id: "xs = [] \<or> last xs \<noteq> c \<Longrightarrow> trim_end_matches c xs = xs"
  by (cases xs rule: rev_cases) (auto simp: trim_end_matches_def)

lemma trim_end_matches_hd: "trim_end_matches c xs = [] \<or> (xs \<noteq> [] \<and> hd (trim_end_matches c xs) = hd xs)"
proof (induction xs)
  case (Cons x xs)
  then show ?case using trim_end_matches_append [of c "[x]" xs] trim_end_matches_id [of "[x]" c]
    by (cases "x = c") (auto simp: trim_end_matches_def)
qed (simp add: trim_end_matches_def)

lemma http_url_parts:
  assumes "starts_with url ''http://''"
  obtains a t where "url = ''http'' @ ''://'' @ a @ t" "\<forall>c \<in> set a. \<not> ends_authority c"
    "t = [] \<or> ends_authority (hd t)"
proof
  let ?r = "drop 7 url" and ?p = "\<lambda>c. \<not> ends_authority c"
  have "take 7 url = ''http://''" using assms by (simp add: starts_with_def eval_nat_numeral)
  moreover have "url = take 7 url @ ?r" by simp
  ultimately have "url = ''http://'' @ ?r" by simp
  then show "url = ''http'' @ ''://'' @ takeWhile ?p ?r @ dropWhile ?p ?r" by simp
  show "\<forall>c \<in> set (takeWhile ?p ?r). ?p c" by (auto dest: set_takeWhileD)
  show "dropWhile ?p ?r = [] \<or> ends_authority (hd (dropWhile ?p ?r))"
    using hd_dropWhile [of ?p ?r] by blast
qed

lemma authority_normalized:
  assumes "starts_with url ''http://''" and "authority_of url = Some a" and "a \<noteq> []"
  shows "authority_of (normalize_url url) = Some a"
proof -
  obtain b t where u: "url = ''http'' @ ''://'' @ b @ t" "\<forall>c \<in> set b. \<not> ends_authority c"
    "t = [] \<or> ends_authority (hd t)"
    by (rule http_url_parts [OF assms(1)])
  have "b = a" using authority_of_url [of "''http''", OF _ u(2,3)] assms(2) u(1) by simp
  then have "last (''http://'' @ b) \<noteq> CHR ''/''"
    using u(2) assms(3) last_in_set [of b] by (auto simp: ends_authority_def)
  then have "normalize_url url = ''http'' @ ''://'' @ b @ (if \<forall>c \<in> set t. c = CHR ''/'' then [] else trim_end_matches CHR ''/'' t)"
    using trim_end_matches_append [of "CHR ''/''" "''http://'' @ b" t] trim_end_matches_id [of "''http://'' @ b" "CHR ''/''"]
    unfolding normalize_url_def u(1) by simp
  moreover have "trim_end_matches CHR ''/'' t = [] \<or> ends_authority (hd (trim_end_matches CHR ''/'' t))"
    using trim_end_matches_hd [of "CHR ''/''" t] u(3) by auto
  ultimately show ?thesis
    using authority_of_url [of "''http''", OF _ u(2)] \<open>b = a\<close> by simp
qed

lemma no_loopback_empty: "\<not> ip_is_loopback []"
  by code_simp

lemma checks_normalized:
  assumes "starts_with url ''http://''" and "is_loopback_host url"
  shows "is_loopback_host (normalize_url url) \<and>
    reject_embedded_credentials (normalize_url url) = reject_embedded_credentials url"
proof -
  obtain a where a: "authority_of url = Some a"
    using assms(2) by (auto simp: is_loopback_host_def split: option.splits)
  have "a \<noteq> []"
    using assms(2) a no_loopback_empty
    by (auto simp: is_loopback_host_def host_of_def strip_prefix_def starts_with_def eq_ignore_ascii_case_def)
  from authority_normalized [OF assms(1) a this] a assms(2) show ?thesis
    by (simp add: is_loopback_host_def reject_embedded_credentials_def)
qed

text \<open>A prefix of a URL that passes the credentials check passes it, and normalisation takes a prefix.\<close>

lemma str_find_bound: "str_find p xs = Some n \<Longrightarrow> n + length p \<le> length xs"
proof (induction xs arbitrary: n)
  case (Cons x xs)
  then show ?case
    by (auto simp: starts_with_def split: if_splits option.splits) (metis length_Cons length_take min.cobounded1)
qed (simp split: if_splits)

lemma str_find_append: "str_find p xs = Some n \<Longrightarrow> str_find p (xs @ ys) = Some n"
proof (induction xs arbitrary: n)
  case (Cons x xs)
  have "length p \<le> length (x # xs)" using str_find_bound [OF Cons.prems] by linarith
  then have "starts_with (x # xs @ ys) p = starts_with (x # xs) p"
    by (cases p) (simp_all add: starts_with_def)
  with Cons show ?case by (auto split: if_splits option.splits)
qed (cases ys; simp add: starts_with_def split: if_splits)

lemma authority_takeWhile:
  "authority_of url =
     map_option (\<lambda>n. takeWhile (\<lambda>c. \<not> ends_authority c) (drop (n + 3) url)) (str_find ''://'' url)"
  by (simp add: authority_of_def Let_def find_char_takeWhile split: option.splits)

lemma reject_credentials_prefix:
  assumes "reject_embedded_credentials (url @ rest) = Inr ()" shows "reject_embedded_credentials url = Inr ()"
proof (cases "str_find ''://'' url")
  case (Some n)
  let ?p = "\<lambda>c. \<not> ends_authority c"
  have "n + 3 \<le> length url" using str_find_bound [OF Some] by simp
  then have "takeWhile ?p (drop (n + 3) (url @ rest)) = takeWhile ?p (drop (n + 3) url @ rest)" by simp
  moreover have "set (takeWhile ?p (drop (n + 3) url)) \<subseteq> set (takeWhile ?p (drop (n + 3) url @ rest))"
    by (auto simp: takeWhile_append dest: set_takeWhileD)
  ultimately show ?thesis
    using assms Some str_find_append [OF Some, of rest]
    by (auto simp: reject_embedded_credentials_def authority_takeWhile split: if_splits)
qed (simp add: reject_embedded_credentials_def authority_takeWhile)

lemma trim_end_matches_prefix: "\<exists>rest. s = trim_end_matches c s @ rest"
proof
  show "s = trim_end_matches c s @ rev (takeWhile (\<lambda>x. x = c) (rev s))"
    unfolding trim_end_matches_def rev_append [symmetric] takeWhile_dropWhile_id by simp
qed

lemma reject_credentials_normalized:
  "reject_embedded_credentials url = Inr () \<Longrightarrow> reject_embedded_credentials (normalize_url url) = Inr ()"
  unfolding normalize_url_def using trim_end_matches_prefix [of url "CHR ''/''"] reject_credentials_prefix by metis

text \<open>What \<open>utf8_percent_encode\<close> documents: a byte that is not ASCII or in the set becomes \<open>%XX\<close>.\<close>

definition hex_digit :: "nat \<Rightarrow> char" where
  "hex_digit d = ''0123456789ABCDEF'' ! d"

definition percent_byte :: "char \<Rightarrow> string" where
  "percent_byte c = [CHR ''%'', hex_digit ((of_char c :: nat) div 16), hex_digit ((of_char c :: nat) mod 16)]"

definition encode_documented :: "(char \<Rightarrow> bool) \<Rightarrow> string \<Rightarrow> string" where
  "encode_documented P s = concat (map (\<lambda>c. if P c \<or> 128 \<le> (of_char c :: nat) then percent_byte c else [c]) s)"

lemma hex_digit_set: "d < 16 \<Longrightarrow> hex_digit d \<in> set ''0123456789ABCDEF''"
  unfolding hex_digit_def by (rule nth_mem) simp

lemma percent_byte_chars:
  assumes "x \<in> set (percent_byte c)"
  shows "x = CHR ''%'' \<or> x \<in> set ''0123456789ABCDEF''"
proof -
  have "(of_char c :: nat) div 16 < 16" "(of_char c :: nat) mod 16 < 16"
    using nat_of_char_less_256 [of c] by (simp_all add: less_mult_imp_div_less)
  note hex_digit_set [OF this(1)] hex_digit_set [OF this(2)]
  moreover have "x \<in> {CHR ''%'', hex_digit ((of_char c :: nat) div 16), hex_digit ((of_char c :: nat) mod 16)}"
    using assms by (simp add: percent_byte_def)
  ultimately show ?thesis by blast
qed

lemma encoded_chars:
  assumes "x \<in> set (encode_documented PATH_SEGMENT_ENCODE_SET s)"
  shows "x \<noteq> CHR ''/'' \<and> x \<noteq> CHR ''?'' \<and> x \<noteq> CHR ''#''"
proof -
  obtain c where c: "c \<in> set s"
    "x \<in> set (if PATH_SEGMENT_ENCODE_SET c \<or> 128 \<le> (of_char c :: nat) then percent_byte c else [c])"
    using assms by (auto simp: encode_documented_def)
  show ?thesis
  proof (cases "PATH_SEGMENT_ENCODE_SET c \<or> 128 \<le> (of_char c :: nat)")
    case True
    then show ?thesis using c(2) percent_byte_chars [of x c] by auto
  next
    case False
    then show ?thesis using c(2) by (auto simp: PATH_SEGMENT_ENCODE_SET_def)
  qed
qed

lemma encoded_plain:
  assumes "CHR ''%'' \<notin> set (encode_documented P s)"
  shows "encode_documented P s = s"
  using assms by (induction s) (auto simp: encode_documented_def percent_byte_def split: if_splits)

lemma encode_nonempty: "s \<noteq> [] \<Longrightarrow> encode_documented P s \<noteq> []"
  by (cases s) (auto simp: encode_documented_def percent_byte_def)

text \<open>An accepted subject is one segment of the path it is put in.\<close>

lemma subject_segment:
  assumes "validate_subject dec s = Inr ()"
    and "utf8_percent_encode PATH_SEGMENT_ENCODE_SET s = encode_documented PATH_SEGMENT_ENCODE_SET s"
    and "CHR ''/'' \<notin> set before" and "CHR ''/'' \<notin> set after"
  shows "split_on (\<lambda>c. c = CHR ''/'') (before @ ''/'' @ percent_encode utf8_percent_encode s @ ''/'' @ after) =
      [before, percent_encode utf8_percent_encode s, after] \<and>
    percent_encode utf8_percent_encode s \<notin> {[], ''.'', ''..''} \<and>
    CHR ''?'' \<notin> set (percent_encode utf8_percent_encode s) \<and> CHR ''#'' \<notin> set (percent_encode utf8_percent_encode s) \<and>
    (CHR ''%'' \<in> set s \<longrightarrow> (\<forall>seg \<in> set (split_on is_slash (dec s)). seg \<noteq> ''..'' \<and> seg \<noteq> ''.''))"
proof -
  let ?e = "encode_documented PATH_SEGMENT_ENCODE_SET s"
  have s: "s \<noteq> []" "\<forall>seg \<in> set (split_on is_slash s). seg \<noteq> ''..'' \<and> seg \<noteq> ''.''"
    "CHR ''%'' \<in> set s \<longrightarrow> dec s \<noteq> s \<longrightarrow> (\<forall>seg \<in> set (split_on is_slash (dec s)). seg \<noteq> ''..'' \<and> seg \<noteq> ''.'')"
    using assms(1) unfolding validate_subject_iff no_dot_segments_iff by blast+
  have chars: "CHR ''/'' \<notin> set ?e" "CHR ''?'' \<notin> set ?e" "CHR ''#'' \<notin> set ?e"
    using encoded_chars by blast+
  have "?e \<noteq> x" if x: "x = ''.'' \<or> x = ''..''" for x
  proof
    assume "?e = x"
    moreover from this have "?e = s" using x by (intro encoded_plain) auto
    moreover have "split_on is_slash x = [x]" by (rule split_on_no_sep) (use x in \<open>auto simp: is_slash_def\<close>)
    ultimately show False using s(2) x by auto
  qed
  moreover have "split_on (\<lambda>c. c = CHR ''/'') (before @ ''/'' @ ?e @ ''/'' @ after) = [before, ?e, after]"
  proof -
    have plain: "split_on (\<lambda>c. c = CHR ''/'') t = [t]" if "CHR ''/'' \<notin> set t" for t
      by (rule split_on_no_sep) (use that in auto)
    show ?thesis
      using split_on_append_sep [of "\<lambda>c. c = CHR ''/''" "CHR ''/''" before "?e @ ''/'' @ after"]
        split_on_append_sep [of "\<lambda>c. c = CHR ''/''" "CHR ''/''" ?e after]
        plain [OF assms(3)] plain [OF assms(4)] plain [OF chars(1)] by simp
  qed
  moreover have "?e \<noteq> []" by (rule encode_nonempty [OF s(1)])
  ultimately show ?thesis
    using chars s(2,3) unfolding percent_encode_def assms(2) by (cases "dec s = s") auto
qed

section \<open>Properties\<close>

text \<open>
  C33. A validated subject cannot leave its path segment. When \<open>validate_subject\<close> accepts a
  subject and the encoder does what its crate documents, the request path built around the
  encoded subject has exactly the segments the client wrote: the subject's is not empty, not
  \<open>.\<close> or \<open>..\<close>, and starts no query or fragment; and a server that decodes the path twice sees
  no such segment either.
\<close>

theorem validated_subject_is_one_segment:
  assumes "validate_subject dec s = Inr ()"
    and "utf8_percent_encode PATH_SEGMENT_ENCODE_SET s = encode_documented PATH_SEGMENT_ENCODE_SET s"
    and "CHR ''/'' \<notin> set before" and "CHR ''/'' \<notin> set after"
  shows "split_on (\<lambda>c. c = CHR ''/'') (before @ ''/'' @ percent_encode utf8_percent_encode s @ ''/'' @ after) =
      [before, percent_encode utf8_percent_encode s, after] \<and>
    percent_encode utf8_percent_encode s \<notin> {[], ''.'', ''..''} \<and>
    CHR ''?'' \<notin> set (percent_encode utf8_percent_encode s) \<and> CHR ''#'' \<notin> set (percent_encode utf8_percent_encode s) \<and>
    (CHR ''%'' \<in> set s \<longrightarrow> (\<forall>seg \<in> set (split_on is_slash (dec s)). seg \<noteq> ''..'' \<and> seg \<noteq> ''.''))"
  using assms by (rule subject_segment)

theorem validated_subject_is_one_segment_witness:
  "split_on (\<lambda>c. c = CHR ''/'') (''subjects/'' @ percent_encode encode_documented ''a b'' @ ''/versions'') =
     [''subjects'', percent_encode encode_documented ''a b'', ''versions'']"
proof -
  have "validate_subject (\<lambda>s. s) ''a b'' = Inr ()"
    by (simp add: validate_subject_iff no_dot_segments_iff is_slash_def)
  then show ?thesis
    using validated_subject_is_one_segment [of "\<lambda>s. s" "''a b''" encode_documented "''subjects''" "''versions''"]
    by simp
qed

text \<open>
  The checks of the registry URL look at the host and at nothing else. For a URL
  \<open>scheme://host[:port]\<close> followed by any path, query or fragment, whatever those hold, the
  loopback test is the test of the host alone, and credentials are rejected exactly when the
  authority holds an \<open>@\<close>.
\<close>

theorem url_checks_on_host:
  assumes "CHR '':'' \<notin> set scheme"
    and "\<forall>c \<in> set (host @ port). \<not> ends_authority c \<and> c \<noteq> CHR ''@''"
    and "CHR '':'' \<notin> set host" and "CHR ''['' \<notin> set host"
    and "port = [] \<or> hd port = CHR '':''" and "tail = [] \<or> ends_authority (hd tail)"
    and "\<forall>c \<in> set user. \<not> ends_authority c"
  shows "is_loopback_host (scheme @ ''://'' @ host @ port @ tail) =
      (eq_ignore_ascii_case host ''localhost'' \<or> ip_is_loopback host) \<and>
    reject_embedded_credentials (scheme @ ''://'' @ host @ port @ tail) = Inr () \<and>
    reject_embedded_credentials (scheme @ ''://'' @ user @ ''@'' @ host @ port @ tail) =
      Inl (Config (Http_Msg EmbeddedCredentials))"
proof -
  have au: "authority_of (scheme @ ''://'' @ (host @ port) @ tail) = Some (host @ port)"
    by (rule authority_of_url) (use assms in auto)
  have au2: "authority_of (scheme @ ''://'' @ (user @ ''@'' @ host @ port) @ tail) = Some (user @ ''@'' @ host @ port)"
    by (rule authority_of_url) (use assms in \<open>auto simp: ends_authority_def\<close>)
  have h: "host_of (host @ port) = host"
    by (rule host_of_plain) (use assms in auto)
  have "CHR ''@'' \<notin> set (host @ port)" using assms(2) by blast
  then show ?thesis
    using au au2 h by (simp add: is_loopback_host_def reject_embedded_credentials_def)
qed

theorem url_checks_on_host_witness:
  "is_loopback_host ''http://127.0.0.1:8081/apis?u=@x'' \<and> \<not> is_loopback_host ''http://localhost.evil.com/127.0.0.1''"
proof
  show "is_loopback_host ''http://127.0.0.1:8081/apis?u=@x''"
    using url_checks_on_host [of "''http''" "''127.0.0.1''" "'':8081''" "''/apis?u=@x''" "[]"]
    by (simp add: ends_authority_def ip_is_loopback_def parse_ipv4_def parse_octet_def parse_nat_digits_def
        digit_val_def)
  show "\<not> is_loopback_host ''http://localhost.evil.com/127.0.0.1''"
    using url_checks_on_host [of "''http''" "''localhost.evil.com''" "[]" "''/127.0.0.1''" "[]"]
    by (simp add: ends_authority_def ip_is_loopback_def parse_ipv4_def parse_octet_def parse_nat_digits_def
        digit_val_def eq_ignore_ascii_case_def parse_ipv6_def pieces_def parse_hex_group_def starts_with_def)
qed

end
