(* ===== verification/Retry.thy ===== *)
theory Retry
  imports Errors
begin

text \<open>
  The retry policy (\<open>src/retry.rs\<close>). A \<open>Duration\<close> is its number of nanoseconds. The \<open>u64\<close>
  arithmetic on milliseconds saturates wherever the source says so, and is written with its
  bound; nothing else in it can exceed 64 bits. The seed of \<open>random_u64_below\<close> is a parameter.
\<close>

definition U64_MAX :: nat where "U64_MAX = 2 ^ 64 - 1"

definition from_millis :: "nat \<Rightarrow> nat" where "from_millis ms = ms * 1000000"

definition DEFAULT_MAX_RETRIES :: nat where "DEFAULT_MAX_RETRIES = 3"
definition DEFAULT_BASE_BACKOFF :: nat where "DEFAULT_BASE_BACKOFF = from_millis 100"
definition DEFAULT_MAX_BACKOFF :: nat where "DEFAULT_MAX_BACKOFF = from_millis 60000"

record retry_policy =
  rp_max_retries :: nat
  rp_base_backoff :: nat
  rp_max_backoff :: nat
  rp_honor_retry_after :: bool
  rp_jitter :: bool

definition policy_default :: retry_policy where
  "policy_default =
     \<lparr>rp_max_retries = DEFAULT_MAX_RETRIES, rp_base_backoff = DEFAULT_BASE_BACKOFF,
      rp_max_backoff = DEFAULT_MAX_BACKOFF, rp_honor_retry_after = True, rp_jitter = True\<rparr>"

definition policy_new :: retry_policy where
  "policy_new = policy_default"

definition policy_max_retries_value :: "retry_policy \<Rightarrow> nat" where
  "policy_max_retries_value p = rp_max_retries p"

definition policy_none :: retry_policy where
  "policy_none = policy_default\<lparr>rp_max_retries := 0\<rparr>"

definition policy_max_retries :: "nat \<Rightarrow> retry_policy \<Rightarrow> retry_policy" where
  "policy_max_retries n p = p\<lparr>rp_max_retries := n\<rparr>"

definition policy_base_backoff :: "nat \<Rightarrow> retry_policy \<Rightarrow> retry_policy" where
  "policy_base_backoff d p = p\<lparr>rp_base_backoff := d\<rparr>"

definition policy_max_backoff :: "nat \<Rightarrow> retry_policy \<Rightarrow> retry_policy" where
  "policy_max_backoff d p = p\<lparr>rp_max_backoff := d\<rparr>"

definition policy_honor_retry_after :: "bool \<Rightarrow> retry_policy \<Rightarrow> retry_policy" where
  "policy_honor_retry_after b p = p\<lparr>rp_honor_retry_after := b\<rparr>"

definition policy_jitter :: "bool \<Rightarrow> retry_policy \<Rightarrow> retry_policy" where
  "policy_jitter b p = p\<lparr>rp_jitter := b\<rparr>"

definition as_millis_u64 :: "nat \<Rightarrow> nat" where
  "as_millis_u64 d = min (d div 1000000) U64_MAX"

definition saturating_mul :: "nat \<Rightarrow> nat \<Rightarrow> nat" where
  "saturating_mul a b = min (a * b) U64_MAX"

definition checked_shl_one :: "nat \<Rightarrow> nat option" where
  "checked_shl_one n = (if n < 64 then Some (2 ^ n) else None)"

definition random_u64_below :: "nat \<Rightarrow> nat \<Rightarrow> nat" where
  "random_u64_below seed bound = (if bound = 0 then 0 else seed mod bound)"

definition delay_for :: "nat \<Rightarrow> retry_policy \<Rightarrow> nat \<Rightarrow> nat option \<Rightarrow> nat" where
  "delay_for seed p attempt retry_after_ms =
     (let max_ms = as_millis_u64 (rp_max_backoff p)
      in case (if rp_honor_retry_after p then retry_after_ms else None) of
           Some server_ms \<Rightarrow> from_millis (min server_ms max_ms)
         | None \<Rightarrow>
             (let base_ms = as_millis_u64 (rp_base_backoff p);
                  uncapped = saturating_mul base_ms
                    (case checked_shl_one attempt of Some n \<Rightarrow> n | None \<Rightarrow> U64_MAX);
                  capped = min uncapped max_ms
              in if \<not> rp_jitter p \<or> capped = 0 then from_millis capped
                 else let half = capped div 2
                      in from_millis (half + random_u64_below seed (min (half + 1) U64_MAX))))"

section \<open>Lemmas\<close>

lemma as_millis_bound: "as_millis_u64 d \<le> U64_MAX"
  by (simp add: as_millis_u64_def)

text \<open>The saturating arithmetic is exact below the cap: doubling never wraps.\<close>

lemma capped_exact:
  assumes "max_ms \<le> U64_MAX"
  shows "min (saturating_mul base (case checked_shl_one n of Some k \<Rightarrow> k | None \<Rightarrow> U64_MAX)) max_ms =
    min (base * 2 ^ n) max_ms"
proof (cases "n < 64")
  case True
  then show ?thesis using assms by (simp add: checked_shl_one_def saturating_mul_def min_def)
next
  case False
  show ?thesis
  proof (cases "base = 0")
    case False
    then have b: "1 \<le> base" by simp
    have "(2 :: nat) ^ 64 \<le> 2 ^ n" using \<open>\<not> n < 64\<close> by (intro power_increasing) auto
    then have "U64_MAX \<le> 2 ^ n" by (simp add: U64_MAX_def)
    also have "2 ^ n \<le> base * 2 ^ n" using b by simp
    finally have big: "U64_MAX \<le> base * 2 ^ n" .
    have "U64_MAX \<le> base * U64_MAX" using b by simp
    then have "saturating_mul base U64_MAX = U64_MAX" by (simp add: saturating_mul_def)
    then show ?thesis
      using big assms \<open>\<not> n < 64\<close> by (simp add: checked_shl_one_def)
  qed (simp add: saturating_mul_def)
qed

definition base_delay :: "retry_policy \<Rightarrow> nat \<Rightarrow> nat" where
  "base_delay p n = min (as_millis_u64 (rp_base_backoff p) * 2 ^ n) (as_millis_u64 (rp_max_backoff p))"

lemma half_plus_random:
  assumes "c \<le> U64_MAX"
  shows "c div 2 \<le> c div 2 + random_u64_below seed (min (c div 2 + 1) U64_MAX) \<and>
    c div 2 + random_u64_below seed (min (c div 2 + 1) U64_MAX) \<le> c"
proof -
  have "min (c div 2 + 1) U64_MAX = c div 2 + 1"
    using assms by (simp add: U64_MAX_def)
  moreover have "seed mod (c div 2 + 1) \<le> c div 2"
    by (metis less_Suc_eq_le Suc_eq_plus1 mod_less_divisor zero_less_Suc)
  ultimately have "random_u64_below seed (min (c div 2 + 1) U64_MAX) \<le> c div 2"
    by (simp add: random_u64_below_def)
  then show ?thesis by linarith
qed

section \<open>Properties\<close>

text \<open>
  C37. Back-off. The delay before the retry after attempt \<open>n\<close> is what the policy documents, in
  unbounded arithmetic and for every \<open>n\<close>: a server's \<open>Retry-After\<close> as it is, only capped, when
  the policy honours it; otherwise \<open>base * 2 ^ n\<close> capped, exactly when jitter is off, and with
  jitter a value between half of it and it.
\<close>

theorem delay_for_exact:
  "(rp_honor_retry_after p \<longrightarrow>
      delay_for seed p n (Some ms) = from_millis (min ms (as_millis_u64 (rp_max_backoff p)))) \<and>
   (\<not> rp_jitter p \<longrightarrow> delay_for seed p n None = from_millis (base_delay p n)) \<and>
   from_millis (base_delay p n div 2) \<le> delay_for seed p n None \<and>
   delay_for seed p n None \<le> from_millis (base_delay p n) \<and>
   (\<not> rp_honor_retry_after p \<longrightarrow> delay_for seed p n (Some ms) = delay_for seed p n None)"
proof -
  have e: "min (saturating_mul (as_millis_u64 (rp_base_backoff p))
      (case checked_shl_one n of Some k \<Rightarrow> k | None \<Rightarrow> U64_MAX)) (as_millis_u64 (rp_max_backoff p)) = base_delay p n"
    by (simp add: base_delay_def capped_exact as_millis_bound)
  have le: "base_delay p n \<le> U64_MAX"
    unfolding base_delay_def using as_millis_bound by (meson min.coboundedI2)
  show ?thesis
    using half_plus_random [OF le, of seed]
    by (simp add: delay_for_def Let_def e) (simp add: from_millis_def)
qed

theorem delay_for_exact_witness:
  "delay_for 5 (policy_default\<lparr>rp_jitter := False\<rparr>) 70 None = from_millis 60000"
  using delay_for_exact [of "policy_default\<lparr>rp_jitter := False\<rparr>" 5 70 0]
  by (simp add: base_delay_def policy_default_def DEFAULT_BASE_BACKOFF_def DEFAULT_MAX_BACKOFF_def
      as_millis_u64_def from_millis_def U64_MAX_def)

end
