(* ===== verification/Calendar.thy ===== *)
theory Calendar
  imports Errors
begin

text \<open>
  The \<open>Retry-After\<close> date arithmetic of \<open>src/http.rs\<close>: \<open>days_from_civil\<close>,
  \<open>parse_http_date_unix_secs\<close> and \<open>parse_retry_after_ms\<close>.

  An \<open>i64\<close> is the \<^typ>\<open>int\<close> it stands for, and \<open>wrap64\<close> is two's complement wrap-around at
  64 bits, applied to the result of every operator, which is what a release build computes (a
  build with overflow checks stops with a panic exactly where \<open>wrap64\<close> changes a result).
  \<open>trunc_div\<close> and \<open>trunc_mod\<close> are Rust's \<open>/\<close> and \<open>%\<close>, which round towards zero.
\<close>

definition wrap64 :: "int \<Rightarrow> int" where
  "wrap64 k = (k + 2 ^ 63) mod 2 ^ 64 - 2 ^ 63"

definition i64_add :: "int \<Rightarrow> int \<Rightarrow> int" where
  "i64_add a b = wrap64 (a + b)"

definition i64_sub :: "int \<Rightarrow> int \<Rightarrow> int" where
  "i64_sub a b = wrap64 (a - b)"

definition i64_mul :: "int \<Rightarrow> int \<Rightarrow> int" where
  "i64_mul a b = wrap64 (a * b)"

definition trunc_div :: "int \<Rightarrow> int \<Rightarrow> int" where
  "trunc_div a b = (if (a < 0) = (b < 0) then \<bar>a\<bar> div \<bar>b\<bar> else - (\<bar>a\<bar> div \<bar>b\<bar>))"

definition trunc_mod :: "int \<Rightarrow> int \<Rightarrow> int" where
  "trunc_mod a b = a - trunc_div a b * b"

text \<open>The divisors of this code are positive literals, for which neither operator can overflow.\<close>

definition days_from_civil :: "int \<Rightarrow> int \<Rightarrow> int \<Rightarrow> int" where
  "days_from_civil year month day =
     (let y = if month \<le> 2 then i64_sub year 1 else year;
          era = trunc_div (if 0 \<le> y then y else i64_sub y 399) 400;
          yoe = i64_sub y (i64_mul era 400);
          mp = trunc_mod (i64_add month 9) 12;
          doy = i64_sub (i64_add (trunc_div (i64_add (i64_mul 153 mp) 2) 5) day) 1;
          doe = i64_add (i64_sub (i64_add (i64_mul yoe 365) (trunc_div yoe 4)) (trunc_div yoe 100)) doy
      in i64_sub (i64_add (i64_mul era 146097) doe) 719468)"

text \<open>\<open>str::get(lo..hi)\<close>: in range and on character boundaries.\<close>

definition char_boundary :: "string \<Rightarrow> nat \<Rightarrow> bool" where
  "char_boundary s i \<longleftrightarrow>
     i = 0 \<or> i = length s \<or> (i < length s \<and> \<not> (128 \<le> (of_char (s ! i) :: nat) \<and> (of_char (s ! i) :: nat) < 192))"

definition str_get :: "nat \<Rightarrow> nat \<Rightarrow> string \<Rightarrow> string option" where
  "str_get lo hi s =
     (if lo \<le> hi \<and> hi \<le> length s \<and> char_boundary s lo \<and> char_boundary s hi
      then Some (take (hi - lo) (drop lo s)) else None)"

definition date_num :: "string \<Rightarrow> nat \<Rightarrow> nat \<Rightarrow> int option" where
  "date_num value lo hi = Option.bind (str_get lo hi value) (parse_signed 64)"

definition MONTHS :: "string list" where
  "MONTHS = [''Jan'', ''Feb'', ''Mar'', ''Apr'', ''May'', ''Jun'',
     ''Jul'', ''Aug'', ''Sep'', ''Oct'', ''Nov'', ''Dec'']"

fun position :: "string \<Rightarrow> string list \<Rightarrow> nat option" where
  "position x [] = None"
| "position x (y # ys) = (if y = x then Some 0 else map_option Suc (position x ys))"

definition parse_http_date_unix_secs :: "string \<Rightarrow> int option" where
  "parse_http_date_unix_secs value =
     (if length value \<noteq> 29 \<or> \<not> ends_with value '' GMT'' \<or> value ! 3 \<noteq> CHR '','' \<or> value ! 4 \<noteq> CHR '' ''
      then None
      else
        Option.bind (date_num value 5 7) (\<lambda>day.
        Option.bind (date_num value 12 16) (\<lambda>year.
        Option.bind (date_num value 17 19) (\<lambda>hour.
        Option.bind (date_num value 20 22) (\<lambda>min.
        Option.bind (date_num value 23 25) (\<lambda>sec.
        Option.bind (str_get 8 11 value) (\<lambda>month_name.
        Option.bind (position month_name MONTHS) (\<lambda>i.
          let month = int i + 1
          in if \<not> (1 \<le> day \<and> day \<le> 31) \<or> \<not> (0 \<le> hour \<and> hour \<le> 23) \<or> \<not> (0 \<le> min \<and> min \<le> 59)
                \<or> \<not> (0 \<le> sec \<and> sec \<le> 60)
             then None
             else Some (i64_add (i64_add (i64_add (i64_mul (days_from_civil year month day) 86400)
                      (i64_mul hour 3600)) (i64_mul min 60)) sec)))))))))"

text \<open>
  \<open>now\<close> is the local clock in whole seconds of Unix time, if it is past the epoch; the cast
  \<open>as i64\<close> wraps, and so does the product by 1000 in \<open>u64\<close>.
\<close>

definition parse_retry_after_ms :: "nat option \<Rightarrow> string \<Rightarrow> nat option" where
  "parse_retry_after_ms now value =
     (let value = str_trim value
      in case parse_unsigned 64 value of
           Some secs \<Rightarrow> Some (min (secs * 1000) (2 ^ 64 - 1))
         | None \<Rightarrow>
             Option.bind (parse_http_date_unix_secs value) (\<lambda>target.
             Option.bind now (\<lambda>now.
               Some (nat (max (i64_sub target (wrap64 (int now))) 0) * 1000 mod 2 ^ 64))))"

section \<open>The calendar\<close>

definition leap :: "int \<Rightarrow> bool" where
  "leap y \<longleftrightarrow> y mod 4 = 0 \<and> (y mod 100 \<noteq> 0 \<or> y mod 400 = 0)"

definition month_days :: "int \<Rightarrow> int \<Rightarrow> int" where
  "month_days y m = (if m = 2 then (if leap y then 29 else 28) else if m \<in> {4, 6, 9, 11} then 30 else 31)"

definition valid_date :: "int \<times> int \<times> int \<Rightarrow> bool" where
  "valid_date date = (case date of (y, m, d) \<Rightarrow> 1 \<le> m \<and> m \<le> 12 \<and> 1 \<le> d \<and> d \<le> month_days y m)"

fun next_day :: "int \<times> int \<times> int \<Rightarrow> int \<times> int \<times> int" where
  "next_day (y, m, d) =
     (if d < month_days y m then (y, m, d + 1) else if m < 12 then (y, m + 1, 1) else (y + 1, 1, 1))"

text \<open>The same formula on unbounded integers, with rounding down: a reference for the proofs.\<close>

definition civil_days :: "int \<Rightarrow> int \<Rightarrow> int \<Rightarrow> int" where
  "civil_days year month day =
     (let y = if month \<le> 2 then year - 1 else year;
          era = y div 400;
          yoe = y - era * 400;
          mp = (month + 9) mod 12;
          doy = (153 * mp + 2) div 5 + day - 1;
          doe = yoe * 365 + yoe div 4 - yoe div 100 + doy
      in era * 146097 + doe - 719468)"

lemma trunc_div_pos: "0 \<le> a \<Longrightarrow> 0 < b \<Longrightarrow> trunc_div a b = a div b"
  by (auto simp: trunc_div_def)

lemma era_floor: "trunc_div (if 0 \<le> y then y else y - 399) 400 = y div 400"
  by (auto simp: trunc_div_def abs_if)

lemma wrap64_id: "- (2 ^ 63) \<le> k \<Longrightarrow> k < 2 ^ 63 \<Longrightarrow> wrap64 k = k"
  by (simp add: wrap64_def)

lemma in_i64:
  fixes k :: int
  assumes "\<bar>k\<bar> \<le> 9200000000000000000"
  shows "wrap64 k = k"
  by (rule wrap64_id) (use assms in auto)

text \<open>Within the bound no operator of the code wraps, so the code is the reference.\<close>

definition YEAR_BOUND :: int where
  "YEAR_BOUND = 25000000000000000"

lemma days_exact:
  assumes year: "\<bar>year\<bar> \<le> YEAR_BOUND" and month: "1 \<le> month" "month \<le> 12" and day: "\<bar>day\<bar> \<le> 31"
  shows "days_from_civil year month day = civil_days year month day"
proof -
  have year': "- 25000000000000000 \<le> year" "year \<le> 25000000000000000"
    using year by (auto simp: YEAR_BOUND_def)
  have day': "- 31 \<le> day" "day \<le> 31" using day by auto
  define y where "y = (if month \<le> 2 then year - 1 else year)"
  have y: "- 25000000000000001 \<le> y" "y \<le> 25000000000000000" using year' by (auto simp: y_def)
  define era where "era = y div 400"
  have era: "- 62500000000001 \<le> era" "era \<le> 62500000000000" "0 \<le> y - era * 400" "y - era * 400 \<le> 399"
    using y div_mult_mod_eq [of y 400] pos_mod_bound [of 400 y] pos_mod_sign [of 400 y]
    unfolding era_def by linarith+
  define yoe where "yoe = y - era * 400"
  have yoe: "0 \<le> yoe" "yoe \<le> 399" using era by (simp_all add: yoe_def)
  define mp where "mp = (month + 9) mod 12"
  have mp: "0 \<le> mp" "mp \<le> 11" by (simp_all add: mp_def)
  define q where "q = (153 * mp + 2) div 5"
  have q: "0 \<le> q" "q \<le> 337"
    using mp div_mult_mod_eq [of "153 * mp + 2" 5] pos_mod_bound [of 5 "153 * mp + 2"]
      pos_mod_sign [of 5 "153 * mp + 2"]
    unfolding q_def by linarith+
  define q4 where "q4 = yoe div 4"
  define q100 where "q100 = yoe div 100"
  have q4: "0 \<le> q4" "q4 \<le> 99" and q100: "0 \<le> q100" "q100 \<le> 3"
    using yoe unfolding q4_def q100_def by linarith+
  have e_mul: "\<bar>era * 400\<bar> \<le> 25000000000000400" "\<bar>era * 146097\<bar> \<le> 9131062500000146097"
    using era(1,2) by linarith+
  have 1: "(if month \<le> 2 then i64_sub year 1 else year) = y"
    using year' by (simp add: i64_sub_def in_i64 y_def)
  have 2: "trunc_div (if 0 \<le> y then y else i64_sub y 399) 400 = era"
  proof -
    have "(if 0 \<le> y then y else i64_sub y 399) = (if 0 \<le> y then y else y - 399)"
      using y by (simp add: i64_sub_def in_i64)
    then show ?thesis by (simp only: era_floor era_def)
  qed
  have 3: "i64_sub y (i64_mul era 400) = yoe"
    using e_mul(1) yoe by (simp add: i64_sub_def i64_mul_def in_i64 flip: yoe_def)
  have 4: "trunc_mod (i64_add month 9) 12 = mp"
    using month by (simp add: i64_add_def in_i64 trunc_mod_def trunc_div_pos mp_def minus_div_mult_eq_mod)
  have 5: "trunc_div (i64_add (i64_mul 153 mp) 2) 5 = q"
    using mp by (simp add: i64_add_def i64_mul_def in_i64 trunc_div_pos q_def)
  have 6: "i64_sub (i64_add q day) 1 = q + day - 1"
    using q day' by (simp add: i64_add_def i64_sub_def in_i64)
  have 7: "trunc_div yoe 4 = q4" "trunc_div yoe 100 = q100"
    using yoe by (simp_all add: trunc_div_pos q4_def q100_def)
  have 8: "i64_add (i64_sub (i64_add (i64_mul yoe 365) q4) q100) (q + day - 1) = yoe * 365 + q4 - q100 + (q + day - 1)"
    using yoe q4 q100 q day' by (simp add: i64_add_def i64_sub_def i64_mul_def in_i64)
  have 9: "i64_sub (i64_add (i64_mul era 146097) (yoe * 365 + q4 - q100 + (q + day - 1))) 719468 =
      era * 146097 + (yoe * 365 + q4 - q100 + (q + day - 1)) - 719468"
  proof -
    define doe where "doe = yoe * 365 + q4 - q100 + (q + day - 1)"
    have "\<bar>doe\<bar> \<le> 200000" using yoe q4 q100 q day' by (simp add: doe_def abs_le_iff)
    then have "\<bar>era * 146097 + doe\<bar> \<le> 9131062500000400000" "\<bar>era * 146097 + doe - 719468\<bar> \<le> 9131062500002000000"
      using e_mul(2) by linarith+
    then show ?thesis
      using e_mul(2) unfolding i64_sub_def i64_add_def i64_mul_def doe_def [symmetric] by (simp add: in_i64)
  qed
  show ?thesis
    unfolding days_from_civil_def civil_days_def Let_def 1 2 3 4 5 6 7 8 9
    by (simp add: y_def [symmetric] era_def [symmetric] yoe_def [symmetric] mp_def [symmetric]
        q_def [symmetric] q4_def [symmetric] q100_def [symmetric])
qed

lemma mp_values:
  assumes "1 \<le> m" and "m \<le> (12 :: int)"
  shows "(m + 9) mod 12 = (if m \<le> 2 then m + 9 else m - 3)"
  using assms by presburger

text \<open>The closed form: whole years, leap days, and the days of a year that starts in March.\<close>

definition leap_days :: "int \<Rightarrow> int" where
  "leap_days y = y div 4 - y div 100 + y div 400"

lemma div_pred:
  assumes "0 < n"
  shows "y div n - (y - 1) div n = (if y mod n = 0 then 1 else (0 :: int))"
proof (cases "y mod n = 0")
  case True
  then obtain q where q: "y = n * q" by auto
  have "(n * q - 1) div n = q - 1"
    using assms by (intro int_div_pos_eq [of _ _ _ "n - 1"]) (auto simp: right_diff_distrib)
  with True q assms show ?thesis by simp
next
  case False
  have "0 \<le> y mod n" "y mod n < n" using assms by simp_all
  moreover have "y - 1 = n * (y div n) + (y mod n - 1)"
    by (simp add: algebra_simps)
  ultimately have "(y - 1) div n = y div n"
    using False by (intro int_div_pos_eq [of _ _ _ "y mod n - 1"]) auto
  with False show ?thesis by simp
qed

lemma leap_days_step: "leap_days y = leap_days (y - 1) + (if leap y then 1 else 0)"
proof -
  have sum: "a - b + c = a' - b' + c' + (if p \<and> (\<not> q \<or> r) then 1 else 0)"
    if "a - a' = (if p then 1 else 0)" "b - b' = (if q then 1 else 0)" "c - c' = (if r then 1 else 0)"
      "r \<Longrightarrow> q" "q \<Longrightarrow> p" for a a' b b' c c' :: int and p q r
    using that by (auto split: if_splits)
  show ?thesis
    unfolding leap_days_def leap_def
    by (rule sum [OF div_pred div_pred div_pred]) (auto simp flip: dvd_eq_mod_eq_0 intro: dvd_trans)
qed

lemma days_closed:
  assumes "1 \<le> m" and "m \<le> 12"
  shows "civil_days year m d =
    (let y = if m \<le> 2 then year - 1 else year; mp = if m \<le> 2 then m + 9 else m - 3
     in 365 * y + leap_days y + (153 * mp + 2) div 5 + d - 1 - 719468)"
proof -
  define y where "y = (if m \<le> 2 then year - 1 else year)"
  define e where "e = y div 400"
  have "(y - e * 400) div 4 = y div 4 - 100 * e" "(y - e * 400) div 100 = y div 100 - 4 * e"
    using div_mult_self1 [of 4 y "- 100 * e"] div_mult_self1 [of 100 y "- 4 * e"] by simp_all
  then show ?thesis
    unfolding civil_days_def Let_def y_def [symmetric] mp_values [OF assms] e_def [symmetric] leap_days_def
    by simp
qed

lemma month_cases:
  assumes "1 \<le> m" and "m \<le> (12 :: int)"
  shows "m = 1 \<or> m = 2 \<or> m = 3 \<or> m = 4 \<or> m = 5 \<or> m = 6 \<or> m = 7 \<or> m = 8 \<or> m = 9 \<or> m = 10 \<or> m = 11 \<or> m = 12"
  using assms by presburger

lemma days_next_day:
  assumes "valid_date (y, m, d)"
  shows "(case next_day (y, m, d) of (y', m', d') \<Rightarrow> civil_days y' m' d') = civil_days y m d + 1"
proof -
  have m: "1 \<le> m" "m \<le> 12" and d: "1 \<le> d" "d \<le> month_days y m"
    using assms by (auto simp: valid_date_def)
  show ?thesis
  proof (cases "d < month_days y m")
    case True
    then show ?thesis using m by (simp add: days_closed Let_def)
  next
    case False
    then have last: "d = month_days y m" using d by simp
    show ?thesis
      using month_cases [OF m] leap_days_step [of y]
      by (elim disjE; simp add: last month_days_def days_closed Let_def)
  qed
qed

text \<open>The reference is monotone in the year, so small years give small counts.\<close>

lemma civil_days_small:
  assumes "0 \<le> y" "y < 10000" and "1 \<le> m" "m \<le> 12" and "1 \<le> d" "d \<le> 31"
  shows "\<bar>civil_days y m d\<bar> \<le> 5000000"
proof -
  define z where "z = (if m \<le> 2 then y - 1 else y)"
  define mp where "mp = (if m \<le> 2 then m + 9 else m - 3)"
  define q where "q = (153 * mp + 2) div 5"
  have z: "- 1 \<le> z" "z < 10000" and mp: "0 \<le> mp" "mp \<le> 11" using assms by (auto simp: z_def mp_def)
  have q: "0 \<le> q" "q \<le> 337"
    using mp div_mult_mod_eq [of "153 * mp + 2" 5] pos_mod_bound [of 5 "153 * mp + 2"]
      pos_mod_sign [of 5 "153 * mp + 2"]
    unfolding q_def by linarith+
  have l: "- 10000 \<le> leap_days z" "leap_days z \<le> 10000" using z unfolding leap_days_def by linarith+
  have eq: "civil_days y m d = 365 * z + leap_days z + q + d - 1 - 719468"
    using days_closed [OF assms(3,4), of y d] by (simp add: z_def mp_def q_def Let_def)
  show ?thesis unfolding eq abs_le_iff using z q l assms(5,6) by linarith
qed

section \<open>Dates as text\<close>

definition two_digits :: "nat \<Rightarrow> string" where
  "two_digits n = [digit_char (n div 10), digit_char (n mod 10)]"

definition four_digits :: "nat \<Rightarrow> string" where
  "four_digits n = two_digits (n div 100) @ two_digits (n mod 100)"

text \<open>An IMF-fixdate, as RFC 9110 writes it.\<close>

definition imf_fixdate :: "string \<Rightarrow> nat \<Rightarrow> nat \<Rightarrow> nat \<Rightarrow> nat \<Rightarrow> nat \<Rightarrow> nat \<Rightarrow> string" where
  "imf_fixdate day_name day month year hour minute sec =
     day_name @ '', '' @ two_digits day @ '' '' @ MONTHS ! (month - 1) @ '' '' @ four_digits year @ '' '' @
     two_digits hour @ '':'' @ two_digits minute @ '':'' @ two_digits sec @ '' GMT''"

lemma digit_char_ascii [simp]: "d < 10 \<Longrightarrow> digit_char d \<noteq> CHR ''-'' \<and> digit_char d \<noteq> CHR ''+''"
  using of_char_digit [of d] by (auto simp del: of_char_digit)

lemma parse_digits2: "n < 100 \<Longrightarrow> parse_signed 64 (two_digits n) = Some (int n)"
  by (simp add: parse_signed_def two_digits_def parse_nat_digits_def less_mult_imp_div_less)

lemma parse_digits4:
  assumes "n < 10000"
  shows "parse_signed 64 (four_digits n) = Some (int n)"
proof -
  have "n div 100 < 100" "n mod 100 < 100" using assms by (simp_all add: less_mult_imp_div_less)
  moreover have "10 * (10 * (10 * (n div 100 div 10) + n div 100 mod 10) + n mod 100 div 10) + n mod 100 mod 10 = n"
  proof -
    have eq: "10 * (10 * (10 * (a div 10) + a mod 10) + b div 10) + b mod 10 = 100 * a + b" for a b :: nat
    proof -
      have "10 * (10 * (10 * x + y) + z) + w = 100 * (10 * x + y) + (10 * z + w)" for x y z w :: nat by simp
      from this [of "a div 10" "a mod 10" "b div 10" "b mod 10"] show ?thesis
        by (simp only: mult_div_mod_eq)
    qed
    show ?thesis unfolding eq by simp
  qed
  ultimately show ?thesis
    using assms by (simp add: parse_signed_def four_digits_def two_digits_def parse_nat_digits_def
        less_mult_imp_div_less)
qed

lemma MONTHS_position:
  assumes "i < 12"
  shows "position (MONTHS ! i) MONTHS = Some i" and "length (MONTHS ! i) = 3"
    and "\<forall>c \<in> set (MONTHS ! i). (of_char c :: nat) < 128"
proof -
  have "list_all (\<lambda>i. position (MONTHS ! i) MONTHS = Some i \<and> length (MONTHS ! i) = 3 \<and>
      list_all (\<lambda>c. (of_char c :: nat) < 128) (MONTHS ! i)) [0..<12]"
    by code_simp
  then show "position (MONTHS ! i) MONTHS = Some i" and "length (MONTHS ! i) = 3"
    and "\<forall>c \<in> set (MONTHS ! i). (of_char c :: nat) < 128"
    using assms by (simp_all add: list_all_iff)
qed

lemma str_get_ascii:
  assumes "\<forall>c \<in> set s. (of_char c :: nat) < 128" and "lo \<le> hi" and "hi \<le> length s"
  shows "str_get lo hi s = Some (take (hi - lo) (drop lo s))"
proof -
  have "char_boundary s i" if "i \<le> length s" for i
  proof (cases "i = length s")
    case False
    then have "s ! i \<in> set s" "i < length s" using that by simp_all
    then have "(of_char (s ! i) :: nat) < 128" using assms(1) by blast
    with \<open>i < length s\<close> show ?thesis by (simp add: char_boundary_def)
  qed (simp add: char_boundary_def)
  with assms show ?thesis by (simp add: str_get_def)
qed

lemma two_digits_ascii: "n < 100 \<Longrightarrow> c \<in> set (two_digits n) \<Longrightarrow> (of_char c :: nat) < 128"
  by (auto simp: two_digits_def less_mult_imp_div_less)

lemma length_digits [simp]: "length (two_digits n) = 2" "length (four_digits n) = 4"
  by (simp_all add: two_digits_def four_digits_def)

lemma parse_imf_fixdate:
  assumes "length dn = 3" and "\<forall>c \<in> set dn. (of_char c :: nat) < 128"
    and "1 \<le> d" "d \<le> 31" and "1 \<le> m" "m \<le> 12" and "y < 10000" and "h \<le> 23" and "mi \<le> 59" and "s \<le> 60"
  shows "parse_http_date_unix_secs (imf_fixdate dn d m y h mi s) =
    Some (days_from_civil (int y) (int m) (int d) * 86400 + int h * 3600 + int mi * 60 + int s)"
proof -
  define mon where "mon = MONTHS ! (m - 1)"
  have mon: "position mon MONTHS = Some (m - 1)" "length mon = 3" "\<forall>c \<in> set mon. (of_char c :: nat) < 128"
    using MONTHS_position [of "m - 1"] assms by (auto simp: mon_def)
  obtain a b c where dn: "dn = [a, b, c]" using assms(1) by (auto simp: length_Suc_conv numeral_eq_Suc)
  obtain p q r where mo: "mon = [p, q, r]" using mon(2) by (auto simp: length_Suc_conv numeral_eq_Suc)
  let ?v = "imf_fixdate dn d m y h mi s"
  have v: "?v = [a, b, c, CHR '','', CHR '' ''] @ two_digits d @ CHR '' '' # mon @ CHR '' '' # four_digits y @
      CHR '' '' # two_digits h @ CHR '':'' # two_digits mi @ CHR '':'' # two_digits s @ '' GMT''"
    by (simp add: imf_fixdate_def dn mon_def)
  have len: "length ?v = 29" by (simp add: v mo)
  have ascii: "\<forall>c \<in> set ?v. (of_char c :: nat) < 128"
  proof -
    have t: "\<forall>c \<in> set (two_digits n). (of_char c :: nat) < 128" if "n < 100" for n
      using two_digits_ascii [OF that] by blast
    show ?thesis
      using assms(2) mon(3) t [of d] t [of h] t [of mi] t [of s] t [of "y div 100"] t [of "y mod 100"] assms(3-10)
      unfolding v by (simp add: dn four_digits_def ball_Un less_mult_imp_div_less)
  qed
  note get = str_get_ascii [OF ascii, unfolded len]
  have g: "str_get 5 7 ?v = Some (two_digits d)" "str_get 12 16 ?v = Some (four_digits y)"
    "str_get 17 19 ?v = Some (two_digits h)" "str_get 20 22 ?v = Some (two_digits mi)"
    "str_get 23 25 ?v = Some (two_digits s)" "str_get 8 11 ?v = Some mon"
    by (simp_all add: get) (simp_all add: v mo two_digits_def four_digits_def)
  have gmt: "ends_with ?v '' GMT''" by (simp add: ends_with_def len) (simp add: v mo two_digits_def four_digits_def)
  have sep: "?v ! 3 = CHR '',''" "?v ! 4 = CHR '' ''" by (simp_all add: v)
  define days where "days = days_from_civil (int y) (int m) (int d)"
  have "days = civil_days (int y) (int m) (int d)"
    unfolding days_def using assms by (intro days_exact) (auto simp: YEAR_BOUND_def)
  then have "\<bar>days\<bar> \<le> 5000000" using civil_days_small [of "int y" "int m" "int d"] assms by simp
  then have days: "- 5000000 \<le> days" "days \<le> 5000000" by simp_all
  have sum: "i64_add (i64_add (i64_add (i64_mul days 86400) (i64_mul (int h) 3600)) (i64_mul (int mi) 60)) (int s) =
      days * 86400 + int h * 3600 + int mi * 60 + int s"
    using days assms by (simp add: i64_add_def i64_mul_def in_i64)
  show ?thesis
    using assms by (simp add: parse_http_date_unix_secs_def len gmt sep date_num_def g mon(1)
        parse_digits2 parse_digits4 sum flip: days_def)
qed

lemma trim_no_ws:
  assumes "\<forall>c \<in> set s. \<not> ascii_ws c"
  shows "str_trim s = s"
proof -
  have dw: "dropWhile ascii_ws t = t" if "\<forall>c \<in> set t. \<not> ascii_ws c" for t
    using that by (cases t) auto
  show ?thesis using dw [of s] dw [of "rev s"] assms by (simp add: str_trim_def)
qed

lemma trim_dec_nat: "str_trim (dec_nat n) = dec_nat n"
proof (rule trim_no_ws, rule ballI)
  fix c assume "c \<in> set (dec_nat n)"
  then have "48 \<le> (of_char c :: nat)" using dec_nat_digits by blast
  then show "\<not> ascii_ws c" by (auto simp: ascii_ws_def)
qed

section \<open>Properties\<close>

text \<open>
  The bound of the next property is not far from the best one: at the last year of \<open>i64\<close> the
  product \<open>era * 146_097\<close> has wrapped, so that a date after the epoch has a negative number,
  below the one of the first year of \<open>i64\<close>, where \<open>year - 1\<close> wraps as well.
\<close>

theorem days_from_civil_overflows:
  "days_from_civil (2 ^ 63 - 1) 1 1 < 0 \<and>
   days_from_civil (2 ^ 63 - 1) 1 1 < days_from_civil (- (2 ^ 63)) 1 1"
  by code_simp

text \<open>
  C30. \<open>days_from_civil\<close>, in \<open>i64\<close> arithmetic, is the calendar for every year of at most
  25 * 10^15 in absolute value (the documentation claims every \<open>i64\<close> year, which
  \<open>days_from_civil_overflows\<close> refutes; the callers pass four characters): it is 0 on
  1970-01-01, and going to the next day of the proleptic Gregorian calendar, over month ends,
  leap days and year ends, adds one. These two facts determine it on all valid dates of those years.
\<close>

theorem days_from_civil_calendar:
  "days_from_civil 1970 1 1 = 0 \<and>
   (\<bar>y\<bar> < 25000000000000000 \<and> valid_date (y, m, d) \<longrightarrow>
      (case next_day (y, m, d) of (y', m', d') \<Rightarrow> days_from_civil y' m' d') = days_from_civil y m d + 1)"
proof (intro conjI impI, goal_cases)
  case 1
  show ?case
    by code_simp
next
  case 2
  then have y: "\<bar>y\<bar> < 25000000000000000" and valid: "valid_date (y, m, d)" by simp_all
  have exact: "days_from_civil y' m' d' = civil_days y' m' d'"
    if "\<bar>y' - y\<bar> \<le> 1" "y \<le> y'" "valid_date (y', m', d')" for y' m' d'
    using that y by (intro days_exact) (auto simp: YEAR_BOUND_def valid_date_def month_days_def split: if_splits)
  obtain y' m' d' where next_eq: "next_day (y, m, d) = (y', m', d')" by (cases "next_day (y, m, d)")
  then have "\<bar>y' - y\<bar> \<le> 1" "y \<le> y'" "valid_date (y', m', d')"
    using valid by (auto simp: valid_date_def month_days_def split: if_splits)
  then show ?case
    using days_next_day [OF valid] exact [of y m d] exact [of y' m' d'] valid
    by (simp add: next_eq del: next_day.simps)
qed

theorem days_from_civil_calendar_witness:
  "days_from_civil 2000 3 1 = days_from_civil 2000 2 29 + 1 \<and> days_from_civil 1970 1 1 = 0"
  using days_from_civil_calendar [of 2000 2 29]
  by (simp add: valid_date_def month_days_def leap_def)

text \<open>
  \<open>Retry-After\<close> values. A number of seconds gives that many milliseconds, saturating; an
  IMF-fixdate gives the Unix time of the date it names.
\<close>

theorem retry_after_values:
  assumes "secs < 2 ^ 64"
    and "length dn = 3" and "\<forall>c \<in> set dn. (of_char c :: nat) < 128"
    and "1 \<le> d" "d \<le> 31" and "1 \<le> m" "m \<le> 12" and "y < 10000" and "h \<le> 23" and "mi \<le> 59" and "s \<le> 60"
  shows "parse_retry_after_ms now (dec_nat secs) = Some (min (secs * 1000) (2 ^ 64 - 1)) \<and>
    parse_http_date_unix_secs (imf_fixdate dn d m y h mi s) =
      Some (days_from_civil (int y) (int m) (int d) * 86400 + int h * 3600 + int mi * 60 + int s)"
  using parse_unsigned_dec [OF assms(1)] parse_imf_fixdate [OF assms(2-)]
  by (simp add: parse_retry_after_ms_def trim_dec_nat)

theorem retry_after_values_witness:
  "parse_http_date_unix_secs (imf_fixdate ''Sun'' 6 11 1994 8 49 37) = Some 784111777"
  using retry_after_values [of 0 "''Sun''" 6 11 1994 8 49 37 None]
  by (simp add: days_exact YEAR_BOUND_def civil_days_def)

text \<open>
  The date grammar is looser than an IMF-fixdate: the day name, the separators and the
  signs of the numbers are not checked.
\<close>

theorem http_date_grammar_loose:
  "parse_http_date_unix_secs ''???, +6xNov*1994-08?49!37 GMT'' = Some 784111777 \<and>
   parse_http_date_unix_secs ''Sun, 31 Feb 2023 00:00:00 GMT'' =
     parse_http_date_unix_secs ''Fri, 03 Mar 2023 00:00:00 GMT''"
proof -
  have nov: "days_from_civil 1994 11 6 = 9075" by code_simp
  have feb: "days_from_civil 2023 2 31 = 19419" by code_simp
  have mar: "days_from_civil 2023 3 3 = 19419" by code_simp
  note parse = parse_http_date_unix_secs_def date_num_def str_get_def char_boundary_def ends_with_def
    parse_signed_def parse_nat_digits_def digit_val_def MONTHS_def i64_add_def i64_mul_def wrap64_def
  have "parse_http_date_unix_secs ''???, +6xNov*1994-08?49!37 GMT'' = Some 784111777"
    by (simp add: parse nov)
  moreover have "parse_http_date_unix_secs ''Sun, 31 Feb 2023 00:00:00 GMT'' = Some 1677801600"
    by (simp add: parse feb)
  moreover have "parse_http_date_unix_secs ''Fri, 03 Mar 2023 00:00:00 GMT'' = Some 1677801600"
    by (simp add: parse mar)
  ultimately show ?thesis by simp
qed

end
