(* ===== verification/Http.thy ===== *)
theory Http
  imports Retry Calendar
begin

text \<open>
  The shared HTTP client (\<open>src/http.rs\<close>, first half). \<open>reqwest\<close> is the field \<open>he_send\<close>: it
  takes a request and the state of the world and answers with a response whose header values
  are what \<open>HeaderValue::to_str\<close> makes of them and whose body is the sequence of results of
  \<open>chunk()\<close>, or with a transport error. The other fields are the clock, the sleep, the
  seed of the jitter, the semaphore and the validity of a method name.
\<close>

record http_request =
  hq_method :: string
  hq_url :: string
  hq_extra_headers :: "(string \<times> string) list"
  hq_body :: "bytes option"
  hq_auth :: "string option"

record raw_response =
  rr_status :: nat
  rr_headers :: "(string \<times> string option) list"
  rr_content_length :: "nat option"
  rr_chunks :: "(string + bytes) list"

record http_response =
  hr_status :: nat
  hr_content_type :: "string option"
  hr_body :: bytes
  hr_retry_after_ms :: "nat option"
  hr_headers :: "(string, string) hashmap"

record 'w http_env =
  he_valid_method :: "string \<Rightarrow> bool"
  he_send :: "http_request \<Rightarrow> 'w \<Rightarrow> (string + raw_response) \<times> 'w"
  he_now :: "'w \<Rightarrow> nat option"
  he_sleep :: "nat \<Rightarrow> 'w \<Rightarrow> 'w"
  he_seed :: "'w \<Rightarrow> nat"
  he_acquire :: "'w \<Rightarrow> bool \<times> 'w"
  he_release :: "'w \<Rightarrow> 'w"

definition MAX_BODY_BYTES :: nat where "MAX_BODY_BYTES = 16 * 1024 * 1024"
definition MAX_REQUEST_BODY_BYTES :: nat where "MAX_REQUEST_BODY_BYTES = 4 * 1024 * 1024"

definition is_retryable_status :: "nat \<Rightarrow> bool" where
  "is_retryable_status status \<longleftrightarrow> status = 429 \<or> (500 \<le> status \<and> status < 600)"

record http_client =
  hc_retry_policy :: retry_policy
  hc_concurrency :: "nat option"

text \<open>
  The options set on the builder of the \<open>reqwest\<close> client, in the order of the calls; certificates and
  identities are values of that package (\<open>'c\<close>, \<open>'i\<close>), and its \<open>build\<close> is the parameter \<open>finish\<close>.
  \<open>he_send\<close> is the client that comes of it.
\<close>

definition MAX_REDIRECTS :: nat where "MAX_REDIRECTS = 3"
definition USER_AGENT :: string where "USER_AGENT = ''schemreg/0.6.0''"
definition DEFAULT_REQUEST_TIMEOUT :: nat where "DEFAULT_REQUEST_TIMEOUT = 30 * 1000000000"

datatype ('c, 'i) transport_option =
    UserAgent string | RedirectLimit nat | RequestTimeout nat | ConnectTimeout nat
  | RootCertificate 'c | ClientIdentity 'i | PoolMaxIdlePerHost nat

record ('c, 'i) http_client_config =
  cf_timeout :: "nat option"
  cf_connect_timeout :: "nat option"
  cf_root_certificates :: "'c list"
  cf_identity :: "'i option"
  cf_pool_max_idle_per_host :: "nat option"
  cf_retry_policy :: retry_policy
  cf_max_concurrent_requests :: "nat option"

definition transport_options :: "('c, 'i) http_client_config \<Rightarrow> ('c, 'i) transport_option list" where
  "transport_options config =
     [UserAgent USER_AGENT, RedirectLimit MAX_REDIRECTS] @
     (case cf_timeout config of Some t \<Rightarrow> [RequestTimeout t] | None \<Rightarrow> []) @
     (case cf_connect_timeout config of Some ct \<Rightarrow> [ConnectTimeout ct] | None \<Rightarrow> []) @
     map RootCertificate (cf_root_certificates config) @
     (case cf_identity config of Some identity \<Rightarrow> [ClientIdentity identity] | None \<Rightarrow> []) @
     (case cf_pool_max_idle_per_host config of Some n \<Rightarrow> [PoolMaxIdlePerHost n] | None \<Rightarrow> [])"

type_synonym ('c, 'i) finish = "('c, 'i) transport_option list \<Rightarrow> string + unit"

definition with_config :: "('c, 'i) finish \<Rightarrow> ('c, 'i) http_client_config \<Rightarrow> http_client res" where
  "with_config finish config =
     (case finish (transport_options config) of
        Inl e \<Rightarrow> Inl (Config (Http_Msg (ClientBuildFailed e)))
      | Inr _ \<Rightarrow>
          Inr \<lparr>hc_retry_policy = cf_retry_policy config,
               hc_concurrency = (case cf_max_concurrent_requests config of
                  Some n \<Rightarrow> if 0 < n then Some n else None
                | None \<Rightarrow> None)\<rparr>)"

definition config_default :: "('c, 'i) http_client_config" where
  "config_default =
     \<lparr>cf_timeout = None, cf_connect_timeout = None, cf_root_certificates = [], cf_identity = None,
      cf_pool_max_idle_per_host = None, cf_retry_policy = policy_default, cf_max_concurrent_requests = None\<rparr>"

definition with_webpki_roots :: "('c, 'i) finish \<Rightarrow> nat option \<Rightarrow> http_client res" where
  "with_webpki_roots finish timeout = with_config finish (config_default\<lparr>cf_timeout := timeout\<rparr>)"

section \<open>One attempt\<close>

text \<open>\<open>HeaderMap::get\<close> gives the first value of a name.\<close>

definition header_get :: "raw_response \<Rightarrow> string \<Rightarrow> string option" where
  "header_get r name = (case find (\<lambda>(n, v). n = name) (rr_headers r) of Some (n, v) \<Rightarrow> v | None \<Rightarrow> None)"

definition content_type_of :: "raw_response \<Rightarrow> string option" where
  "content_type_of r =
     map_option (\<lambda>ct. str_trim (hd (split_on (\<lambda>c. c = CHR '';'') ct))) (header_get r ''content-type'')"

definition collect_headers :: "raw_response \<Rightarrow> (string, string) hashmap" where
  "collect_headers r =
     fold (\<lambda>(n, v) m. case v of Some v \<Rightarrow> hm_put (map ascii_lower n) v m | None \<Rightarrow> m) (rr_headers r) []"

fun read_chunks :: "(string + bytes) list \<Rightarrow> nat \<Rightarrow> bytes \<Rightarrow> bytes res" where
  "read_chunks [] n_read buf = Inr buf"
| "read_chunks (Inl e # cs) n_read buf = Inl (Network e)"
| "read_chunks (Inr bs # cs) n_read buf =
     (let n_read = n_read + length bs
      in if MAX_BODY_BYTES < n_read then Inl (InvalidState (Http_Msg BodyTooLarge))
         else read_chunks cs n_read (buf @ bs))"

definition receive_response :: "nat option \<Rightarrow> raw_response \<Rightarrow> http_response res" where
  "receive_response now r =
     (let status = rr_status r;
          retry_after = (if is_retryable_status status
             then Option.bind (header_get r ''retry-after'') (parse_retry_after_ms now) else None)
      in case rr_content_length r of
           Some len \<Rightarrow>
             if MAX_BODY_BYTES < len then Inl (InvalidState (Http_Msg (ContentLengthTooLarge len)))
             else res_bind (read_chunks (rr_chunks r) 0 []) (\<lambda>body.
               Inr \<lparr>hr_status = status, hr_content_type = content_type_of r, hr_body = body,
                    hr_retry_after_ms = retry_after, hr_headers = collect_headers r\<rparr>)
         | None \<Rightarrow>
             res_bind (read_chunks (rr_chunks r) 0 []) (\<lambda>body.
               Inr \<lparr>hr_status = status, hr_content_type = content_type_of r, hr_body = body,
                    hr_retry_after_ms = retry_after, hr_headers = collect_headers r\<rparr>))"

definition request_once :: "'w http_env \<Rightarrow> http_request \<Rightarrow> ('w, http_response) io" where
  "request_once env rq w =
     (if \<not> he_valid_method env (hq_method rq) then (Inl (Config (Http_Msg (InvalidMethod (hq_method rq)))), w)
      else if (case hq_body rq of Some b \<Rightarrow> MAX_REQUEST_BODY_BYTES < length b | None \<Rightarrow> False)
      then (Inl (Config (Http_Msg (RequestTooLarge (length (the (hq_body rq)))))), w)
      else case he_send env rq w of
             (Inl e, w') \<Rightarrow> (Inl (Network e), w')
           | (Inr r, w') \<Rightarrow> (receive_response (he_now env w') r, w'))"

section \<open>The retry loop\<close>

function request_loop :: "'w http_env \<Rightarrow> retry_policy \<Rightarrow> http_request \<Rightarrow> nat \<Rightarrow> ('w, http_response) io" where
  "request_loop env p rq attempt w =
     (case request_once env rq w of
        (Inr resp, w') \<Rightarrow>
          if is_retryable_status (hr_status resp) \<and> attempt < rp_max_retries p
          then request_loop env p rq (attempt + 1)
            (he_sleep env (delay_for (he_seed env w') p attempt (hr_retry_after_ms resp)) w')
          else (Inr resp, w')
      | (Inl e, w') \<Rightarrow>
          if attempt < rp_max_retries p
          then request_loop env p rq (attempt + 1)
            (he_sleep env (delay_for (he_seed env w') p attempt None) w')
          else (Inl e, w'))"
  by pat_completeness auto

termination request_loop
  by (relation "measure (\<lambda>(env, p, rq, attempt, w). rp_max_retries p - attempt)") auto

declare request_loop.simps [simp del]

definition request :: "'w http_env \<Rightarrow> http_client \<Rightarrow> http_request \<Rightarrow> ('w, http_response) io" where
  "request env cl rq w =
     (case hc_concurrency cl of
        None \<Rightarrow> request_loop env (hc_retry_policy cl) rq 0 w
      | Some _ \<Rightarrow>
          (case he_acquire env w of
             (False, w') \<Rightarrow> (Inl (InvalidState (Http_Msg LimiterClosed)), w')
           | (True, w') \<Rightarrow>
               (case request_loop env (hc_retry_policy cl) rq 0 w' of
                  (r, w'') \<Rightarrow> (r, he_release env w''))))"

section \<open>Lemmas\<close>

lemma is_retryable_status_agrees: "is_retryable_status s \<longleftrightarrow> is_retryable (Http s m)"
  by (simp add: is_retryable_status_def)

text \<open>What the loop retries, and the world each attempt starts in.\<close>

definition transient :: "http_response res \<Rightarrow> bool" where
  "transient r = (case r of Inl _ \<Rightarrow> True | Inr resp \<Rightarrow> is_retryable_status (hr_status resp))"

definition server_delay :: "http_response res \<Rightarrow> nat option" where
  "server_delay r = (case r of Inl _ \<Rightarrow> None | Inr resp \<Rightarrow> hr_retry_after_ms resp)"

fun world_at :: "'w http_env \<Rightarrow> retry_policy \<Rightarrow> http_request \<Rightarrow> nat \<Rightarrow> 'w \<Rightarrow> nat \<Rightarrow> 'w" where
  "world_at env p rq a w 0 = w"
| "world_at env p rq a w (Suc n) =
     (let (r, w') = request_once env rq (world_at env p rq a w n)
      in he_sleep env (delay_for (he_seed env w') p (a + n) (server_delay r)) w')"

lemma world_at_shift:
  "world_at env p rq a w (Suc n) = world_at env p rq (Suc a) (world_at env p rq a w 1) n"
  by (induction n) (simp_all add: Let_def case_prod_beta)

lemma request_loop_turn:
  "request_loop env p rq a w =
     (let r = request_once env rq w
      in if transient (fst r) \<and> a < rp_max_retries p
         then request_loop env p rq (Suc a) (world_at env p rq a w 1) else r)"
  by (subst request_loop.simps)
    (auto simp: transient_def server_delay_def Let_def split: prod.splits sum.splits)

lemma request_loop_attempts:
  assumes "a \<le> rp_max_retries p"
  shows "\<exists>k. a + k \<le> rp_max_retries p \<and>
    request_loop env p rq a w = request_once env rq (world_at env p rq a w k) \<and>
    (\<forall>j < k. transient (fst (request_once env rq (world_at env p rq a w j)))) \<and>
    (a + k = rp_max_retries p \<or> \<not> transient (fst (request_once env rq (world_at env p rq a w k))))"
  using assms
proof (induction "rp_max_retries p - a" arbitrary: a w)
  case 0
  then show ?case
    by (intro exI [of _ 0]) (simp add: request_loop_turn [of env p rq a w] Let_def)
next
  case (Suc m)
  let ?once = "\<lambda>w. request_once env rq w"
  show ?case
  proof (cases "transient (fst (?once w))")
    case True
    have "m = rp_max_retries p - Suc a" "Suc a \<le> rp_max_retries p" using Suc.hyps(2) by simp_all
    from Suc.hyps(1) [OF this, of "world_at env p rq a w 1"] obtain k where
      k: "Suc a + k \<le> rp_max_retries p"
        "request_loop env p rq (Suc a) (world_at env p rq a w 1) =
          ?once (world_at env p rq (Suc a) (world_at env p rq a w 1) k)"
        "\<forall>j < k. transient (fst (?once (world_at env p rq (Suc a) (world_at env p rq a w 1) j)))"
        "Suc a + k = rp_max_retries p \<or>
          \<not> transient (fst (?once (world_at env p rq (Suc a) (world_at env p rq a w 1) k)))"
      by blast
    have turn: "request_loop env p rq a w = request_loop env p rq (Suc a) (world_at env p rq a w 1)"
    proof -
      have "a < rp_max_retries p" using Suc.hyps(2) by simp
      with True show ?thesis by (subst request_loop_turn) (simp add: Let_def)
    qed
    have "transient (fst (?once (world_at env p rq a w j)))" if "j < Suc k" for j
    proof (cases j)
      case 0
      then show ?thesis using True by simp
    next
      case (Suc i)
      then have "i < k" using that by simp
      then show ?thesis using k(3) unfolding Suc world_at_shift by blast
    qed
    with k turn show ?thesis
      by (intro exI [of _ "Suc k"]) (simp only: world_at_shift add_Suc_right add_Suc, simp)
  next
    case False
    then show ?thesis
      using Suc.prems by (intro exI [of _ 0]) (simp add: request_loop_turn [of env p rq a w] Let_def)
  qed
qed

lemma read_chunks_bound:
  "read_chunks cs n_read buf = Inr body \<Longrightarrow> length buf = n_read \<Longrightarrow> n_read \<le> MAX_BODY_BYTES \<Longrightarrow>
   length body \<le> MAX_BODY_BYTES \<and> body = buf @ concat (map (\<lambda>c. case c of Inr b \<Rightarrow> b | Inl _ \<Rightarrow> []) cs)"
  by (induction cs n_read buf rule: read_chunks.induct) (auto simp: Let_def split: if_splits)

lemma receive_response_body:
  "receive_response now r = Inr resp \<Longrightarrow>
     hr_status resp = rr_status r \<and> length (hr_body resp) \<le> MAX_BODY_BYTES \<and>
     hr_body resp = concat (map (\<lambda>c. case c of Inr b \<Rightarrow> b | Inl _ \<Rightarrow> []) (rr_chunks r))"
  by (auto simp: receive_response_def Let_def split: option.splits if_splits dest!: read_chunks_bound)

lemma request_body:
  assumes "request_once env rq w = (Inr resp, w')"
  shows "length (hr_body resp) \<le> MAX_BODY_BYTES"
  using assms by (auto simp: request_once_def split: if_splits prod.splits sum.splits dest: receive_response_body)

text \<open>A request is answered by what \<open>he_send\<close> answers to exactly this request.\<close>

definition with_send :: "(http_request \<Rightarrow> 'w \<Rightarrow> (string + raw_response) \<times> 'w) \<Rightarrow> 'w http_env \<Rightarrow> 'w http_env" where
  "with_send send env = env\<lparr>he_send := send\<rparr>"

lemma with_send_sel:
  "he_valid_method (with_send send env) = he_valid_method env" "he_send (with_send send env) = send"
  "he_now (with_send send env) = he_now env" "he_sleep (with_send send env) = he_sleep env"
  "he_seed (with_send send env) = he_seed env" "he_acquire (with_send send env) = he_acquire env"
  "he_release (with_send send env) = he_release env"
  by (simp_all add: with_send_def)

lemma request_once_cong:
  assumes "send rq = he_send env rq"
  shows "request_once (with_send send env) rq w = request_once env rq w"
  unfolding request_once_def with_send_sel assms ..

lemma request_loop_cong:
  assumes "send rq = he_send env rq"
  shows "request_loop (with_send send env) p rq a w = request_loop env p rq a w"
proof (induction "rp_max_retries p - a" arbitrary: a w)
  case 0
  then show ?case
    unfolding request_loop.simps [of _ p rq a w] request_once_cong [where send = send, OF assms]
    by (simp split: prod.split sum.split)
next
  case (Suc n)
  have "request_loop (with_send send env) p rq (a + 1) v = request_loop env p rq (a + 1) v" for v
    using Suc(2) by (intro Suc(1)) simp
  then show ?case
    unfolding request_loop.simps [of _ p rq a w] request_once_cong [where send = send, OF assms] with_send_sel by (simp only:)
qed

lemma request_cong:
  assumes "send rq = he_send env rq"
  shows "request (with_send send env) cl rq = request env cl rq"
  unfolding request_def request_loop_cong [where send = send, OF assms] with_send_sel ..

text \<open>The requests a client may send: below its base URL, with its credentials.\<close>

definition confined :: "string \<Rightarrow> string option \<Rightarrow> http_request \<Rightarrow> bool" where
  "confined base auth rq \<longleftrightarrow> starts_with (hq_url rq) (base @ ''/'') \<and> hq_auth rq = auth"

text \<open>A client that sends only confined requests cannot see what the network does with others.\<close>

lemma request_confined:
  assumes "\<forall>rq. confined base auth rq \<longrightarrow> send rq = he_send env rq"
    and "starts_with url (base @ ''/'')"
  shows "request (with_send send env) cl
      \<lparr>hq_method = meth, hq_url = url, hq_extra_headers = headers, hq_body = body, hq_auth = auth\<rparr> =
    request env cl \<lparr>hq_method = meth, hq_url = url, hq_extra_headers = headers, hq_body = body, hq_auth = auth\<rparr>"
  using assms by (intro request_cong) (simp add: confined_def)

section \<open>Properties\<close>

text \<open>
  C28. The retry loop. With a limit on concurrent requests, \<open>request\<close> first takes a permit, fails
  without an attempt when the limiter is closed, and gives the permit back after its last attempt,
  whatever came of it. Then it makes at most \<open>max_retries + 1\<close> attempts, each in the world that the
  previous one and its back-off left. Every attempt but the last failed, with an error of any kind
  or with a retryable status; the last either did not, or used up the retries; and the caller gets
  the result of the last attempt, a failed one included. (The documentation of \<open>request\<close> says
  that 5xx, 429 and network errors are retried. The code retries every error, those it
  makes itself included, as \<open>oversized_request_is_retried\<close> shows; this is what is stated here.)
\<close>

theorem request_attempts:
  "case (case hc_concurrency cl of None \<Rightarrow> (True, w) | Some _ \<Rightarrow> he_acquire env w) of
     (False, w1) \<Rightarrow> request env cl rq w = (Inl (InvalidState (Http_Msg LimiterClosed)), w1)
   | (True, w1) \<Rightarrow> \<exists>k \<le> rp_max_retries (hc_retry_policy cl).
       let attempt = (\<lambda>j. request_once env rq (world_at env (hc_retry_policy cl) rq 0 w1 j))
       in request env cl rq w =
            (fst (attempt k),
             (case hc_concurrency cl of None \<Rightarrow> snd (attempt k) | Some _ \<Rightarrow> he_release env (snd (attempt k)))) \<and>
          (\<forall>j < k. transient (fst (attempt j))) \<and>
          (k = rp_max_retries (hc_retry_policy cl) \<or> \<not> transient (fst (attempt k)))"
proof (cases "hc_concurrency cl")
  case None
  then show ?thesis
    using request_loop_attempts [of 0 "hc_retry_policy cl" env rq w] by (simp add: request_def Let_def)
next
  case (Some limit)
  obtain b w1 where a: "he_acquire env w = (b, w1)" by fastforce
  show ?thesis
    using request_loop_attempts [of 0 "hc_retry_policy cl" env rq w1] Some a
    by (cases b) (auto simp: request_def Let_def case_prod_beta)
qed

text \<open>A server that answers 503 twice and 200 then; the world counts requests and sleeps.\<close>

definition demo_env :: "(nat \<times> nat) http_env" where
  "demo_env =
     \<lparr>he_valid_method = (\<lambda>_. True),
      he_send = (\<lambda>_ (n, s). (Inr \<lparr>rr_status = (if n < 2 then 503 else 200), rr_headers = [],
         rr_content_length = None, rr_chunks = []\<rparr>, (n + 1, s))),
      he_now = (\<lambda>_. None), he_sleep = (\<lambda>d (n, s). (n, s + d)), he_seed = (\<lambda>_. 0),
      he_acquire = (\<lambda>w. (True, w)), he_release = (\<lambda>w. w)\<rparr>"

definition demo_request :: http_request where
  "demo_request = \<lparr>hq_method = ''GET'', hq_url = ''http://localhost/'', hq_extra_headers = [], hq_body = None, hq_auth = None\<rparr>"

lemma demo_once:
  "request_once demo_env demo_request (n, s) =
     (Inr \<lparr>hr_status = (if n < 2 then 503 else 200), hr_content_type = None, hr_body = [],
        hr_retry_after_ms = None, hr_headers = []\<rparr>, (n + 1, s))"
  by (simp add: request_once_def demo_env_def demo_request_def receive_response_def header_get_def
      content_type_of_def collect_headers_def)

theorem request_attempts_witness:
  "\<exists>k \<le> 3. request demo_env \<lparr>hc_retry_policy = policy_default\<lparr>rp_jitter := False\<rparr>, hc_concurrency = Some 1\<rparr>
      demo_request (0, 0) =
    request_once demo_env demo_request
      (world_at demo_env (policy_default\<lparr>rp_jitter := False\<rparr>) demo_request 0 (0, 0) k)"
proof -
  have limiter: "he_acquire demo_env w = (True, w)" "he_release demo_env w = w" for w
    by (simp_all add: demo_env_def)
  show ?thesis
    using request_attempts [where env = demo_env and rq = demo_request and w = "(0, 0)"
        and cl = "\<lparr>hc_retry_policy = policy_default\<lparr>rp_jitter := False\<rparr>, hc_concurrency = Some 1\<rparr>"]
    by (auto simp: Let_def policy_default_def DEFAULT_MAX_RETRIES_def limiter)
qed

text \<open>
  No response is buffered beyond 16 MiB: a body that is returned is the whole body the
  server sent and within the limit, whether or not a \<open>Content-Length\<close> announced it.
\<close>

theorem response_body_bounded:
  assumes "receive_response now r = Inr resp"
  shows "length (hr_body resp) \<le> 16 * 1024 * 1024 \<and>
    (\<forall>len. rr_content_length r = Some len \<longrightarrow> len \<le> 16 * 1024 * 1024) \<and>
    hr_body resp = concat (map (\<lambda>c. case c of Inr b \<Rightarrow> b | Inl _ \<Rightarrow> []) (rr_chunks r))"
  using receive_response_body [OF assms] assms
  by (auto simp: MAX_BODY_BYTES_def receive_response_def Let_def split: if_splits)

theorem response_body_bounded_witness:
  "length ([0x61, 0x62] :: bytes) \<le> 16 * 1024 * 1024"
  using response_body_bounded [of None "\<lparr>rr_status = 200, rr_headers = [], rr_content_length = Some 2,
      rr_chunks = [Inr [0x61], Inr [0x62]]\<rparr>"
      "\<lparr>hr_status = 200, hr_content_type = None, hr_body = [0x61, 0x62], hr_retry_after_ms = None, hr_headers = []\<rparr>"]
  by (simp add: receive_response_def MAX_BODY_BYTES_def content_type_of_def header_get_def collect_headers_def
      is_retryable_status_def)

text \<open>
  Every error is retried, also one no retry can cure. A request body above the limit is
  rejected before anything is sent, and the loop still sleeps through the whole back-off
  schedule before it returns the configuration error.
\<close>

theorem oversized_request_is_retried:
  assumes "he_valid_method env (hq_method rq)" and "hq_body rq = Some b" and "MAX_REQUEST_BODY_BYTES < length b"
    and "hc_concurrency cl = None"
  shows "request env cl rq w =
    (Inl (Config (Http_Msg (RequestTooLarge (length b)))),
     fold (\<lambda>n w. he_sleep env (delay_for (he_seed env w) (hc_retry_policy cl) n None) w)
       [0..<rp_max_retries (hc_retry_policy cl)] w)"
proof -
  let ?p = "hc_retry_policy cl"
  let ?err = "Inl (Config (Http_Msg (RequestTooLarge (length b)))) :: http_response res"
  have once: "request_once env rq w = (?err, w)" for w
    using assms(1-3) by (simp add: request_once_def)
  have worlds: "world_at env ?p rq 0 w n = fold (\<lambda>n w. he_sleep env (delay_for (he_seed env w) ?p n None) w) [0..<n] w" for n
    by (induction n) (simp_all add: once server_delay_def)
  obtain k where k: "k \<le> rp_max_retries ?p" "request_loop env ?p rq 0 w = request_once env rq (world_at env ?p rq 0 w k)"
      "k = rp_max_retries ?p \<or> \<not> transient (fst (request_once env rq (world_at env ?p rq 0 w k)))"
    using request_loop_attempts [of 0 ?p env rq w] by auto
  moreover have "transient ?err" by (simp add: transient_def)
  ultimately show ?thesis
    using assms(4) by (simp add: request_def once worlds)
qed

theorem oversized_request_is_retried_witness:
  "snd (request demo_env \<lparr>hc_retry_policy = policy_default\<lparr>rp_jitter := False\<rparr>, hc_concurrency = None\<rparr>
      (demo_request\<lparr>hq_body := Some (replicate (MAX_REQUEST_BODY_BYTES + 1) 0)\<rparr>) (0, 0)) =
    (0, from_millis 700)"
proof -
  have "request demo_env \<lparr>hc_retry_policy = policy_default\<lparr>rp_jitter := False\<rparr>, hc_concurrency = None\<rparr>
      (demo_request\<lparr>hq_body := Some (replicate (MAX_REQUEST_BODY_BYTES + 1) 0)\<rparr>) (0, 0) =
    (Inl (Config (Http_Msg (RequestTooLarge (length (replicate (MAX_REQUEST_BODY_BYTES + 1) (0 :: u8)))))),
     fold (\<lambda>n w. he_sleep demo_env (delay_for (he_seed demo_env w) (policy_default\<lparr>rp_jitter := False\<rparr>) n None) w)
       [0..<3] (0, 0))"
    using oversized_request_is_retried [of demo_env
      "demo_request\<lparr>hq_body := Some (replicate (MAX_REQUEST_BODY_BYTES + 1) 0)\<rparr>"
      "replicate (MAX_REQUEST_BODY_BYTES + 1) 0"
      "\<lparr>hc_retry_policy = policy_default\<lparr>rp_jitter := False\<rparr>, hc_concurrency = None\<rparr>" "(0, 0)"]
    by (simp add: demo_env_def policy_default_def DEFAULT_MAX_RETRIES_def)
  then show ?thesis
    by (simp add: demo_env_def upt_rec delay_for_def policy_default_def DEFAULT_BASE_BACKOFF_def DEFAULT_MAX_BACKOFF_def
        as_millis_u64_def from_millis_def U64_MAX_def checked_shl_one_def saturating_mul_def Let_def)
qed

end
