(* ===== verification/Utf8.thy ===== *)
theory Utf8
  imports Rust_Std
begin

text \<open>
  The parts of the Rust standard library that look into UTF-8: \<open>String::from_utf8_lossy\<close>, \<open>from_utf8\<close>,
  \<open>str::chars\<close> and \<open>char::is_control\<close>. A string is its bytes; \<open>char_bytes\<close> are those of one
  \<open>char\<close>. Nothing here models code of the repository.
\<close>

definition in_range :: "nat \<Rightarrow> nat \<Rightarrow> nat list \<Rightarrow> bool" where
  "in_range lo hi bs \<longleftrightarrow> (case bs of [] \<Rightarrow> False | b # _ \<Rightarrow> lo \<le> b \<and> b \<le> hi)"

text \<open>
  The length of the sequence at the head of a buffer: of a well-formed character, or of the
  maximal part of one that is replaced as a whole.
\<close>

definition utf8_step :: "nat list \<Rightarrow> nat \<times> bool" where
  "utf8_step bs =
     (case bs of
        [] \<Rightarrow> (0, False)
      | b # rest \<Rightarrow>
          let three = (\<lambda>lo hi. if \<not> in_range lo hi rest then (1, False)
                 else if \<not> in_range 128 191 (drop 1 rest) then (2, False) else (3, True));
              four = (\<lambda>lo hi. if \<not> in_range lo hi rest then (1, False)
                 else if \<not> in_range 128 191 (drop 1 rest) then (2, False)
                 else if \<not> in_range 128 191 (drop 2 rest) then (3, False) else (4, True))
          in if b < 128 then (1, True)
             else if 194 \<le> b \<and> b \<le> 223 then (if in_range 128 191 rest then (2, True) else (1, False))
             else if b = 224 then three 160 191
             else if b = 237 then three 128 159
             else if 225 \<le> b \<and> b \<le> 239 then three 128 191
             else if b = 240 then four 144 191
             else if 241 \<le> b \<and> b \<le> 243 then four 128 191
             else if b = 244 then four 128 143
             else (1, False))"

lemma utf8_step_pos: "bs \<noteq> [] \<Longrightarrow> 0 < fst (utf8_step bs)"
  by (auto simp: utf8_step_def Let_def split: list.splits)

definition REPLACEMENT :: string where "REPLACEMENT = [CHR 0xEF, CHR 0xBF, CHR 0xBD]"

function from_utf8_lossy :: "nat list \<Rightarrow> string" where
  "from_utf8_lossy bs =
     (if bs = [] then []
      else (case utf8_step bs of (n, ok) \<Rightarrow>
        (if ok then map char_of (take n bs) else REPLACEMENT) @ from_utf8_lossy (drop n bs)))"
  by pat_completeness auto

lemma utf8_step_shorter: "(n, ok) = utf8_step bs \<Longrightarrow> bs \<noteq> [] \<Longrightarrow> length bs - n < length bs"
  using utf8_step_pos [of bs] by (metis diff_less fst_conv length_greater_0_conv)

termination from_utf8_lossy
  by (relation "measure length") (simp_all add: utf8_step_shorter)

declare from_utf8_lossy.simps [simp del]

text \<open>
  \<open>String::from_utf8\<close>: the first sequence that is not well-formed is reported with its position,
  and with its length unless the input ends within it.
\<close>

function utf8_error :: "nat \<Rightarrow> nat list \<Rightarrow> (nat \<times> nat option) option" where
  "utf8_error valid_up_to bs =
     (if bs = [] then None
      else (case utf8_step bs of (n, ok) \<Rightarrow>
        if ok then utf8_error (valid_up_to + n) (drop n bs)
        else Some (valid_up_to, if n = length bs \<and> 194 \<le> hd bs \<and> hd bs \<le> 244 then None else Some n)))"
  by pat_completeness auto

termination utf8_error
  by (relation "measure (\<lambda>(_, bs). length bs)") (simp_all add: utf8_step_shorter)

declare utf8_error.simps [simp del]

definition from_utf8 :: "nat list \<Rightarrow> (nat \<times> nat option) + string" where
  "from_utf8 bs = (case utf8_error 0 bs of None \<Rightarrow> Inr (map char_of bs) | Some e \<Rightarrow> Inl e)"

text \<open>\<open>chars\<close>: every byte below 128 or from 192 on starts a character.\<close>

definition continuation :: "char \<Rightarrow> bool" where
  "continuation c \<longleftrightarrow> 128 \<le> (of_char c :: nat) \<and> (of_char c :: nat) < 192"

function chars :: "string \<Rightarrow> string list" where
  "chars [] = []"
| "chars (c # cs) = (c # takeWhile continuation cs) # chars (dropWhile continuation cs)"
  by pat_completeness auto

termination chars
  by (relation "measure length") (auto simp: le_imp_less_Suc length_dropWhile_le)

lemma concat_chars [simp]: "concat (chars s) = s"
  by (induction s rule: chars.induct) auto

text \<open>C0 controls and DEL in one byte, C1 controls in two.\<close>

definition is_control :: "string \<Rightarrow> bool" where
  "is_control ch \<longleftrightarrow>
     (case map of_char ch of
        [b] \<Rightarrow> b < (32 :: nat) \<or> b = 127
      | [b, c] \<Rightarrow> b = 194 \<and> c < 160
      | _ \<Rightarrow> False)"

section \<open>Characters of a lossy conversion\<close>

text \<open>One character: a byte below 128, or a byte from 192 on with continuation bytes.\<close>

definition char_bytes :: "string \<Rightarrow> bool" where
  "char_bytes ch \<longleftrightarrow>
     (case ch of
        [] \<Rightarrow> False
      | c # cs \<Rightarrow> (\<forall>d \<in> set cs. continuation d) \<and>
          ((of_char c :: nat) < 128 \<and> cs = [] \<or> 192 \<le> (of_char c :: nat)))"

lemma char_bytes_start: "char_bytes ch \<Longrightarrow> ch \<noteq> [] \<and> \<not> continuation (hd ch)"
  by (auto simp: char_bytes_def continuation_def split: list.splits)

lemma chars_concat: "\<forall>ch \<in> set chs. char_bytes ch \<Longrightarrow> chars (concat chs) = chs"
proof (induction chs)
  case (Cons ch chs)
  then obtain c cs where ch: "ch = c # cs" "\<forall>d \<in> set cs. continuation d"
    by (auto simp: char_bytes_def split: list.splits)
  have "concat chs = [] \<or> \<not> continuation (hd (concat chs))"
  proof (cases chs)
    case (Cons d ds)
    then have "d \<noteq> [] \<and> \<not> continuation (hd d)" using Cons.prems char_bytes_start by simp
    then show ?thesis using Cons by (cases d) simp_all
  qed simp
  then have "takeWhile continuation (cs @ concat chs) = cs" "dropWhile continuation (cs @ concat chs) = concat chs"
    using ch(2) by (auto simp: takeWhile_append2 dropWhile_append2 takeWhile_eq_Nil_iff dropWhile_eq_self_iff)
  then show ?case using Cons ch(1) by simp
qed simp

lemma utf8_step_char:
  assumes "utf8_step bs = (n, True)" "\<forall>b \<in> set bs. b < 256"
  shows "char_bytes (map char_of (take n bs))"
  using assms
  by (auto simp: utf8_step_def Let_def in_range_def char_bytes_def continuation_def of_char_of take_Cons'
      split: list.splits if_splits)

lemma from_utf8_lossy_chars:
  "\<forall>b \<in> set bs. b < 256 \<Longrightarrow> \<exists>chs. from_utf8_lossy bs = concat chs \<and> (\<forall>ch \<in> set chs. char_bytes ch)"
proof (induction bs rule: from_utf8_lossy.induct)
  case (1 bs)
  show ?case
  proof (cases "bs = []")
    case True
    then show ?thesis by (intro exI [of _ "[]"]) (simp add: from_utf8_lossy.simps)
  next
    case False
    obtain n ok where step: "utf8_step bs = (n, ok)" by force
    have "\<forall>b \<in> set (drop n bs). b < 256" using 1(2) by (meson in_set_dropD)
    from 1(1) [OF False step [symmetric] this] obtain chs where
      chs: "from_utf8_lossy (drop n bs) = concat chs" "\<forall>ch \<in> set chs. char_bytes ch" by blast
    let ?ch = "if ok then map char_of (take n bs) else REPLACEMENT"
    have "char_bytes ?ch"
      using utf8_step_char 1(2) step by (simp add: REPLACEMENT_def char_bytes_def continuation_def)
    with chs False step show ?thesis
      by (intro exI [of _ "?ch # chs"]) (simp add: from_utf8_lossy.simps [of bs])
  qed
qed

end
