(* ===== verification/Confluent_Client.thy ===== *)
theory Confluent_Client
  imports Url_Guard Http Registry Utf8
begin

text \<open>
  The HTTP client of the Confluent Schema Registry (\<open>src/confluent/mod.rs\<close>): requests, the
  classification of responses, every operation with its URL, and the builder.

  What the client calls outside the sources are the fields of \<open>confluent_env\<close>: percent-encoding,
  Base64, the text of a UUID, and the \<open>serde\<close> (de)serialisers of the request and response
  types, whose errors are texts.
\<close>

section \<open>Wire types\<close>

record schema_by_id_response =
  bi_schema :: string
  bi_schema_type :: string
  bi_references :: "schema_reference list option"
  bi_guid :: "schema_guid option"
  bi_subject :: "string option"
  bi_version :: "schema_version option"

record schema_by_subject_response =
  bs_id :: schema_id
  bs_schema :: string
  bs_version :: schema_version
  bs_subject :: string
  bs_schema_type :: string
  bs_references :: "schema_reference list option"
  bs_guid :: "schema_guid option"

record error_response =
  er_error_code :: int
  er_message :: string

record register_schema_request =
  rq_schema :: string
  rq_schema_type :: string
  rq_references :: "schema_reference list"

record 'w confluent_env =
  ce_http :: "'w http_env"
  ce_percent_encode :: "(char \<Rightarrow> bool) \<Rightarrow> string \<Rightarrow> string"
  ce_percent_decode_lossy :: "string \<Rightarrow> string"
  ce_base64 :: "string \<Rightarrow> string"
  ce_uuid :: "u128 \<Rightarrow> string"
  ce_register_body :: "register_schema_request \<Rightarrow> string + bytes"
  ce_compatibility_body :: "string \<Rightarrow> string + bytes"
  ce_id_response :: "bytes \<Rightarrow> string + schema_by_id_response"
  ce_subject_response :: "bytes \<Rightarrow> string + schema_by_subject_response"
  ce_register_response :: "bytes \<Rightarrow> string + schema_id"
  ce_compatible_response :: "bytes \<Rightarrow> string + bool"
  ce_level_response :: "bytes \<Rightarrow> string + string"
  ce_error_response :: "bytes \<Rightarrow> string + error_response"
  ce_strings :: "bytes \<Rightarrow> string + string list"
  ce_versions :: "bytes \<Rightarrow> string + schema_version list"
  ce_i32 :: "bytes \<Rightarrow> string + int"

definition SCHEMA_REGISTRY_CONTENT_TYPE :: string where
  "SCHEMA_REGISTRY_CONTENT_TYPE = ''application/vnd.schemaregistry.v1+json''"

definition ERROR_BODY_PREVIEW_LIMIT :: nat where "ERROR_BODY_PREVIEW_LIMIT = 512"

definition version_path_segment :: "schema_version \<Rightarrow> string" where
  "version_path_segment version = (if as_i32 version < 0 then ''latest'' else dec_int (as_i32 version))"

definition preview_char :: "string \<Rightarrow> string" where
  "preview_char ch =
     (if ch = [CHR 0x0A] then [CHR 0x5C, CHR ''n'']
      else if ch = [CHR 0x0D] then [CHR 0x5C, CHR ''r'']
      else if ch = [CHR 0x09] then [CHR 0x5C, CHR ''t'']
      else if is_control ch then ''?'' else ch)"

fun preview_loop :: "string list \<Rightarrow> string \<Rightarrow> string \<times> bool" where
  "preview_loop [] preview = (preview, False)"
| "preview_loop (ch # chs) preview =
     (if ERROR_BODY_PREVIEW_LIMIT < length preview + length (preview_char ch) then (preview, True)
      else preview_loop chs (preview @ preview_char ch))"

definition sanitized_error_body_preview :: "string \<Rightarrow> string" where
  "sanitized_error_body_preview body =
     (if body = [] then ''<empty>''
      else case preview_loop (chars body) [] of
             (preview, truncated) \<Rightarrow> preview @ (if truncated then ''...[truncated]'' else []))"

section \<open>Client\<close>

datatype registry_auth = NoAuth | Basic string string | Bearer string

record confluent_client =
  cc_client :: http_client
  cc_base_url :: string
  cc_auth :: registry_auth
  cc_normalize :: bool

definition auth_header_value :: "'w confluent_env \<Rightarrow> confluent_client \<Rightarrow> string option" where
  "auth_header_value env c =
     (case cc_auth c of
        NoAuth \<Rightarrow> None
      | Basic username password \<Rightarrow> Some (''Basic '' @ ce_base64 env (username @ '':'' @ password))
      | Bearer token \<Rightarrow> Some (''Bearer '' @ token))"

definition response_error :: "'w confluent_env \<Rightarrow> nat \<Rightarrow> bytes \<Rightarrow> sreg_error" where
  "response_error env status body =
     (if status = 401 \<or> status = 403
      then Auth status (case ce_error_response env body of
             Inr e \<Rightarrow> Text (er_message e)
           | Inl _ \<Rightarrow> Http_Msg (StatusOnly status))
      else case ce_error_response env body of
             Inr e \<Rightarrow> Api (er_error_code e) (Text (er_message e))
           | Inl _ \<Rightarrow> Http status (Text (sanitized_error_body_preview (from_utf8_lossy (map unat body)))))"

definition handle_response ::
    "'w confluent_env \<Rightarrow> (bytes \<Rightarrow> string + 'a) \<Rightarrow> nat \<Rightarrow> string option \<Rightarrow> bytes \<Rightarrow> 'a res" where
  "handle_response env from_slice status content_type body =
     (if 200 \<le> status \<and> status < 300
      then case content_type of
             Some ct \<Rightarrow>
               if str_contains ''json'' ct
               then (case from_slice body of
                       Inl e \<Rightarrow> Inl (InvalidState (Http_Msg (ResponseParseFailed e)))
                     | Inr a \<Rightarrow> Inr a)
               else Inl (Http status (Http_Msg (UnexpectedContentType ct)))
           | None \<Rightarrow> Inl (Http status (Http_Msg MissingContentType))
      else Inl (response_error env status body))"

definition handle_unit_response :: "'w confluent_env \<Rightarrow> nat \<Rightarrow> bytes \<Rightarrow> unit res" where
  "handle_unit_response env status body =
     (if 200 \<le> status \<and> status < 300 then Inr () else Inl (response_error env status body))"

definition call ::
    "'w confluent_env \<Rightarrow> confluent_client \<Rightarrow> string \<Rightarrow> string \<Rightarrow> (string \<times> string) list \<Rightarrow> bytes option
     \<Rightarrow> ('w, http_response) io" where
  "call env c meth url headers body =
     request (ce_http env) (cc_client c)
       \<lparr>hq_method = meth, hq_url = url, hq_extra_headers = headers, hq_body = body,
        hq_auth = auth_header_value env c\<rparr>"

abbreviation accept_only :: "(string \<times> string) list" where
  "accept_only \<equiv> [(''Accept'', SCHEMA_REGISTRY_CONTENT_TYPE)]"

abbreviation accept_and_content :: "(string \<times> string) list" where
  "accept_and_content \<equiv>
     [(''Accept'', SCHEMA_REGISTRY_CONTENT_TYPE), (''Content-Type'', SCHEMA_REGISTRY_CONTENT_TYPE)]"

definition http_get ::
    "'w confluent_env \<Rightarrow> confluent_client \<Rightarrow> (bytes \<Rightarrow> string + 'a) \<Rightarrow> string \<Rightarrow> ('w, 'a) io" where
  "http_get env c from_slice url =
     io_bind (call env c ''GET'' url accept_only None) (\<lambda>resp.
     io_lift (handle_response env from_slice (hr_status resp) (hr_content_type resp) (hr_body resp)))"

definition http_post ::
    "'w confluent_env \<Rightarrow> confluent_client \<Rightarrow> (bytes \<Rightarrow> string + 'a) \<Rightarrow> string \<Rightarrow> bytes \<Rightarrow> ('w, 'a) io" where
  "http_post env c from_slice url body =
     io_bind (call env c ''POST'' url accept_and_content (Some body)) (\<lambda>resp.
     io_lift (handle_response env from_slice (hr_status resp) (hr_content_type resp) (hr_body resp)))"

definition http_put_unit :: "'w confluent_env \<Rightarrow> confluent_client \<Rightarrow> string \<Rightarrow> bytes \<Rightarrow> ('w, unit) io" where
  "http_put_unit env c url body =
     io_bind (call env c ''PUT'' url accept_and_content (Some body)) (\<lambda>resp.
     io_lift (handle_unit_response env (hr_status resp) (hr_body resp)))"

definition http_delete ::
    "'w confluent_env \<Rightarrow> confluent_client \<Rightarrow> (bytes \<Rightarrow> string + 'a) \<Rightarrow> string \<Rightarrow> ('w, 'a) io" where
  "http_delete env c from_slice url =
     io_bind (call env c ''DELETE'' url accept_only None) (\<lambda>resp.
     io_lift (handle_response env from_slice (hr_status resp) (hr_content_type resp) (hr_body resp)))"

definition checked_subject :: "'w confluent_env \<Rightarrow> string \<Rightarrow> ('w, unit) io" where
  "checked_subject env subject = io_lift (validate_subject (ce_percent_decode_lossy env) subject)"

definition encoded :: "'w confluent_env \<Rightarrow> string \<Rightarrow> string" where
  "encoded env subject = percent_encode (ce_percent_encode env) subject"

text \<open>\<open>serde_json::to_vec\<close> of a request.\<close>

definition serialised :: "string + bytes \<Rightarrow> ('w, bytes) io" where
  "serialised r = io_lift (case r of Inl e \<Rightarrow> Inl (InvalidState (Http_Msg (SerialiseFailed e))) | Inr b \<Rightarrow> Inr b)"

definition request_of :: "string \<Rightarrow> schema_type \<Rightarrow> schema_reference list \<Rightarrow> register_schema_request" where
  "request_of sch ty refs = \<lparr>rq_schema = sch, rq_schema_type = schema_type_str ty, rq_references = refs\<rparr>"

definition parse_references :: "schema_reference list option \<Rightarrow> schema_reference list" where
  "parse_references refs = (case refs of None \<Rightarrow> [] | Some rs \<Rightarrow> rs)"

definition schema_from_subject_response :: "schema_by_subject_response \<Rightarrow> schema res" where
  "schema_from_subject_response body =
     res_bind (schema_type_from_str (bs_schema_type body)) (\<lambda>ty.
       Inr \<lparr>sch_id = Some (bs_id body), sch_guid = bs_guid body, sch_type = ty, sch_text = bs_schema body,
            sch_version = Some (bs_version body), sch_subject = Some (bs_subject body),
            sch_references = parse_references (bs_references body)\<rparr>)"

definition schema_from_id_response ::
    "schema_by_id_response \<Rightarrow> schema_id option \<Rightarrow> schema_guid option \<Rightarrow> schema res" where
  "schema_from_id_response body i guid =
     res_bind (schema_type_from_str (bi_schema_type body)) (\<lambda>ty.
       Inr \<lparr>sch_id = i, sch_guid = (case bi_guid body of Some g \<Rightarrow> Some g | None \<Rightarrow> guid), sch_type = ty,
            sch_text = bi_schema body, sch_version = bi_version body, sch_subject = bi_subject body,
            sch_references = parse_references (bi_references body)\<rparr>)"

section \<open>Operations\<close>

definition subject_url :: "'w confluent_env \<Rightarrow> confluent_client \<Rightarrow> string \<Rightarrow> string" where
  "subject_url env c subject = cc_base_url c @ ''/subjects/'' @ encoded env subject"

definition confluent_check_compatibility ::
    "'w confluent_env \<Rightarrow> confluent_client \<Rightarrow> string \<Rightarrow> string \<Rightarrow> schema_type \<Rightarrow> schema_reference list \<Rightarrow> ('w, bool) io" where
  "confluent_check_compatibility env c subject sch ty refs =
     io_bind (checked_subject env subject) (\<lambda>_.
     io_bind (serialised (ce_register_body env (request_of sch ty refs))) (\<lambda>body.
     http_post env c (ce_compatible_response env)
       (cc_base_url c @ ''/compatibility/subjects/'' @ encoded env subject @ ''/versions/latest'') body))"

definition confluent_get_subjects :: "'w confluent_env \<Rightarrow> confluent_client \<Rightarrow> ('w, string list) io" where
  "confluent_get_subjects env c = http_get env c (ce_strings env) (cc_base_url c @ ''/subjects'')"

definition confluent_get_versions :: "'w confluent_env \<Rightarrow> confluent_client \<Rightarrow> string \<Rightarrow> ('w, schema_version list) io" where
  "confluent_get_versions env c subject =
     io_bind (checked_subject env subject) (\<lambda>_.
     http_get env c (ce_versions env) (subject_url env c subject @ ''/versions''))"

definition confluent_health_check :: "'w confluent_env \<Rightarrow> confluent_client \<Rightarrow> ('w, unit) io" where
  "confluent_health_check env c =
     io_bind (http_get env c (ce_strings env) (cc_base_url c @ ''/subjects?limit=1'')) (\<lambda>_. io_return ())"

definition confluent_set_compatibility ::
    "'w confluent_env \<Rightarrow> confluent_client \<Rightarrow> string \<Rightarrow> compatibility_level \<Rightarrow> ('w, unit) io" where
  "confluent_set_compatibility env c subject level =
     io_bind (if subject = [] then io_return (cc_base_url c @ ''/config'')
              else io_bind (checked_subject env subject) (\<lambda>_.
                   io_return (cc_base_url c @ ''/config/'' @ encoded env subject))) (\<lambda>url.
     io_bind (serialised (ce_compatibility_body env (compat_str level))) (\<lambda>body.
     http_put_unit env c url body))"

definition confluent_get_compatibility ::
    "'w confluent_env \<Rightarrow> confluent_client \<Rightarrow> string \<Rightarrow> ('w, compatibility_level) io" where
  "confluent_get_compatibility env c subject =
     io_bind (if subject = [] then io_return (cc_base_url c @ ''/config'')
              else io_bind (checked_subject env subject) (\<lambda>_.
                   io_return (cc_base_url c @ ''/config/'' @ encoded env subject @ ''?defaultToGlobal=true''))) (\<lambda>url.
     io_bind (http_get env c (ce_level_response env) url) (\<lambda>level.
     io_lift (compat_from_str level)))"

definition confluent_delete_subject ::
    "'w confluent_env \<Rightarrow> confluent_client \<Rightarrow> string \<Rightarrow> bool \<Rightarrow> ('w, schema_version list) io" where
  "confluent_delete_subject env c subject permanent =
     io_bind (checked_subject env subject) (\<lambda>_.
     http_delete env c (ce_versions env)
       (subject_url env c subject @ (if permanent then ''?permanent=true'' else [])))"

definition confluent_delete_version ::
    "'w confluent_env \<Rightarrow> confluent_client \<Rightarrow> string \<Rightarrow> schema_version \<Rightarrow> bool \<Rightarrow> ('w, schema_version) io" where
  "confluent_delete_version env c subject version permanent =
     io_bind (checked_subject env subject) (\<lambda>_.
     io_bind (http_delete env c (ce_i32 env)
       (subject_url env c subject @ ''/versions/'' @ version_path_segment version @
        (if permanent then ''?permanent=true'' else []))) (\<lambda>deleted.
     io_return (SchemaVersion deleted)))"

definition confluent_lookup_schema ::
    "'w confluent_env \<Rightarrow> confluent_client \<Rightarrow> string \<Rightarrow> string \<Rightarrow> schema_type \<Rightarrow> schema_reference list
     \<Rightarrow> ('w, schema option) io" where
  "confluent_lookup_schema env c subject sch ty refs =
     io_bind (checked_subject env subject) (\<lambda>_.
     io_bind (serialised (ce_register_body env (request_of sch ty refs))) (\<lambda>body w.
     case http_post env c (ce_subject_response env)
         (subject_url env c subject @ (if cc_normalize c then ''?normalize=true'' else [])) body w of
       (Inr found, w') \<Rightarrow> (res_bind (schema_from_subject_response found) (\<lambda>x. Inr (Some x)), w')
     | (Inl e, w') \<Rightarrow> (if is_not_found e then Inr None else Inl e, w')))"

definition confluent_get_schema_by_guid :: "'w confluent_env \<Rightarrow> confluent_client \<Rightarrow> schema_guid \<Rightarrow> ('w, schema) io" where
  "confluent_get_schema_by_guid env c guid =
     io_bind (http_get env c (ce_id_response env) (cc_base_url c @ ''/schemas/guids/'' @ ce_uuid env (as_uuid guid))) (\<lambda>body.
     io_lift (schema_from_id_response body None (Some guid)))"

definition confluent_get_schema_by_id :: "'w confluent_env \<Rightarrow> confluent_client \<Rightarrow> schema_id \<Rightarrow> ('w, schema) io" where
  "confluent_get_schema_by_id env c i =
     io_bind (http_get env c (ce_id_response env) (cc_base_url c @ ''/schemas/ids/'' @ dec_nat (unat (as_u32 i)))) (\<lambda>body.
     io_lift (schema_from_id_response body (Some i) None))"

definition confluent_get_latest_schema :: "'w confluent_env \<Rightarrow> confluent_client \<Rightarrow> string \<Rightarrow> ('w, schema) io" where
  "confluent_get_latest_schema env c subject =
     io_bind (checked_subject env subject) (\<lambda>_.
     io_bind (http_get env c (ce_subject_response env) (subject_url env c subject @ ''/versions/latest'')) (\<lambda>body.
     io_lift (schema_from_subject_response body)))"

definition confluent_get_schema_by_version ::
    "'w confluent_env \<Rightarrow> confluent_client \<Rightarrow> string \<Rightarrow> schema_version \<Rightarrow> ('w, schema) io" where
  "confluent_get_schema_by_version env c subject version =
     io_bind (checked_subject env subject) (\<lambda>_.
     io_bind (http_get env c (ce_subject_response env)
       (subject_url env c subject @ ''/versions/'' @ version_path_segment version)) (\<lambda>body.
     io_lift (schema_from_subject_response body)))"

definition confluent_register_schema ::
    "'w confluent_env \<Rightarrow> confluent_client \<Rightarrow> string \<Rightarrow> string \<Rightarrow> schema_type \<Rightarrow> schema_reference list
     \<Rightarrow> ('w, schema_id) io" where
  "confluent_register_schema env c subject sch ty refs =
     io_bind (checked_subject env subject) (\<lambda>_.
     io_bind (serialised (ce_register_body env (request_of sch ty refs))) (\<lambda>body.
     http_post env c (ce_register_response env)
       (subject_url env c subject @ (if cc_normalize c then ''/versions?normalize=true'' else ''/versions'')) body))"

text \<open>The implementation of the trait.\<close>

definition confluent_registry :: "'w confluent_env \<Rightarrow> confluent_client \<Rightarrow> 'w registry" where
  "confluent_registry env c =
     \<lparr>rg_get_schema_by_id = confluent_get_schema_by_id env c,
      rg_get_schema_by_guid = confluent_get_schema_by_guid env c,
      rg_get_latest_schema = confluent_get_latest_schema env c,
      rg_get_schema_by_version = confluent_get_schema_by_version env c,
      rg_lookup_schema = confluent_lookup_schema env c,
      rg_register_schema = confluent_register_schema env c,
      rg_check_compatibility = confluent_check_compatibility env c,
      rg_delete_subject = confluent_delete_subject env c,
      rg_delete_version = confluent_delete_version env c,
      rg_get_subjects = confluent_get_subjects env c,
      rg_get_versions = confluent_get_versions env c,
      rg_get_compatibility = confluent_get_compatibility env c,
      rg_set_compatibility = confluent_set_compatibility env c,
      rg_health_check = confluent_health_check env c\<rparr>"

section \<open>Builder\<close>

text \<open>The options of the transport are handed on as they are.\<close>

record ('c, 'i) confluent_builder =
  cb_url :: "string option"
  cb_auth :: registry_auth
  cb_normalize :: bool
  cb_retry_policy :: retry_policy
  cb_max_concurrent :: "nat option"
  cb_request_timeout :: "nat option"
  cb_connect_timeout :: "nat option"
  cb_root_certificates :: "'c list"
  cb_identity :: "'i option"
  cb_pool_max_idle_per_host :: "nat option"

definition confluent_builder_default :: "('c, 'i) confluent_builder" where
  "confluent_builder_default =
     \<lparr>cb_url = None, cb_auth = NoAuth, cb_normalize = False, cb_retry_policy = policy_default, cb_max_concurrent = None,
      cb_request_timeout = Some DEFAULT_REQUEST_TIMEOUT, cb_connect_timeout = None, cb_root_certificates = [],
      cb_identity = None, cb_pool_max_idle_per_host = None\<rparr>"

text \<open>The setters.\<close>

definition confluent_set_url :: "string \<Rightarrow> ('c, 'i) confluent_builder \<Rightarrow> ('c, 'i) confluent_builder" where
  "confluent_set_url x b = b\<lparr>cb_url := Some x\<rparr>"

definition confluent_set_normalize_schemas :: "bool \<Rightarrow> ('c, 'i) confluent_builder \<Rightarrow> ('c, 'i) confluent_builder" where
  "confluent_set_normalize_schemas x b = b\<lparr>cb_normalize := x\<rparr>"

definition confluent_set_retry_policy :: "retry_policy \<Rightarrow> ('c, 'i) confluent_builder \<Rightarrow> ('c, 'i) confluent_builder" where
  "confluent_set_retry_policy x b = b\<lparr>cb_retry_policy := x\<rparr>"

definition confluent_set_max_concurrent_requests :: "nat \<Rightarrow> ('c, 'i) confluent_builder \<Rightarrow> ('c, 'i) confluent_builder" where
  "confluent_set_max_concurrent_requests x b = b\<lparr>cb_max_concurrent := Some x\<rparr>"

definition confluent_basic_auth :: "string \<Rightarrow> string \<Rightarrow> ('c, 'i) confluent_builder \<Rightarrow> ('c, 'i) confluent_builder" where
  "confluent_basic_auth username password b = b\<lparr>cb_auth := Basic username password\<rparr>"

definition confluent_bearer_token :: "string \<Rightarrow> ('c, 'i) confluent_builder \<Rightarrow> ('c, 'i) confluent_builder" where
  "confluent_bearer_token token b = b\<lparr>cb_auth := Bearer token\<rparr>"

definition confluent_set_request_timeout :: "nat \<Rightarrow> ('c, 'i) confluent_builder \<Rightarrow> ('c, 'i) confluent_builder" where
  "confluent_set_request_timeout x b = b\<lparr>cb_request_timeout := Some x\<rparr>"

definition confluent_clear_request_timeout :: "('c, 'i) confluent_builder \<Rightarrow> ('c, 'i) confluent_builder" where
  "confluent_clear_request_timeout b = b\<lparr>cb_request_timeout := None\<rparr>"

definition confluent_set_connect_timeout :: "nat \<Rightarrow> ('c, 'i) confluent_builder \<Rightarrow> ('c, 'i) confluent_builder" where
  "confluent_set_connect_timeout x b = b\<lparr>cb_connect_timeout := Some x\<rparr>"

definition confluent_add_root_certificate :: "'c \<Rightarrow> ('c, 'i) confluent_builder \<Rightarrow> ('c, 'i) confluent_builder" where
  "confluent_add_root_certificate x b = b\<lparr>cb_root_certificates := cb_root_certificates b @ [x]\<rparr>"

definition confluent_set_identity :: "'i \<Rightarrow> ('c, 'i) confluent_builder \<Rightarrow> ('c, 'i) confluent_builder" where
  "confluent_set_identity x b = b\<lparr>cb_identity := Some x\<rparr>"

definition confluent_set_pool_max_idle_per_host :: "nat \<Rightarrow> ('c, 'i) confluent_builder \<Rightarrow> ('c, 'i) confluent_builder" where
  "confluent_set_pool_max_idle_per_host x b = b\<lparr>cb_pool_max_idle_per_host := Some x\<rparr>"

text \<open>What \<open>build\<close> hands to the HTTP client.\<close>

definition confluent_http_config :: "('c, 'i) confluent_builder \<Rightarrow> ('c, 'i) http_client_config" where
  "confluent_http_config b =
     \<lparr>cf_timeout = cb_request_timeout b, cf_connect_timeout = cb_connect_timeout b,
      cf_root_certificates = cb_root_certificates b, cf_identity = cb_identity b,
      cf_pool_max_idle_per_host = cb_pool_max_idle_per_host b, cf_retry_policy = cb_retry_policy b,
      cf_max_concurrent_requests = cb_max_concurrent b\<rparr>"

definition confluent_from_env :: "(string \<Rightarrow> string option) \<Rightarrow> ('c, 'i) confluent_builder res" where
  "confluent_from_env var =
     (case var ''SCHEMA_REGISTRY_URL'' of
        None \<Rightarrow> Inl (Config (Client (MustBeSet ''SCHEMA_REGISTRY_URL'')))
      | Some url \<Rightarrow>
          let builder = confluent_set_url url confluent_builder_default
          in Inr (case var ''SCHEMA_REGISTRY_BEARER_TOKEN'' of
                    Some token \<Rightarrow> confluent_bearer_token token builder
                  | None \<Rightarrow>
                      (case (var ''SCHEMA_REGISTRY_USERNAME'', var ''SCHEMA_REGISTRY_PASSWORD'') of
                         (Some user, Some pass) \<Rightarrow> confluent_basic_auth user pass builder
                       | _ \<Rightarrow> builder)))"

definition confluent_new :: "('c, 'i) finish \<Rightarrow> string \<Rightarrow> confluent_client res" where
  "confluent_new finish url =
     (let url = normalize_url url
      in res_bind (reject_embedded_credentials url) (\<lambda>_.
         res_bind (with_webpki_roots finish (Some DEFAULT_REQUEST_TIMEOUT)) (\<lambda>client.
           Inr \<lparr>cc_client = client, cc_base_url = url, cc_auth = NoAuth, cc_normalize = False\<rparr>)))"

definition confluent_build :: "('c, 'i) finish \<Rightarrow> ('c, 'i) confluent_builder \<Rightarrow> confluent_client res" where
  "confluent_build finish b =
     res_bind (ok_or (cb_url b) (Config (Client (MustBeSet ''schema registry URL'')))) (\<lambda>url.
     res_bind (reject_embedded_credentials url) (\<lambda>_.
     if cb_auth b \<noteq> NoAuth \<and> starts_with url ''http://'' \<and> \<not> is_loopback_host url
     then Inl (Config (Http_Msg AuthNeedsHttps))
     else res_bind (with_config finish (confluent_http_config b)) (\<lambda>client.
       Inr \<lparr>cc_client = client, cc_base_url = normalize_url url, cc_auth = cb_auth b, cc_normalize = cb_normalize b\<rparr>)))"

section \<open>Lemmas\<close>

text \<open>The preview of an error body.\<close>

definition printable :: "char \<Rightarrow> bool" where
  "printable c \<longleftrightarrow> 32 \<le> (of_char c :: nat) \<and> (of_char c :: nat) \<noteq> 127"

lemma preview_char_printable: "char_bytes ch \<Longrightarrow> \<forall>c \<in> set (preview_char ch). printable c"
  by (auto simp: preview_char_def is_control_def char_bytes_def continuation_def printable_def
      split: list.splits if_splits)

lemma preview_loop_bound:
  assumes "preview_loop chs p = (q, t)" "\<forall>ch \<in> set chs. char_bytes ch" "\<forall>c \<in> set p. printable c"
    and "length p \<le> ERROR_BODY_PREVIEW_LIMIT"
  shows "length q \<le> ERROR_BODY_PREVIEW_LIMIT \<and> (\<forall>c \<in> set q. printable c)"
  using assms
proof (induction chs p rule: preview_loop.induct)
  case (2 ch chs preview)
  show ?case
  proof (cases "ERROR_BODY_PREVIEW_LIMIT < length preview + length (preview_char ch)")
    case True
    with 2(2,4,5) show ?thesis by simp
  next
    case False
    have "\<forall>c \<in> set (preview @ preview_char ch). printable c"
      using 2(3,4) preview_char_printable [of ch] by auto
    with 2(1) [OF False _ _ this] False 2(2,3) show ?thesis by simp
  qed
qed simp

lemma preview_safe:
  assumes "preview = sanitized_error_body_preview (from_utf8_lossy (map unat (body :: bytes)))"
  shows "length preview \<le> ERROR_BODY_PREVIEW_LIMIT + 14 \<and> (\<forall>c \<in> set preview. printable c)"
proof -
  let ?text = "from_utf8_lossy (map unat body)"
  have "unat b < 256" for b :: u8
    using unsigned_less [of b, where ?'a = nat] by simp
  then have "\<forall>b \<in> set (map unat body). b < 256" by simp
  then obtain chs where chs: "?text = concat chs" "\<forall>ch \<in> set chs. char_bytes ch"
    using from_utf8_lossy_chars by blast
  obtain q t where q: "preview_loop (chars ?text) [] = (q, t)" by force
  have "length q \<le> ERROR_BODY_PREVIEW_LIMIT \<and> (\<forall>c \<in> set q. printable c)"
    using preview_loop_bound [OF q] chs by (simp add: chars_concat)
  then show ?thesis
    unfolding assms sanitized_error_body_preview_def q
    by (auto simp: ERROR_BODY_PREVIEW_LIMIT_def printable_def)
qed

lemmas confluent_operations =
  confluent_get_schema_by_id_def confluent_get_schema_by_guid_def confluent_get_latest_schema_def
  confluent_get_schema_by_version_def confluent_lookup_schema_def confluent_register_schema_def
  confluent_check_compatibility_def confluent_delete_subject_def confluent_delete_version_def
  confluent_get_subjects_def confluent_get_versions_def confluent_get_compatibility_def
  confluent_set_compatibility_def confluent_health_check_def

lemma call_cong:
  assumes "send \<lparr>hq_method = meth, hq_url = url, hq_extra_headers = headers, hq_body = body,
      hq_auth = auth_header_value env c\<rparr> =
    he_send (ce_http env) \<lparr>hq_method = meth, hq_url = url, hq_extra_headers = headers, hq_body = body,
      hq_auth = auth_header_value env c\<rparr>"
  shows "call (env\<lparr>ce_http := with_send send (ce_http env)\<rparr>) c meth url headers body = call env c meth url headers body"
proof -
  have "auth_header_value (env\<lparr>ce_http := with_send send (ce_http env)\<rparr>) c = auth_header_value env c"
    by (simp add: auth_header_value_def split: registry_auth.split)
  then show ?thesis
    unfolding call_def using request_cong [where send = send, OF assms] by simp
qed

lemma response_error_cong: "response_error (env\<lparr>ce_http := h\<rparr>) = response_error env"
  by (simp add: response_error_def fun_eq_iff split: sum.split)

lemma handle_response_cong: "handle_response (env\<lparr>ce_http := h\<rparr>) p = handle_response env p"
  unfolding handle_response_def response_error_cong ..

lemma handle_unit_response_cong: "handle_unit_response (env\<lparr>ce_http := h\<rparr>) = handle_unit_response env"
  unfolding handle_unit_response_def response_error_cong ..

text \<open>The requests a client may send: below its base URL, with its credentials.\<close>

definition below :: "confluent_client \<Rightarrow> string \<Rightarrow> bool" where
  "below c url \<longleftrightarrow> starts_with url (cc_base_url c @ ''/'')"

lemma below_base: "below c (cc_base_url c @ CHR ''/'' # path)"
  using starts_with_append [of "cc_base_url c @ ''/''" path] by (simp add: below_def)

lemma below_subject: "below c (subject_url env c subject @ path)"
  using below_base [of c "''subjects/'' @ encoded env subject @ path"] by (simp add: subject_url_def)

lemma call_confined:
  assumes "\<forall>rq. confined (cc_base_url c) (auth_header_value env c) rq \<longrightarrow> send rq = he_send (ce_http env) rq"
    and "below c url"
  shows "call (env\<lparr>ce_http := with_send send (ce_http env)\<rparr>) c meth url headers body = call env c meth url headers body"
  using assms by (intro call_cong) (simp add: confined_def below_def)

lemma http_confined:
  assumes "\<forall>rq. confined (cc_base_url c) (auth_header_value env c) rq \<longrightarrow> send rq = he_send (ce_http env) rq"
    and "below c url"
  shows "http_get (env\<lparr>ce_http := with_send send (ce_http env)\<rparr>) c p url = http_get env c p url"
    and "http_post (env\<lparr>ce_http := with_send send (ce_http env)\<rparr>) c p url body = http_post env c p url body"
    and "http_put_unit (env\<lparr>ce_http := with_send send (ce_http env)\<rparr>) c url body = http_put_unit env c url body"
    and "http_delete (env\<lparr>ce_http := with_send send (ce_http env)\<rparr>) c p url = http_delete env c p url"
  unfolding http_get_def http_post_def http_put_unit_def http_delete_def handle_response_cong
    handle_unit_response_cong call_confined [OF assms] by (rule refl)+

lemma checked_subject_cong: "checked_subject (env\<lparr>ce_http := h\<rparr>) = checked_subject env"
  by (simp add: checked_subject_def fun_eq_iff)

lemma encoded_cong: "encoded (env\<lparr>ce_http := h\<rparr>) = encoded env"
  by (simp add: encoded_def fun_eq_iff)

lemma subject_url_cong: "subject_url (env\<lparr>ce_http := h\<rparr>) = subject_url env"
  by (simp add: subject_url_def encoded_cong fun_eq_iff)

lemmas ce_http_cong = checked_subject_cong encoded_cong subject_url_cong

lemma config_url_cong:
  assumes "\<And>path. f (cc_base_url c @ CHR ''/'' # path) = g (cc_base_url c @ CHR ''/'' # path)"
  shows "io_bind (if subject = [] then io_return (cc_base_url c @ ''/config'')
              else io_bind ch (\<lambda>_. io_return (cc_base_url c @ ''/config/'' @ p))) f =
         io_bind (if subject = [] then io_return (cc_base_url c @ ''/config'')
              else io_bind ch (\<lambda>_. io_return (cc_base_url c @ ''/config/'' @ p))) g"
  using assms [of "''config''"] assms [of "''config/'' @ p"]
  by (auto simp: io_bind_def fun_eq_iff split: prod.split sum.split)

text \<open>A registry with one schema, of identifier 7, below \<open>http://r\<close>; the world counts requests.\<close>

definition demo_send :: "http_request \<Rightarrow> nat \<Rightarrow> (string + raw_response) \<times> nat" where
  "demo_send rq n =
     (Inr \<lparr>rr_status = (if hq_url rq = ''http://r/schemas/ids/7'' then 200 else 404),
           rr_headers = [(''content-type'', Some ''application/json'')], rr_content_length = None, rr_chunks = []\<rparr>, n + 1)"

definition demo_confluent_env :: "nat confluent_env" where
  "demo_confluent_env =
     \<lparr>ce_http = \<lparr>he_valid_method = (\<lambda>_. True), he_send = demo_send, he_now = (\<lambda>_. None), he_sleep = (\<lambda>_ n. n),
        he_seed = (\<lambda>_. 0), he_acquire = (\<lambda>n. (True, n)), he_release = (\<lambda>n. n)\<rparr>,
      ce_percent_encode = encode_documented, ce_percent_decode_lossy = (\<lambda>s. s), ce_base64 = (\<lambda>s. s),
      ce_uuid = (\<lambda>_. ''u''), ce_register_body = (\<lambda>_. Inr []), ce_compatibility_body = (\<lambda>_. Inr []),
      ce_id_response = (\<lambda>_. Inr \<lparr>bi_schema = ''s'', bi_schema_type = ''AVRO'', bi_references = None, bi_guid = None,
        bi_subject = None, bi_version = None\<rparr>),
      ce_subject_response = (\<lambda>_. Inl ''no''), ce_register_response = (\<lambda>_. Inl ''no''),
      ce_compatible_response = (\<lambda>_. Inl ''no''), ce_level_response = (\<lambda>_. Inl ''no''),
      ce_error_response = (\<lambda>_. Inl ''no''), ce_strings = (\<lambda>_. Inr []), ce_versions = (\<lambda>_. Inl ''no''),
      ce_i32 = (\<lambda>_. Inl ''no'')\<rparr>"

definition is_Inr_base :: "confluent_client res \<Rightarrow> string \<Rightarrow> bool" where
  "is_Inr_base r url = (case r of Inr cl \<Rightarrow> cc_base_url cl = url | Inl _ \<Rightarrow> False)"

definition demo_confluent_client :: confluent_client where
  "demo_confluent_client =
     \<lparr>cc_client = \<lparr>hc_retry_policy = policy_default, hc_concurrency = None\<rparr>, cc_base_url = ''http://r'',
      cc_auth = NoAuth, cc_normalize = False\<rparr>"

section \<open>Properties\<close>

text \<open>
  What a response outside 200..299 may become: an authentication error for 401 and 403, which
  carries the message of the body where there is one; the API error the body encodes; or an HTTP
  error with a short printable preview of a body that encodes none.
\<close>

definition refusal :: "'w confluent_env \<Rightarrow> nat \<Rightarrow> bytes \<Rightarrow> sreg_error \<Rightarrow> bool" where
  "refusal env status body e =
     (case e of
        Auth s m \<Rightarrow> s = status \<and> status \<in> {401, 403} \<and>
          (case ce_error_response env body of Inr r \<Rightarrow> m = Text (er_message r) | Inl _ \<Rightarrow> m = Http_Msg (StatusOnly status))
      | Api code m \<Rightarrow> status \<notin> {401, 403} \<and>
          (\<exists>r. ce_error_response env body = Inr r \<and> code = er_error_code r \<and> m = Text (er_message r))
      | Http s m \<Rightarrow> s = status \<and> status \<notin> {401, 403} \<and> (\<exists>x. ce_error_response env body = Inl x) \<and>
          (\<exists>t. m = Text t \<and> length t \<le> 526 \<and> (\<forall>c \<in> set t. printable c))
      | _ \<Rightarrow> False)"

lemma response_error_refusal: "refusal env status body (response_error env status body)"
proof -
  have "length (sanitized_error_body_preview (from_utf8_lossy (map unat body))) \<le> 526 \<and>
      (\<forall>c \<in> set (sanitized_error_body_preview (from_utf8_lossy (map unat body))). printable c)"
    using preview_safe [OF refl, of body] by (simp add: ERROR_BODY_PREVIEW_LIMIT_def)
  then show ?thesis by (auto simp: refusal_def response_error_def split: sum.splits)
qed

text \<open>
  C22. Responses. A call that reads a value returns one only for a 2xx status with a JSON content
  type and a body that parses. The error of a 2xx response says which of these failed: no content
  type, one that is not JSON, which it names, or a body that does not parse, with the parser's
  message. Every other status, for the calls that read a value and for those that only look at
  the status alike, gives a \<open>refusal\<close>: for 401 and 403, and only for them, an authentication
  error with that status; otherwise the API error of the body, with its code and message; or an
  HTTP error with that status whose message is at most 526 printable bytes, however the body looks.
\<close>

theorem confluent_response_classes:
  "(handle_response env p status ct body = Inr a) =
     (200 \<le> status \<and> status < 300 \<and> (case ct of Some t \<Rightarrow> str_contains ''json'' t | None \<Rightarrow> False) \<and> p body = Inr a) \<and>
   (handle_response env p status ct body = Inl e \<longrightarrow>
     (if 200 \<le> status \<and> status < 300
      then (case ct of
              None \<Rightarrow> e = Http status (Http_Msg MissingContentType)
            | Some t \<Rightarrow>
                if str_contains ''json'' t then \<exists>x. p body = Inl x \<and> e = InvalidState (Http_Msg (ResponseParseFailed x))
                else e = Http status (Http_Msg (UnexpectedContentType t)))
      else refusal env status body e \<and> is_auth_error e = (status \<in> {401, 403}))) \<and>
   (handle_unit_response env status body = Inr u) = (200 \<le> status \<and> status < 300) \<and>
   (handle_unit_response env status body = Inl e \<longrightarrow>
     refusal env status body e \<and> is_auth_error e = (status \<in> {401, 403}))"
proof -
  have refused: "refusal env status body e \<and> is_auth_error e = (status \<in> {401, 403})"
    if "e = response_error env status body"
    unfolding that using response_error_refusal [of env status body]
    by (simp add: response_error_def split: sum.splits)
  have "(handle_response env p status ct body = Inr a) =
     (200 \<le> status \<and> status < 300 \<and> (case ct of Some t \<Rightarrow> str_contains ''json'' t | None \<Rightarrow> False) \<and> p body = Inr a)"
    by (auto simp: handle_response_def split: option.splits sum.splits)
  moreover have "if 200 \<le> status \<and> status < 300
      then (case ct of
              None \<Rightarrow> e = Http status (Http_Msg MissingContentType)
            | Some t \<Rightarrow>
                if str_contains ''json'' t then \<exists>x. p body = Inl x \<and> e = InvalidState (Http_Msg (ResponseParseFailed x))
                else e = Http status (Http_Msg (UnexpectedContentType t)))
      else refusal env status body e \<and> is_auth_error e = (status \<in> {401, 403})"
    if "handle_response env p status ct body = Inl e"
  proof (cases "200 \<le> status \<and> status < 300")
    case True
    with that show ?thesis by (auto simp: handle_response_def split: option.splits sum.splits if_splits)
  next
    case False
    with that have "e = response_error env status body" unfolding handle_response_def by (auto split: if_splits)
    then show ?thesis unfolding if_not_P [OF False] by (rule refused)
  qed
  moreover have "(handle_unit_response env status body = Inr u) = (200 \<le> status \<and> status < 300)"
    by (simp add: handle_unit_response_def)
  moreover have "refusal env status body e \<and> is_auth_error e = (status \<in> {401, 403})"
    if "handle_unit_response env status body = Inl e"
    using that refused by (auto simp: handle_unit_response_def split: if_splits)
  ultimately show ?thesis by blast
qed

theorem confluent_response_classes_witness:
  "\<exists>t. handle_response demo_confluent_env (\<lambda>_. Inr ()) 503 None [0x3C, 0x0A] = Inl (Http 503 (Text t)) \<and> length t \<le> 526 \<and>
     handle_unit_response demo_confluent_env 503 [0x3C, 0x0A] = Inl (Http 503 (Text t))"
proof -
  have none: "ce_error_response demo_confluent_env b = Inl ''no''" for b by (simp add: demo_confluent_env_def)
  then obtain t where t: "handle_response demo_confluent_env (\<lambda>_. Inr ()) 503 None [0x3C, 0x0A] = Inl (Http 503 (Text t))"
      "handle_unit_response demo_confluent_env 503 [0x3C, 0x0A] = Inl (Http 503 (Text t))"
    by (simp add: handle_response_def handle_unit_response_def response_error_def)
  with confluent_response_classes [where env = demo_confluent_env and status = 503 and body = "[0x3C, 0x0A]"
      and ct = None and p = "\<lambda>_. Inr ()" and e = "Http 503 (Text t)"] show ?thesis
    by (auto simp: refusal_def)
qed

text \<open>
  A subject that the checks reject never reaches the network: every operation that takes one
  returns the error of the check and leaves the world as it was; the two configuration
  operations accept the empty subject, which stands for the global default.
\<close>

theorem confluent_checks_subject:
  assumes "validate_subject (ce_percent_decode_lossy env) subject = Inl e"
  shows "rg_get_latest_schema (confluent_registry env c) subject w = (Inl e, w) \<and>
    rg_get_schema_by_version (confluent_registry env c) subject v w = (Inl e, w) \<and>
    rg_lookup_schema (confluent_registry env c) subject sch ty refs w = (Inl e, w) \<and>
    rg_register_schema (confluent_registry env c) subject sch ty refs w = (Inl e, w) \<and>
    rg_check_compatibility (confluent_registry env c) subject sch ty refs w = (Inl e, w) \<and>
    rg_delete_subject (confluent_registry env c) subject permanent w = (Inl e, w) \<and>
    rg_delete_version (confluent_registry env c) subject v permanent w = (Inl e, w) \<and>
    rg_get_versions (confluent_registry env c) subject w = (Inl e, w) \<and>
    (subject = [] \<or> rg_get_compatibility (confluent_registry env c) subject w = (Inl e, w)) \<and>
    (subject = [] \<or> rg_set_compatibility (confluent_registry env c) subject level w = (Inl e, w))"
proof -
  have check: "checked_subject env subject = io_fail e"
    using assms by (simp add: checked_subject_def fun_eq_iff)
  show ?thesis by (simp add: confluent_registry_def confluent_operations check)
qed

theorem confluent_checks_subject_witness:
  "rg_delete_subject (confluent_registry demo_confluent_env demo_confluent_client) ''../config'' True 5 =
     (Inl (Config (Http_Msg DotSegment)), 5)"
proof -
  have "validate_subject (ce_percent_decode_lossy demo_confluent_env) ''../config'' = Inl (Config (Http_Msg DotSegment))"
    by (simp add: demo_confluent_env_def validate_subject_def has_no_dot_segments_def is_slash_def MAX_SUBJECT_LEN_def)
  from confluent_checks_subject [OF this] show ?thesis by blast
qed

text \<open>
  C16. The client talks to its registry only. Every request of every operation goes to a URL below
  the base URL and carries exactly the configured credentials: two networks that answer those
  requests alike cannot be told apart through the client.
\<close>

theorem confluent_confined:
  assumes "\<forall>rq. confined (cc_base_url c) (auth_header_value env c) rq \<longrightarrow> send rq = he_send (ce_http env) rq"
  shows "confluent_registry (env\<lparr>ce_http := with_send send (ce_http env)\<rparr>) c = confluent_registry env c"
proof -
  let ?env = "env\<lparr>ce_http := with_send send (ce_http env)\<rparr>"
  note base = http_confined [OF assms below_base] and sub = http_confined [OF assms below_subject]
    and subj = http_confined [OF assms below_subject [where path = "[]", simplified]]
  have "confluent_get_schema_by_id ?env c = confluent_get_schema_by_id env c"
    by (intro ext) (simp add: confluent_get_schema_by_id_def base )
  moreover have "confluent_get_schema_by_guid ?env c = confluent_get_schema_by_guid env c"
    by (intro ext) (simp add: confluent_get_schema_by_guid_def base )
  moreover have "confluent_get_latest_schema ?env c = confluent_get_latest_schema env c"
    by (intro ext) (simp add: confluent_get_latest_schema_def ce_http_cong sub )
  moreover have "confluent_get_schema_by_version ?env c = confluent_get_schema_by_version env c"
    by (intro ext) (simp add: confluent_get_schema_by_version_def ce_http_cong sub )
  moreover have "confluent_lookup_schema ?env c = confluent_lookup_schema env c"
    by (intro ext) (simp add: confluent_lookup_schema_def ce_http_cong sub subj )
  moreover have "confluent_register_schema ?env c = confluent_register_schema env c"
    by (intro ext) (simp add: confluent_register_schema_def ce_http_cong sub )
  moreover have "confluent_check_compatibility ?env c = confluent_check_compatibility env c"
    by (intro ext) (simp add: confluent_check_compatibility_def ce_http_cong base )
  moreover have "confluent_delete_subject ?env c = confluent_delete_subject env c"
    by (intro ext) (simp add: confluent_delete_subject_def ce_http_cong sub subj )
  moreover have "confluent_delete_version ?env c = confluent_delete_version env c"
    by (intro ext) (simp add: confluent_delete_version_def ce_http_cong sub )
  moreover have "confluent_get_subjects ?env c = confluent_get_subjects env c"
    by (intro ext) (simp add: confluent_get_subjects_def base )
  moreover have "confluent_get_versions ?env c = confluent_get_versions env c"
    by (intro ext) (simp add: confluent_get_versions_def ce_http_cong sub )
  moreover have "confluent_get_compatibility ?env c = confluent_get_compatibility env c"
    unfolding confluent_get_compatibility_def ce_http_cong
    by (rule ext, rule config_url_cong, simp add: base)
  moreover have "confluent_set_compatibility ?env c = confluent_set_compatibility env c"
    unfolding confluent_set_compatibility_def ce_http_cong
    by (intro ext, rule fun_cong [OF config_url_cong], rule ext) (simp add: base io_bind_def split: prod.split sum.split)
  moreover have "confluent_health_check ?env c = confluent_health_check env c"
    by (intro ext) (simp add: confluent_health_check_def base )
  ultimately show ?thesis by (simp only: confluent_registry_def)
qed

theorem confluent_confined_witness:
  "confluent_registry (demo_confluent_env\<lparr>ce_http := with_send
       (\<lambda>rq n. if starts_with (hq_url rq) ''http://r/'' then demo_send rq n else (Inl ''down'', n))
       (ce_http demo_confluent_env)\<rparr>) demo_confluent_client =
     confluent_registry demo_confluent_env demo_confluent_client"
  by (rule confluent_confined)
    (simp add: confined_def demo_confluent_env_def demo_confluent_client_def fun_eq_iff)

text \<open>
  C34. The clear-text check, for a URL whose scheme is spelled \<open>http://\<close> in lower case. A client
  that the builder makes with credentials for such a URL has a base URL on a loopback host, with
  no credentials of its own in the authority, although the base URL is what normalisation left of
  the URL that was checked. The check does not recognise other spellings of the scheme: with
  \<open>HTTP://\<close> the builder accepts credentials for any host, as \<open>upper_case_scheme_passes\<close> shows.
\<close>

theorem confluent_cleartext_guard:
  assumes "confluent_build finish b = Inr cl" and "cb_auth b \<noteq> NoAuth"
    and "cb_url b = Some url" and "starts_with url ''http://''"
  shows "is_loopback_host (cc_base_url cl) \<and> reject_embedded_credentials (cc_base_url cl) = Inr ()"
proof -
  have "is_loopback_host url" "reject_embedded_credentials url = Inr ()" "cc_base_url cl = normalize_url url"
    using assms by (auto simp: confluent_build_def split: if_splits)
  with checks_normalized [OF assms(4)] show ?thesis by simp
qed

theorem confluent_cleartext_guard_witness:
  "is_loopback_host ''http://localhost:8081''"
proof -
  let ?b = "confluent_basic_auth ''u'' ''p'' (confluent_builder_default\<lparr>cb_url := Some ''http://localhost:8081/''\<rparr>)"
  have "is_Inr_base (confluent_build (\<lambda>_. Inr ()) ?b) ''http://localhost:8081''"
    by (simp add: confluent_build_def confluent_basic_auth_def confluent_builder_default_def is_Inr_base_def confluent_http_config_def
      reject_embedded_credentials_def authority_of_def starts_with_def Let_def ends_authority_def with_config_def
      normalize_url_def trim_end_matches_def is_loopback_host_def host_of_def strip_prefix_def eq_ignore_ascii_case_def)
  then obtain cl where "confluent_build (\<lambda>_. Inr ()) ?b = Inr cl" "cc_base_url cl = ''http://localhost:8081''"
    by (auto simp: is_Inr_base_def split: sum.splits)
  with confluent_cleartext_guard [OF this(1), of "''http://localhost:8081/''"] show ?thesis
    by (simp add: confluent_basic_auth_def starts_with_def)
qed

text \<open>The scheme is compared as written: an upper-case one passes the check.\<close>

theorem upper_case_scheme_passes:
  "confluent_build (\<lambda>_. Inr ()) (confluent_basic_auth ''u'' ''p'' (confluent_builder_default\<lparr>cb_url := Some ''HTTP://h''\<rparr>)) =
     Inr \<lparr>cc_client = \<lparr>hc_retry_policy = policy_default, hc_concurrency = None\<rparr>, cc_base_url = ''HTTP://h'',
       cc_auth = Basic ''u'' ''p'', cc_normalize = False\<rparr>"
  by (simp add: confluent_build_def confluent_basic_auth_def confluent_builder_default_def is_Inr_base_def confluent_http_config_def
      reject_embedded_credentials_def authority_of_def starts_with_def Let_def ends_authority_def with_config_def
      normalize_url_def trim_end_matches_def is_loopback_host_def host_of_def strip_prefix_def eq_ignore_ascii_case_def)

text \<open>Every client follows at most three redirects, and times requests out unless that was cleared.\<close>

theorem confluent_transport:
  assumes "confluent_build finish b = Inr cl"
  shows "\<exists>options. finish options = Inr () \<and> {n. RedirectLimit n \<in> set options} = {3} \<and>
    {t. RequestTimeout t \<in> set options} = set_option (cb_request_timeout b)"
proof -
  have "finish (transport_options (confluent_http_config b)) = Inr ()"
    using assms by (auto simp: confluent_build_def with_config_def split: if_splits sum.splits)
  moreover have "{n. RedirectLimit n \<in> set (transport_options (confluent_http_config b))} = {3}"
    "{t. RequestTimeout t \<in> set (transport_options (confluent_http_config b))} = set_option (cb_request_timeout b)"
    by (auto simp: transport_options_def confluent_http_config_def MAX_REDIRECTS_def split: option.splits)
  ultimately show ?thesis by blast
qed

end
