(* ===== verification/Apicurio_Client.thy ===== *)
theory Apicurio_Client
  imports Url_Guard Http Registry Utf8 Serde_Json
begin

text \<open>
  The HTTP client of the Apicurio Registry (\<open>src/apicurio/mod.rs\<close>): addresses of artifacts,
  requests, the classification of responses, every operation, the two paginated listings and
  the builder. What it calls outside the sources are the fields of \<open>apicurio_env\<close>, as for the
  Confluent client.
\<close>

section \<open>Wire types\<close>

record apicurio_error =
  px_detail :: "string option"
  px_title :: "string option"
  px_message :: "string option"

definition into_message :: "apicurio_error \<Rightarrow> string" where
  "into_message e =
     (case px_detail e of
        Some m \<Rightarrow> m
      | None \<Rightarrow> (case px_message e of
                   Some m \<Rightarrow> m
                 | None \<Rightarrow> (case px_title e of Some m \<Rightarrow> m | None \<Rightarrow> ''unknown error'')))"

record artifact_reference_json =
  rj_group_id :: "string option"
  rj_artifact_id :: string
  rj_version :: string
  rj_name :: string

record version_content_request =
  vc_content :: string
  vc_content_type :: string
  vc_references :: "artifact_reference_json list"

record create_artifact_request =
  cq_artifact_id :: string
  cq_artifact_type :: "string option"
  cq_first_version :: version_content_request

record version_meta_data =
  vm_global_id :: int
  vm_version :: "json option"
  vm_artifact_type :: "string option"
  vm_group_id :: "string option"
  vm_artifact_id :: "string option"

record artifact_version_list =
  vl_versions :: "json option list"
  vl_count :: "int option"

record searched_artifact =
  sa_artifact_id :: string
  sa_group_id :: "string option"

record artifact_search_results =
  sr_artifacts :: "searched_artifact list"
  sr_count :: "int option"

record rule_request =
  ru_rule_type :: string
  ru_config :: string

record 'w apicurio_env =
  ap_http :: "'w http_env"
  ap_percent_encode :: "(char \<Rightarrow> bool) \<Rightarrow> string \<Rightarrow> string"
  ap_percent_decode_lossy :: "string \<Rightarrow> string"
  ap_base64 :: "string \<Rightarrow> string"
  ap_error :: "bytes \<Rightarrow> apicurio_error option"
  ap_create_body :: "create_artifact_request \<Rightarrow> string + bytes"
  ap_compatibility_body :: "version_content_request \<Rightarrow> string + bytes"
  ap_rule_body :: "rule_request \<Rightarrow> string + bytes"
  ap_create_response :: "bytes \<Rightarrow> string + int"
  ap_compatible_response :: "bytes \<Rightarrow> string + bool"
  ap_version_meta :: "bytes \<Rightarrow> string + version_meta_data"
  ap_version_list :: "bytes \<Rightarrow> string + artifact_version_list"
  ap_artifacts :: "bytes \<Rightarrow> string + artifact_search_results"
  ap_version_search :: "bytes \<Rightarrow> string + version_meta_data list"
  ap_rule_response :: "bytes \<Rightarrow> string + string"
  ap_value :: "bytes \<Rightarrow> string + json"

definition DEFAULT_GROUP :: string where "DEFAULT_GROUP = ''default''"
definition API_PREFIX :: string where "API_PREFIX = ''/apis/registry/v3''"
definition LATEST_VERSION_EXPRESSION :: string where "LATEST_VERSION_EXPRESSION = ''branch=latest''"
definition PAGE_SIZE :: nat where "PAGE_SIZE = 500"
definition HDR_ARTIFACT_TYPE :: string where "HDR_ARTIFACT_TYPE = ''x-registry-artifacttype''"
definition COMPATIBILITY_RULE :: string where "COMPATIBILITY_RULE = ''COMPATIBILITY''"

definition schema_content_type :: "schema_type \<Rightarrow> string" where
  "schema_content_type ty =
     (case ty of Avro \<Rightarrow> ''application/json'' | Json \<Rightarrow> ''application/json'' | Protobuf \<Rightarrow> ''application/x-protobuf'')"

section \<open>Client\<close>

datatype apicurio_auth = ApicurioNone | ApicurioBasic string string | ApicurioBearer string

record apicurio_client =
  ac_client :: http_client
  ac_base_url :: string
  ac_auth :: apicurio_auth
  ac_dereference :: bool

definition api_url :: "apicurio_client \<Rightarrow> string \<Rightarrow> string" where
  "api_url c path = ac_base_url c @ API_PREFIX @ path"

definition dereference_param :: "apicurio_client \<Rightarrow> char \<Rightarrow> string" where
  "dereference_param c sep =
     (if \<not> ac_dereference c then []
      else if sep = CHR ''?'' then ''?references=DEREFERENCE'' else ''&references=DEREFERENCE'')"

definition parse_artifact_id :: "'w apicurio_env \<Rightarrow> string \<Rightarrow> artifact_id res" where
  "parse_artifact_id env subject =
     (let validate = validate_subject (ap_percent_decode_lossy env)
      in res_bind (validate subject) (\<lambda>_.
         let a = artifact_from_subject subject
         in if art_group a = [] \<or> art_name a = [] then Inl (Config (Http_Msg EmptyComponent))
            else res_bind (validate (art_group a)) (\<lambda>_.
                 res_bind (validate (art_name a)) (\<lambda>_. Inr a))))"

definition auth_header :: "'w apicurio_env \<Rightarrow> apicurio_client \<Rightarrow> string option" where
  "auth_header env c =
     (case ac_auth c of
        ApicurioNone \<Rightarrow> None
      | ApicurioBasic username password \<Rightarrow> Some (''Basic '' @ ap_base64 env (username @ '':'' @ password))
      | ApicurioBearer token \<Rightarrow> Some (''Bearer '' @ token))"

section \<open>Responses\<close>

definition parse_error_body :: "'w apicurio_env \<Rightarrow> bytes \<Rightarrow> msg" where
  "parse_error_body env body =
     Text (case ap_error env body of
             Some e \<Rightarrow> into_message e
           | None \<Rightarrow>
               (let preview = from_utf8_lossy (map unat body)
                in if preview = [] then ''<empty>'' else concat (take 256 (chars preview))))"

definition status_error :: "nat \<Rightarrow> msg \<Rightarrow> sreg_error" where
  "status_error status m =
     (if status = 401 \<or> status = 403 then Auth status m
      else if status = 404 then Api 40401 m
      else if status = 409 then Api 40902 m
      else Http status m)"

definition handle_json_response :: "'w apicurio_env \<Rightarrow> (bytes \<Rightarrow> string + 'a) \<Rightarrow> nat \<Rightarrow> bytes \<Rightarrow> 'a res" where
  "handle_json_response env from_slice status body =
     (if 200 \<le> status \<and> status < 300
      then (case from_slice body of
              Inl e \<Rightarrow> Inl (InvalidState (Http_Msg (ApicurioParseFailed e)))
            | Inr a \<Rightarrow> Inr a)
      else Inl (status_error status (parse_error_body env body)))"

text \<open>What the five request helpers share: one request with the credentials of the client.\<close>

definition ap_call ::
    "'w apicurio_env \<Rightarrow> apicurio_client \<Rightarrow> string \<Rightarrow> string \<Rightarrow> (string \<times> string) list \<Rightarrow> bytes option
     \<Rightarrow> ('w, http_response) io" where
  "ap_call env c meth url headers body =
     request (ap_http env) (ac_client c)
       \<lparr>hq_method = meth, hq_url = url, hq_extra_headers = headers, hq_body = body, hq_auth = auth_header env c\<rparr>"

definition get_json :: "'w apicurio_env \<Rightarrow> apicurio_client \<Rightarrow> (bytes \<Rightarrow> string + 'a) \<Rightarrow> string \<Rightarrow> ('w, 'a) io" where
  "get_json env c from_slice url =
     io_bind (ap_call env c ''GET'' url [(''Accept'', ''application/json'')] None) (\<lambda>resp.
     io_lift (handle_json_response env from_slice (hr_status resp) (hr_body resp)))"

definition content_response :: "'w apicurio_env \<Rightarrow> http_response \<Rightarrow> http_response res" where
  "content_response env resp =
     (let status = hr_status resp; m = parse_error_body env (hr_body resp)
      in if status = 404 then Inl (Api 40401 m)
         else if status = 401 \<or> status = 403 then Inl (Auth status m)
         else if \<not> (200 \<le> status \<and> status < 300) then Inl (Http status m)
         else Inr resp)"

definition get_content :: "'w apicurio_env \<Rightarrow> apicurio_client \<Rightarrow> string \<Rightarrow> ('w, http_response) io" where
  "get_content env c url =
     io_bind (ap_call env c ''GET'' url [(''Accept'', ''*/*'')] None) (\<lambda>resp. io_lift (content_response env resp))"

abbreviation json_headers :: "(string \<times> string) list" where
  "json_headers \<equiv> [(''Accept'', ''application/json''), (''Content-Type'', ''application/json'')]"

definition post_json ::
    "'w apicurio_env \<Rightarrow> apicurio_client \<Rightarrow> (bytes \<Rightarrow> string + 'a) \<Rightarrow> string \<Rightarrow> bytes \<Rightarrow> ('w, 'a) io" where
  "post_json env c from_slice url body =
     io_bind (ap_call env c ''POST'' url json_headers (Some body)) (\<lambda>resp.
     io_lift (handle_json_response env from_slice (hr_status resp) (hr_body resp)))"

definition post_content ::
    "'w apicurio_env \<Rightarrow> apicurio_client \<Rightarrow> (bytes \<Rightarrow> string + 'a) \<Rightarrow> string \<Rightarrow> bytes \<Rightarrow> string \<Rightarrow> ('w, 'a) io" where
  "post_content env c from_slice url content content_type =
     io_bind (ap_call env c ''POST'' url [(''Accept'', ''application/json''), (''Content-Type'', content_type)]
       (Some content)) (\<lambda>resp.
     io_lift (handle_json_response env from_slice (hr_status resp) (hr_body resp)))"

definition put_json ::
    "'w apicurio_env \<Rightarrow> apicurio_client \<Rightarrow> (bytes \<Rightarrow> string + 'a) \<Rightarrow> string \<Rightarrow> bytes \<Rightarrow> ('w, 'a) io" where
  "put_json env c from_slice url body =
     io_bind (ap_call env c ''PUT'' url json_headers (Some body)) (\<lambda>resp.
     io_lift (handle_json_response env from_slice (hr_status resp) (hr_body resp)))"

definition delete_response :: "'w apicurio_env \<Rightarrow> http_response \<Rightarrow> unit res" where
  "delete_response env resp =
     (let status = hr_status resp; m = parse_error_body env (hr_body resp)
      in if status = 404 then Inl (Api 40401 m)
         else if status = 401 \<or> status = 403 then Inl (Auth status m)
         else if status = 204 \<or> (200 \<le> status \<and> status < 300) then Inr ()
         else Inl (Http status m))"

definition delete_no_content :: "'w apicurio_env \<Rightarrow> apicurio_client \<Rightarrow> string \<Rightarrow> ('w, unit) io" where
  "delete_no_content env c url =
     io_bind (ap_call env c ''DELETE'' url [] None) (\<lambda>resp. io_lift (delete_response env resp))"

definition post_no_content :: "'w apicurio_env \<Rightarrow> apicurio_client \<Rightarrow> string \<Rightarrow> bytes \<Rightarrow> ('w, unit) io" where
  "post_no_content env c url body =
     io_bind (ap_call env c ''POST'' url json_headers (Some body)) (\<lambda>resp.
     io_lift (if 200 \<le> hr_status resp \<and> hr_status resp < 300 then Inr ()
              else Inl (status_error (hr_status resp) (parse_error_body env (hr_body resp)))))"

section \<open>Schemas\<close>

definition artifact_type_from_headers :: "http_response \<Rightarrow> schema_type" where
  "artifact_type_from_headers resp =
     (case hm_get (hr_headers resp) HDR_ARTIFACT_TYPE of
        None \<Rightarrow> Avro
      | Some s \<Rightarrow> (case schema_type_from_str s of Inr ty \<Rightarrow> ty | Inl _ \<Rightarrow> Avro))"

definition content_as_utf8 :: "http_response \<Rightarrow> string res" where
  "content_as_utf8 resp =
     (case from_utf8 (map unat (hr_body resp)) of
        Inl (valid_up_to, error_len) \<Rightarrow> Inl (WireFormat (Http_Msg (ContentNotUtf8 valid_up_to error_len)))
      | Inr s \<Rightarrow> Inr s)"

definition schema_from_global_id_response :: "http_response \<Rightarrow> schema_id \<Rightarrow> schema res" where
  "schema_from_global_id_response resp i =
     (let ty = artifact_type_from_headers resp
      in res_bind (content_as_utf8 resp) (\<lambda>sch.
           Inr \<lparr>sch_id = Some i, sch_guid = None, sch_type = ty, sch_text = sch, sch_version = None,
                sch_subject = None, sch_references = []\<rparr>))"

text \<open>An \<open>i64\<close> global identifier is an \<^typ>\<open>int\<close>; \<open>as u32\<close> is the conversion to a word.\<close>

definition global_id_to_schema_id :: "int \<Rightarrow> schema_id res" where
  "global_id_to_schema_id global_id =
     (if global_id < 0 \<or> 2 ^ 32 - 1 < global_id then Inl (InvalidState (Http_Msg (GlobalIdOutOfRange global_id)))
      else Inr (SchemaId (word_of_int global_id)))"

definition version_expression :: "'w apicurio_env \<Rightarrow> schema_version \<Rightarrow> string" where
  "version_expression env version =
     (if as_i32 version < 0 then LATEST_VERSION_EXPRESSION
      else percent_encode (ap_percent_encode env) (dec_int (as_i32 version)))"

text \<open>\<open>as_i64\<close> of a number, and \<open>as i32\<close>, which keeps the low 32 bits.\<close>

definition as_i64 :: "json_number \<Rightarrow> int option" where
  "as_i64 n =
     (case n of
        JInt i \<Rightarrow> if - (2 ^ 63) \<le> i \<and> i < 2 ^ 63 then Some i else None
      | JFloat _ \<Rightarrow> None)"

definition wrap_i32 :: "int \<Rightarrow> int" where
  "wrap_i32 i = sint (word_of_int i :: 32 word)"

definition parse_version :: "json \<Rightarrow> schema_version option" where
  "parse_version v =
     (case v of
        JString s \<Rightarrow> map_option SchemaVersion (parse_signed 32 s)
      | JNumber n \<Rightarrow> map_option (\<lambda>n. SchemaVersion (wrap_i32 n)) (as_i64 n)
      | _ \<Rightarrow> None)"

definition to_reference_json :: "schema_reference list \<Rightarrow> artifact_reference_json list" where
  "to_reference_json refs =
     map (\<lambda>r. let artifact = artifact_from_subject (ref_subject r)
              in \<lparr>rj_group_id = Some (art_group artifact), rj_artifact_id = art_name artifact,
                  rj_version = dec_int (as_i32 (ref_version r)), rj_name = ref_name r\<rparr>) refs"

text \<open>The type a version reports, or a default; and the subject it reports, or the one asked for.\<close>

definition reported_type :: "string option \<Rightarrow> schema_type \<Rightarrow> schema_type res" where
  "reported_type artifact_type default_type =
     (case artifact_type of None \<Rightarrow> Inr default_type | Some t \<Rightarrow> schema_type_from_str t)"

definition reported_subject :: "version_meta_data \<Rightarrow> string \<Rightarrow> string" where
  "reported_subject meta subject =
     (case (vm_group_id meta, vm_artifact_id meta) of
        (Some grp, Some name) \<Rightarrow> grp @ ''/'' @ name
      | _ \<Rightarrow> subject)"

definition identified_schema :: "version_meta_data \<Rightarrow> string \<Rightarrow> schema_type \<Rightarrow> string res \<Rightarrow> schema res" where
  "identified_schema meta subject ty content =
     res_bind (global_id_to_schema_id (vm_global_id meta)) (\<lambda>i.
     res_bind content (\<lambda>sch.
       Inr \<lparr>sch_id = Some i, sch_guid = None, sch_type = ty, sch_text = sch,
            sch_version = Option.bind (vm_version meta) parse_version,
            sch_subject = Some (reported_subject meta subject), sch_references = []\<rparr>))"

text \<open>The path of an artifact; both components are percent-encoded.\<close>

definition artifact_path :: "'w apicurio_env \<Rightarrow> artifact_id \<Rightarrow> string" where
  "artifact_path env a =
     ''/groups/'' @ percent_encode (ap_percent_encode env) (art_group a) @
     ''/artifacts/'' @ percent_encode (ap_percent_encode env) (art_name a)"

definition version_schema ::
    "'w apicurio_env \<Rightarrow> apicurio_client \<Rightarrow> artifact_id \<Rightarrow> string \<Rightarrow> string \<Rightarrow> ('w, schema) io" where
  "version_schema env c artifact expression subject =
     io_bind (get_json env c (ap_version_meta env)
       (api_url c (artifact_path env artifact @ ''/versions/'' @ expression))) (\<lambda>meta.
     io_bind (get_content env c
       (api_url c (artifact_path env artifact @ ''/versions/'' @ expression @ ''/content'' @
          dereference_param c CHR ''?''))) (\<lambda>content.
     io_lift (res_bind (reported_type (vm_artifact_type meta) Avro) (\<lambda>ty.
       identified_schema meta subject ty (content_as_utf8 content)))))"

section \<open>Operations\<close>

definition apicurio_get_latest_schema :: "'w apicurio_env \<Rightarrow> apicurio_client \<Rightarrow> string \<Rightarrow> ('w, schema) io" where
  "apicurio_get_latest_schema env c subject =
     io_bind (io_lift (parse_artifact_id env subject)) (\<lambda>a.
     version_schema env c a LATEST_VERSION_EXPRESSION subject)"

definition apicurio_get_schema_by_version ::
    "'w apicurio_env \<Rightarrow> apicurio_client \<Rightarrow> string \<Rightarrow> schema_version \<Rightarrow> ('w, schema) io" where
  "apicurio_get_schema_by_version env c subject version =
     io_bind (io_lift (parse_artifact_id env subject)) (\<lambda>a.
     version_schema env c a (version_expression env version) subject)"

definition apicurio_get_schema_by_id :: "'w apicurio_env \<Rightarrow> apicurio_client \<Rightarrow> schema_id \<Rightarrow> ('w, schema) io" where
  "apicurio_get_schema_by_id env c i =
     io_bind (get_content env c (api_url c (''/ids/globalIds/'' @ dec_nat (unat (as_u32 i)) @
       ''?returnArtifactType=true'' @ dereference_param c CHR ''&''))) (\<lambda>resp.
     io_lift (schema_from_global_id_response resp i))"

definition version_content :: "string \<Rightarrow> schema_type \<Rightarrow> schema_reference list \<Rightarrow> version_content_request" where
  "version_content sch ty refs =
     \<lparr>vc_content = sch, vc_content_type = schema_content_type ty, vc_references = to_reference_json refs\<rparr>"

definition ap_serialised :: "string \<Rightarrow> string + bytes \<Rightarrow> ('w, bytes) io" where
  "ap_serialised what r =
     io_lift (case r of Inl e \<Rightarrow> Inl (InvalidState (Http_Msg (ApicurioSerialiseFailed what e))) | Inr b \<Rightarrow> Inr b)"

definition apicurio_register_schema ::
    "'w apicurio_env \<Rightarrow> apicurio_client \<Rightarrow> string \<Rightarrow> string \<Rightarrow> schema_type \<Rightarrow> schema_reference list
     \<Rightarrow> ('w, schema_id) io" where
  "apicurio_register_schema env c subject sch ty refs =
     io_bind (io_lift (parse_artifact_id env subject)) (\<lambda>a.
     io_bind (ap_serialised ''Apicurio request'' (ap_create_body env
       \<lparr>cq_artifact_id = art_name a, cq_artifact_type = Some (schema_type_str ty),
        cq_first_version = version_content sch ty refs\<rparr>)) (\<lambda>body.
     io_bind (post_json env c (ap_create_response env)
       (api_url c (''/groups/'' @ percent_encode (ap_percent_encode env) (art_group a) @
          ''/artifacts?ifExists=FIND_OR_CREATE_VERSION'')) body) (\<lambda>global_id.
     io_lift (global_id_to_schema_id global_id))))"

definition apicurio_check_compatibility ::
    "'w apicurio_env \<Rightarrow> apicurio_client \<Rightarrow> string \<Rightarrow> string \<Rightarrow> schema_type \<Rightarrow> schema_reference list
     \<Rightarrow> ('w, bool) io" where
  "apicurio_check_compatibility env c subject sch ty refs =
     io_bind (io_lift (parse_artifact_id env subject)) (\<lambda>a.
     io_bind (ap_serialised ''compatibility request'' (ap_compatibility_body env (version_content sch ty refs))) (\<lambda>body.
     post_json env c (ap_compatible_response env)
       (api_url c (artifact_path env a @ ''/versions/branch=latest/compatibility'')) body))"

definition rule_scope :: "'w apicurio_env \<Rightarrow> apicurio_client \<Rightarrow> string \<Rightarrow> string res" where
  "rule_scope env c subject =
     (if subject = [] then Inr (api_url c ''/admin'')
      else res_bind (parse_artifact_id env subject) (\<lambda>a. Inr (api_url c (artifact_path env a))))"

definition apicurio_lookup_schema ::
    "'w apicurio_env \<Rightarrow> apicurio_client \<Rightarrow> string \<Rightarrow> string \<Rightarrow> schema_type \<Rightarrow> schema_reference list
     \<Rightarrow> ('w, schema option) io" where
  "apicurio_lookup_schema env c subject sch ty refs =
     io_bind (io_lift (parse_artifact_id env subject)) (\<lambda>a w.
     case post_content env c (ap_version_search env)
         (api_url c (''/search/versions?canonical=false&artifactType='' @ schema_type_str ty @
            ''&groupId='' @ percent_encode (ap_percent_encode env) (art_group a) @
            ''&artifactId='' @ percent_encode (ap_percent_encode env) (art_name a) @ ''&limit=1''))
         (map (\<lambda>c. word_of_nat (of_char c)) sch) (schema_content_type ty) w of
       (Inl e, w') \<Rightarrow> (if is_not_found e then Inr None else Inl e, w')
     | (Inr [], w') \<Rightarrow> (Inr None, w')
     | (Inr (hit # _), w') \<Rightarrow>
         (res_bind (reported_type (vm_artifact_type hit) ty) (\<lambda>ty.
          res_bind (identified_schema hit subject ty (Inr sch)) (\<lambda>x. Inr (Some x))), w'))"

definition delete_artifact_version ::
    "'w apicurio_env \<Rightarrow> apicurio_client \<Rightarrow> string \<Rightarrow> schema_version \<Rightarrow> ('w, unit) io" where
  "delete_artifact_version env c subject version =
     io_bind (io_lift (parse_artifact_id env subject)) (\<lambda>a.
     delete_no_content env c (api_url c (artifact_path env a @ ''/versions/'' @ version_expression env version)))"

definition delete_artifact :: "'w apicurio_env \<Rightarrow> apicurio_client \<Rightarrow> string \<Rightarrow> ('w, unit) io" where
  "delete_artifact env c subject =
     io_bind (io_lift (parse_artifact_id env subject)) (\<lambda>a.
     delete_no_content env c (api_url c (artifact_path env a)))"

definition apicurio_delete_version ::
    "'w apicurio_env \<Rightarrow> apicurio_client \<Rightarrow> string \<Rightarrow> schema_version \<Rightarrow> bool \<Rightarrow> ('w, schema_version) io" where
  "apicurio_delete_version env c subject version permanent =
     io_bind (delete_artifact_version env c subject version) (\<lambda>_. io_return version)"

definition apicurio_health_check :: "'w apicurio_env \<Rightarrow> apicurio_client \<Rightarrow> ('w, unit) io" where
  "apicurio_health_check env c =
     io_bind (get_json env c (ap_artifacts env) (api_url c ''/search/artifacts?limit=1'')) (\<lambda>_. io_return ())"

definition apicurio_set_compatibility ::
    "'w apicurio_env \<Rightarrow> apicurio_client \<Rightarrow> string \<Rightarrow> compatibility_level \<Rightarrow> ('w, unit) io" where
  "apicurio_set_compatibility env c subject level =
     io_bind (io_lift (rule_scope env c subject)) (\<lambda>scope.
     io_bind (ap_serialised ''compatibility rule request''
       (ap_rule_body env \<lparr>ru_rule_type = COMPATIBILITY_RULE, ru_config = compat_str level\<rparr>)) (\<lambda>body w.
     case put_json env c (ap_value env) (scope @ ''/rules/'' @ COMPATIBILITY_RULE) body w of
       (Inr _, w') \<Rightarrow> (Inr (), w')
     | (Inl e, w') \<Rightarrow>
         if is_not_found e then post_no_content env c (scope @ ''/rules'') body w' else (Inl e, w')))"

definition apicurio_get_compatibility ::
    "'w apicurio_env \<Rightarrow> apicurio_client \<Rightarrow> string \<Rightarrow> ('w, compatibility_level) io" where
  "apicurio_get_compatibility env c subject =
     io_bind (io_lift (rule_scope env c subject)) (\<lambda>scope.
     io_bind (get_json env c (ap_rule_response env) (scope @ ''/rules/'' @ COMPATIBILITY_RULE)) (\<lambda>config.
     io_lift (compat_from_str config)))"

section \<open>Listings\<close>

text \<open>
  Both listings ask for one page after the other until a page is short. A server that always
  answers a full page keeps them going for as long as it likes, so they are partial: \<open>None\<close> is a
  call that does not return. The function that fetches a page is the first argument; the total
  that a page reports is only logged by \<open>list_subjects\<close>.
\<close>

definition artifact_page ::
    "'w apicurio_env \<Rightarrow> apicurio_client \<Rightarrow> nat \<Rightarrow> nat \<Rightarrow> ('w, artifact_search_results) io" where
  "artifact_page env c limit offset =
     get_json env c (ap_artifacts env)
       (api_url c (''/search/artifacts?limit='' @ dec_nat limit @ ''&offset='' @ dec_nat offset))"

definition subject_of :: "searched_artifact \<Rightarrow> string" where
  "subject_of a =
     (case sa_group_id a of Some grp \<Rightarrow> grp | None \<Rightarrow> DEFAULT_GROUP) @ ''/'' @ sa_artifact_id a"

partial_function (option) list_subjects_loop ::
    "(nat \<Rightarrow> nat \<Rightarrow> ('w, artifact_search_results) io) \<Rightarrow> nat \<Rightarrow> string list \<Rightarrow> nat \<Rightarrow> 'w
     \<Rightarrow> (string list res \<times> 'w) option" where
  "list_subjects_loop fetch max_results out offset w =
     (if length out < max_results
      then (case fetch (min PAGE_SIZE (max_results - length out)) offset w of
              (Inl e, w') \<Rightarrow> Some (Inl e, w')
            | (Inr page, w') \<Rightarrow>
                if sr_artifacts page = [] then Some (Inr out, w')
                else if length (sr_artifacts page) < min PAGE_SIZE (max_results - length out)
                then Some (Inr (out @ map subject_of (sr_artifacts page)), w')
                else list_subjects_loop fetch max_results (out @ map subject_of (sr_artifacts page))
                       (offset + length (sr_artifacts page)) w')
      else Some (Inr out, w))"

definition list_subjects ::
    "'w apicurio_env \<Rightarrow> apicurio_client \<Rightarrow> nat \<Rightarrow> 'w \<Rightarrow> (string list res \<times> 'w) option" where
  "list_subjects env c max_results w = list_subjects_loop (artifact_page env c) max_results [] 0 w"

definition version_page ::
    "'w apicurio_env \<Rightarrow> apicurio_client \<Rightarrow> artifact_id \<Rightarrow> nat \<Rightarrow> ('w, artifact_version_list) io" where
  "version_page env c a offset =
     get_json env c (ap_version_list env)
       (api_url c (artifact_path env a @ ''/versions?limit='' @ dec_nat PAGE_SIZE @ ''&offset='' @ dec_nat offset))"

definition parsed_versions :: "json option list \<Rightarrow> schema_version list" where
  "parsed_versions vs = List.map_filter (\<lambda>v. Option.bind v parse_version) vs"

partial_function (option) list_versions_loop ::
    "(nat \<Rightarrow> ('w, artifact_version_list) io) \<Rightarrow> schema_version list \<Rightarrow> nat \<Rightarrow> 'w
     \<Rightarrow> (schema_version list res \<times> 'w) option" where
  "list_versions_loop fetch versions offset w =
     (case fetch offset w of
        (Inl e, w') \<Rightarrow> Some (Inl e, w')
      | (Inr page, w') \<Rightarrow>
          if vl_versions page = [] then Some (Inr versions, w')
          else if length (vl_versions page) < PAGE_SIZE \<or>
              (case vl_count page of Some n \<Rightarrow> n \<le> int (offset + length (vl_versions page)) | None \<Rightarrow> False)
          then Some (Inr (versions @ parsed_versions (vl_versions page)), w')
          else list_versions_loop fetch (versions @ parsed_versions (vl_versions page))
                 (offset + length (vl_versions page)) w')"

definition list_versions ::
    "'w apicurio_env \<Rightarrow> apicurio_client \<Rightarrow> string \<Rightarrow> 'w \<Rightarrow> (schema_version list res \<times> 'w) option" where
  "list_versions env c subject w =
     (case parse_artifact_id env subject of
        Inl e \<Rightarrow> Some (Inl e, w)
      | Inr a \<Rightarrow> list_versions_loop (version_page env c a) [] 0 w)"

definition apicurio_delete_subject ::
    "'w apicurio_env \<Rightarrow> apicurio_client \<Rightarrow> string \<Rightarrow> bool \<Rightarrow> 'w \<Rightarrow> (schema_version list res \<times> 'w) option" where
  "apicurio_delete_subject env c subject permanent w =
     Option.bind (list_versions env c subject w) (\<lambda>(r, w).
       let versions = (case r of Inr versions \<Rightarrow> versions | Inl _ \<Rightarrow> [])
       in Some (io_bind (delete_artifact env c subject) (\<lambda>_. io_return versions) w))"

definition usize_max :: nat where "usize_max = 2 ^ 64 - 1"

text \<open>
  The implementation of the trait. The three operations that list are the values of the partial
  functions; nothing is claimed of them where those do not return.
\<close>

definition apicurio_registry :: "'w apicurio_env \<Rightarrow> apicurio_client \<Rightarrow> 'w registry" where
  "apicurio_registry env c =
     (trait_defaults (apicurio_get_schema_by_id env c) (apicurio_get_latest_schema env c)
        (apicurio_get_schema_by_version env c) (apicurio_register_schema env c))
     \<lparr>rg_lookup_schema := apicurio_lookup_schema env c,
      rg_check_compatibility := apicurio_check_compatibility env c,
      rg_delete_subject := (\<lambda>subject permanent w. the (apicurio_delete_subject env c subject permanent w)),
      rg_delete_version := apicurio_delete_version env c,
      rg_get_subjects := (\<lambda>w. the (list_subjects env c usize_max w)),
      rg_get_versions := (\<lambda>subject w. the (list_versions env c subject w)),
      rg_get_compatibility := apicurio_get_compatibility env c,
      rg_set_compatibility := apicurio_set_compatibility env c,
      rg_health_check := apicurio_health_check env c\<rparr>"

section \<open>Builder\<close>

record ('c, 'i) apicurio_builder =
  ab_url :: "string option"
  ab_auth :: apicurio_auth
  ab_retry_policy :: retry_policy
  ab_max_concurrent :: "nat option"
  ab_dereference :: bool
  ab_request_timeout :: "nat option"
  ab_connect_timeout :: "nat option"
  ab_root_certificates :: "'c list"
  ab_identity :: "'i option"
  ab_pool_max_idle_per_host :: "nat option"

definition apicurio_builder_default :: "('c, 'i) apicurio_builder" where
  "apicurio_builder_default =
     \<lparr>ab_url = None, ab_auth = ApicurioNone, ab_retry_policy = policy_default, ab_max_concurrent = None,
      ab_dereference = False,
      ab_request_timeout = Some DEFAULT_REQUEST_TIMEOUT, ab_connect_timeout = None, ab_root_certificates = [],
      ab_identity = None, ab_pool_max_idle_per_host = None\<rparr>"

definition apicurio_set_dereference_references :: "bool \<Rightarrow> ('c, 'i) apicurio_builder \<Rightarrow> ('c, 'i) apicurio_builder" where
  "apicurio_set_dereference_references x b = b\<lparr>ab_dereference := x\<rparr>"

definition apicurio_set_url :: "string \<Rightarrow> ('c, 'i) apicurio_builder \<Rightarrow> ('c, 'i) apicurio_builder" where
  "apicurio_set_url x b = b\<lparr>ab_url := Some x\<rparr>"

definition apicurio_set_retry_policy :: "retry_policy \<Rightarrow> ('c, 'i) apicurio_builder \<Rightarrow> ('c, 'i) apicurio_builder" where
  "apicurio_set_retry_policy x b = b\<lparr>ab_retry_policy := x\<rparr>"

definition apicurio_set_max_concurrent_requests :: "nat \<Rightarrow> ('c, 'i) apicurio_builder \<Rightarrow> ('c, 'i) apicurio_builder" where
  "apicurio_set_max_concurrent_requests x b = b\<lparr>ab_max_concurrent := Some x\<rparr>"

definition apicurio_basic_auth :: "string \<Rightarrow> string \<Rightarrow> ('c, 'i) apicurio_builder \<Rightarrow> ('c, 'i) apicurio_builder" where
  "apicurio_basic_auth username password b = b\<lparr>ab_auth := ApicurioBasic username password\<rparr>"

definition apicurio_bearer_token :: "string \<Rightarrow> ('c, 'i) apicurio_builder \<Rightarrow> ('c, 'i) apicurio_builder" where
  "apicurio_bearer_token token b = b\<lparr>ab_auth := ApicurioBearer token\<rparr>"

definition apicurio_set_request_timeout :: "nat \<Rightarrow> ('c, 'i) apicurio_builder \<Rightarrow> ('c, 'i) apicurio_builder" where
  "apicurio_set_request_timeout x b = b\<lparr>ab_request_timeout := Some x\<rparr>"

definition apicurio_set_connect_timeout :: "nat \<Rightarrow> ('c, 'i) apicurio_builder \<Rightarrow> ('c, 'i) apicurio_builder" where
  "apicurio_set_connect_timeout x b = b\<lparr>ab_connect_timeout := Some x\<rparr>"

definition apicurio_add_root_certificate :: "'c \<Rightarrow> ('c, 'i) apicurio_builder \<Rightarrow> ('c, 'i) apicurio_builder" where
  "apicurio_add_root_certificate x b = b\<lparr>ab_root_certificates := ab_root_certificates b @ [x]\<rparr>"

definition apicurio_set_identity :: "'i \<Rightarrow> ('c, 'i) apicurio_builder \<Rightarrow> ('c, 'i) apicurio_builder" where
  "apicurio_set_identity x b = b\<lparr>ab_identity := Some x\<rparr>"

definition apicurio_set_pool_max_idle_per_host :: "nat \<Rightarrow> ('c, 'i) apicurio_builder \<Rightarrow> ('c, 'i) apicurio_builder" where
  "apicurio_set_pool_max_idle_per_host x b = b\<lparr>ab_pool_max_idle_per_host := Some x\<rparr>"

text \<open>What \<open>build\<close> hands to the HTTP client.\<close>

definition apicurio_http_config :: "('c, 'i) apicurio_builder \<Rightarrow> ('c, 'i) http_client_config" where
  "apicurio_http_config b =
     \<lparr>cf_timeout = ab_request_timeout b, cf_connect_timeout = ab_connect_timeout b,
      cf_root_certificates = ab_root_certificates b, cf_identity = ab_identity b,
      cf_pool_max_idle_per_host = ab_pool_max_idle_per_host b, cf_retry_policy = ab_retry_policy b,
      cf_max_concurrent_requests = ab_max_concurrent b\<rparr>"

definition apicurio_from_env :: "(string \<Rightarrow> string option) \<Rightarrow> ('c, 'i) apicurio_builder res" where
  "apicurio_from_env var =
     (case var ''APICURIO_REGISTRY_URL'' of
        None \<Rightarrow> Inl (Config (Client (MustBeSet ''APICURIO_REGISTRY_URL'')))
      | Some url \<Rightarrow>
          let builder = apicurio_set_url url apicurio_builder_default
          in Inr (case var ''APICURIO_REGISTRY_BEARER_TOKEN'' of
                    Some token \<Rightarrow> apicurio_bearer_token token builder
                  | None \<Rightarrow>
                      (case (var ''APICURIO_REGISTRY_USERNAME'', var ''APICURIO_REGISTRY_PASSWORD'') of
                         (Some user, Some pass) \<Rightarrow> apicurio_basic_auth user pass builder
                       | _ \<Rightarrow> builder)))"

definition apicurio_new :: "('c, 'i) finish \<Rightarrow> string \<Rightarrow> apicurio_client res" where
  "apicurio_new finish url =
     (let url = normalize_url url
      in res_bind (reject_embedded_credentials url) (\<lambda>_.
         res_bind (with_webpki_roots finish (Some DEFAULT_REQUEST_TIMEOUT)) (\<lambda>client.
           Inr \<lparr>ac_client = client, ac_base_url = url, ac_auth = ApicurioNone, ac_dereference = False\<rparr>)))"

definition apicurio_build :: "('c, 'i) finish \<Rightarrow> ('c, 'i) apicurio_builder \<Rightarrow> apicurio_client res" where
  "apicurio_build finish b =
     res_bind (ok_or (ab_url b) (Config (Client (MustBeSet ''ApicurioSchemaRegistryBuilder: URL'')))) (\<lambda>raw_url.
     let url = normalize_url raw_url
     in res_bind (reject_embedded_credentials url) (\<lambda>_.
        if starts_with url ''http://'' \<and> ab_auth b \<noteq> ApicurioNone \<and> \<not> is_loopback_host url
        then Inl (Config (Http_Msg AuthNeedsHttps))
        else res_bind (with_config finish (apicurio_http_config b)) (\<lambda>client.
          Inr \<lparr>ac_client = client, ac_base_url = url, ac_auth = ab_auth b, ac_dereference = ab_dereference b\<rparr>)))"

section \<open>Lemmas\<close>

text \<open>Every request is confined to the base URL and the credentials of the client.\<close>

lemmas apicurio_operations =
  apicurio_get_latest_schema_def apicurio_get_schema_by_version_def apicurio_get_schema_by_id_def
  apicurio_register_schema_def apicurio_check_compatibility_def apicurio_lookup_schema_def
  delete_artifact_version_def delete_artifact_def apicurio_delete_version_def apicurio_health_check_def
  apicurio_set_compatibility_def apicurio_get_compatibility_def

lemma auth_header_cong: "auth_header (env\<lparr>ap_http := h\<rparr>) = auth_header env"
  by (simp add: auth_header_def fun_eq_iff split: apicurio_auth.split)

lemma parse_error_body_cong: "parse_error_body (env\<lparr>ap_http := h\<rparr>) = parse_error_body env"
  by (simp add: parse_error_body_def fun_eq_iff)

lemma ap_http_cong:
  "parse_artifact_id (env\<lparr>ap_http := h\<rparr>) = parse_artifact_id env"
  "artifact_path (env\<lparr>ap_http := h\<rparr>) = artifact_path env"
  "version_expression (env\<lparr>ap_http := h\<rparr>) = version_expression env"
  "rule_scope (env\<lparr>ap_http := h\<rparr>) = rule_scope env"
  by (simp_all add: parse_artifact_id_def artifact_path_def version_expression_def rule_scope_def fun_eq_iff)

lemma ap_response_cong:
  "handle_json_response (env\<lparr>ap_http := h\<rparr>) q = handle_json_response env q"
  "content_response (env\<lparr>ap_http := h\<rparr>) = content_response env"
  "delete_response (env\<lparr>ap_http := h\<rparr>) = delete_response env"
  unfolding handle_json_response_def content_response_def delete_response_def parse_error_body_cong by (rule refl)+

definition ap_below :: "apicurio_client \<Rightarrow> string \<Rightarrow> bool" where
  "ap_below c url \<longleftrightarrow> (\<exists>path. url = ac_base_url c @ CHR ''/'' # path)"

lemma ap_below_url: "ap_below c (api_url c path)"
  by (simp add: ap_below_def api_url_def API_PREFIX_def)

lemma ap_below_append: "ap_below c url \<Longrightarrow> ap_below c (url @ path)"
  by (auto simp: ap_below_def)

lemma ap_below_scope: "rule_scope env c subject = Inr scope \<Longrightarrow> ap_below c (scope @ path)"
  by (auto simp: rule_scope_def intro: ap_below_append ap_below_url split: if_splits)

lemma ap_call_confined:
  assumes "\<forall>rq. confined (ac_base_url c) (auth_header env c) rq \<longrightarrow> send rq = he_send (ap_http env) rq"
    and "ap_below c url"
  shows "ap_call (env\<lparr>ap_http := with_send send (ap_http env)\<rparr>) c meth url headers body = ap_call env c meth url headers body"
proof -
  have "starts_with url (ac_base_url c @ ''/'')"
    using assms(2) starts_with_append [of "ac_base_url c @ ''/''"] by (auto simp: ap_below_def)
  then show ?thesis
    unfolding ap_call_def auth_header_cong using request_confined [where send = send, OF assms(1)] by simp
qed

lemma ap_http_confined:
  assumes "\<forall>rq. confined (ac_base_url c) (auth_header env c) rq \<longrightarrow> send rq = he_send (ap_http env) rq"
    and "ap_below c url"
  shows "get_json (env\<lparr>ap_http := with_send send (ap_http env)\<rparr>) c q url = get_json env c q url"
    and "get_content (env\<lparr>ap_http := with_send send (ap_http env)\<rparr>) c url = get_content env c url"
    and "post_json (env\<lparr>ap_http := with_send send (ap_http env)\<rparr>) c q url body = post_json env c q url body"
    and "post_content (env\<lparr>ap_http := with_send send (ap_http env)\<rparr>) c q url body ty = post_content env c q url body ty"
    and "put_json (env\<lparr>ap_http := with_send send (ap_http env)\<rparr>) c q url body = put_json env c q url body"
    and "delete_no_content (env\<lparr>ap_http := with_send send (ap_http env)\<rparr>) c url = delete_no_content env c url"
    and "post_no_content (env\<lparr>ap_http := with_send send (ap_http env)\<rparr>) c url body = post_no_content env c url body"
  unfolding get_json_def get_content_def post_json_def post_content_def put_json_def delete_no_content_def
    post_no_content_def ap_response_cong parse_error_body_cong ap_call_confined [OF assms] by (rule refl)+

lemma scope_bind_cong:
  "(\<And>scope. rule_scope env c subject = Inr scope \<Longrightarrow> f scope = g scope) \<Longrightarrow>
   io_bind (io_lift (rule_scope env c subject)) f = io_bind (io_lift (rule_scope env c subject)) g"
  by (cases "rule_scope env c subject") (simp_all add: io_bind_def fun_eq_iff)

text \<open>The components of a parsed address stay one path segment each.\<close>

lemma parse_artifact_id_Inr:
  assumes "parse_artifact_id env subject = Inr a"
  shows "a = artifact_from_subject subject" "art_group a \<noteq> []" "art_name a \<noteq> []"
    and "validate_subject (ap_percent_decode_lossy env) (art_group a) = Inr ()"
    and "validate_subject (ap_percent_decode_lossy env) (art_name a) = Inr ()"
  using assms by (auto simp: parse_artifact_id_def Let_def split: if_splits)

text \<open>The range check of a global identifier is that of the word it is stored in.\<close>

lemma global_id_exact: "global_id_to_schema_id g = Inr j \<longleftrightarrow> uint (as_u32 j) = g"
proof (cases "g < 0 \<or> 2 ^ 32 - 1 < g")
  case True
  moreover have "uint (as_u32 j) < 2 ^ 32" using uint_lt2p [of "as_u32 j"] by simp
  ultimately show ?thesis by (auto simp: global_id_to_schema_id_def)
next
  case False
  then have "uint (word_of_int g :: 32 word) = g" by (intro uint_word_of_int_eq [THEN trans]) (simp add: take_bit_int_eq_self)
  with False show ?thesis by (cases j) (auto simp: global_id_to_schema_id_def)
qed

text \<open>A server that holds a list and answers pages of it.\<close>

lemma list_subjects_turn:
  assumes "length out < mx" "fetch (min PAGE_SIZE (mx - length out)) offset w = (Inr page, w')"
  shows "list_subjects_loop fetch mx out offset w =
    (if sr_artifacts page = [] then Some (Inr out, w')
     else if length (sr_artifacts page) < min PAGE_SIZE (mx - length out)
     then Some (Inr (out @ map subject_of (sr_artifacts page)), w')
     else list_subjects_loop fetch mx (out @ map subject_of (sr_artifacts page)) (offset + length (sr_artifacts page)) w')"
  using assms by (subst list_subjects_loop.simps) simp

lemma list_subjects_loop_pages:
  assumes pages: "\<forall>limit offset w. 0 < limit \<longrightarrow> (\<exists>page w'. fetch limit offset w = (Inr page, w') \<and>
      sr_artifacts page = take (min limit cap) (drop offset elems))"
    and "min PAGE_SIZE mx \<le> cap" "offset \<le> length elems" "offset \<le> mx"
  shows "\<exists>w'. list_subjects_loop fetch mx (map subject_of (take offset elems)) offset w =
    Some (Inr (map subject_of (take mx elems)), w')"
  using assms(2-)
proof (induction "length elems - offset" arbitrary: offset w rule: less_induct)
  case less
  let ?n = "min PAGE_SIZE (mx - offset)"
  have len: "length (map subject_of (take offset elems)) = offset" using less.prems(2) by simp
  show ?case
  proof (cases "offset < mx")
    case False
    then show ?thesis using less.prems by (subst list_subjects_loop.simps) simp
  next
    case True
    then have n: "0 < ?n" "min ?n cap = ?n" using less.prems(1) by (auto simp: PAGE_SIZE_def)
    obtain page w' where page: "fetch ?n offset w = (Inr page, w')" "sr_artifacts page = take ?n (drop offset elems)"
      using pages n by metis
    have more: "map subject_of (take offset elems) @ map subject_of (take ?n (drop offset elems)) =
        map subject_of (take (offset + ?n) elems)"
      by (simp add: take_add)
    have step: "list_subjects_loop fetch mx (map subject_of (take offset elems)) offset w =
      (if sr_artifacts page = [] then Some (Inr (map subject_of (take offset elems)), w')
       else if length (sr_artifacts page) < ?n then Some (Inr (map subject_of (take (offset + ?n) elems)), w')
       else list_subjects_loop fetch mx (map subject_of (take (offset + ?n) elems)) (offset + length (sr_artifacts page)) w')"
      using list_subjects_turn [where out = "map subject_of (take offset elems)" and fetch = fetch and mx = mx
          and offset = offset and w = w, unfolded len, OF True page(1)]
      unfolding more [unfolded page(2) [symmetric]] .
    consider "offset = length elems" | "offset < length elems" "length elems < offset + ?n" | "offset + ?n \<le> length elems"
      using less.prems(2) by linarith
    then show ?thesis
    proof cases
      case 1
      then show ?thesis using True unfolding step page(2) by simp
    next
      case 2
      then have "take (offset + ?n) elems = elems" "take mx elems = elems" by auto
      then show ?thesis using 2 unfolding step page(2) by auto
    next
      case 3
      then have "?n \<le> length elems - offset" by linarith
      then have l: "length (sr_artifacts page) = ?n" using page(2) by (simp add: min_absorb2)
      then have l2: "sr_artifacts page \<noteq> []" using n(1) by (metis list.size(3) less_irrefl)
      have "length elems - (offset + ?n) < length elems - offset" using 3 n(1) by linarith
      from less.hyps [OF this less.prems(1) 3] True l l2 show ?thesis unfolding step by simp
    qed
  qed
qed


text \<open>A server whose pages are shorter than what is asked for ends the listing after the first.\<close>

lemma list_subjects_capped:
  assumes pages: "\<forall>limit offset w. 0 < limit \<longrightarrow> (\<exists>page w'. fetch limit offset w = (Inr page, w') \<and>
      sr_artifacts page = take (min limit cap) (drop offset elems))"
    and "cap < min PAGE_SIZE mx"
  shows "\<exists>w'. list_subjects_loop fetch mx [] 0 w = Some (Inr (map subject_of (take cap elems)), w')"
proof -
  have "0 < min PAGE_SIZE (mx - length ([] :: string list))" using assms(2) by simp
  with pages obtain page w' where page: "fetch (min PAGE_SIZE (mx - length ([] :: string list))) 0 w = (Inr page, w')"
    "sr_artifacts page = take (min (min PAGE_SIZE (mx - length ([] :: string list))) cap) (drop 0 elems)" by meson
  then have "sr_artifacts page = take cap elems" using assms(2) by simp
  moreover have "length ([] :: string list) < mx" using assms(2) by simp
  ultimately show ?thesis
    using list_subjects_turn [where out = "[]" and fetch = fetch and mx = mx and offset = 0 and w = w, OF _ page(1)]
      assms(2) by (auto simp: min_def)
qed

lemma list_versions_loop_pages:
  assumes pages: "\<forall>offset w. \<exists>page w'. fetch offset w = (Inr page, w') \<and>
      vl_versions page = take PAGE_SIZE (drop offset elems) \<and> (vl_count page = None \<or> vl_count page = Some (int (length elems)))"
    and "offset \<le> length elems"
  shows "\<exists>w'. list_versions_loop fetch (parsed_versions (take offset elems)) offset w =
    Some (Inr (parsed_versions elems), w')"
  using assms(2)
proof (induction "length elems - offset" arbitrary: offset w rule: less_induct)
  case less
  obtain page w' where page: "fetch offset w = (Inr page, w')" "vl_versions page = take PAGE_SIZE (drop offset elems)"
      "vl_count page = None \<or> vl_count page = Some (int (length elems))"
    using pages by metis
  have more: "parsed_versions (take offset elems) @ parsed_versions (vl_versions page) =
      parsed_versions (take (offset + PAGE_SIZE) elems)"
    by (simp add: page(2) parsed_versions_def take_add map_filter_def)
  have pos: "0 < PAGE_SIZE" by (simp add: PAGE_SIZE_def)
  have step: "list_versions_loop fetch (parsed_versions (take offset elems)) offset w =
      (if vl_versions page = [] then Some (Inr (parsed_versions (take offset elems)), w')
       else if length (vl_versions page) < PAGE_SIZE \<or>
           (case vl_count page of Some n \<Rightarrow> n \<le> int (offset + length (vl_versions page)) | None \<Rightarrow> False)
       then Some (Inr (parsed_versions (take (offset + PAGE_SIZE) elems)), w')
       else list_versions_loop fetch (parsed_versions (take (offset + PAGE_SIZE) elems))
              (offset + length (vl_versions page)) w')"
    by (subst list_versions_loop.simps) (simp add: page(1) more)
  consider "offset = length elems" | "offset < length elems" "length elems \<le> offset + PAGE_SIZE"
    | "offset + PAGE_SIZE < length elems"
    using less.prems by linarith
  then show ?case
  proof cases
    case 1
    then show ?thesis unfolding step page(2) by simp
  next
    case 2
    then have all: "take (offset + PAGE_SIZE) elems = elems" by simp
    show ?thesis
    proof (cases "length (vl_versions page) < PAGE_SIZE \<or>
        (case vl_count page of Some n \<Rightarrow> n \<le> int (offset + length (vl_versions page)) | None \<Rightarrow> False)")
      case True
      then show ?thesis using 2(1) pos unfolding step all page(2) by simp
    next
      case False
      then have l: "length (vl_versions page) = PAGE_SIZE" "offset + PAGE_SIZE = length elems"
        using 2 page(2) by auto
      have "length elems - (offset + PAGE_SIZE) < length elems - offset" using 2(1) pos by linarith
      from less.hyps [OF this] l(2) False l(1) 2(1) pos show ?thesis unfolding step by auto
    qed
  next
    case 3
    then have l: "length (vl_versions page) = PAGE_SIZE" using page(2) by simp
    have "\<not> (length (vl_versions page) < PAGE_SIZE \<or>
        (case vl_count page of Some n \<Rightarrow> n \<le> int (offset + length (vl_versions page)) | None \<Rightarrow> False))"
      using 3 l page(3) by auto
    moreover have "length elems - (offset + PAGE_SIZE) < length elems - offset" using 3 pos by linarith
    ultimately show ?thesis
      using less.hyps [of "offset + PAGE_SIZE" w'] 3 l pos unfolding step by auto
  qed
qed

text \<open>A registry with one artifact of one version: the page at offset 0 holds it, every other page is empty.\<close>

definition demo_ap_send :: "http_request \<Rightarrow> nat \<Rightarrow> (string + raw_response) \<times> nat" where
  "demo_ap_send rq n =
     (Inr \<lparr>rr_status = 200, rr_headers = [], rr_content_length = None,
        rr_chunks = [Inr [if last (split_on (\<lambda>c. c = CHR ''='') (hq_url rq)) = ''0'' then 1 else 0]]\<rparr>, n + 1)"

definition demo_apicurio_env :: "nat apicurio_env" where
  "demo_apicurio_env =
     \<lparr>ap_http = \<lparr>he_valid_method = (\<lambda>_. True), he_send = demo_ap_send, he_now = (\<lambda>_. None), he_sleep = (\<lambda>_ n. n),
        he_seed = (\<lambda>_. 0), he_acquire = (\<lambda>n. (True, n)), he_release = (\<lambda>n. n)\<rparr>,
      ap_percent_encode = encode_documented, ap_percent_decode_lossy = (\<lambda>s. s), ap_base64 = (\<lambda>s. s),
      ap_error = (\<lambda>_. None), ap_create_body = (\<lambda>_. Inr []), ap_compatibility_body = (\<lambda>_. Inr []),
      ap_rule_body = (\<lambda>_. Inr []), ap_create_response = (\<lambda>_. Inr 7), ap_compatible_response = (\<lambda>_. Inr True),
      ap_version_meta = (\<lambda>_. Inr \<lparr>vm_global_id = 7, vm_version = Some (JString ''1''), vm_artifact_type = None,
        vm_group_id = None, vm_artifact_id = None\<rparr>),
      ap_version_list = (\<lambda>b. Inr \<lparr>vl_versions = (if b = [1] then [Some (JString ''1'')] else []), vl_count = None\<rparr>),
      ap_artifacts = (\<lambda>b. Inr \<lparr>sr_artifacts = (if b = [1]
        then [\<lparr>sa_artifact_id = ''orders'', sa_group_id = None\<rparr>] else []), sr_count = None\<rparr>),
      ap_version_search = (\<lambda>_. Inr []), ap_rule_response = (\<lambda>_. Inr ''NONE''), ap_value = (\<lambda>_. Inr JNull)\<rparr>"

definition demo_apicurio_client :: apicurio_client where
  "demo_apicurio_client =
     \<lparr>ac_client = \<lparr>hc_retry_policy = policy_default, hc_concurrency = None\<rparr>, ac_base_url = ''http://r'',
      ac_auth = ApicurioNone, ac_dereference = False\<rparr>"

lemma demo_get_json:
  "get_json demo_apicurio_env demo_apicurio_client q url w =
     (case q [if last (split_on (\<lambda>c. c = CHR ''='') url) = ''0'' then 1 else 0] of
        Inl e \<Rightarrow> Inl (InvalidState (Http_Msg (ApicurioParseFailed e))) | Inr a \<Rightarrow> Inr a, w + 1)"
  by (simp add: get_json_def ap_call_def request_def request_loop.simps [where attempt = 0] request_once_def io_bind_def
      demo_apicurio_env_def demo_apicurio_client_def demo_ap_send_def receive_response_def header_get_def
      content_type_of_def collect_headers_def handle_json_response_def is_retryable_status_def MAX_BODY_BYTES_def
      split: sum.split)

lemma offset_of_url: "last (split_on (\<lambda>c. c = CHR ''='') (p @ CHR ''='' # dec_nat n)) = ''0'' \<longleftrightarrow> n = 0"
proof -
  have "\<forall>c \<in> set (dec_nat n). c \<noteq> CHR ''=''"
  proof
    fix c assume "c \<in> set (dec_nat n)"
    then have "(of_char c :: nat) \<le> 57" using dec_nat_digits by blast
    then show "c \<noteq> CHR ''=''" by auto
  qed
  then have "split_on (\<lambda>c. c = CHR ''='') (dec_nat n) = [dec_nat n]" by (intro split_on_no_sep) blast
  then have "last (split_on (\<lambda>c. c = CHR ''='') (p @ CHR ''='' # dec_nat n)) = dec_nat n"
    by (simp add: split_on_append_sep)
  moreover have "dec_nat n = ''0'' \<longleftrightarrow> n = 0"
  proof
    assume "dec_nat n = ''0''"
    then show "n = 0" using digits_val_dec [of n] by (simp add: digit_val_def)
  next
    have "dec_nat 0 = ''0''" by code_simp
    then show "n = 0 \<Longrightarrow> dec_nat n = ''0''" by simp
  qed
  ultimately show ?thesis by simp
qed

lemma demo_parsed: "parse_artifact_id demo_apicurio_env ''orders'' = Inr (artifact_from_subject ''orders'')"
  by (simp add: parse_artifact_id_def demo_apicurio_env_def validate_subject_iff no_dot_segments_iff is_slash_def
      artifact_from_subject_def Let_def)

lemma demo_get_content:
  "\<exists>resp sch. get_content demo_apicurio_env demo_apicurio_client url w = (Inr resp, w + 1) \<and> content_as_utf8 resp = Inr sch"
proof -
  have "from_utf8 [0] = Inr [char_of (0 :: nat)]" "from_utf8 [Suc 0] = Inr [char_of (1 :: nat)]" by code_simp+
  then show ?thesis
    by (auto simp: get_content_def ap_call_def request_def request_loop.simps [where attempt = 0] request_once_def
        io_bind_def demo_apicurio_env_def demo_apicurio_client_def demo_ap_send_def receive_response_def header_get_def
        content_type_of_def collect_headers_def content_response_def is_retryable_status_def MAX_BODY_BYTES_def
        content_as_utf8_def)
qed

lemma demo_page:
  "get_json demo_apicurio_env demo_apicurio_client q (api_url demo_apicurio_client (p @ ''&offset='' @ dec_nat n)) w =
     (case q [if n = 0 then 1 else 0] of
        Inl e \<Rightarrow> Inl (InvalidState (Http_Msg (ApicurioParseFailed e))) | Inr a \<Rightarrow> Inr a, w + 1)"
  using offset_of_url [of "ac_base_url demo_apicurio_client @ API_PREFIX @ p @ ''&offset''" n]
  by (simp add: demo_get_json api_url_def)

section \<open>Properties\<close>

text \<open>
  C18. The listings return, and are complete. Against a server that holds a list and answers every
  page of it, the walk over the subjects ends with the first \<open>max_results\<close> of them, whatever the
  number of pages, as long as the server's own limit is no smaller than the pages asked for, and
  the walk over the versions of an artifact ends with all of them that parse. A smaller limit of
  the server ends the walk after one page.
\<close>

theorem apicurio_listing_complete:
  assumes "\<forall>limit offset w. 0 < limit \<longrightarrow> (\<exists>page w'. artifact_page env c limit offset w = (Inr page, w') \<and>
      sr_artifacts page = take (min limit cap) (drop offset artifacts))"
    and "parse_artifact_id env subject = Inr a"
    and "\<forall>offset w. \<exists>page w'. version_page env c a offset w = (Inr page, w') \<and>
      vl_versions page = take PAGE_SIZE (drop offset versions) \<and>
      (vl_count page = None \<or> vl_count page = Some (int (length versions)))"
  shows "(\<exists>w'. list_subjects env c max_results w = Some (Inr (map subject_of
      (take (if min PAGE_SIZE max_results \<le> cap then max_results else cap) artifacts)), w')) \<and>
    (\<exists>w'. list_versions env c subject w = Some (Inr (parsed_versions versions), w'))"
proof
  show "\<exists>w'. list_subjects env c max_results w = Some (Inr (map subject_of
      (take (if min PAGE_SIZE max_results \<le> cap then max_results else cap) artifacts)), w')"
    using list_subjects_loop_pages [OF assms(1), of max_results 0 w] list_subjects_capped [OF assms(1), of max_results w]
    by (simp add: list_subjects_def not_le)
  show "\<exists>w'. list_versions env c subject w = Some (Inr (parsed_versions versions), w')"
    using list_versions_loop_pages [OF assms(3), of 0 w] assms(2)
    by (simp add: list_versions_def parsed_versions_def map_filter_def)
qed


theorem apicurio_listing_complete_witness:
  "(\<exists>w. list_subjects demo_apicurio_env demo_apicurio_client 3 0 = Some (Inr [''default/orders''], w)) \<and>
   (\<exists>w. list_versions demo_apicurio_env demo_apicurio_client ''orders'' 0 = Some (Inr [SchemaVersion 1], w))"
proof -
  let ?env = demo_apicurio_env and ?c = demo_apicurio_client and ?a = "artifact_from_subject ''orders''"
  let ?elems = "[\<lparr>sa_artifact_id = ''orders'', sa_group_id = None\<rparr>]"
  have pages: "\<forall>limit offset w. 0 < limit \<longrightarrow> (\<exists>page w'. artifact_page ?env ?c limit offset w = (Inr page, w') \<and>
      sr_artifacts page = take (min limit 500) (drop offset ?elems))"
  proof (intro allI impI)
    fix limit offset w :: nat
    assume "0 < limit"
    then show "\<exists>page w'. artifact_page ?env ?c limit offset w = (Inr page, w') \<and>
        sr_artifacts page = take (min limit 500) (drop offset ?elems)"
      using demo_page [of "ap_artifacts ?env" "''/search/artifacts?limit='' @ dec_nat limit" offset w]
      by (simp add: artifact_page_def demo_apicurio_env_def drop_Cons' take_Cons')
  qed
  have versions: "\<forall>offset w. \<exists>page w'. version_page ?env ?c ?a offset w = (Inr page, w') \<and>
      vl_versions page = take PAGE_SIZE (drop offset [Some (JString ''1'')]) \<and>
      (vl_count page = None \<or> vl_count page = Some (int (length [Some (JString ''1'')])))"
  proof (intro allI)
    fix offset w :: nat
    show "\<exists>page w'. version_page ?env ?c ?a offset w = (Inr page, w') \<and>
        vl_versions page = take PAGE_SIZE (drop offset [Some (JString ''1'')]) \<and>
        (vl_count page = None \<or> vl_count page = Some (int (length [Some (JString ''1'')])))"
      using demo_page [of "ap_version_list ?env" "artifact_path ?env ?a @ ''/versions?limit='' @ dec_nat PAGE_SIZE" offset w]
      by (simp add: version_page_def demo_apicurio_env_def PAGE_SIZE_def drop_Cons' take_Cons')
  qed
  have "parsed_versions [Some (JString ''1'')] = [SchemaVersion 1]"
    by (simp add: parsed_versions_def parse_version_def map_filter_def parse_signed_def parse_nat_digits_def digit_val_def)
  then show ?thesis
    using apicurio_listing_complete [OF pages demo_parsed versions, of 3 0]
    by (simp add: PAGE_SIZE_def subject_of_def DEFAULT_GROUP_def)
qed


text \<open>
  The client talks to its registry only: every request of every operation goes below the base
  URL and carries exactly the configured credentials, the pages of the listings included.
\<close>

theorem apicurio_confined:
  assumes "\<forall>rq. confined (ac_base_url c) (auth_header env c) rq \<longrightarrow> send rq = he_send (ap_http env) rq"
  shows "apicurio_registry (env\<lparr>ap_http := with_send send (ap_http env)\<rparr>) c = apicurio_registry env c"
proof -
  let ?env = "env\<lparr>ap_http := with_send send (ap_http env)\<rparr>"
  note url = ap_http_confined [OF assms ap_below_url]
  have version: "version_schema ?env c = version_schema env c"
    by (intro ext) (simp add: version_schema_def ap_http_cong url)
  have arts: "artifact_page ?env c = artifact_page env c"
    by (intro ext) (simp add: artifact_page_def url)
  have vers: "list_versions ?env c = list_versions env c"
  proof -
    have page: "version_page ?env c = version_page env c"
      by (intro ext) (simp add: version_page_def ap_http_cong url)
    show ?thesis by (intro ext, unfold list_versions_def ap_http_cong page) (rule refl)
  qed
  have "apicurio_get_schema_by_id ?env c = apicurio_get_schema_by_id env c"
    by (intro ext) (simp add: apicurio_get_schema_by_id_def url)
  moreover have "apicurio_get_latest_schema ?env c = apicurio_get_latest_schema env c"
    by (intro ext) (simp add: apicurio_get_latest_schema_def ap_http_cong version)
  moreover have "apicurio_get_schema_by_version ?env c = apicurio_get_schema_by_version env c"
    by (intro ext) (simp add: apicurio_get_schema_by_version_def ap_http_cong version)
  moreover have "apicurio_register_schema ?env c = apicurio_register_schema env c"
    by (intro ext) (simp add: apicurio_register_schema_def ap_http_cong url)
  moreover have "apicurio_check_compatibility ?env c = apicurio_check_compatibility env c"
    by (intro ext) (simp add: apicurio_check_compatibility_def ap_http_cong url)
  moreover have "apicurio_lookup_schema ?env c = apicurio_lookup_schema env c"
    by (intro ext) (simp add: apicurio_lookup_schema_def ap_http_cong url)
  moreover have del: "delete_artifact ?env c = delete_artifact env c"
    by (intro ext) (simp add: delete_artifact_def ap_http_cong url)
  moreover have "apicurio_delete_subject ?env c = apicurio_delete_subject env c"
    by (intro ext) (simp add: apicurio_delete_subject_def vers del)
  moreover have "apicurio_delete_version ?env c = apicurio_delete_version env c"
    by (intro ext) (simp add: apicurio_delete_version_def delete_artifact_version_def ap_http_cong url)
  moreover have "list_subjects ?env c = list_subjects env c"
    by (intro ext) (simp add: list_subjects_def arts)
  moreover have "apicurio_get_compatibility ?env c = apicurio_get_compatibility env c"
    unfolding apicurio_get_compatibility_def ap_http_cong
    by (intro ext, rule fun_cong [OF scope_bind_cong]) (simp add: ap_http_confined [OF assms ap_below_scope])
  moreover have "apicurio_set_compatibility ?env c = apicurio_set_compatibility env c"
    unfolding apicurio_set_compatibility_def ap_http_cong
    apply (intro ext, rule fun_cong [OF scope_bind_cong])
    subgoal premises scope unfolding ap_http_confined [OF assms ap_below_scope [OF scope]] by simp
    done
  moreover have "apicurio_health_check ?env c = apicurio_health_check env c"
    by (intro ext) (simp add: apicurio_health_check_def url)
  ultimately show ?thesis by (simp only: apicurio_registry_def vers)
qed


theorem apicurio_confined_witness:
  "apicurio_registry (demo_apicurio_env\<lparr>ap_http := with_send
       (\<lambda>rq n. if starts_with (hq_url rq) ''http://r/'' then demo_ap_send rq n else (Inl ''down'', n))
       (ap_http demo_apicurio_env)\<rparr>) demo_apicurio_client =
     apicurio_registry demo_apicurio_env demo_apicurio_client"
  by (rule apicurio_confined)
    (simp add: confined_def demo_apicurio_env_def demo_apicurio_client_def fun_eq_iff)

text \<open>
  C23. An address cannot leave its place in the path. When a subject is accepted and the encoder
  does what its crate documents, the path of the artifact has exactly the segments
  \<open>groups/<group>/artifacts/<artifact>\<close>; neither component is empty, \<open>.\<close> or \<open>..\<close>, and neither
  starts a query or a fragment, although the subject is split before it is encoded.
\<close>

theorem apicurio_path_segments:
  assumes "parse_artifact_id env subject = Inr a"
    and "\<forall>s. ap_percent_encode env PATH_SEGMENT_ENCODE_SET s = encode_documented PATH_SEGMENT_ENCODE_SET s"
  shows "\<exists>grp name. split_on (\<lambda>c. c = CHR ''/'') (artifact_path env a) = [[], ''groups'', grp, ''artifacts'', name] \<and>
    grp \<notin> {[], ''.'', ''..''} \<and> name \<notin> {[], ''.'', ''..''} \<and>
    CHR ''?'' \<notin> set (artifact_path env a) \<and> CHR ''#'' \<notin> set (artifact_path env a)"
proof -
  let ?e = "percent_encode (ap_percent_encode env)"
  have seg: "?e s \<notin> {[], ''.'', ''..''} \<and> CHR ''/'' \<notin> set (?e s) \<and> CHR ''?'' \<notin> set (?e s) \<and> CHR ''#'' \<notin> set (?e s)"
    if "validate_subject (ap_percent_decode_lossy env) s = Inr ()" for s
    using subject_segment [where s = s and utf8_percent_encode = "ap_percent_encode env", OF that _, of "[]" "[]"] encoded_chars
    by (auto simp: percent_encode_def assms(2))
  note g = seg [OF parse_artifact_id_Inr(4) [OF assms(1)]] and n = seg [OF parse_artifact_id_Inr(5) [OF assms(1)]]
  have plain: "CHR ''/'' \<notin> set t \<Longrightarrow> split_on (\<lambda>c. c = CHR ''/'') t = [t]" for t
    by (rule split_on_no_sep) auto
  have "split_on (\<lambda>c. c = CHR ''/'') (artifact_path env a) = [[], ''groups'', ?e (art_group a), ''artifacts'', ?e (art_name a)]"
    using split_on_append_sep [of "\<lambda>c. c = CHR ''/''" "CHR ''/''" "?e (art_group a)" "''artifacts/'' @ ?e (art_name a)"]
      plain g n
    by (simp add: artifact_path_def)
  then show ?thesis using g n by (auto simp: artifact_path_def)
qed

theorem apicurio_path_segments_witness:
  "\<exists>grp name. split_on (\<lambda>c. c = CHR ''/'') (artifact_path demo_apicurio_env \<lparr>art_group = ''my group'', art_name = ''a/b''\<rparr>) =
    [[], ''groups'', grp, ''artifacts'', name]"
proof -
  have "parse_artifact_id demo_apicurio_env ''my group/a/b'' = Inr \<lparr>art_group = ''my group'', art_name = ''a/b''\<rparr>"
    by (simp add: parse_artifact_id_def demo_apicurio_env_def validate_subject_iff no_dot_segments_iff is_slash_def
        artifact_from_subject_def Let_def)
  from apicurio_path_segments [OF this] show ?thesis by (auto simp: demo_apicurio_env_def)
qed


text \<open>
  Identifiers are neither invented nor truncated. A global identifier becomes a schema
  identifier exactly if the 32 bits of the wire format hold its value; and a version that is
  returned carries the identifier, as a number, and the subject that the registry reported with
  the version that was asked for.
\<close>

theorem apicurio_identity:
  assumes "rg_get_schema_by_version (apicurio_registry env c) subject version w = (Inr x, w')"
  shows "(\<forall>g j. (global_id_to_schema_id g = Inr j) = (uint (as_u32 j) = g)) \<and>
    (\<exists>a meta w1 i. parse_artifact_id env subject = Inr a \<and>
       get_json env c (ap_version_meta env)
         (api_url c (artifact_path env a @ ''/versions/'' @ version_expression env version)) w = (Inr meta, w1) \<and>
       sch_id x = Some i \<and> uint (as_u32 i) = vm_global_id meta \<and>
       sch_subject x = Some (reported_subject meta subject))"
proof
  show exact: "\<forall>g j. (global_id_to_schema_id g = Inr j) = (uint (as_u32 j) = g)"
    using global_id_exact by blast
  from assms show "\<exists>a meta w1 i. parse_artifact_id env subject = Inr a \<and>
       get_json env c (ap_version_meta env)
         (api_url c (artifact_path env a @ ''/versions/'' @ version_expression env version)) w = (Inr meta, w1) \<and>
       sch_id x = Some i \<and> uint (as_u32 i) = vm_global_id meta \<and>
       sch_subject x = Some (reported_subject meta subject)"
    using exact
    by (auto simp: apicurio_registry_def trait_defaults_def apicurio_get_schema_by_version_def version_schema_def
        identified_schema_def io_bind_Inr_iff)
qed

theorem apicurio_identity_witness:
  "\<exists>x w. rg_get_schema_by_version (apicurio_registry demo_apicurio_env demo_apicurio_client) ''orders'' (SchemaVersion 1) 0 =
    (Inr x, w) \<and> sch_id x = Some (SchemaId 7)"
proof -
  let ?url = "api_url demo_apicurio_client (artifact_path demo_apicurio_env (artifact_from_subject ''orders'') @
      ''/versions/'' @ version_expression demo_apicurio_env (SchemaVersion 1))"
  have meta: "get_json demo_apicurio_env demo_apicurio_client (ap_version_meta demo_apicurio_env) ?url 0 =
      (Inr \<lparr>vm_global_id = 7, vm_version = Some (JString ''1''), vm_artifact_type = None, vm_group_id = None,
        vm_artifact_id = None\<rparr>, 1)"
    by (simp add: demo_get_json) (simp add: demo_apicurio_env_def)
  obtain x where x: "rg_get_schema_by_version (apicurio_registry demo_apicurio_env demo_apicurio_client) ''orders'' (SchemaVersion 1) 0 =
      (Inr x, 2)"
  proof -
    let ?content = "api_url demo_apicurio_client (artifact_path demo_apicurio_env (artifact_from_subject ''orders'') @
        ''/versions/'' @ version_expression demo_apicurio_env (SchemaVersion 1) @ ''/content'' @
        dereference_param demo_apicurio_client CHR ''?'')"
    obtain resp sch where "get_content demo_apicurio_env demo_apicurio_client ?content 1 = (Inr resp, 2)"
      "content_as_utf8 resp = Inr sch"
      using demo_get_content [of ?content 1] by auto
    with meta show thesis
      by (intro that) (simp add: apicurio_registry_def trait_defaults_def apicurio_get_schema_by_version_def version_schema_def
        demo_parsed io_bind_def reported_type_def identified_schema_def global_id_to_schema_id_def)
  qed
  from apicurio_identity [OF x] meta demo_parsed obtain i where "sch_id x = Some i" "uint (as_u32 i) = 7" by auto
  then have "sch_id x = Some (SchemaId 7)" by (cases i) (simp add: word_uint_eq_iff)
  with x show ?thesis by blast
qed

text \<open>Conflicts are reported under a code that \<^const>\<open>is_incompatible\<close> does not know.\<close>

theorem apicurio_conflict_not_incompatible: "\<not> is_incompatible (status_error status m)"
  by (simp add: status_error_def is_incompatible_def INCOMPATIBLE_SCHEMA_def)

text \<open>A version number beyond 32 bits is truncated, although identifiers are checked.\<close>

theorem apicurio_version_truncated: "parse_version (JNumber (JInt (2 ^ 32 + 1))) = Some (SchemaVersion 1)"
  by (simp add: parse_version_def as_i64_def wrap_i32_def)

text \<open>The latest version of a reference is sent as the number -1.\<close>

theorem apicurio_latest_reference:
  "map rj_version (to_reference_json [\<lparr>ref_name = n, ref_subject = s, ref_version = SchemaVersion (- 1)\<rparr>]) = [''-1'']"
proof -
  have "dec_nat 1 = ''1''" by code_simp
  then show ?thesis by (simp add: to_reference_json_def dec_int_def Let_def)
qed

text \<open>The cleartext check, on the URL that is kept.\<close>

theorem apicurio_cleartext_guard:
  assumes "apicurio_build finish b = Inr cl" "ab_auth b \<noteq> ApicurioNone" "starts_with (ac_base_url cl) ''http://''"
  shows "is_loopback_host (ac_base_url cl) \<and> reject_embedded_credentials (ac_base_url cl) = Inr ()"
  using assms by (auto simp: apicurio_build_def Let_def split: if_splits)

end
