(* ===== verification/Glue_Client.thy ===== *)
theory Glue_Client
  imports Retry Registry
begin

text \<open>
  The AWS Glue client (\<open>src/glue/client.rs\<close>) and its classification of SDK errors
  (\<open>src/glue/error.rs\<close>). The AWS SDK is the record \<open>glue_sdk\<close>: each of its calls takes the
  inputs the source sets and the state of the world; the fixed compatibility of \<open>create_schema\<close>
  is part of the call. A \<open>Duration\<close> is its number of nanoseconds and the count of attempts, a
  \<open>u32\<close> that is only compared, a \<^typ>\<open>nat\<close>.
\<close>

section \<open>Errors\<close>

datatype sdk_error =
    ConstructionFailure string
  | TimeoutError string | DispatchFailure string | ResponseError string
  | ServiceError nat "string option" "string option"

definition GLUE_NOT_FOUND :: int where "GLUE_NOT_FOUND = 40401"
definition GLUE_ALREADY_EXISTS :: int where "GLUE_ALREADY_EXISTS = 40902"
definition GLUE_INVALID_INPUT :: int where "GLUE_INVALID_INPUT = 42201"

definition access_codes :: "string set" where
  "access_codes = {''AccessDeniedException'', ''UnrecognizedClientException'', ''InvalidSignatureException''}"

definition throttling_codes :: "string set" where
  "throttling_codes =
     {''ThrottlingException'', ''ThrottledException'', ''RequestThrottledException'', ''TooManyRequestsException''}"

definition internal_codes :: "string set" where
  "internal_codes = {''InternalServiceException'', ''ServiceUnavailableException'', ''InternalFailure''}"

definition classify_service_error :: "nat \<Rightarrow> string \<Rightarrow> string \<Rightarrow> sreg_error" where
  "classify_service_error status code message =
     (let detail = Text (code @ '': '' @ message)
      in if code \<in> access_codes then Auth (if status = 0 then 403 else status) detail
         else if code = ''EntityNotFoundException'' then Api GLUE_NOT_FOUND detail
         else if code = ''AlreadyExistsException'' then Api GLUE_ALREADY_EXISTS detail
         else if code \<in> {''InvalidInputException'', ''SchemaVersionNotFoundException''} \<and> status = 404
         then Api GLUE_NOT_FOUND detail
         else if code = ''InvalidInputException'' then Api GLUE_INVALID_INPUT detail
         else if code \<in> throttling_codes then Http 429 detail
         else if code \<in> internal_codes then Http (if status < 500 then 503 else status) detail
         else if status = 401 \<or> status = 403 then Auth status detail
         else if status = 404 then Api GLUE_NOT_FOUND detail
         else if status = 409 then Api GLUE_ALREADY_EXISTS detail
         else Http status detail)"

fun map_sdk_error :: "sdk_error \<Rightarrow> sreg_error" where
  "map_sdk_error (ConstructionFailure e) = Config (Glue (GlueRequestFailed e))"
| "map_sdk_error (ServiceError status code message) =
     classify_service_error status (case code of Some c \<Rightarrow> c | None \<Rightarrow> ''UnknownServiceError'')
       (case message of Some m \<Rightarrow> m | None \<Rightarrow> ''<no message returned by AWS Glue>'')"
| "map_sdk_error (TimeoutError e) = Network e"
| "map_sdk_error (DispatchFailure e) = Network e"
| "map_sdk_error (ResponseError e) = Network e"

section \<open>The SDK\<close>

datatype sdk_status = Available | Failure | Deleting | OtherStatus string
datatype sdk_format = SdkAvro | SdkJson | SdkProtobuf | OtherFormat string

record version_output =
  vo_version_id :: "string option"
  vo_status :: "sdk_status option"
  vo_data_format :: "sdk_format option"
  vo_definition :: "string option"
  vo_arn :: "string option"
  vo_version_number :: "int option"

record 'w glue_sdk =
  gk_get_schema_version :: "string \<Rightarrow> 'w \<Rightarrow> (sdk_error + version_output) \<times> 'w"
  gk_get_schema_by_definition :: "string \<Rightarrow> string \<Rightarrow> string \<Rightarrow> 'w \<Rightarrow> (sdk_error + version_output) \<times> 'w"
  gk_register_schema_version :: "string \<Rightarrow> string \<Rightarrow> string \<Rightarrow> 'w \<Rightarrow> (sdk_error + string option) \<times> 'w"
  gk_create_schema :: "string \<Rightarrow> string \<Rightarrow> sdk_format \<Rightarrow> string \<Rightarrow> 'w \<Rightarrow> (sdk_error + string option) \<times> 'w"
  gk_get_registry :: "string \<Rightarrow> 'w \<Rightarrow> (sdk_error + unit) \<times> 'w"
  gk_sleep :: "nat \<Rightarrow> 'w \<Rightarrow> 'w"
  gk_parse_uuid :: "string \<Rightarrow> string + u128"
  gk_uuid_text :: "u128 \<Rightarrow> string"

section \<open>Client\<close>

definition DEFAULT_REGISTRY_NAME :: string where "DEFAULT_REGISTRY_NAME = ''default-registry''"
definition DEFAULT_POLL_MAX_ATTEMPTS :: nat where "DEFAULT_POLL_MAX_ATTEMPTS = 10"
definition DEFAULT_POLL_INTERVAL :: nat where "DEFAULT_POLL_INTERVAL = from_millis 3000"

record glue_client =
  gc_registry_name :: string
  gc_auto_register :: bool
  gc_poll_max_attempts :: nat
  gc_poll_interval :: nat

definition glue_client_new :: "string \<Rightarrow> glue_client" where
  "glue_client_new registry_name =
     \<lparr>gc_registry_name = registry_name, gc_auto_register = False,
      gc_poll_max_attempts = DEFAULT_POLL_MAX_ATTEMPTS, gc_poll_interval = DEFAULT_POLL_INTERVAL\<rparr>"

definition glue_client_from_config :: glue_client where
  "glue_client_from_config = glue_client_new DEFAULT_REGISTRY_NAME"

text \<open>The loop over \<open>attempt\<close>; the second number counts the attempts that are left.\<close>

fun wait_loop :: "'w glue_sdk \<Rightarrow> glue_client \<Rightarrow> string \<Rightarrow> nat \<Rightarrow> nat \<Rightarrow> ('w, version_output) io" where
  "wait_loop sdk c version_id attempt 0 w = (Inl (InvalidState (Glue (NotAvailableAfter (gc_poll_max_attempts c)))), w)"
| "wait_loop sdk c version_id attempt (Suc n) w =
     (case gk_get_schema_version sdk version_id w of
        (Inl e, w') \<Rightarrow> (Inl (map_sdk_error e), w')
      | (Inr response, w') \<Rightarrow>
          (case vo_status response of
             Some Available \<Rightarrow> (Inr response, w')
           | Some Failure \<Rightarrow> (Inl (InvalidState (Glue RegistrationFailed)), w')
           | Some Deleting \<Rightarrow> (Inl (InvalidState (Glue VersionDeleting)), w')
           | _ \<Rightarrow>
               wait_loop sdk c version_id (Suc attempt) n
                 (if attempt + 1 < gc_poll_max_attempts c then gk_sleep sdk (gc_poll_interval c) w' else w')))"

definition wait_for_available :: "'w glue_sdk \<Rightarrow> glue_client \<Rightarrow> string \<Rightarrow> ('w, version_output) io" where
  "wait_for_available sdk c version_id = wait_loop sdk c version_id 0 (gc_poll_max_attempts c)"

fun convert_data_format :: "sdk_format \<Rightarrow> glue_data_format res" where
  "convert_data_format SdkAvro = Inr GlueAvro"
| "convert_data_format SdkJson = Inr GlueJson"
| "convert_data_format SdkProtobuf = Inr GlueProtobuf"
| "convert_data_format (OtherFormat s) = Inl (InvalidState (Glue (UnsupportedSdkFormat s)))"

fun to_sdk_data_format :: "glue_data_format \<Rightarrow> sdk_format" where
  "to_sdk_data_format GlueAvro = SdkAvro"
| "to_sdk_data_format GlueJson = SdkJson"
| "to_sdk_data_format GlueProtobuf = SdkProtobuf"

definition parse_version_id :: "'w glue_sdk \<Rightarrow> string \<Rightarrow> glue_version_id res" where
  "parse_version_id sdk s =
     (case version_from_str (gk_parse_uuid sdk) s of
        Inr v \<Rightarrow> Inr v
      | Inl (Config (Glue (InvalidVersionId t e))) \<Rightarrow> Inl (InvalidState (Glue (BadRegistryVersionId t e)))
      | Inl e \<Rightarrow> Inl e)"

definition wait_and_parse_version_id :: "'w glue_sdk \<Rightarrow> glue_client \<Rightarrow> string \<Rightarrow> ('w, glue_version_id) io" where
  "wait_and_parse_version_id sdk c version_id =
     io_bind (wait_for_available sdk c version_id) (\<lambda>_. io_lift (parse_version_id sdk version_id))"

definition aws_get_schema_by_version_id :: "'w glue_sdk \<Rightarrow> glue_client \<Rightarrow> glue_version_id \<Rightarrow> ('w, glue_schema) io" where
  "aws_get_schema_by_version_id sdk c v w =
     (case gk_get_schema_version sdk (gk_uuid_text sdk (version_uuid v)) w of
        (Inl e, w') \<Rightarrow> (Inl (map_sdk_error e), w')
      | (Inr response, w') \<Rightarrow>
          (res_bind (res_bind (ok_or (vo_data_format response) (InvalidState (Glue MissingDataFormat)))
             convert_data_format) (\<lambda>data_format.
           res_bind (ok_or (vo_definition response) (InvalidState (Glue MissingDefinition))) (\<lambda>schema_definition.
           let s = glue_schema_new v data_format schema_definition
           in Inr (case (vo_arn response, vo_version_number response) of
                     (Some arn, Some version) \<Rightarrow> with_metadata arn version s
                   | _ \<Rightarrow> s))), w'))"

definition aws_health_check :: "'w glue_sdk \<Rightarrow> glue_client \<Rightarrow> ('w, unit) io" where
  "aws_health_check sdk c w =
     (case gk_get_registry sdk (gc_registry_name c) w of
        (Inl e, w') \<Rightarrow> (Inl (map_sdk_error e), w')
      | (Inr _, w') \<Rightarrow> (Inr (), w'))"

text \<open>What is done with the version of a successful registration or creation.\<close>

definition await_reported ::
    "'w glue_sdk \<Rightarrow> glue_client \<Rightarrow> string \<Rightarrow> string option \<Rightarrow> ('w, glue_version_id) io" where
  "await_reported sdk c what version_id =
     io_bind (io_lift (ok_or version_id (InvalidState (Glue (MissingVersionId what)))))
       (wait_and_parse_version_id sdk c)"

definition aws_register_schema ::
    "'w glue_sdk \<Rightarrow> glue_client \<Rightarrow> string \<Rightarrow> string \<Rightarrow> glue_data_format \<Rightarrow> ('w, glue_version_id) io" where
  "aws_register_schema sdk c schema_name sch data_format w =
     (let registry = gc_registry_name c;
          register = gk_register_schema_version sdk registry schema_name sch
      in case gk_get_schema_by_definition sdk registry schema_name sch w of
           (existing, w1) \<Rightarrow>
             (case (case existing of
                      Inr response \<Rightarrow> if vo_status response = Some Available then vo_version_id response else None
                    | Inl _ \<Rightarrow> None) of
                Some version_id \<Rightarrow> (parse_version_id sdk version_id, w1)
              | None \<Rightarrow>
                  (case register w1 of
                     (Inr version_id, w2) \<Rightarrow> await_reported sdk c ''register response'' version_id w2
                   | (Inl register_err, w2) \<Rightarrow>
                       if \<not> gc_auto_register c then (Inl (map_sdk_error register_err), w2)
                       else (case gk_create_schema sdk registry schema_name (to_sdk_data_format data_format) sch w2 of
                               (Inr version_id, w3) \<Rightarrow> await_reported sdk c ''create schema response'' version_id w3
                             | (Inl create_err, w3) \<Rightarrow>
                                 (case register w3 of
                                    (Inl e, w4) \<Rightarrow> (Inl (map_sdk_error e), w4)
                                  | (Inr version_id, w4) \<Rightarrow>
                                      await_reported sdk c ''register response'' version_id w4)))))"

definition aws_glue_registry :: "'w glue_sdk \<Rightarrow> glue_client \<Rightarrow> 'w glue_registry" where
  "aws_glue_registry sdk c =
     \<lparr>gr_get_schema_by_version_id = aws_get_schema_by_version_id sdk c,
      gr_register_schema = aws_register_schema sdk c,
      gr_health_check = aws_health_check sdk c\<rparr>"

section \<open>Builder\<close>

record glue_client_builder =
  gb_registry_name :: string
  gb_auto_register :: bool
  gb_poll_max_attempts :: nat
  gb_poll_interval :: nat

definition glue_client_builder_new :: glue_client_builder where
  "glue_client_builder_new =
     \<lparr>gb_registry_name = DEFAULT_REGISTRY_NAME, gb_auto_register = False,
      gb_poll_max_attempts = DEFAULT_POLL_MAX_ATTEMPTS, gb_poll_interval = DEFAULT_POLL_INTERVAL\<rparr>"

definition glue_set_registry_name :: "string \<Rightarrow> glue_client_builder \<Rightarrow> glue_client_builder" where
  "glue_set_registry_name x b = b\<lparr>gb_registry_name := x\<rparr>"

definition glue_set_auto_register :: "bool \<Rightarrow> glue_client_builder \<Rightarrow> glue_client_builder" where
  "glue_set_auto_register x b = b\<lparr>gb_auto_register := x\<rparr>"

definition glue_set_poll_max_attempts :: "nat \<Rightarrow> glue_client_builder \<Rightarrow> glue_client_builder" where
  "glue_set_poll_max_attempts x b = b\<lparr>gb_poll_max_attempts := x\<rparr>"

definition glue_set_poll_interval :: "nat \<Rightarrow> glue_client_builder \<Rightarrow> glue_client_builder" where
  "glue_set_poll_interval x b = b\<lparr>gb_poll_interval := x\<rparr>"

definition glue_client_build :: "glue_client_builder \<Rightarrow> glue_client" where
  "glue_client_build b =
     \<lparr>gc_registry_name = gb_registry_name b, gc_auto_register = gb_auto_register b,
      gc_poll_max_attempts = gb_poll_max_attempts b, gc_poll_interval = gb_poll_interval b\<rparr>"

section \<open>Lemmas\<close>

text \<open>Polling: the world each poll starts in, and what decides.\<close>

fun poll_at :: "'w glue_sdk \<Rightarrow> glue_client \<Rightarrow> string \<Rightarrow> 'w \<Rightarrow> nat \<Rightarrow> 'w" where
  "poll_at sdk c version_id w 0 = w"
| "poll_at sdk c version_id w (Suc n) =
     gk_sleep sdk (gc_poll_interval c) (snd (gk_get_schema_version sdk version_id (poll_at sdk c version_id w n)))"

lemma poll_at_shift:
  "poll_at sdk c s w (Suc n) = poll_at sdk c s (poll_at sdk c s w 1) n"
  by (induction n) simp_all

definition verdict :: "sdk_error + version_output \<Rightarrow> version_output res option" where
  "verdict r =
     (case r of
        Inl e \<Rightarrow> Some (Inl (map_sdk_error e))
      | Inr response \<Rightarrow>
          (case vo_status response of
             Some Available \<Rightarrow> Some (Inr response)
           | Some Failure \<Rightarrow> Some (Inl (InvalidState (Glue RegistrationFailed)))
           | Some Deleting \<Rightarrow> Some (Inl (InvalidState (Glue VersionDeleting)))
           | _ \<Rightarrow> None))"

lemma verdict_Inr: "verdict r = Some (Inr out) \<longleftrightarrow> r = Inr out \<and> vo_status out = Some Available"
  by (auto simp: verdict_def split: sum.splits option.splits sdk_status.splits)

lemma wait_loop_turn:
  "wait_loop sdk c s a (Suc n) w =
     (case verdict (fst (gk_get_schema_version sdk s w)) of
        Some r \<Rightarrow> (r, snd (gk_get_schema_version sdk s w))
      | None \<Rightarrow> wait_loop sdk c s (Suc a) n
          (if a + 1 < gc_poll_max_attempts c then poll_at sdk c s w 1 else snd (gk_get_schema_version sdk s w)))"
  by (cases "gk_get_schema_version sdk s w")
    (auto simp: verdict_def split: sum.splits option.splits sdk_status.splits)

declare wait_loop.simps(2) [simp del]

lemma wait_loop_polls:
  assumes "a + n = gc_poll_max_attempts c"
  shows "\<exists>k \<le> n. (\<forall>j < k. verdict (fst (gk_get_schema_version sdk s (poll_at sdk c s w j))) = None) \<and>
    (if k = n then fst (wait_loop sdk c s a n w) = Inl (InvalidState (Glue (NotAvailableAfter (gc_poll_max_attempts c))))
     else \<exists>r. verdict (fst (gk_get_schema_version sdk s (poll_at sdk c s w k))) = Some r \<and>
       wait_loop sdk c s a n w = (r, snd (gk_get_schema_version sdk s (poll_at sdk c s w k))))"
  using assms
proof (induction n arbitrary: a w)
  case 0
  then show ?case by simp
next
  case (Suc n)
  show ?case
  proof (cases "verdict (fst (gk_get_schema_version sdk s w))")
    case (Some r)
    then show ?thesis by (intro exI [of _ 0]) (simp add: wait_loop_turn)
  next
    case None
    show ?thesis
    proof (cases "n = 0")
      case True
      then show ?thesis using None by (intro exI [of _ 1]) (simp add: wait_loop_turn)
    next
      case False
      then have "a + 1 < gc_poll_max_attempts c" using Suc.prems by simp
      then have turn: "wait_loop sdk c s a (Suc n) w = wait_loop sdk c s (Suc a) n (poll_at sdk c s w 1)"
        using None by (simp add: wait_loop_turn)
      have "Suc a + n = gc_poll_max_attempts c" using Suc.prems by simp
      from Suc.IH [OF this, of "poll_at sdk c s w 1"] obtain k where k: "k \<le> n"
        "\<forall>j < k. verdict (fst (gk_get_schema_version sdk s (poll_at sdk c s w (Suc j)))) = None"
        "if k = n then fst (wait_loop sdk c s a (Suc n) w) = Inl (InvalidState (Glue (NotAvailableAfter (gc_poll_max_attempts c))))
         else \<exists>r. verdict (fst (gk_get_schema_version sdk s (poll_at sdk c s w (Suc k)))) = Some r \<and>
           wait_loop sdk c s a (Suc n) w = (r, snd (gk_get_schema_version sdk s (poll_at sdk c s w (Suc k))))"
        unfolding turn poll_at_shift [of sdk c s w] by blast
      have "verdict (fst (gk_get_schema_version sdk s (poll_at sdk c s w j))) = None" if "j < Suc k" for j
        using that k(2) None by (cases j) simp_all
      with k(1,3) show ?thesis by (intro exI [of _ "Suc k"]) simp
    qed
  qed
qed

lemma wait_loop_available:
  "wait_loop sdk c s a n w = (Inr out, w') \<Longrightarrow>
     \<exists>w1. gk_get_schema_version sdk s w1 = (Inr out, w') \<and> vo_status out = Some Available"
proof (induction n arbitrary: a w)
  case (Suc n)
  show ?case
  proof (cases "verdict (fst (gk_get_schema_version sdk s w))")
    case None
    then show ?thesis using Suc.IH Suc.prems unfolding wait_loop_turn by auto
  next
    case (Some r)
    then have "r = Inr out" "snd (gk_get_schema_version sdk s w) = w'"
      using Suc.prems unfolding wait_loop_turn by auto
    then show ?thesis using Some verdict_Inr [of "fst (gk_get_schema_version sdk s w)" out]
      by (intro exI [of _ w]) (simp add: prod_eq_iff)
  qed
qed simp

lemma await_reported_Inr:
  assumes "await_reported sdk c what version_id w = (Inr v, w')"
  shows "\<exists>s w1 out. parse_version_id sdk s = Inr v \<and> gk_get_schema_version sdk s w1 = (Inr out, w') \<and>
    vo_status out = Some Available"
  using assms wait_loop_available
  by (fastforce simp: await_reported_def wait_and_parse_version_id_def wait_for_available_def io_bind_Inr_iff)

text \<open>The classification of a service error, code by code.\<close>

lemma named_codes:
  "c \<in> throttling_codes \<Longrightarrow> c \<notin> access_codes \<and> c \<notin> internal_codes \<and> c \<noteq> ''EntityNotFoundException'' \<and>
     c \<noteq> ''AlreadyExistsException'' \<and> c \<noteq> ''InvalidInputException'' \<and> c \<noteq> ''SchemaVersionNotFoundException''"
  "c \<in> internal_codes \<Longrightarrow> c \<notin> access_codes \<and> c \<noteq> ''EntityNotFoundException'' \<and>
     c \<noteq> ''AlreadyExistsException'' \<and> c \<noteq> ''InvalidInputException'' \<and> c \<noteq> ''SchemaVersionNotFoundException''"
  by (auto simp: throttling_codes_def internal_codes_def access_codes_def)

lemma unnamed_code:
  "''UnknownServiceError'' \<notin> throttling_codes" "''UnknownServiceError'' \<notin> internal_codes"
  "''UnknownServiceError'' \<notin> access_codes"
  by (simp_all add: throttling_codes_def internal_codes_def access_codes_def)

lemma classify_cases:
  "is_retryable (classify_service_error status c m) =
     (if c \<in> throttling_codes then True
      else if c \<in> internal_codes then status < 600
      else c \<notin> access_codes \<and>
        c \<notin> {''EntityNotFoundException'', ''AlreadyExistsException'', ''InvalidInputException''} \<and>
        (status = 429 \<or> (500 \<le> status \<and> status < 600)))"
  "case classify_service_error status c m of Api code _ \<Rightarrow> code \<in> {40401, 40902, 42201} | _ \<Rightarrow> True"
proof -
  note defs = classify_service_error_def Let_def GLUE_NOT_FOUND_def GLUE_ALREADY_EXISTS_def GLUE_INVALID_INPUT_def
    server_error_range_def
  show "case classify_service_error status c m of Api code _ \<Rightarrow> code \<in> {40401, 40902, 42201} | _ \<Rightarrow> True"
    by (simp add: defs)
  consider "c \<in> throttling_codes" | "c \<in> internal_codes" | "c \<in> access_codes"
    | "c \<notin> throttling_codes" "c \<notin> internal_codes" "c \<notin> access_codes" by blast
  then show "is_retryable (classify_service_error status c m) =
     (if c \<in> throttling_codes then True
      else if c \<in> internal_codes then status < 600
      else c \<notin> access_codes \<and>
        c \<notin> {''EntityNotFoundException'', ''AlreadyExistsException'', ''InvalidInputException''} \<and>
        (status = 429 \<or> (500 \<le> status \<and> status < 600)))"
  proof cases
    case 1
    then show ?thesis using named_codes(1) [OF 1] by (simp add: defs)
  next
    case 2
    then show ?thesis using named_codes [of c] by (auto simp: defs)
  next
    case 3
    then show ?thesis using named_codes [of c] by (auto simp: defs)
  next
    case 4
    then show ?thesis by (simp add: defs)
  qed
qed

text \<open>A registry in which a registered version is available from the third poll on.\<close>

definition demo_sdk :: "nat glue_sdk" where
  "demo_sdk =
     \<lparr>gk_get_schema_version = (\<lambda>s n. (Inr \<lparr>vo_version_id = Some s,
        vo_status = Some (if n < 2 then OtherStatus ''PENDING'' else Available), vo_data_format = None,
        vo_definition = None, vo_arn = None, vo_version_number = None\<rparr>, n + 1)),
      gk_get_schema_by_definition = (\<lambda>_ _ _ n. (Inl (ServiceError 400 (Some ''EntityNotFoundException'') None), n)),
      gk_register_schema_version = (\<lambda>_ _ _ n. (Inr (Some ''v''), n)),
      gk_create_schema = (\<lambda>_ _ _ _ n. (Inl (TimeoutError ''t''), n)),
      gk_get_registry = (\<lambda>_ n. (Inr (), n)), gk_sleep = (\<lambda>_ n. n),
      gk_parse_uuid = (\<lambda>s. if s = ''v'' then Inr 5 else Inl ''invalid''), gk_uuid_text = (\<lambda>_. ''v'')\<rparr>"

lemma demo_wait:
  "wait_for_available demo_sdk glue_client_from_config ''v'' 0 =
     (Inr \<lparr>vo_version_id = Some ''v'', vo_status = Some Available, vo_data_format = None, vo_definition = None,
        vo_arn = None, vo_version_number = None\<rparr>, 3)"
  by (simp add: wait_for_available_def glue_client_from_config_def glue_client_new_def DEFAULT_POLL_MAX_ATTEMPTS_def
      wait_loop.simps(2) demo_sdk_def eval_nat_numeral)

section \<open>Properties\<close>

text \<open>
  C19. A producer frames only with available versions. Whatever way a registration takes, a version
  it returns is one that the registry reported as \<open>AVAILABLE\<close>: when it was looked up by its
  definition, or in the last poll before the return.
\<close>

theorem glue_registration_available:
  assumes "gr_register_schema (aws_glue_registry sdk c) name sch fmt w = (Inr v, w')"
  shows "\<exists>s. parse_version_id sdk s = Inr v \<and>
    ((\<exists>out. gk_get_schema_by_definition sdk (gc_registry_name c) name sch w = (Inr out, w') \<and>
        vo_status out = Some Available \<and> vo_version_id out = Some s) \<or>
     (\<exists>w1 out. gk_get_schema_version sdk s w1 = (Inr out, w') \<and> vo_status out = Some Available))"
  using assms
  by (auto simp: aws_glue_registry_def aws_register_schema_def Let_def
      split: prod.splits sum.splits option.splits if_splits dest!: await_reported_Inr)

theorem glue_registration_available_witness:
  "\<exists>s w1 out. parse_version_id demo_sdk s = Inr (GlueVersionId 5) \<and>
    gk_get_schema_version demo_sdk s w1 = (Inr out, 3) \<and> vo_status out = Some Available"
proof -
  have lookup: "gk_get_schema_by_definition demo_sdk r n d w = (Inl (ServiceError 400 (Some ''EntityNotFoundException'') None), w)"
    for r n d w by (simp add: demo_sdk_def)
  have "gk_register_schema_version demo_sdk r n d w = (Inr (Some ''v''), w)" for r n d w by (simp add: demo_sdk_def)
  moreover have "parse_version_id demo_sdk ''v'' = Inr (GlueVersionId 5)"
    by (simp add: parse_version_id_def version_from_str_def demo_sdk_def)
  ultimately have "gr_register_schema (aws_glue_registry demo_sdk glue_client_from_config) ''orders'' ''{}'' GlueAvro 0 =
      (Inr (GlueVersionId 5), 3)"
    using demo_wait by (simp add: aws_glue_registry_def aws_register_schema_def Let_def lookup await_reported_def
        wait_and_parse_version_id_def io_bind_def)
  from glue_registration_available [OF this] show ?thesis by (auto simp: lookup)
qed

text \<open>
  Waiting ends. Waiting for a version makes at most the configured number of polls, with one
  sleep between two of them; it goes on exactly as long as the answers leave the status open,
  returns what the first other answer says, and an error when there is none.
\<close>

theorem glue_wait_bounded:
  "\<exists>k \<le> gc_poll_max_attempts c.
    (\<forall>j < k. verdict (fst (gk_get_schema_version sdk s (poll_at sdk c s w j))) = None) \<and>
    (if k = gc_poll_max_attempts c
     then fst (wait_for_available sdk c s w) = Inl (InvalidState (Glue (NotAvailableAfter (gc_poll_max_attempts c))))
     else \<exists>r. verdict (fst (gk_get_schema_version sdk s (poll_at sdk c s w k))) = Some r \<and>
       wait_for_available sdk c s w = (r, snd (gk_get_schema_version sdk s (poll_at sdk c s w k))))"
  unfolding wait_for_available_def by (rule wait_loop_polls) simp

theorem glue_wait_bounded_witness:
  "\<exists>k r. k \<le> 10 \<and> verdict (fst (gk_get_schema_version demo_sdk ''v''
      (poll_at demo_sdk glue_client_from_config ''v'' 0 k))) = Some r"
proof -
  have "gc_poll_max_attempts glue_client_from_config = 10"
    by (simp add: glue_client_from_config_def glue_client_new_def DEFAULT_POLL_MAX_ATTEMPTS_def)
  with glue_wait_bounded [of glue_client_from_config demo_sdk "''v''" 0] demo_wait show ?thesis
    by (auto split: if_splits)
qed

text \<open>
  Which errors of the SDK may be retried. Transport failures are, failures to build a request
  are not, and of the errors of the service exactly throttling and internal failures, or an
  unnamed error with the status of one; no synthetic code looks like a server error.
\<close>

theorem glue_error_classes:
  "is_retryable (map_sdk_error e) =
     (case e of
        ConstructionFailure _ \<Rightarrow> False
      | ServiceError status code _ \<Rightarrow>
          (case code of
             None \<Rightarrow> status = 429 \<or> (500 \<le> status \<and> status < 600)
           | Some c \<Rightarrow>
               if c \<in> throttling_codes then True
               else if c \<in> internal_codes then status < 600
               else c \<notin> access_codes \<and>
                 c \<notin> {''EntityNotFoundException'', ''AlreadyExistsException'', ''InvalidInputException''} \<and>
                 (status = 429 \<or> (500 \<le> status \<and> status < 600)))
      | _ \<Rightarrow> True) \<and>
   (case map_sdk_error e of Api code _ \<Rightarrow> code \<in> {40401, 40902, 42201} | _ \<Rightarrow> True)"
proof (cases e)
  case (ServiceError status code message)
  then show ?thesis using classify_cases [of status] by (cases code) (simp_all add: unnamed_code)
qed simp_all

end
