(* ===== verification/Debug_Output.thy ===== *)
theory Debug_Output
  imports Cached_Registry Confluent_Client Apicurio_Client Glue_Client Confluent_Encoder Decoder
    Avro_Codec Json_Codec Protobuf_Codec
begin

text \<open>
  What \<open>{:?}\<close> shows. Every hand-written \<open>Debug\<close> of the crate, as the calls it makes on the
  formatter: a structure with named fields, a string, a number. The formatter turns these
  into text without adding anything; the escapes of strings and the notation of
  durations are its own. Log lines contain these values, so the secrets a value holds must not
  be in them.
\<close>

section \<open>Formatter calls\<close>

datatype debug =
    DText string | DStr string | DNat nat | DBool bool | DDuration nat
  | DNone | DSome debug | DList "debug list"
  | DStruct string "(string \<times> debug) list"
  | DPartial string "(string \<times> debug) list"

text \<open>\<open>DStruct\<close> ends with \<open>finish\<close>, \<open>DPartial\<close> with \<open>finish_non_exhaustive\<close>; \<open>DText\<close> is written as it is.\<close>

fun dbg_option :: "('a \<Rightarrow> debug) \<Rightarrow> 'a option \<Rightarrow> debug" where
  "dbg_option f None = DNone"
| "dbg_option f (Some x) = DSome (f x)"

fun leaves :: "debug \<Rightarrow> debug list" where
  "leaves (DSome d) = leaves d"
| "leaves (DList ds) = concat (map leaves ds)"
| "leaves (DStruct _ fs) = concat (map (\<lambda>(_, d). leaves d) fs)"
| "leaves (DPartial _ fs) = concat (map (\<lambda>(_, d). leaves d) fs)"
| "leaves d = [d]"

section \<open>Values\<close>

fun dbg_schema_type :: "schema_type \<Rightarrow> debug" where
  "dbg_schema_type Avro = DText ''Avro''"
| "dbg_schema_type Protobuf = DText ''Protobuf''"
| "dbg_schema_type Json = DText ''Json''"

fun dbg_resolution :: "schema_resolution \<Rightarrow> debug" where
  "dbg_resolution AutoRegister = DText ''AutoRegister''"
| "dbg_resolution LookupOnly = DText ''LookupOnly''"
| "dbg_resolution UseLatestVersion = DText ''UseLatestVersion''"

fun dbg_framing :: "framing \<Rightarrow> debug" where
  "dbg_framing FramingSchemaId = DText ''SchemaId''"
| "dbg_framing FramingSchemaGuid = DText ''SchemaGuid''"

fun dbg_strategy :: "subject_strategy \<Rightarrow> debug" where
  "dbg_strategy TopicName = DText ''TopicName''"
| "dbg_strategy RecordName = DText ''RecordName''"
| "dbg_strategy TopicRecordName = DText ''TopicRecordName''"
| "dbg_strategy (ApicurioGroupRecordName group_id) = DStruct ''ApicurioGroupRecordName'' [(''group_id'', DStr group_id)]"
| "dbg_strategy (Custom _) = DText ''Custom(..)''"

definition dbg_schema_guid :: "(u128 \<Rightarrow> string) \<Rightarrow> schema_guid \<Rightarrow> debug" where
  "dbg_schema_guid uuid_text g = DText (''SchemaGuid('' @ uuid_text (as_uuid g) @ '')'')"

definition dbg_glue_version_id :: "(u128 \<Rightarrow> string) \<Rightarrow> glue_version_id \<Rightarrow> debug" where
  "dbg_glue_version_id uuid_text v = DText (''GlueSchemaVersionId('' @ uuid_text (version_uuid v) @ '')'')"

definition dbg_indexes :: "u32 list \<Rightarrow> debug" where
  "dbg_indexes ixs = DList (map (\<lambda>i. DNat (unat i)) ixs)"

section \<open>Caches and their wrappers\<close>

definition dbg_cache :: "('k, 'v) cache \<Rightarrow> debug" where
  "dbg_cache c =
     DStruct ''InMemoryCache''
       [(''len'', DNat (cache_len c)), (''max_entries'', dbg_option DNat (ca_max_entries c))]"

definition dbg_cached_registry :: "cached_registry \<Rightarrow> debug" where
  "dbg_cached_registry c =
     DStruct ''CachedSchemaRegistry'' [(''cache_len'', DNat (cache_len (cr_cache c))), (''cache'', dbg_cache (cr_cache c))]"

definition dbg_cached_glue_registry :: "glue_cache \<Rightarrow> debug" where
  "dbg_cached_glue_registry c =
     DStruct ''CachedGlueSchemaRegistry'' [(''cache_len'', DNat (cache_len c)), (''cache'', dbg_cache c)]"

section \<open>Clients and their builders\<close>

fun confluent_auth_desc :: "registry_auth \<Rightarrow> string" where
  "confluent_auth_desc NoAuth = ''none''"
| "confluent_auth_desc (Basic _ _) = ''basic(***)''"
| "confluent_auth_desc (Bearer _) = ''bearer(***)''"

definition dbg_confluent_client :: "confluent_client \<Rightarrow> debug" where
  "dbg_confluent_client c =
     DStruct ''ConfluentSchemaRegistry''
       [(''base_url'', DStr (cc_base_url c)), (''auth'', DStr (confluent_auth_desc (cc_auth c)))]"

definition dbg_confluent_builder :: "('c, 'i) confluent_builder \<Rightarrow> debug" where
  "dbg_confluent_builder b =
     DStruct ''ConfluentSchemaRegistryBuilder''
       [(''url'', dbg_option DStr (cb_url b)), (''auth'', DStr (confluent_auth_desc (cb_auth b))),
        (''request_timeout'', dbg_option DDuration (cb_request_timeout b)),
        (''connect_timeout'', dbg_option DDuration (cb_connect_timeout b)),
        (''normalize'', DBool (cb_normalize b)),
        (''root_certificates'', DNat (length (cb_root_certificates b))),
        (''identity'', DBool (cb_identity b \<noteq> None)),
        (''pool_max_idle_per_host'', dbg_option DNat (cb_pool_max_idle_per_host b))]"

fun apicurio_auth_desc :: "apicurio_auth \<Rightarrow> string" where
  "apicurio_auth_desc ApicurioNone = ''none''"
| "apicurio_auth_desc (ApicurioBasic _ _) = ''basic(***)''"
| "apicurio_auth_desc (ApicurioBearer _) = ''bearer(***)''"

definition dbg_apicurio_client :: "apicurio_client \<Rightarrow> debug" where
  "dbg_apicurio_client c =
     DStruct ''ApicurioSchemaRegistry''
       [(''base_url'', DStr (ac_base_url c)), (''auth'', DStr (apicurio_auth_desc (ac_auth c)))]"

definition dbg_apicurio_builder :: "('c, 'i) apicurio_builder \<Rightarrow> debug" where
  "dbg_apicurio_builder b =
     DStruct ''ApicurioSchemaRegistryBuilder''
       [(''url'', dbg_option DStr (ab_url b)), (''auth'', DStr (apicurio_auth_desc (ab_auth b))),
        (''request_timeout'', dbg_option DDuration (ab_request_timeout b)),
        (''connect_timeout'', dbg_option DDuration (ab_connect_timeout b)),
        (''root_certificates'', DNat (length (ab_root_certificates b))),
        (''identity'', DBool (ab_identity b \<noteq> None)),
        (''pool_max_idle_per_host'', dbg_option DNat (ab_pool_max_idle_per_host b)),
        (''dereference'', DBool (ab_dereference b))]"

definition dbg_glue_client :: "glue_client \<Rightarrow> debug" where
  "dbg_glue_client c =
     DStruct ''AwsGlueSchemaRegistry''
       [(''registry_name'', DStr (gc_registry_name c)), (''auto_register'', DBool (gc_auto_register c))]"

definition dbg_glue_builder :: "glue_client_builder \<Rightarrow> debug" where
  "dbg_glue_builder b =
     DPartial ''AwsGlueSchemaRegistryBuilder''
       [(''registry_name'', DStr (gb_registry_name b)), (''auto_register'', DBool (gb_auto_register b)),
        (''poll_max_attempts'', DNat (gb_poll_max_attempts b)), (''poll_interval'', DDuration (gb_poll_interval b))]"

definition dbg_wire_format_decoder :: "bool \<Rightarrow> 's wire_format_decoder \<Rightarrow> debug" where
  "dbg_wire_format_decoder glue d =
     DStruct ''WireFormatDecoder''
       ((''confluent'', DBool (wd_confluent d \<noteq> None)) # (if glue then [(''glue'', DBool (wd_glue d \<noteq> None))] else []))"

section \<open>Encoders, decoders and their builders\<close>

definition dbg_confluent_encoder :: "'s confluent_encoder \<Rightarrow> key_cache \<Rightarrow> debug" where
  "dbg_confluent_encoder en c =
     DStruct ''ConfluentSchemaEncoder''
       [(''schema_type'', dbg_schema_type (en_schema_type en)), (''strategy'', dbg_strategy (en_strategy en)),
        (''resolution'', dbg_resolution (en_resolution en)), (''framing'', dbg_framing (en_framing en)),
        (''cached_subjects'', DNat (cache_len c))]"

definition dbg_encoder_builder :: "'s encoder_builder \<Rightarrow> debug" where
  "dbg_encoder_builder b =
     DStruct ''ConfluentSchemaEncoderBuilder''
       [(''registry'', DBool (eb_registry b \<noteq> None)), (''schema_set'', DBool (eb_schema b \<noteq> None)),
        (''schema_type'', dbg_schema_type (eb_schema_type b)), (''strategy'', dbg_strategy (eb_strategy b)),
        (''references'', DNat (length (eb_references b))), (''protobuf_message_indexes'', dbg_indexes (eb_indexes b)),
        (''resolution'', dbg_resolution (eb_resolution b)), (''framing'', dbg_framing (eb_framing b))]"

definition dbg_avro_decoder :: "'s avro_decoder \<Rightarrow> avro_schema_cache \<Rightarrow> debug" where
  "dbg_avro_decoder d c =
     DPartial ''AvroSchemaDecoder''
       [(''has_reader_schema'', DBool (ad_reader d \<noteq> None)), (''cached_schemas'', DNat (cache_len c))]"

fun reader_dependencies_len :: "reader_dependencies \<Rightarrow> nat" where
  "reader_dependencies_len (DepsJson deps) = length deps"
| "reader_dependencies_len (DepsParsed deps) = length deps"

definition dbg_avro_decoder_builder :: "'s avro_decoder_builder \<Rightarrow> debug" where
  "dbg_avro_decoder_builder b =
     DStruct ''AvroSchemaDecoderBuilder''
       [(''registry'', DBool (adb_registry b \<noteq> None)), (''reader_schema_set'', DBool (adb_reader_schema b \<noteq> None)),
        (''reader_dependencies'', DNat (reader_dependencies_len (adb_reader_dependencies b))),
        (''max_cache_entries'', DNat (adb_max_entries b))]"

definition dbg_avro_encoder :: "'s avro_encoder \<Rightarrow> avro_key_cache \<Rightarrow> debug" where
  "dbg_avro_encoder en c =
     DPartial ''AvroSchemaEncoder''
       [(''schema_fullname'', dbg_option DStr (ae_fullname en)), (''strategy'', dbg_strategy (ae_strategy en)),
        (''references'', DNat (length (ae_references en))), (''resolution'', dbg_resolution (ae_resolution en)),
        (''framing'', dbg_framing (ae_framing en)), (''cached_subjects'', DNat (cache_len c))]"

definition dbg_avro_encoder_builder :: "'s avro_encoder_builder \<Rightarrow> debug" where
  "dbg_avro_encoder_builder b =
     DStruct ''AvroSchemaEncoderBuilder''
       [(''registry'', DBool (aeb_registry b \<noteq> None)), (''schema_set'', DBool (aeb_schema b \<noteq> None)),
        (''dependencies'', DNat (length (aeb_dependencies b))), (''strategy'', dbg_strategy (aeb_strategy b)),
        (''references'', DNat (length (aeb_references b))), (''resolution'', dbg_resolution (aeb_resolution b)),
        (''framing'', dbg_framing (aeb_framing b))]"

text \<open>The JSON encoder shows its registry, whose own \<open>Debug\<close> is the first argument.\<close>

definition dbg_json_encoder :: "('s registry \<Rightarrow> debug) \<Rightarrow> ('s, 'w) json_encoder \<Rightarrow> debug" where
  "dbg_json_encoder dbg_registry en =
     DPartial ''JsonSchemaEncoder''
       [(''registry'', dbg_registry (je_registry en)), (''record_name'', dbg_option DStr (je_record_name en)),
        (''strategy'', dbg_strategy (je_strategy en)), (''validate_on_encode'', DBool (je_validate_on_encode en)),
        (''resolution'', dbg_resolution (je_resolution en)), (''framing'', dbg_framing (je_framing en))]"

definition dbg_json_decoder :: "'s json_decoder \<Rightarrow> 'w validator_cache \<Rightarrow> debug" where
  "dbg_json_decoder d c =
     DPartial ''JsonSchemaDecoder''
       [(''validate_on_decode'', DBool (jd_validate_on_decode d)), (''cached_validators'', DNat (cache_len c))]"

definition dbg_json_encoder_builder :: "'s json_encoder_builder \<Rightarrow> debug" where
  "dbg_json_encoder_builder b =
     DStruct ''JsonSchemaEncoderBuilder''
       [(''registry'', DBool (jeb_registry b \<noteq> None)), (''schema_set'', DBool (jeb_schema b \<noteq> None)),
        (''dependencies'', DNat (length (jeb_dependencies b))), (''record_name'', dbg_option DStr (jeb_record_name b)),
        (''strategy'', dbg_strategy (jeb_strategy b)), (''references'', DNat (length (jeb_references b))),
        (''validate_on_encode'', DBool (jeb_validate_on_encode b)), (''resolution'', dbg_resolution (jeb_resolution b)),
        (''framing'', dbg_framing (jeb_framing b))]"

definition dbg_protobuf_encoder :: "'s protobuf_encoder \<Rightarrow> key_cache \<Rightarrow> debug" where
  "dbg_protobuf_encoder en c =
     DPartial ''ProtobufSchemaEncoder''
       [(''full_name'', DStr (pe_full_name en)), (''message_indexes'', dbg_indexes (pe_message_indexes en)),
        (''strategy'', dbg_strategy (pe_strategy en)), (''resolution'', dbg_resolution (pe_resolution en)),
        (''framing'', dbg_framing (pe_framing en)), (''cached_subjects'', DNat (cache_len c))]"

definition dbg_protobuf_encoder_builder :: "'s protobuf_encoder_builder \<Rightarrow> debug" where
  "dbg_protobuf_encoder_builder b =
     DStruct ''ProtobufSchemaEncoderBuilder''
       [(''registry'', DBool (peb_registry b \<noteq> None)), (''schema_set'', DBool (peb_schema b \<noteq> None)),
        (''descriptor'', dbg_option (\<lambda>d. DStr (md_full_name d)) (peb_descriptor b)),
        (''message_indexes'', dbg_option dbg_indexes (peb_message_indexes b)), (''strategy'', dbg_strategy (peb_strategy b)),
        (''resolution'', dbg_resolution (peb_resolution b)), (''framing'', dbg_framing (peb_framing b))]"

definition dbg_protobuf_decoder :: "'s protobuf_decoder \<Rightarrow> debug" where
  "dbg_protobuf_decoder d =
     DPartial ''ProtobufSchemaDecoder''
       [(''expected_indexes'', dbg_option dbg_indexes (pd_expected_indexes d)),
        (''expected_name'', dbg_option DStr (pd_expected_name d))]"

section \<open>Secrets\<close>

text \<open>Two values are alike but for their secrets when a change of credentials of the same kind, of
  certificates and of the contents of the identity leads from one to the other.\<close>

fun with_secrets :: "string \<Rightarrow> string \<Rightarrow> registry_auth \<Rightarrow> registry_auth" where
  "with_secrets u p NoAuth = NoAuth"
| "with_secrets u p (Basic _ _) = Basic u p"
| "with_secrets u p (Bearer _) = Bearer p"

fun with_apicurio_secrets :: "string \<Rightarrow> string \<Rightarrow> apicurio_auth \<Rightarrow> apicurio_auth" where
  "with_apicurio_secrets u p ApicurioNone = ApicurioNone"
| "with_apicurio_secrets u p (ApicurioBasic _ _) = ApicurioBasic u p"
| "with_apicurio_secrets u p (ApicurioBearer _) = ApicurioBearer p"

definition confluent_builder_alike where
  "confluent_builder_alike u p f g b =
     b\<lparr>cb_auth := with_secrets u p (cb_auth b), cb_root_certificates := map f (cb_root_certificates b),
       cb_identity := map_option g (cb_identity b)\<rparr>"

definition apicurio_builder_alike where
  "apicurio_builder_alike u p f g b =
     b\<lparr>ab_auth := with_apicurio_secrets u p (ab_auth b), ab_root_certificates := map f (ab_root_certificates b),
       ab_identity := map_option g (ab_identity b)\<rparr>"

lemma auth_desc_secrets [simp]: "confluent_auth_desc (with_secrets u p a) = confluent_auth_desc a"
  by (cases a) simp_all

lemma apicurio_auth_desc_secrets [simp]: "apicurio_auth_desc (with_apicurio_secrets u p a) = apicurio_auth_desc a"
  by (cases a) simp_all

lemma builders_alike:
  "dbg_confluent_builder (confluent_builder_alike u p f g b) = dbg_confluent_builder b"
  "dbg_apicurio_builder (apicurio_builder_alike u p f' g' b') = dbg_apicurio_builder b'"
  by (simp_all add: dbg_confluent_builder_def confluent_builder_alike_def
      dbg_apicurio_builder_def apicurio_builder_alike_def)

text \<open>The URL of a client was checked before it was normalised (Confluent) or after (Apicurio).\<close>

lemma confluent_client_url:
  assumes "confluent_build finish b = Inr c"
  shows "\<exists>url. cb_url b = Some url \<and> cc_base_url c = normalize_url url \<and>
    reject_embedded_credentials (cc_base_url c) = Inr () \<and> cc_auth c = cb_auth b"
  using assms reject_credentials_normalized
  by (cases "cb_url b"; auto simp: confluent_build_def split: if_splits sum.splits option.splits)

lemma apicurio_client_url:
  assumes "apicurio_build finish b = Inr c"
  shows "\<exists>url. ab_url b = Some url \<and> ac_base_url c = normalize_url url \<and>
    reject_embedded_credentials (ac_base_url c) = Inr () \<and> ac_auth c = ab_auth b"
  using assms by (cases "ab_url b"; auto simp: apicurio_build_def Let_def split: if_splits sum.splits option.splits)

text \<open>
  C40. Logged clients give no credentials away: what the builders and the clients made from them
  show is the same for every user name, password, token, certificate and client identity, and the
  base URL that a client shows has passed the check against embedded credentials.
\<close>

theorem debug_redacts_credentials:
  assumes "confluent_build finish b = Inr c" and "apicurio_build finish' b' = Inr c'"
  shows "(\<forall>u p f g f' g'. dbg_confluent_builder (confluent_builder_alike u p f g b) = dbg_confluent_builder b \<and>
      dbg_apicurio_builder (apicurio_builder_alike u p f' g' b') = dbg_apicurio_builder b') \<and>
    (\<forall>u p. dbg_confluent_client (c\<lparr>cc_auth := with_secrets u p (cb_auth b)\<rparr>) = dbg_confluent_client c \<and>
      dbg_apicurio_client (c'\<lparr>ac_auth := with_apicurio_secrets u p (ab_auth b')\<rparr>) = dbg_apicurio_client c') \<and>
    leaves (dbg_confluent_client c) =
      [DStr (cc_base_url c), DStr (confluent_auth_desc (cb_auth b))] \<and>
    leaves (dbg_apicurio_client c') =
      [DStr (ac_base_url c'), DStr (apicurio_auth_desc (ab_auth b'))] \<and>
    reject_embedded_credentials (cc_base_url c) = Inr () \<and> reject_embedded_credentials (ac_base_url c') = Inr ()"
  using confluent_client_url [OF assms(1)] apicurio_client_url [OF assms(2)]
  by (auto simp: builders_alike dbg_confluent_client_def dbg_apicurio_client_def)

theorem debug_redacts_credentials_witness:
  "\<exists>c. confluent_build (\<lambda>_. Inr ())
      (confluent_basic_auth ''u'' ''p'' (confluent_builder_default\<lparr>cb_url := Some ''https://h/''\<rparr>) :: (unit, unit) confluent_builder) = Inr c \<and>
    leaves (dbg_confluent_client c) = [DStr ''https://h'', DStr ''basic(***)'']"
proof -
  let ?b = "confluent_basic_auth ''u'' ''p'' (confluent_builder_default\<lparr>cb_url := Some ''https://h/''\<rparr>) :: (unit, unit) confluent_builder"
  let ?b' = "apicurio_builder_default\<lparr>ab_url := Some ''https://h/''\<rparr>"
  have ok: "reject_embedded_credentials ''https://h/'' = Inr ()" "reject_embedded_credentials ''https://h'' = Inr ()"
    "normalize_url ''https://h/'' = ''https://h''"
    by (code_simp)+
  obtain c where c: "confluent_build (\<lambda>_. Inr ()) ?b = Inr c" and url: "cc_base_url c = ''https://h''"
    by (auto simp: confluent_build_def ok confluent_basic_auth_def confluent_builder_default_def starts_with_def with_config_def)
  obtain c' where c': "apicurio_build (\<lambda>_. Inr ()) ?b' = Inr c'"
    by (auto simp: apicurio_build_def ok apicurio_builder_default_def starts_with_def with_config_def)
  have "leaves (dbg_confluent_client c) = [DStr ''https://h'', DStr ''basic(***)'']"
    using debug_redacts_credentials [OF c c'] url by (simp add: confluent_basic_auth_def)
  with c show ?thesis by (intro exI conjI)
qed

text \<open>A builder shows its URL as it was given: credentials in it, which \<open>build\<close> rejects, are shown.\<close>

theorem builder_debug_shows_url:
  "DSome (DStr ''https://u:p@h'') \<in> snd ` set (case dbg_confluent_builder
     (confluent_builder_default\<lparr>cb_url := Some ''https://u:p@h''\<rparr>) of DStruct _ fs \<Rightarrow> fs) \<and>
   confluent_build finish (confluent_builder_default\<lparr>cb_url := Some ''https://u:p@h''\<rparr>) =
     Inl (Config (Http_Msg EmbeddedCredentials))"
proof -
  have "reject_embedded_credentials ''https://u:p@h'' = Inl (Config (Http_Msg EmbeddedCredentials))"
    by code_simp
  then show ?thesis by (simp add: dbg_confluent_builder_def confluent_build_def)
qed

end
