(* ===== verification/Pipelines.thy ===== *)
theory Pipelines
  imports Avro_Codec Cached_Registry Confluent_Client Confluent_Encoder Decoder
begin

text \<open>
  The components put together: a producer that registers its schema with a Confluent registry,
  a consumer that decodes through a cache over that registry, and an Avro producer and consumer
  with dependencies. What the registry answers is described by its content; what the
  crate adds to it is what is proved here.
\<close>

section \<open>A Confluent registry and its content\<close>

text \<open>
  The content of a registry: type, text and references of the schema behind an identifier, fixed
  for ever. A truthful server describes, in every response, the schema of the identifiers it
  was asked for and of those it names, and answers a registration, when it is not to normalise
  the text, with an identifier of the schema that was sent.
\<close>

type_synonym content = "schema_key \<Rightarrow> (schema_type \<times> string \<times> schema_reference list) option"

definition describes :: "content \<Rightarrow> schema_key \<Rightarrow> schema \<Rightarrow> bool" where
  "describes S key x \<longleftrightarrow> S key = Some (sch_type x, sch_text x, sch_references x)"

definition id_response_true :: "content \<Rightarrow> schema_key \<Rightarrow> schema_by_id_response \<Rightarrow> bool" where
  "id_response_true S key body \<longleftrightarrow>
     (\<forall>ty. schema_type_from_str (bi_schema_type body) = Inr ty \<longrightarrow>
        (\<forall>k \<in> insert key (Guid ` set_option (bi_guid body)).
           S k = Some (ty, bi_schema body, parse_references (bi_references body))))"

definition subject_response_true :: "content \<Rightarrow> schema_by_subject_response \<Rightarrow> bool" where
  "subject_response_true S body \<longleftrightarrow>
     (\<forall>ty. schema_type_from_str (bs_schema_type body) = Inr ty \<longrightarrow>
        (\<forall>k \<in> insert (Id (bs_id body)) (Guid ` set_option (bs_guid body)).
           S k = Some (ty, bs_schema body, parse_references (bs_references body))))"

definition answers :: "('w, 'a) io \<Rightarrow> ('a \<Rightarrow> bool) \<Rightarrow> bool" where
  "answers m P \<longleftrightarrow> (\<forall>w a w'. m w = (Inr a, w') \<longrightarrow> P a)"

lemma answersD: "answers m P \<Longrightarrow> m w = (Inr a, w') \<Longrightarrow> P a"
  unfolding answers_def by blast

definition truthful :: "content \<Rightarrow> 'w confluent_env \<Rightarrow> confluent_client \<Rightarrow> bool" where
  "truthful S env c \<longleftrightarrow>
     (\<forall>i. answers (http_get env c (ce_id_response env) (cc_base_url c @ ''/schemas/ids/'' @ dec_nat (unat (as_u32 i))))
        (id_response_true S (Id i))) \<and>
     (\<forall>g. answers (http_get env c (ce_id_response env) (cc_base_url c @ ''/schemas/guids/'' @ ce_uuid env (as_uuid g)))
        (id_response_true S (Guid g))) \<and>
     (\<forall>url. answers (http_get env c (ce_subject_response env) url) (subject_response_true S)) \<and>
     (\<forall>url body. answers (http_post env c (ce_subject_response env) url body) (subject_response_true S)) \<and>
     (\<forall>subject sch ty links body. ce_register_body env (request_of sch ty links) = Inr body \<longrightarrow>
        answers (http_post env c (ce_register_response env) (subject_url env c subject @ ''/versions'') body)
          (\<lambda>i. S (Id i) = Some (ty, sch, links)))"

lemma schema_from_id_response_true:
  assumes "schema_from_id_response body i guid = Inr x" "id_response_true S key body"
    and "key = (case guid of Some g \<Rightarrow> Guid g | None \<Rightarrow> Id (the i))" "i = None \<longleftrightarrow> guid \<noteq> None"
  shows "describes S key x \<and> reports_truly (describes S) x"
  using assms
  by (auto simp: schema_from_id_response_def id_response_true_def reports_truly_def describes_def
      split: option.splits)

lemma schema_from_subject_response_true:
  "schema_from_subject_response body = Inr x \<Longrightarrow> subject_response_true S body \<Longrightarrow> reports_truly (describes S) x"
  by (auto simp: schema_from_subject_response_def subject_response_true_def reports_truly_def describes_def)

lemma truthfulD:
  assumes "truthful S env c"
  shows "answers (http_get env c (ce_id_response env) (cc_base_url c @ ''/schemas/ids/'' @ dec_nat (unat (as_u32 i))))
      (id_response_true S (Id i))"
    and "answers (http_get env c (ce_id_response env) (cc_base_url c @ ''/schemas/guids/'' @ ce_uuid env (as_uuid g)))
      (id_response_true S (Guid g))"
    and "answers (http_get env c (ce_subject_response env) url) (subject_response_true S)"
    and "answers (http_post env c (ce_subject_response env) url body) (subject_response_true S)"
    and "ce_register_body env (request_of sch ty links) = Inr body \<Longrightarrow>
      answers (http_post env c (ce_register_response env) (subject_url env c subject @ ''/versions'') body)
        (\<lambda>i. S (Id i) = Some (ty, sch, links))"
  using assms by (simp_all add: truthful_def)

lemma confluent_by_key:
  assumes "truthful S env c" "get_schema_by_key (confluent_registry env c) key w = (Inr x, w')"
  shows "describes S key x \<and> reports_truly (describes S) x"
proof (cases key)
  case (Id i)
  with assms(2) obtain body where
    "http_get env c (ce_id_response env) (cc_base_url c @ ''/schemas/ids/'' @ dec_nat (unat (as_u32 i))) w = (Inr body, w')"
    "schema_from_id_response body (Some i) None = Inr x"
    by (auto simp: get_schema_by_key_def confluent_registry_def confluent_get_schema_by_id_def io_bind_Inr_iff)
  with Id show ?thesis
    using schema_from_id_response_true [of body "Some i" None x S key] answersD [OF truthfulD(1) [OF assms(1)]] by simp
next
  case (Guid g)
  with assms(2) obtain body where
    "http_get env c (ce_id_response env) (cc_base_url c @ ''/schemas/guids/'' @ ce_uuid env (as_uuid g)) w = (Inr body, w')"
    "schema_from_id_response body None (Some g) = Inr x"
    by (auto simp: get_schema_by_key_def confluent_registry_def confluent_get_schema_by_guid_def io_bind_Inr_iff)
  with Guid show ?thesis
    using schema_from_id_response_true [of body None "Some g" x S key] answersD [OF truthfulD(2) [OF assms(1)]] by simp
qed

lemma confluent_subject_response:
  assumes "truthful S env c" "io_bind (checked_subject env subject) (\<lambda>_.
      io_bind (http_get env c (ce_subject_response env) url) (\<lambda>body. io_lift (schema_from_subject_response body))) w = (Inr x, w')"
  shows "reports_truly (describes S) x"
proof -
  from assms(2) obtain w1 body w2 where "http_get env c (ce_subject_response env) url w1 = (Inr body, w2)"
    "schema_from_subject_response body = Inr x"
    by (auto simp: io_bind_Inr_iff)
  with answersD [OF truthfulD(3) [OF assms(1)]] schema_from_subject_response_true show ?thesis by blast
qed

lemma confluent_lookup_response:
  assumes "truthful S env c" "rg_lookup_schema (confluent_registry env c) subject sch ty links w = (Inr (Some x), w')"
  shows "reports_truly (describes S) x"
proof -
  let ?url = "subject_url env c subject @ (if cc_normalize c then ''?normalize=true'' else [])"
  from assms(2) obtain body w1 where
    post: "(case http_post env c (ce_subject_response env) ?url body w1 of
       (Inr found, w') \<Rightarrow> (res_bind (schema_from_subject_response found) (\<lambda>x. Inr (Some x)), w')
     | (Inl e, w') \<Rightarrow> (if is_not_found e then Inr None else Inl e, w')) = (Inr (Some x), w')"
    unfolding confluent_registry_def confluent_lookup_schema_def by (simp add: io_bind_Inr_iff) blast
  then obtain found w2 where "http_post env c (ce_subject_response env) ?url body w1 = (Inr found, w2)"
    "schema_from_subject_response found = Inr x"
    by (cases "http_post env c (ce_subject_response env) ?url body w1") (auto split: sum.splits if_splits)
  with answersD [OF truthfulD(4) [OF assms(1)]] schema_from_subject_response_true show ?thesis by blast
qed

lemma confluent_sound:
  assumes "truthful S env c" shows "sound_registry (describes S) (confluent_registry env c)"
proof -
  have "answers_truly (describes S) (rg_get_latest_schema (confluent_registry env c) subject)"
    "answers_truly (describes S) (rg_get_schema_by_version (confluent_registry env c) subject v)" for subject v
    using confluent_subject_response [OF assms]
    by (auto simp: answers_truly_def confluent_registry_def confluent_get_latest_schema_def
        confluent_get_schema_by_version_def)
  then show ?thesis
    using confluent_by_key [OF assms] confluent_lookup_response [OF assms]
    unfolding sound_registry_def answers_truly_def by blast
qed

text \<open>A registration that is not to be normalised gives an identifier of the schema that was sent.\<close>

lemma confluent_register_means:
  assumes "truthful S env c" "\<not> cc_normalize c"
    and "rg_register_schema (confluent_registry env c) subject sch ty links w = (Inr i, w')"
  shows "S (Id i) = Some (ty, sch, links)"
  using assms(2,3) answersD [OF truthfulD(5) [OF assms(1)]]
  by (auto simp: confluent_registry_def confluent_register_schema_def io_bind_Inr_iff serialised_def split: sum.splits)

section \<open>Frames of the encoder\<close>

lemma decode_own_frame:
  assumes "wd_confluent d = Some rg" "length (en_indexes en) \<le> 512"
    and "get_schema_by_key rg key t = (Inr x, t')" "sch_type x = en_schema_type en"
  shows "decode glue z d (frame en key payload) t =
    (Inr \<lparr>dm_format = format_of_type (sch_type x), dm_payload = payload, dm_metadata = Some (ConfluentMeta x),
       dm_indexes = (if sch_type x = Protobuf
         then Some (if en_indexes en = [] then [0] else en_indexes en) else None)\<rparr>, t')"
proof (cases "sch_type x = Protobuf")
  case True
  have "frame en key payload = encode_wire_format key (put_message_indexes [] (en_indexes en) @ payload)"
    using True assms(4) by (simp add: frame_def encode_wire_format_def encode_protobuf_wire_format_def
        put_message_indexes_eq [of "put_prefix [] key"])
  then show ?thesis
    using True decode_of_frame [OF assms(1,3), of glue z "put_message_indexes [] (en_indexes en) @ payload"]
      mi.dec_enc [OF assms(2), of payload]
    by simp
next
  case False
  then have "frame en key payload = encode_wire_format key payload" using assms(4) by (simp add: frame_def)
  then show ?thesis using False decode_of_frame [OF assms(1,3), of glue z payload] by simp
qed

lemma frame_prefix: "\<exists>rest. frame en key payload = encode_wire_format key rest"
  by (auto simp: frame_def encode_wire_format_def encode_protobuf_wire_format_def
      put_message_indexes_eq [of "put_prefix [] key"])

lemma decode_frame_lookup_fails:
  assumes "wd_confluent d = Some rg" "get_schema_by_key rg key t = (Inl e, t')"
  shows "decode glue z d (frame en key payload) t = (Inl e, t')"
proof -
  obtain rest where "frame en key payload = encode_wire_format key rest" using frame_prefix by blast
  then show ?thesis using assms by (simp add: decode_def detect_confluent_frame decode_confluent_def io_bind_def Let_def)
qed

section \<open>Producing through the client\<close>

lemma auto_register_means:
  assumes "truthful S env c" "\<not> cc_normalize c"
    and "resolve_schema_key (confluent_registry env c) AutoRegister f subject sch ty links s = (Inr key, t)"
  shows "S key = Some (ty, sch, links)"
  using assms(3)
proof (cases rule: resolve_InrE)
  case (Direct r)
  then obtain i where "rg_register_schema (confluent_registry env c) subject sch ty links s = (Inr i, t)"
    "r = \<lparr>ri_id = Some i, ri_guid = None\<rparr>"
    by (auto simp: resolve_identity_def io_bind_Inr_iff)
  with Direct(2) confluent_register_means [OF assms(1,2)] show ?thesis
    by (auto simp: select_Inr split: schema_key.splits)
next
  case (By_Id r i x s')
  then have "rg_register_schema (confluent_registry env c) subject sch ty links s = (Inr i, s')"
    by (auto simp: resolve_identity_def io_bind_Inr_iff)
  with confluent_register_means [OF assms(1,2)] have "S (Id i) = Some (ty, sch, links)" by blast
  with By_Id confluent_by_key [OF assms(1), of "Id i" s' x t] show ?thesis
    by (auto simp: get_schema_by_key_def describes_def reports_truly_def)
qed

definition keys_true :: "content \<Rightarrow> 's confluent_encoder \<Rightarrow> key_cache \<Rightarrow> bool" where
  "keys_true S en kc \<longleftrightarrow>
     cache_idle kc \<and> (\<forall>subject key. cache_get kc subject = Some key \<longrightarrow>
       S key = Some (en_schema_type en, en_schema en, en_references en))"

lemma keys_true_build: "build b = Inr (en, kc) \<Longrightarrow> keys_true S en kc"
  by (drule build_idle) (simp add: keys_true_def)

lemma resolve_key_true:
  assumes "truthful S env c" "\<not> cc_normalize c" "en_registry en = confluent_registry env c" "en_resolution en = AutoRegister"
    and "keys_true S en kc" "resolve_key en subject (kc, s) = (Inr key, (kc', s'))"
  shows "keys_true S en kc' \<and> cache_get kc' subject = Some key \<and>
    S key = Some (en_schema_type en, en_schema en, en_references en)"
  using fc.entry [where P = "\<lambda>_ key. S key = Some (en_schema_type en, en_schema en, en_references en)",
      OF _ _ _ assms(6) [unfolded resolve_key_def]]
    auto_register_means [OF assms(1,2)] assms(3-5)
  by (simp add: keys_true_def)

text \<open>A registry whose identifiers all name one schema, with the text \<open>s\<close>; the world counts requests.\<close>

definition one_content :: content where "one_content = (\<lambda>_. Some (Avro, ''s'', []))"

definition demo_answer :: "http_request \<Rightarrow> nat \<Rightarrow> (string + raw_response) \<times> nat" where
  "demo_answer rq n =
     (Inr \<lparr>rr_status = 200, rr_headers = [(''content-type'', Some ''application/json'')], rr_content_length = None,
           rr_chunks = []\<rparr>, n + 1)"

definition demo_stack_env :: "nat confluent_env" where
  "demo_stack_env =
     demo_confluent_env\<lparr>ce_http := (ce_http demo_confluent_env)\<lparr>he_send := demo_answer\<rparr>,
       ce_register_body := (\<lambda>rq. if rq = request_of ''s'' Avro [] then Inr [] else Inl ''no''),
       ce_register_response := (\<lambda>_. Inr (SchemaId 7))\<rparr>"

lemma handle_response_parsed: "handle_response env p status ct body = Inr a \<Longrightarrow> p body = Inr a"
  by (auto simp: handle_response_def split: option.splits sum.splits if_splits)

lemma answers_parsed:
  "(\<And>b a. p b = Inr a \<Longrightarrow> P a) \<Longrightarrow> answers (http_get env c p url) P"
  "(\<And>b a. p b = Inr a \<Longrightarrow> P a) \<Longrightarrow> answers (http_post env c p url body) P"
  by (auto simp: answers_def http_get_def http_post_def io_bind_Inr_iff dest!: handle_response_parsed)

lemma demo_truthful: "truthful one_content demo_stack_env c"
proof -
  have "id_response_true one_content k body" if "ce_id_response demo_stack_env b = Inr body" for k b body
    using that by (simp add: demo_stack_env_def demo_confluent_env_def id_response_true_def one_content_def
        schema_type_from_str_iff [of _ Avro] parse_references_def) (auto simp: schema_type_from_str_def)
  moreover have "ce_subject_response demo_stack_env b \<noteq> Inr body" for b body
    by (simp add: demo_stack_env_def demo_confluent_env_def)
  moreover have "one_content (Id i) = Some (ty, sch, links)"
    if "ce_register_body demo_stack_env (request_of sch ty links) = Inr body" for i ty sch links body
    using that by (cases ty) (simp_all add: demo_stack_env_def one_content_def request_of_def split: if_splits)
  ultimately show ?thesis
    unfolding truthful_def by (intro conjI allI impI answers_parsed) (blast | simp)+
qed

lemma json_ct: "str_contains ''json'' (str_trim ''application/json'')"
  by code_simp

lemma demo_call:
  "http_get demo_stack_env demo_confluent_client p url w =
     (case p [] of Inl e \<Rightarrow> Inl (InvalidState (Http_Msg (ResponseParseFailed e))) | Inr a \<Rightarrow> Inr a, w + 1)"
  "http_post demo_stack_env demo_confluent_client p url [] w =
     (case p [] of Inl e \<Rightarrow> Inl (InvalidState (Http_Msg (ResponseParseFailed e))) | Inr a \<Rightarrow> Inr a, w + 1)"
  by (simp_all add: http_get_def http_post_def call_def request_def request_loop.simps [where attempt = 0] request_once_def
      io_bind_def demo_stack_env_def demo_confluent_env_def demo_confluent_client_def demo_answer_def receive_response_def
      header_get_def collect_headers_def handle_response_def is_retryable_status_def MAX_BODY_BYTES_def
      auth_header_value_def content_type_of_def json_ct split: sum.split)

lemma demo_bodies:
  "ce_register_body demo_stack_env (request_of ''s'' Avro []) = Inr []"
  "ce_register_response demo_stack_env b = Inr (SchemaId 7)"
  by (simp_all add: demo_stack_env_def)

lemma demo_lookup:
  "\<exists>x. get_schema_by_key (confluent_registry demo_stack_env demo_confluent_client) key w = (Inr x, w + 1)"
proof -
  have "schema_type_from_str ''AVRO'' = Inr Avro" by (simp add: schema_type_from_str_def)
  then show ?thesis
    by (cases key) (simp_all add: get_schema_by_key_def confluent_registry_def confluent_get_schema_by_id_def
        confluent_get_schema_by_guid_def io_bind_def demo_call schema_from_id_response_def,
      simp_all add: demo_stack_env_def demo_confluent_env_def)
qed

lemma demo_cached_lookup:
  "\<exists>x t. get_schema_by_key (cached_client (\<lambda>c. c) (confluent_registry demo_stack_env demo_confluent_client)) key
     (with_max_entries 1, w) = (Inr x, t)"
  using demo_lookup [of key w]
  by (cases key) (auto simp: get_schema_by_key_def cached_client_def cached_get_schema_by_id_def cached_get_schema_by_guid_def
      with_max_entries_def cache_new_def get_or_fetch_def cache_get_def join_or_lead_def take_in_flight_def
      store_fetched_def Let_def)

definition demo_producer :: "nat confluent_encoder" where
  "demo_producer =
     \<lparr>en_registry = confluent_registry demo_stack_env demo_confluent_client, en_schema = ''s'', en_schema_type = Avro,
      en_strategy = TopicName, en_references = [], en_indexes = [], en_resolution = AutoRegister,
      en_framing = FramingSchemaId\<rparr>"

lemma demo_produce:
  "\<exists>framed kc. Confluent_Encoder.encode demo_producer [9] ''orders'' None Value (cache_new (Some 1), 0) = (Inr framed, (kc, 1))"
proof -
  have "checked_subject demo_stack_env ''orders-value'' = io_return ()"
    by (simp add: checked_subject_def demo_stack_env_def demo_confluent_env_def validate_subject_iff no_dot_segments_iff
        is_slash_def fun_eq_iff)
  then have "resolve_schema_key (en_registry demo_producer) AutoRegister FramingSchemaId ''orders-value'' ''s'' Avro [] 0 =
      (Inr (Id (SchemaId 7)), 1)"
    by (simp add: demo_producer_def resolve_schema_key_def resolve_identity_def learn_guid_def confluent_registry_def
        confluent_register_schema_def io_bind_def serialised_def demo_call demo_bodies)
  from get_or_fetch_ok [where mk = subject_resolution_cancelled and c = "cache_new (Some 1)" and key = "''orders-value''" and
      fetch = "resolve_schema_key (en_registry demo_producer) AutoRegister FramingSchemaId ''orders-value'' ''s'' Avro []",
      OF idle_new _ this]
  show ?thesis
    by (simp add: Confluent_Encoder.encode_def subject_for_def resolve_key_def io_bind_def)
      (simp add: demo_producer_def cache_new_def cache_get_def io_bind_def)
qed

section \<open>Avro, from builder to builder\<close>

lemma avro_encoder_build_Inr:
  assumes "avro_encoder_build api b = Inr (en, kc)"
  shows "resolved_parse api (ae_schema_str en) (aeb_dependencies b) WriterLocal = Some (Inr (ae_avro en))"
    and "cache_idle kc" and "avro_entries en kc"
proof -
  from assms obtain sch where r: "aeb_schema b = Some sch" "ae_schema_str en = sch"
      "the (resolved_parse api sch (aeb_dependencies b) WriterLocal) = Inr (ae_avro en)"
      "kc = cache_new (Some (max (aeb_max_entries b) 1))"
    by (auto simp: avro_encoder_build_def)
  then show "resolved_parse api (ae_schema_str en) (aeb_dependencies b) WriterLocal = Some (Inr (ae_avro en))"
    using resolved_parse_cases [of api sch "aeb_dependencies b" WriterLocal] by (auto split: option.splits)
  show "cache_idle kc" using r(4) by (simp add: idle_new)
  show "avro_entries en kc" using r(4) by (simp add: avro_entries_def cache_new_def cache_get_def)
qed

lemma avro_decoder_build_Inr:
  "avro_decoder_build api b = Inr (d, dc) \<Longrightarrow> adb_reader_schema b = None \<Longrightarrow>
     ad_reader d = None \<and> cache_idle dc \<and> cache_get dc key = None"
  by (auto simp: avro_decoder_build_def idle_new split: if_splits) (simp add: cache_new_def cache_get_def)

section \<open>Properties\<close>

text \<open>
  C2. Avro from producer to consumer, with dependencies. A producer is built from a schema and the
  schemas it needs, and serialises a value; a consumer is built without a schema of its own. When
  the consumer's registry has the producer's text under the identifier of the frame, and its
  closure of the references gives the producer's dependencies, the consumer resolves the same
  schema as the producer and decodes the value, if the codec reads back what it writes.
\<close>

theorem avro_end_to_end:
  assumes "avro_encoder_build api b = Inr (en, kc)" "avro_encode api en v topic target (kc, p) = (Inr framed, (kc', p'))"
    and "avro_decoder_build api db = Inr (d, dc)" "adb_reader_schema db = None"
    and "\<forall>r u raw. avro_serialize api r u = Inr raw \<longrightarrow> avro_deserialize api r raw None = Inr u"
  shows "\<exists>subject key. subject_name (ae_strategy en) topic (ae_fullname en) target = Inr subject \<and>
    avro_cached_schema_key kc' subject = Some key \<and>
    (\<forall>t x t1 visited t2. get_schema_by_key (ad_registry d) key t = (Inr x, t1) \<longrightarrow> sch_text x = ae_schema_str en \<longrightarrow>
       avro_closure (ad_registry d) (sch_references x) 0 ([], []) t1 = (Inr (visited, aeb_dependencies b), t2) \<longrightarrow>
       (\<exists>dc'. avro_decode api d framed (dc, t) = (Inr v, (dc', t2))))"
proof -
  note en = avro_encoder_build_Inr [OF assms(1)]
  from assms(2) obtain subject entry raw where r:
    "subject_name (ae_strategy en) topic (ae_fullname en) target = Inr subject"
    "avro_resolve_subject en subject (kc, p) = (Inr entry, (kc', p'))"
    "avro_serialize api (snd entry) v = Inr raw" "framed = encode_wire_format (fst entry) raw"
    by (auto simp: avro_encode_def io_bind_Inr_iff)
  note e = avro_resolve_entry [OF en(2,3) r(2)]
  have "\<exists>dc'. avro_decode api d framed (dc, t) = (Inr v, (dc', t2))"
    if "get_schema_by_key (ad_registry d) (fst entry) t = (Inr x, t1)" "sch_text x = ae_schema_str en"
      "avro_closure (ad_registry d) (sch_references x) 0 ([], []) t1 = (Inr (visited, aeb_dependencies b), t2)"
    for t x t1 visited t2
  proof -
    note dec = avro_decoder_build_Inr [OF assms(3,4)]
    have "fetch_avro_schema api (ad_registry d) (fst entry) t = (Inr (ae_avro en), t2)"
      using that resolved_parse_role [OF en(1), of WriterRegistry] by (simp add: fetch_avro_schema_def io_bind_def)
    from get_or_fetch_ok [where mk = avro_schema_lookup_cancelled and fetch = "fetch_avro_schema api (ad_registry d) (fst entry)",
        OF _ _ this] dec
    obtain dc' where "get_avro_schema api d (fst entry) (dc, t) = (Inr (ae_avro en), (dc', t2))"
      by (auto simp: get_avro_schema_def)
    with r(3,4) e dec assms(5) show ?thesis by (simp add: avro_decode_frame)
  qed
  with r(1) e show ?thesis
    by (intro exI [of _ subject] exI [of _ "fst entry"]) (simp add: avro_cached_schema_key_def)
qed

text \<open>A producer whose schema is given with the schema it refers to, and a registry that has both.\<close>

definition customer_registry :: "nat registry" where
  "customer_registry =
     trait_defaults (\<lambda>_ n. (Inr (with_references [ref_to ''address''] (schema_new (Id (SchemaId 1)) Avro ''customer'')), n + 1))
       (\<lambda>_. not_supported []) (\<lambda>_ _ n. (Inr (schema_new (Id (SchemaId 2)) Avro ''address''), n + 1))
       (\<lambda>_ _ _ _. io_return (SchemaId 1))"

definition customer_builder :: "nat avro_encoder_builder" where
  "customer_builder =
     avro_encoder_set_dependencies [''address'']
       (avro_encoder_set_schema ''customer'' (avro_encoder_set_registry customer_registry avro_encoder_builder_new))"

definition customer_schema :: resolved_avro where
  "customer_schema = projr (the (resolved_parse demo_avro ''customer'' [''address''] WriterLocal))"

lemma customer_parsed: "resolved_parse demo_avro ''customer'' [''address''] role = Some (Inr customer_schema)"
proof (rule resolved_parse_role)
  show "resolved_parse demo_avro ''customer'' [''address''] WriterLocal = Some (Inr customer_schema)"
    by code_simp
qed

definition customer_encoder :: "nat avro_encoder" where
  "customer_encoder =
     \<lparr>ae_registry = customer_registry, ae_schema_str = ''customer'', ae_avro = customer_schema,
      ae_fullname = resolved_fullname demo_avro customer_schema, ae_strategy = TopicName, ae_references = [],
      ae_resolution = AutoRegister, ae_framing = FramingSchemaId\<rparr>"

lemma customer_build: "avro_encoder_build demo_avro customer_builder = Inr (customer_encoder, cache_new (Some 1000))"
  by (simp add: avro_encoder_build_def customer_builder_def avro_encoder_set_dependencies_def avro_encoder_set_schema_def
      avro_encoder_set_registry_def avro_encoder_builder_new_def customer_parsed customer_encoder_def
      DEFAULT_MAX_SUBJECT_CACHE_ENTRIES_def)

lemma customer_decoder:
  "avro_decoder_build demo_avro (avro_decoder_set_registry customer_registry avro_decoder_builder_new) =
     Inr (\<lparr>ad_registry = customer_registry, ad_reader = None\<rparr>, cache_new (Some 1000))"
  by (simp add: avro_decoder_build_def avro_decoder_set_registry_def avro_decoder_builder_new_def
      DEFAULT_MAX_AVRO_SCHEMA_CACHE_ENTRIES_def)

lemma customer_encode:
  "\<exists>framed kc. avro_encode demo_avro customer_encoder 5 ''orders'' Value (cache_new (Some 1000), 0) = (Inr framed, (kc, 0)) \<and>
     avro_cached_schema_key kc ''orders-value'' = Some (Id (SchemaId 1))"
proof -
  let ?fetch = "io_bind (resolve_schema_key customer_registry AutoRegister FramingSchemaId ''orders-value'' ''customer'' Avro [])
      (\<lambda>key. io_return (key, customer_schema))"
  have "?fetch 0 = (Inr (Id (SchemaId 1), customer_schema), 0)"
    by (simp add: resolve_schema_key_def resolve_identity_def learn_guid_def io_bind_def customer_registry_def
        trait_defaults_def)
  from get_or_fetch_ok [where mk = subject_resolution_cancelled and c = "cache_new (Some 1000)" and fetch = ?fetch
      and key = "''orders-value''", OF idle_new _ this]
  obtain kc where k: "avro_resolve_subject customer_encoder ''orders-value'' (cache_new (Some 1000), 0) =
      (Inr (Id (SchemaId 1), customer_schema), (kc, 0))"
    by (simp add: avro_resolve_subject_def customer_encoder_def cache_new_def cache_get_def)
  then have "avro_cached_schema_key kc ''orders-value'' = Some (Id (SchemaId 1))"
    using avro_resolve_entry [OF avro_encoder_build_Inr(2,3) [OF customer_build] k] by (simp add: avro_cached_schema_key_def)
  moreover have "avro_serialize demo_avro customer_schema 5 = Inr [5]" by (simp add: avro_serialize_def demo_avro_def)
  moreover have "subject_name (ae_strategy customer_encoder) ''orders'' (ae_fullname customer_encoder) Value = Inr ''orders-value''"
    by (simp add: customer_encoder_def)
  ultimately show ?thesis using k by (simp add: avro_encode_def io_bind_def)
qed

theorem avro_end_to_end_witness:
  "\<exists>framed dc. avro_decode demo_avro \<lparr>ad_registry = customer_registry, ad_reader = None\<rparr> framed (cache_new (Some 1000), 0) =
     (Inr 5, (dc, 2))"
proof -
  obtain framed kc where e: "avro_encode demo_avro customer_encoder 5 ''orders'' Value (cache_new (Some 1000), 0) = (Inr framed, (kc, 0))"
    "avro_cached_schema_key kc ''orders-value'' = Some (Id (SchemaId 1))"
    using customer_encode by blast
  have codec: "\<forall>r u raw. avro_serialize demo_avro r u = Inr raw \<longrightarrow> avro_deserialize demo_avro r raw None = Inr u"
    by (auto simp: avro_serialize_def avro_deserialize_def demo_avro_def)
  have "get_schema_by_key customer_registry (Id (SchemaId 1)) 0 =
      (Inr (with_references [ref_to ''address''] (schema_new (Id (SchemaId 1)) Avro ''customer'')), 1)"
    by (simp add: get_schema_by_key_def customer_registry_def trait_defaults_def)
  moreover have "avro_closure customer_registry [ref_to ''address''] 0 ([], []) 1 =
      (Inr ([(''address'', 1)], [''address'']), 2)"
    by (simp add: avro_closure_def closure.simps closure_each.simps avro_collector_def MAX_REFERENCE_DEPTH_def
        MAX_REFERENCES_def customer_registry_def trait_defaults_def ref_to_def marker_of_def schema_new_def)
  moreover have "aeb_dependencies customer_builder = [''address'']" "adb_reader_schema (avro_decoder_set_registry customer_registry avro_decoder_builder_new) = None"
    "subject_name (ae_strategy customer_encoder) ''orders'' (ae_fullname customer_encoder) Value = Inr ''orders-value''"
    "ae_schema_str customer_encoder = ''customer''"
    by (simp_all add: customer_builder_def avro_encoder_set_dependencies_def avro_decoder_set_registry_def
        avro_decoder_builder_new_def customer_encoder_def)
  ultimately show ?thesis
    using avro_end_to_end [OF customer_build e(1) customer_decoder _ codec] e(2)
    by (fastforce simp: with_references_def schema_new_def)
qed


text \<open>
  What a consumer is told is what the registry holds. Through a cache over the client of a
  truthful registry, a message that decodes as a Confluent frame is reported with the type, text
  and references that the registry holds for the identifier in its frame, whether the lookup was
  a hit or a miss and whatever other tasks do to the cache meanwhile; and the cache stays coherent.
\<close>

theorem confluent_consumer_truthful:
  assumes "truthful S env cl" "coherent (describes S) c"
    and "\<forall>c. coherent (describes S) c \<longrightarrow> coherent (describes S) (during c)"
    and "detect_wire_format data = DetConfluent key n"
    and "decode glue z (with_confluent (cached_client during (confluent_registry env cl)) decoder_new) data (c, w) =
      (Inr m, (c', w'))"
  shows "coherent (describes S) c' \<and>
    (\<exists>x. dm_metadata m = Some (ConfluentMeta x) \<and> S key = Some (sch_type x, sch_text x, sch_references x) \<and>
       dm_format m = format_of_type (sch_type x))"
proof -
  let ?rg = "cached_client during (confluent_registry env cl)"
  note cached = by_key_coherent [where during = during, OF confluent_sound [OF assms(1)] assms(2,3)]
  have "decode_confluent (with_confluent ?rg decoder_new) data key n (c, w) = (Inr m, (c', w'))"
    using assms(4,5) by (simp add: decode_def)
  then obtain x where x: "get_schema_by_key ?rg key (c, w) = (Inr x, (c', w'))"
    "dm_metadata m = Some (ConfluentMeta x)" "dm_format m = format_of_type (sch_type x)"
    by (auto simp: decode_confluent_def with_confluent_def io_bind_Inr_iff Let_def split: if_splits)
  with cached [of key w] show ?thesis by (simp add: names_truly_def describes_def)
qed

theorem confluent_consumer_truthful_witness:
  "\<exists>m x. fst (decode True None (with_confluent (cached_client (\<lambda>c. c) (confluent_registry demo_stack_env demo_confluent_client))
       decoder_new) (encode_wire_format (Id (SchemaId 7)) [1, 2]) (with_max_entries 1, 5)) = Inr m \<and>
     dm_metadata m = Some (ConfluentMeta x) \<and> sch_text x = ''s''"
proof -
  let ?rg = "cached_client (\<lambda>c. c) (confluent_registry demo_stack_env demo_confluent_client)"
  let ?d = "with_confluent ?rg decoder_new"
  let ?data = "encode_wire_format (Id (SchemaId 7)) [1, 2]"
  have d: "wd_confluent ?d = Some ?rg" by (simp add: with_confluent_def)
  obtain x t where x: "get_schema_by_key ?rg (Id (SchemaId 7)) (with_max_entries 1, 5) = (Inr x, t)"
    using demo_cached_lookup by blast
  then have "names_truly (describes one_content) (Id (SchemaId 7)) x"
    using by_key_coherent [where during = "\<lambda>c. c", OF confluent_sound [OF demo_truthful] coherent_new] by (metis fst_conv)
  then have "sch_type x = Avro" by (simp add: names_truly_def describes_def one_content_def)
  with decode_of_frame [OF d x, of True None "[1, 2]"] obtain m c' w' where m: "decode True None ?d ?data (with_max_entries 1, 5) = (Inr m, (c', w'))"
    by (cases t) simp
  from confluent_consumer_truthful [OF demo_truthful coherent_new _ detect_confluent_frame m] m show ?thesis
    by (auto simp: one_content_def)
qed

text \<open>
  C1. The whole way of a message. A producer that registers its schema with a truthful registry,
  through the Confluent client, frames a payload; a consumer decodes the frame through a cache over
  its own client of that registry. If the consumer's lookup of the identifier fails, the decode
  fails with that error; otherwise it gives the payload, the message path of a Protobuf payload,
  and a schema with the producer's type, text and references. The producer's cache keeps
  naming only this schema, so that every later message is framed as truly.
\<close>

theorem confluent_full_stack:
  assumes "truthful S penv pcl" "\<not> cc_normalize pcl" "en_registry en = confluent_registry penv pcl"
    and "en_resolution en = AutoRegister" "length (en_indexes en) \<le> 512" "keys_true S en kc"
    and "Confluent_Encoder.encode en payload topic rn target (kc, p) = (Inr framed, (kc', p'))"
    and "truthful S env cl" "coherent (describes S) c"
    and "\<forall>c. coherent (describes S) c \<longrightarrow> coherent (describes S) (during c)"
  shows "keys_true S en kc' \<and>
    (\<exists>key. let consumer = cached_client during (confluent_registry env cl);
             decoded = decode glue z (with_confluent consumer decoder_new) framed (c, w)
       in case get_schema_by_key consumer key (c, w) of
            (Inl e, t) \<Rightarrow> decoded = (Inl e, t)
          | (Inr x, t) \<Rightarrow>
              sch_type x = en_schema_type en \<and> sch_text x = en_schema en \<and> sch_references x = en_references en \<and>
              decoded =
                (Inr \<lparr>dm_format = format_of_type (en_schema_type en), dm_payload = payload,
                   dm_metadata = Some (ConfluentMeta x),
                   dm_indexes = (if en_schema_type en = Protobuf
                     then Some (if en_indexes en = [] then [0] else en_indexes en) else None)\<rparr>, t))"
proof -
  let ?rg = "cached_client during (confluent_registry env cl)"
  let ?d = "with_confluent ?rg decoder_new"
  have d: "wd_confluent ?d = Some ?rg" by (simp add: with_confluent_def)
  from assms(7) obtain subject key where r: "resolve_key en subject (kc, p) = (Inr key, (kc', p'))"
    "framed = frame en key payload"
    by (rule encode_InrE)
  note key = resolve_key_true [OF assms(1-4,6) r(1)]
  have dec: "case get_schema_by_key ?rg key (c, w) of
        (Inl e, t) \<Rightarrow> decode glue z ?d framed (c, w) = (Inl e, t)
      | (Inr x, t) \<Rightarrow> sch_type x = en_schema_type en \<and> sch_text x = en_schema en \<and> sch_references x = en_references en \<and>
          decode glue z ?d framed (c, w) =
            (Inr \<lparr>dm_format = format_of_type (en_schema_type en), dm_payload = payload,
               dm_metadata = Some (ConfluentMeta x),
               dm_indexes = (if en_schema_type en = Protobuf
                 then Some (if en_indexes en = [] then [0] else en_indexes en) else None)\<rparr>, t)"
  proof -
    obtain q t where Pair: "get_schema_by_key ?rg key (c, w) = (q, t)" by (metis surj_pair)
    show ?thesis
    proof (cases q)
      case (Inl e)
      with Pair decode_frame_lookup_fails [OF d] r(2) show ?thesis by simp
    next
      case (Inr x)
      with Pair by_key_coherent [where during = during, OF confluent_sound [OF assms(8)] assms(9,10), of key w] key
      have x: "sch_type x = en_schema_type en" "sch_text x = en_schema en" "sch_references x = en_references en"
        by (simp_all add: names_truly_def describes_def)
      with Pair Inr decode_own_frame [OF d assms(5)] r(2) show ?thesis by simp
    qed
  qed
  from key have "keys_true S en kc'" by blast
  then show ?thesis unfolding Let_def by (rule conjI) (rule exI [of _ key], rule dec)
qed

theorem confluent_full_stack_witness:
  "\<exists>framed m. fst (Confluent_Encoder.encode demo_producer [9] ''orders'' None Value (cache_new (Some 1), 0)) = Inr framed \<and>
     fst (decode True None (with_confluent (cached_client (\<lambda>c. c) (confluent_registry demo_stack_env demo_confluent_client))
       decoder_new) framed (with_max_entries 1, 5)) = Inr m \<and> dm_payload m = [9]"
proof -
  obtain framed kc where e: "Confluent_Encoder.encode demo_producer [9] ''orders'' None Value (cache_new (Some 1), 0) = (Inr framed, (kc, 1))"
    using demo_produce by blast
  have k: "keys_true one_content demo_producer (cache_new (Some 1))"
    by (simp add: keys_true_def idle_new) (simp add: cache_new_def cache_get_def)
  have "\<not> cc_normalize demo_confluent_client" "en_registry demo_producer = confluent_registry demo_stack_env demo_confluent_client"
    "en_resolution demo_producer = AutoRegister" "length (en_indexes demo_producer) \<le> 512"
    by (simp_all add: demo_confluent_client_def demo_producer_def)
  note stack = confluent_full_stack [where z = None and glue = True and w = 5 and during = "\<lambda>c. c" and cl = demo_confluent_client,
      OF demo_truthful this k e demo_truthful coherent_new [of _ 1], simplified, unfolded Let_def, THEN conjunct2]
  let ?rg = "cached_client (\<lambda>c. c) (confluent_registry demo_stack_env demo_confluent_client)"
  let ?decoded = "decode True None (with_confluent ?rg decoder_new) framed (with_max_entries 1, 5)"
  have "\<exists>m. fst ?decoded = Inr m \<and> dm_payload m = [9]"
    using stack
  proof (rule exE, goal_cases)
    case (1 key)
    moreover obtain x t where "get_schema_by_key ?rg key (with_max_entries 1, 5) = (Inr x, t)"
      using demo_cached_lookup by blast
    ultimately show ?case by simp
  qed
  with e show ?thesis by auto
qed

end
