(* ===== verification/Identities.thy ===== *)
theory Identities
  imports Glue_Types "HOL-Library.List_Lexorder"
begin

text \<open>
  The identifiers of \<open>src/types.rs\<close> and \<open>src/glue/mod.rs\<close> as values: their conversions,
  their comparisons with raw values, their orders and their text. The order of a UUID is that of
  its sixteen bytes (\<open>uuid::Uuid\<close> derives it), the others are those of the wrapped numbers.
\<close>

section \<open>Constructors and conversions\<close>

definition schema_id_new :: "u32 \<Rightarrow> schema_id" where "schema_id_new i = SchemaId i"
definition schema_id_from_u32 :: "u32 \<Rightarrow> schema_id" where "schema_id_from_u32 v = SchemaId v"
definition u32_from_schema_id :: "schema_id \<Rightarrow> u32" where "u32_from_schema_id v = as_u32 v"

definition guid_from_uuid :: "u128 \<Rightarrow> schema_guid" where "guid_from_uuid uuid = SchemaGuid uuid"
definition uuid_from_guid :: "schema_guid \<Rightarrow> u128" where "uuid_from_guid guid = as_uuid guid"
definition guid_from_byte_array :: "bytes \<Rightarrow> schema_guid" where "guid_from_byte_array bs = guid_from_bytes bs"
definition byte_array_from_guid :: "schema_guid \<Rightarrow> bytes" where "byte_array_from_guid guid = u128_to_be (as_uuid guid)"

definition version_from_uuid :: "u128 \<Rightarrow> glue_version_id" where "version_from_uuid uuid = GlueVersionId uuid"
definition uuid_from_version :: "glue_version_id \<Rightarrow> u128" where "uuid_from_version v = version_uuid v"
definition version_from_byte_array :: "bytes \<Rightarrow> glue_version_id" where
  "version_from_byte_array bs = version_from_bytes bs"
definition byte_array_from_version :: "glue_version_id \<Rightarrow> bytes" where
  "byte_array_from_version v = u128_to_be (version_uuid v)"

definition key_from_id :: "schema_id \<Rightarrow> schema_key" where "key_from_id i = Id i"
definition key_from_u32 :: "u32 \<Rightarrow> schema_key" where "key_from_u32 i = Id (schema_id_new i)"
definition key_from_guid :: "schema_guid \<Rightarrow> schema_key" where "key_from_guid g = Guid g"

definition schema_version_new :: "int \<Rightarrow> schema_version" where "schema_version_new v = SchemaVersion v"

definition schema_reference_new :: "string \<Rightarrow> string \<Rightarrow> schema_version \<Rightarrow> schema_reference" where
  "schema_reference_new name subject version =
     \<lparr>ref_name = name, ref_subject = subject, ref_version = version\<rparr>"

definition artifact_id_new :: "string \<Rightarrow> string \<Rightarrow> artifact_id" where
  "artifact_id_new grp artifact = \<lparr>art_group = grp, art_name = artifact\<rparr>"

definition artifact_default_group :: "string \<Rightarrow> artifact_id" where
  "artifact_default_group artifact = artifact_id_new ''default'' artifact"

section \<open>Comparison with raw values\<close>

definition schema_id_eq_u32 :: "schema_id \<Rightarrow> u32 \<Rightarrow> bool" where "schema_id_eq_u32 i other \<longleftrightarrow> as_u32 i = other"

fun key_eq_id :: "schema_key \<Rightarrow> schema_id \<Rightarrow> bool" where
  "key_eq_id (Id i) other = (i = other)"
| "key_eq_id (Guid _) other = False"

fun key_eq_u32 :: "schema_key \<Rightarrow> u32 \<Rightarrow> bool" where
  "key_eq_u32 (Id i) other = (as_u32 i = other)"
| "key_eq_u32 (Guid _) other = False"

fun key_eq_guid :: "schema_key \<Rightarrow> schema_guid \<Rightarrow> bool" where
  "key_eq_guid (Guid g) other = (g = other)"
| "key_eq_guid (Id _) other = False"

definition schema_version_eq_i32 :: "schema_version \<Rightarrow> int \<Rightarrow> bool" where
  "schema_version_eq_i32 v other \<longleftrightarrow> as_i32 v = other"

section \<open>Text\<close>

text \<open>\<open>Display\<close>; the hyphenated form of a UUID is a parameter.\<close>

definition show_schema_id :: "schema_id \<Rightarrow> string" where "show_schema_id i = dec_nat (unat (as_u32 i))"

definition show_guid :: "(u128 \<Rightarrow> string) \<Rightarrow> schema_guid \<Rightarrow> string" where "show_guid uuid_text g = uuid_text (as_uuid g)"

definition show_version_id :: "(u128 \<Rightarrow> string) \<Rightarrow> glue_version_id \<Rightarrow> string" where
  "show_version_id uuid_text v = uuid_text (version_uuid v)"

fun show_key :: "(u128 \<Rightarrow> string) \<Rightarrow> schema_key \<Rightarrow> string" where
  "show_key uuid_text (Id i) = ''id '' @ show_schema_id i"
| "show_key uuid_text (Guid g) = ''guid '' @ show_guid uuid_text g"

definition show_schema_version :: "schema_version \<Rightarrow> string" where "show_schema_version v = dec_int (as_i32 v)"

definition show_schema_type :: "schema_type \<Rightarrow> string" where "show_schema_type t = schema_type_str t"
definition show_compatibility_level :: "compatibility_level \<Rightarrow> string" where "show_compatibility_level l = compat_str l"
definition show_compression :: "glue_compression \<Rightarrow> string" where "show_compression c = compression_str c"
definition show_data_format :: "glue_data_format \<Rightarrow> string" where "show_data_format f = data_format_str f"
definition show_artifact_id :: "artifact_id \<Rightarrow> string" where "show_artifact_id a = art_group a @ ''/'' @ art_name a"

section \<open>Orders\<close>

instantiation schema_id :: linorder
begin

definition less_eq_schema_id :: "schema_id \<Rightarrow> schema_id \<Rightarrow> bool" where "less_eq_schema_id i j \<longleftrightarrow> as_u32 i \<le> as_u32 j"
definition less_schema_id :: "schema_id \<Rightarrow> schema_id \<Rightarrow> bool" where "less_schema_id i j \<longleftrightarrow> as_u32 i < as_u32 j"

instance
  by standard (auto simp: less_eq_schema_id_def less_schema_id_def schema_id.expand)

end

instantiation schema_version :: linorder
begin

definition less_eq_schema_version :: "schema_version \<Rightarrow> schema_version \<Rightarrow> bool" where
  "less_eq_schema_version i j \<longleftrightarrow> as_i32 i \<le> as_i32 j"
definition less_schema_version :: "schema_version \<Rightarrow> schema_version \<Rightarrow> bool" where
  "less_schema_version i j \<longleftrightarrow> as_i32 i < as_i32 j"

instance
  by standard (auto simp: less_eq_schema_version_def less_schema_version_def schema_version.expand)

end

instantiation schema_guid :: linorder
begin

definition less_eq_schema_guid :: "schema_guid \<Rightarrow> schema_guid \<Rightarrow> bool" where
  "less_eq_schema_guid g h \<longleftrightarrow> guid_as_bytes g \<le> guid_as_bytes h"
definition less_schema_guid :: "schema_guid \<Rightarrow> schema_guid \<Rightarrow> bool" where
  "less_schema_guid g h \<longleftrightarrow> guid_as_bytes g < guid_as_bytes h"

instance
proof
  fix g h :: schema_guid
  assume "g \<le> h" "h \<le> g"
  then have "guid_as_bytes g = guid_as_bytes h" by (simp add: less_eq_schema_guid_def)
  then show "g = h" by (metis guid_bytes)
qed (auto simp: less_eq_schema_guid_def less_schema_guid_def)

end

instantiation glue_version_id :: linorder
begin

definition less_eq_glue_version_id :: "glue_version_id \<Rightarrow> glue_version_id \<Rightarrow> bool" where
  "less_eq_glue_version_id v w \<longleftrightarrow> version_as_bytes v \<le> version_as_bytes w"
definition less_glue_version_id :: "glue_version_id \<Rightarrow> glue_version_id \<Rightarrow> bool" where
  "less_glue_version_id v w \<longleftrightarrow> version_as_bytes v < version_as_bytes w"

instance
proof
  fix v w :: glue_version_id
  assume "v \<le> w" "w \<le> v"
  then have "version_as_bytes v = version_as_bytes w" by (simp add: less_eq_glue_version_id_def)
  then show "v = w" by (metis version_bytes)
qed (auto simp: less_eq_glue_version_id_def less_glue_version_id_def)

end

section \<open>Big-endian bytes keep the order\<close>

definition be_value :: "bytes \<Rightarrow> nat" where
  "be_value bs = foldl (\<lambda>a b. a * 256 + unat b) 0 bs"

lemma be_value_append: "be_value (bs @ [b]) = be_value bs * 256 + unat b"
  by (simp add: be_value_def)

lemma byte_less: "unat (b :: u8) < 256"
  using unsigned_less [of b] by simp

lemma snoc_less_iff:
  "length xs = length ys \<Longrightarrow> xs @ [a] < ys @ [b] \<longleftrightarrow> xs < ys \<or> xs = ys \<and> a < (b :: 'a :: linorder)"
  by (induction xs ys rule: list_induct2) auto

lemma be_value_less:
  "length xs = length ys \<Longrightarrow> (xs < ys \<longleftrightarrow> be_value xs < be_value ys) \<and> (ys < xs \<longleftrightarrow> be_value ys < be_value xs)"
proof (induction xs arbitrary: ys rule: rev_induct)
  case (snoc a xs)
  then obtain zs b where ys: "ys = zs @ [b]" and len: "length xs = length zs"
    by (cases ys rule: rev_cases) auto
  note IH = snoc.IH [OF len]
  then have eq: "xs = zs \<longleftrightarrow> be_value xs = be_value zs" by (metis less_irrefl linorder_less_linear)
  show ?case
    using byte_less [of a] byte_less [of b] IH eq len
    by (auto simp: ys snoc_less_iff be_value_append word_less_nat_alt)
qed simp

lemma be_value_le: "length xs = length ys \<Longrightarrow> xs \<le> ys \<longleftrightarrow> be_value xs \<le> be_value ys"
  using be_value_less [of xs ys] by (simp flip: not_less)

lemma be_value_bound: "be_value bs < 2 ^ (8 * length bs)"
proof (induction bs rule: rev_induct)
  case (snoc b bs)
  then show ?case using byte_less [of b] by (simp add: be_value_append power_add)
qed (simp add: be_value_def)

lemma unat_from_be: "8 * length bs \<le> LENGTH('a) \<Longrightarrow> unat (from_be_bytes bs :: 'a::len word) = be_value bs"
proof (induction bs rule: rev_induct)
  case Nil
  show ?case by (simp add: from_be_bytes_def be_value_def)
next
  case (snoc b bs)
  let ?w = "from_be_bytes bs :: 'a word"
  have IH: "unat ?w = be_value bs" using snoc by simp
  have "from_be_bytes (bs @ [b]) = (ucast b OR push_bit 8 ?w :: 'a word)"
    by (simp add: from_be_bytes_def)
  also have "\<dots> = ucast b + push_bit 8 ?w"
    by (rule disjunctive_add [symmetric]) (auto simp: bit_ucast_iff bit_push_bit_iff dest: bit_imp_le_length)
  finally have "unat (from_be_bytes (bs @ [b]) :: 'a word) = unat (ucast b + push_bit 8 ?w :: 'a word)" by simp
  also have "\<dots> = unat b + unat ?w * 256"
  proof -
    have "be_value (bs @ [b]) < 2 ^ LENGTH('a)"
      by (rule less_le_trans [OF be_value_bound]) (use snoc.prems in \<open>simp add: power_increasing del: length_append\<close>)
    then have fits: "unat b + unat ?w * 256 < 2 ^ LENGTH('a)" by (simp add: IH be_value_append)
    have b: "unat (ucast b :: 'a word) = unat b"
      using fits by (simp add: unsigned_ucast_eq take_bit_nat_eq_self_iff)
    moreover have "unat (push_bit 8 ?w) = unat ?w * 256"
      using fits unfolding unsigned_push_bit_eq by (simp add: push_bit_eq_mult take_bit_nat_eq_self_iff)
    ultimately show ?thesis using fits b by (simp add: unat_word_ariths)
  qed
  finally show ?case by (simp add: IH be_value_append)
qed

lemma be_bytes_le:
  "u32_to_be i \<le> u32_to_be j \<longleftrightarrow> i \<le> j"
  "u128_to_be w \<le> u128_to_be v \<longleftrightarrow> w \<le> v"
  using unat_from_be [of "u32_to_be i", where 'a = 32] unat_from_be [of "u32_to_be j", where 'a = 32]
    unat_from_be [of "u128_to_be w", where 'a = 128] unat_from_be [of "u128_to_be v", where 'a = 128]
  by (simp_all add: be_value_le word_le_nat_alt)

section \<open>Properties\<close>

text \<open>
  Orders. The order of every identifier is the order of its big-endian bytes on the wire, and
  for UUIDs, which are compared byte by byte, that of the 128-bit numbers.
\<close>

theorem identifier_order:
  "(i \<le> j \<longleftrightarrow> u32_to_be (as_u32 i) \<le> u32_to_be (as_u32 j)) \<and>
   (g \<le> h \<longleftrightarrow> as_uuid g \<le> as_uuid h) \<and> (v \<le> w \<longleftrightarrow> version_uuid v \<le> version_uuid w)"
  by (simp add: less_eq_schema_id_def less_eq_schema_guid_def less_eq_glue_version_id_def guid_as_bytes_def
      version_as_bytes_def be_bytes_le)

lemma show_schema_id_inj [simp]: "show_schema_id i = show_schema_id j \<longleftrightarrow> i = j"
proof
  assume "show_schema_id i = show_schema_id j"
  then have "parse_nat_digits (show_schema_id i) = parse_nat_digits (show_schema_id j)" by simp
  then show "i = j" by (simp add: show_schema_id_def schema_id.expand word_unat_eq_iff)
qed simp

text \<open>
  Text of identifiers and names. What \<open>Display\<close> prints of an identifier, a version, a schema
  type, a level, a Glue format or an artifact parses back to the same value, and keys with the
  same text are the same key, for a \<open>uuid\<close> crate that parses the text it prints.
\<close>

theorem identifier_text:
  assumes "\<forall>u. parse_uuid (uuid_text u) = Inr u" and "- (2 ^ 31) \<le> as_i32 n" and "as_i32 n < 2 ^ 31"
    and "CHR ''/'' \<notin> set (art_group a)"
  shows "map_option (schema_id_new \<circ> of_nat) (parse_unsigned 32 (show_schema_id i)) = Some i \<and>
    guid_from_str parse_uuid (show_guid uuid_text g) = Inr g \<and>
    version_from_str parse_uuid (show_version_id uuid_text v) = Inr v \<and>
    map_option schema_version_new (parse_signed 32 (show_schema_version n)) = Some n \<and>
    schema_type_from_str (show_schema_type t) = Inr t \<and> compat_from_str (show_compatibility_level l) = Inr l \<and>
    data_format_from_str (show_data_format f) = Inr f \<and> artifact_from_subject (show_artifact_id a) = a \<and>
    (show_key uuid_text k = show_key uuid_text k' \<longleftrightarrow> k = k')"
proof -
  have "inj uuid_text" by (rule injI) (metis assms(1) sum.inject(2))
  then have key: "show_key uuid_text k = show_key uuid_text k' \<longleftrightarrow> k = k'"
    by (cases k; cases k') (auto simp: show_guid_def inj_eq schema_guid.expand)
  have "data_format_from_str (show_data_format f) = Inr f"
    by (cases f) (simp_all add: data_format_from_str_def show_data_format_def eq_ignore_ascii_case_def ascii_lower_def)
  moreover have "unat (as_u32 i) < 2 ^ 32" using unsigned_less [of "as_u32 i"] by simp
  ultimately show ?thesis
    using assms key artifact_round_trip [OF assms(4)]
    by (simp add: show_schema_id_def parse_unsigned_dec schema_id_new_def guid_from_str_def version_from_str_def
        show_guid_def show_version_id_def show_schema_version_def parse_signed_dec schema_version_new_def
        show_schema_type_def schema_type_from_str_iff show_compatibility_level_def compat_from_str_iff
        show_artifact_id_def artifact_to_subject_def)
qed

theorem identifier_text_witness:
  "guid_from_str (\<lambda>s. case parse_nat_digits s of Some n \<Rightarrow> Inr (of_nat n) | None \<Rightarrow> Inl [])
     (show_guid (\<lambda>u. dec_nat (unat u)) (SchemaGuid 7)) = Inr (SchemaGuid 7) \<and>
   show_key (\<lambda>u. dec_nat (unat u)) (Id (SchemaId 5)) \<noteq> show_key (\<lambda>u. dec_nat (unat u)) (Guid (SchemaGuid 5))"
proof -
  let ?parse = "\<lambda>s. case parse_nat_digits s of Some n \<Rightarrow> Inr (of_nat n :: u128) | None \<Rightarrow> Inl []"
  have "\<forall>u. ?parse (dec_nat (unat u)) = Inr u" by simp
  from identifier_text [OF this, of "SchemaVersion 3" "artifact_default_group ''a''" "SchemaId 5" "SchemaGuid 7" "GlueVersionId 7"
      Avro Full GlueJson "Id (SchemaId 5)" "Guid (SchemaGuid 5)"]
  show ?thesis by (simp add: artifact_default_group_def artifact_id_new_def del: show_key.simps)
qed

text \<open>
  Conversions and comparisons. Every conversion to a raw value is undone by the one from it,
  in both representations of a UUID, and comparing a key with a raw value is comparing it with
  the key the value converts to.
\<close>

theorem identifier_conversions:
  "schema_id_from_u32 (u32_from_schema_id i) = i \<and> guid_from_uuid (uuid_from_guid g) = g \<and>
   guid_from_byte_array (byte_array_from_guid g) = g \<and> byte_array_from_guid g = guid_as_bytes g \<and>
   version_from_uuid (uuid_from_version v) = v \<and> version_from_byte_array (byte_array_from_version v) = v \<and>
   key_eq_id k i = (k = key_from_id i) \<and> key_eq_u32 k n = (k = key_from_u32 n) \<and> key_eq_guid k g = (k = key_from_guid g)"
  by (cases k; cases i; cases g; cases v)
    (auto simp: schema_id_from_u32_def u32_from_schema_id_def guid_from_uuid_def uuid_from_guid_def
      guid_from_byte_array_def byte_array_from_guid_def guid_from_bytes_def guid_as_bytes_def version_from_uuid_def
      uuid_from_version_def version_from_byte_array_def byte_array_from_version_def version_from_bytes_def
      key_from_id_def key_from_u32_def key_from_guid_def schema_id_new_def)

end
