(* ===== verification/Cache_Fifo.thy ===== *)
theory Cache_Fifo
  imports Cache_Inner
begin

text \<open>
  What the cache of \<open>src/cache_inner.rs\<close> promises, as an abstract machine: a queue of entries, oldest
  first, and for every key that is being fetched the channels that wait for it. Its operations are
  written on those two alone, with no map beside the queue, no tokens and no critical sections.
  The operations of \<open>Cache_Inner\<close> are then shown to compute what this machine computes.
\<close>

section \<open>The abstract machine\<close>

record ('k, 'v) fifo =
  ff_queue :: "('k \<times> 'v) list"
  ff_waiting :: "'k \<Rightarrow> nat list option"
  ff_revision :: u64

definition ff_get :: "('k, 'v) fifo \<Rightarrow> 'k \<Rightarrow> 'v option" where
  "ff_get a k = map_of (ff_queue a) k"

text \<open>An entry is replaced where it is, or goes to the end, and what is then too much leaves at the front.\<close>

definition ff_put :: "nat \<Rightarrow> 'k \<Rightarrow> 'v \<Rightarrow> ('k, 'v) fifo \<Rightarrow> ('k, 'v) fifo" where
  "ff_put bound k v a =
     a\<lparr>ff_queue :=
         (if ff_get a k \<noteq> None then map (\<lambda>(k', v'). if k' = k then (k, v) else (k', v')) (ff_queue a)
          else drop (Suc (length (ff_queue a)) - bound) (ff_queue a @ [(k, v)]))\<rparr>"

definition ff_join :: "'k \<Rightarrow> nat \<Rightarrow> ('k, 'v) fifo \<Rightarrow> 'v option \<times> bool \<times> ('k, 'v) fifo" where
  "ff_join k ch a =
     (case (ff_get a k, ff_waiting a k) of
        (Some v, _) \<Rightarrow> (Some v, False, a)
      | (None, Some chs) \<Rightarrow> (None, False, a\<lparr>ff_waiting := (ff_waiting a)(k \<mapsto> chs @ [ch])\<rparr>)
      | (None, None) \<Rightarrow> (None, True, a\<lparr>ff_waiting := (ff_waiting a)(k \<mapsto> [])\<rparr>))"

definition ff_fetch :: "nat \<Rightarrow> 'k \<Rightarrow> ('s, 'v) io \<Rightarrow> ('k, 'v) fifo \<times> 's \<Rightarrow> 'v res \<times> (('k, 'v) fifo \<times> 's)" where
  "ff_fetch bound k fetch as =
     (case as of (a, s) \<Rightarrow>
        (case ff_get a k of
           Some v \<Rightarrow> (Inr v, (a, s))
         | None \<Rightarrow>
             (case fetch s of
                (Inl e, s') \<Rightarrow> (Inl e, (a, s'))
              | (Inr v, s') \<Rightarrow> (Inr v, (ff_put bound k v a, s')))))"

definition ff_insert :: "nat \<Rightarrow> 'k \<Rightarrow> 'v \<Rightarrow> u64 \<Rightarrow> ('k, 'v) fifo \<Rightarrow> ('k, 'v) fifo" where
  "ff_insert bound k v revision a = (if ff_revision a = revision then ff_put bound k v a else a)"

text \<open>Forgetting the keys of a set: their entries and their fetches go, and the revision moves on.\<close>

definition ff_forget :: "'k set \<Rightarrow> ('k, 'v) fifo \<Rightarrow> ('k, 'v) fifo" where
  "ff_forget K a =
     a\<lparr>ff_queue := filter (\<lambda>(k, v). k \<notin> K) (ff_queue a),
       ff_waiting := (\<lambda>k. if k \<in> K then None else ff_waiting a k), ff_revision := ff_revision a + 1\<rparr>"

text \<open>The channels that wait for a key of the set, each with the error of its key.\<close>

definition ff_cancelled :: "('k \<Rightarrow> sreg_error) \<Rightarrow> 'k set \<Rightarrow> ('k, 'v) fifo \<Rightarrow> (nat \<times> 'v res) set" where
  "ff_cancelled mk K a = {(ch, Inl (mk k)) |ch k. k \<in> K \<and> (\<exists>chs. ff_waiting a k = Some chs \<and> ch \<in> set chs)}"

definition keys_with :: "('v \<Rightarrow> bool) \<Rightarrow> ('k, 'v) fifo \<Rightarrow> 'k set" where
  "keys_with P a = {k. \<exists>v. ff_get a k = Some v \<and> P v}"

section \<open>Abstraction\<close>

definition fifo_abs :: "('k, 'v) cache \<Rightarrow> ('k, 'v) fifo" where
  "fifo_abs c =
     \<lparr>ff_queue = fifo_of (ca_store c), ff_waiting = (\<lambda>k. map_option if_waiters (hm_get (ca_in_flight c) k)),
      ff_revision = ca_generation c\<rparr>"

lemma fifo_abs_sel [simp]:
  "ff_queue (fifo_abs c) = fifo_of (ca_store c)" "ff_revision (fifo_abs c) = ca_generation c"
  "ff_waiting (fifo_abs c) k = map_option if_waiters (hm_get (ca_in_flight c) k)"
  by (simp_all add: fifo_abs_def)

definition bounded_ok :: "nat \<Rightarrow> ('k, 'v) cache \<Rightarrow> bool" where
  "bounded_ok bound c \<longleftrightarrow> cache_ok c \<and> ca_max_entries c = Some bound"

lemma bounded_store: "bounded_ok bound c \<Longrightarrow> store_ok (Some bound) (ca_store c)"
  unfolding bounded_ok_def cache_ok_def by metis

lemma abs_get:
  assumes "bounded_ok bound c"
  shows "ff_get (fifo_abs c) k = cache_get c k"
  using map_of_fifo [OF bounded_store [OF assms]] by (simp add: ff_get_def cache_get_def)

lemma abs_len:
  assumes "bounded_ok bound c"
  shows "length (ff_queue (fifo_abs c)) = cache_len c"
  using bounded_store [OF assms] queue_length [of "st_entries (ca_store c)" "st_order (ca_store c)"]
  by (simp add: cache_len_def fifo_of_def store_ok_def)

lemma abs_put:
  assumes "bounded_ok bound c"
  shows "fifo_abs (c\<lparr>ca_store := insert_locked (Some bound) k v (ca_store c)\<rparr>) = ff_put bound k v (fifo_abs c)"
proof -
  have mem: "k \<in> fst ` set (fifo_of (ca_store c)) \<longleftrightarrow> map_of (fifo_of (ca_store c)) k \<noteq> None"
    by (simp add: map_of_eq_None_iff)
  have repl: "map (\<lambda>(k', v'). (k', if k' = k then v else v')) q = map (\<lambda>(k', v'). if k' = k then (k, v) else (k', v')) q" for q
    by (rule map_cong [OF refl]) auto
  show ?thesis
    using insert_refines_fifo [OF bounded_store [OF assms], of k v] mem
    by (simp add: fifo_abs_def ff_put_def ff_get_def fifo_insert_def repl)
qed

section \<open>Forgetting\<close>

lemma fifo_of_filter:
  assumes "\<And>k. k \<in> set (st_order st) \<Longrightarrow> Q k \<Longrightarrow> hm_get entries k = hm_get (st_entries st) k"
  shows "fifo_of \<lparr>st_entries = entries, st_order = filter Q (st_order st)\<rparr> = filter (\<lambda>(k, v). Q k) (fifo_of st)"
proof -
  have "map (\<lambda>k. (k, the (hm_get entries k))) (filter Q ks) =
      filter (\<lambda>(k, v). Q k) (map (\<lambda>k. (k, the (hm_get (st_entries st) k))) ks)"
    if "set ks \<subseteq> set (st_order st)" for ks
    using that by (induction ks) (auto simp: assms)
  then show ?thesis by (simp add: fifo_of_def)
qed

lemma fifo_of_remove:
  assumes "store_ok (Some bound) st"
  shows "fifo_of (store_remove key st) = filter (\<lambda>(k, v). k \<notin> {key}) (fifo_of st)"
proof (cases "hm_get (st_entries st) key")
  case None
  then have "key \<notin> set (st_order st)" using assms by (auto simp: store_ok_def)
  then have "filter (\<lambda>(k, v). k \<notin> {key}) (fifo_of st) = fifo_of st"
    by (auto simp: fifo_of_def filter_id_conv)
  with None show ?thesis by (simp add: store_remove_def)
next
  case (Some v)
  have "fifo_of \<lparr>st_entries = hm_del key (st_entries st), st_order = filter (\<lambda>x. x \<notin> {key}) (st_order st)\<rparr> =
      filter (\<lambda>(k, v). k \<notin> {key}) (fifo_of st)"
    by (rule fifo_of_filter) simp
  with Some show ?thesis by (simp add: store_remove_def)
qed

lemma fifo_of_remove_doomed:
  assumes "store_ok (Some bound) st"
  shows "fifo_of (remove_doomed ks st) = filter (\<lambda>(k, v). k \<notin> set ks) (fifo_of st)"
proof -
  have stored: "hm_get (st_entries st) k \<noteq> None" if "k \<in> set (st_order st)" for k
    using assms that by (auto simp: store_ok_def)
  have "filter (\<lambda>x. hm_get (fold hm_del ks (st_entries st)) x \<noteq> None) (st_order st) = filter (\<lambda>x. x \<notin> set ks) (st_order st)"
    using stored by (intro filter_cong) (auto simp: fold_del_get)
  moreover have "fifo_of \<lparr>st_entries = fold hm_del ks (st_entries st), st_order = filter (\<lambda>x. x \<notin> set ks) (st_order st)\<rparr> =
      filter (\<lambda>(k, v). k \<notin> set ks) (fifo_of st)"
    by (rule fifo_of_filter) (simp add: fold_del_get)
  ultimately show ?thesis by (simp add: remove_doomed_def Let_def)
qed

lemma set_notify_all: "set (notify_all_cancelled mk kws) = {(w, Inl (mk k)) |w k. \<exists>ws. (k, ws) \<in> set kws \<and> w \<in> set ws}"
  by (force simp: notify_all_cancelled_def notify_cancelled_def)

lemma remove_all_in_flight_keys: "(k, ws) \<in> set (fst (remove_all_in_flight keys c)) \<Longrightarrow> k \<in> set keys"
  by (induction keys arbitrary: c) (auto simp: Let_def case_prod_beta split: option.splits if_splits)

lemma invalidate_refines:
  assumes "bounded_ok bound c" and "invalidate mk key c = (ms, c')"
  shows "fifo_abs c' = ff_forget {key} (fifo_abs c) \<and> set ms = ff_cancelled mk {key} (fifo_abs c) \<and> bounded_ok bound c'"
proof -
  have c': "c' = snd (invalidate mk key c)" "ms = fst (invalidate mk key c)" using assms(2) by simp_all
  have "fifo_abs c' = ff_forget {key} (fifo_abs c)"
    using fifo_of_remove [OF bounded_store [OF assms(1)], of key]
    by (simp add: c' fifo_abs_def ff_forget_def invalidate_def remove_in_flight_def bump_generation_def Let_def fun_eq_iff)
  moreover have "set ms = ff_cancelled mk {key} (fifo_abs c)"
    by (cases "hm_get (ca_in_flight c) key")
      (auto simp: c' ff_cancelled_def invalidate_def remove_in_flight_def bump_generation_def Let_def notify_cancelled_def)
  moreover have "bounded_ok bound c'"
    using assms(1) invalidate_ok [of c mk key]
    by (simp add: c' bounded_ok_def) (simp add: invalidate_def remove_in_flight_def bump_generation_def Let_def)
  ultimately show ?thesis by blast
qed

lemma clear_refines:
  assumes "bounded_ok bound c" and "clear mk c = (ms, c')"
  shows "fifo_abs c' = ff_forget UNIV (fifo_abs c) \<and> set ms = ff_cancelled mk UNIV (fifo_abs c) \<and> bounded_ok bound c'"
proof -
  have c': "c' = snd (clear mk c)" "ms = fst (clear mk c)" using assms(2) by simp_all
  have wf: "hm_wf (ca_in_flight c)" using assms(1) by (simp add: bounded_ok_def cache_ok_def)
  have "fifo_abs c' = ff_forget UNIV (fifo_abs c)"
    by (simp add: c' fifo_abs_def ff_forget_def clear_def drain_in_flight_def bump_generation_def store_clear_def
        Let_def fifo_of_def fun_eq_iff)
  moreover have "set ms = ff_cancelled mk UNIV (fifo_abs c)"
    using wf by (force simp: c' ff_cancelled_def clear_def drain_in_flight_def bump_generation_def Let_def set_notify_all
        dest: map_of_SomeD map_of_is_SomeI)
  moreover have "bounded_ok bound c'"
    using assms(1) clear_ok [of c mk]
    by (simp add: c' bounded_ok_def) (simp add: clear_def drain_in_flight_def bump_generation_def Let_def)
  ultimately show ?thesis by blast
qed

lemma invalidate_matching_refines:
  assumes "bounded_ok bound c" and "invalidate_matching mk P c = (ms, c')"
  shows "fifo_abs c' = ff_forget (keys_with P (fifo_abs c)) (fifo_abs c) \<and>
    set ms = ff_cancelled mk (keys_with P (fifo_abs c)) (fifo_abs c) \<and> bounded_ok bound c'"
proof -
  let ?ks = "doomed_keys P (ca_store c)" and ?c1 = "bump_generation c"
  let ?c2 = "?c1\<lparr>ca_store := remove_doomed ?ks (ca_store ?c1)\<rparr>"
  have st: "store_ok (Some bound) (ca_store c)" by (rule bounded_store [OF assms(1)])
  have keys: "keys_with P (fifo_abs c) = set ?ks"
    using doomed_keys_iff [OF store_ok_wf [OF st], of _ P] abs_get [OF assms(1)]
    by (auto simp: keys_with_def cache_get_def)
  show ?thesis
  proof (cases "?ks = []")
    case True
    then have "ms = []" "c' = ?c1" using assms(2) by (simp_all add: invalidate_matching_def Let_def bump_generation_def)
    with True keys assms(1) st show ?thesis
      by (simp add: fifo_abs_def ff_forget_def ff_cancelled_def bump_generation_def bounded_ok_def cache_ok_def case_prod_unfold)
  next
    case False
    let ?r = "remove_all_in_flight ?ks ?c2"
    have c': "c' = snd ?r" "ms = notify_all_cancelled mk (fst ?r)"
      using False assms(2) by (simp_all add: invalidate_matching_def Let_def bump_generation_def case_prod_beta)
    have "fifo_abs c' = ff_forget (set ?ks) (fifo_abs c)"
      using fifo_of_remove_doomed [OF st, of ?ks]
      by (simp add: c' fifo_abs_def ff_forget_def remove_all_in_flight_frame remove_all_in_flight_get bump_generation_def
          fun_eq_iff)
    moreover have "set ms = ff_cancelled mk (set ?ks) (fifo_abs c)"
    proof -
      have "(k, ws) \<in> set (fst ?r) \<longleftrightarrow> k \<in> set ?ks \<and> (\<exists>e. hm_get (ca_in_flight c) k = Some e \<and> ws = if_waiters e)" for k ws
        using remove_all_in_flight_cancelled [of k ws ?ks ?c2] remove_all_in_flight_complete [of k ?ks ?c2]
          remove_all_in_flight_keys [of k ws ?ks ?c2]
        by (auto simp: bump_generation_def)
      then show ?thesis by (auto simp: c'(2) set_notify_all ff_cancelled_def)
    qed
    moreover have "bounded_ok bound c'"
      using assms(1) store_ok_remove_doomed [OF st, of ?ks] remove_all_in_flight_wf [of ?c2 ?ks]
      by (simp add: c' bounded_ok_def cache_ok_def remove_all_in_flight_frame bump_generation_def)
    ultimately show ?thesis by (simp add: keys)
  qed
qed

section \<open>Fetching and inserting\<close>

lemma insert_if_current_refines:
  assumes "bounded_ok bound c"
  shows "fifo_abs (insert_if_current k v revision c) = ff_insert bound k v revision (fifo_abs c) \<and>
    bounded_ok bound (insert_if_current k v revision c)"
proof -
  have bound: "ca_max_entries c = Some bound" using assms by (simp add: bounded_ok_def)
  have "bounded_ok bound (insert_if_current k v revision c)"
    using assms store_ok_insert [OF bounded_store [OF assms], of k v]
    by (simp add: bounded_ok_def cache_ok_def insert_if_current_def bound)
  with abs_put [OF assms, of k v] show ?thesis
    by (simp add: insert_if_current_def ff_insert_def bound)
qed

text \<open>Joining a fetch or starting one.\<close>

lemma join_refines:
  assumes "bounded_ok bound c" and "join_or_lead k ch c = (role, c')"
  shows "ff_join k ch (fifo_abs c) =
      ((case role of Present v \<Rightarrow> Some v | _ \<Rightarrow> None), (case role of Leader _ \<Rightarrow> True | _ \<Rightarrow> False), fifo_abs c') \<and>
    bounded_ok bound c'"
proof (cases "hm_get (st_entries (ca_store c)) k")
  case (Some v)
  with assms abs_get [OF assms(1), of k] show ?thesis
    by (auto simp: join_or_lead_def ff_join_def cache_get_def)
next
  case None
  then have get: "ff_get (fifo_abs c) k = None" using abs_get [OF assms(1), of k] by (simp add: cache_get_def)
  show ?thesis
  proof (cases "hm_get (ca_in_flight c) k")
    case (Some e)
    with None get assms show ?thesis
      by (auto simp: join_or_lead_def ff_join_def fifo_abs_def bounded_ok_def cache_ok_def fun_eq_iff)
  next
    case no: None
    with None get assms show ?thesis
      by (auto simp: join_or_lead_def ff_join_def fifo_abs_def bounded_ok_def cache_ok_def Let_def fun_eq_iff)
  qed
qed

text \<open>A whole call: the slot the leader took is given back, whatever the fetch answers.\<close>

lemma fetch_refines:
  assumes "bounded_ok bound c" and "cache_get c k \<noteq> None \<or> hm_get (ca_in_flight c) k = None"
    and "get_or_fetch mk k fetch (c, s) = (r, (c', s'))"
  shows "ff_fetch bound k fetch (fifo_abs c, s) = (r, (fifo_abs c', s')) \<and> bounded_ok bound c'"
proof (cases "cache_get c k")
  case (Some v)
  with assms get_or_fetch_hit [OF Some, of mk fetch s] abs_get [OF assms(1), of k] show ?thesis
    by (simp add: ff_fetch_def)
next
  case None
  then have free: "hm_get (ca_in_flight c) k = None" using assms(2) by simp
  have get: "ff_get (fifo_abs c) k = None" using abs_get [OF assms(1), of k] None by simp
  obtain q t where f: "fetch s = (q, t)" by fastforce
  define slot where "slot = hm_del k (hm_put k \<lparr>if_token = ca_next_token c + 1, if_waiters = []\<rparr> (ca_in_flight c))"
  let ?c1 = "c\<lparr>ca_next_token := ca_next_token c + 1, ca_in_flight := slot\<rparr>"
  have released: "fifo_abs ?c1 = fifo_abs c" "bounded_ok bound ?c1"
    using free assms(1) by (auto simp: fifo_abs_def bounded_ok_def cache_ok_def slot_def fun_eq_iff)
  have run: "get_or_fetch mk k fetch (c, s) = (case q of
      Inl e \<Rightarrow> (Inl e, (?c1, t))
    | Inr v \<Rightarrow> (Inr v, (?c1\<lparr>ca_store := insert_locked (Some bound) k v (ca_store ?c1)\<rparr>, t)))"
    using None free f assms(1)
    by (simp add: get_or_fetch_def cache_get_def join_or_lead_def take_in_flight_def store_fetched_def Let_def slot_def
        bounded_ok_def split: sum.split)
  show ?thesis
  proof (cases q)
    case (Inl e)
    with run assms(3) released get f show ?thesis by (auto simp: ff_fetch_def)
  next
    case (Inr v)
    have "bounded_ok bound (?c1\<lparr>ca_store := insert_locked (Some bound) k v (ca_store ?c1)\<rparr>)"
      using released(2) store_ok_insert [OF bounded_store [OF released(2)], of k v]
      by (simp add: bounded_ok_def cache_ok_def)
    with Inr run assms(3) abs_put [OF released(2), of k v] get f show ?thesis
      unfolding released(1) by (auto simp: ff_fetch_def)
  qed
qed

section \<open>Property\<close>

text \<open>
  C10. The cache implements a bounded FIFO map, the abstract machine above, through the
  abstraction \<open>fifo_abs\<close> (the entries of the map in the order of the queue, the waiting channels, the
  invalidation generation). A new cache is the empty machine. Looking a key up and
  the number of entries are those of the machine. Joining a fetch or starting one, in every
  state; a whole call of \<open>get_or_fetch\<close>, hit, error or value (it is
  stated where the call does not wait for another one, that is, when the key is stored or not
  being fetched); the insertion of a value fetched elsewhere; the invalidation of one key, of all keys
  whose value satisfies a predicate, and of everything: each computes what the machine
  computes, with the same result, and tells exactly the channels that waited for a
  forgotten key that they were cancelled. The state stays one in which this holds.
\<close>

theorem cache_implements_fifo:
  assumes "bounded_ok bound c"
  shows "ff_queue (fifo_abs (cache_new (Some n))) = [] \<and> bounded_ok n (cache_new (Some n)) \<and>
    cache_get c k = ff_get (fifo_abs c) k \<and> cache_len c = length (ff_queue (fifo_abs c)) \<and> cache_len c \<le> bound \<and>
    (case join_or_lead k ch c of (role, c') \<Rightarrow>
       ff_join k ch (fifo_abs c) =
         ((case role of Present v \<Rightarrow> Some v | _ \<Rightarrow> None), (case role of Leader _ \<Rightarrow> True | _ \<Rightarrow> False), fifo_abs c') \<and>
       bounded_ok bound c') \<and>
    (ff_get (fifo_abs c) k \<noteq> None \<or> ff_waiting (fifo_abs c) k = None \<longrightarrow>
       (case get_or_fetch mk k fetch (c, s) of (r, (c', s')) \<Rightarrow>
          ff_fetch bound k fetch (fifo_abs c, s) = (r, (fifo_abs c', s')) \<and> bounded_ok bound c')) \<and>
    fifo_abs (insert_if_current k v revision c) = ff_insert bound k v revision (fifo_abs c) \<and>
    bounded_ok bound (insert_if_current k v revision c) \<and>
    (case invalidate mk k c of (ms, c') \<Rightarrow>
       fifo_abs c' = ff_forget {k} (fifo_abs c) \<and> set ms = ff_cancelled mk {k} (fifo_abs c) \<and> bounded_ok bound c') \<and>
    (case invalidate_matching mk P c of (ms, c') \<Rightarrow>
       fifo_abs c' = ff_forget (keys_with P (fifo_abs c)) (fifo_abs c) \<and>
       set ms = ff_cancelled mk (keys_with P (fifo_abs c)) (fifo_abs c) \<and> bounded_ok bound c') \<and>
    (case clear mk c of (ms, c') \<Rightarrow>
       fifo_abs c' = ff_forget UNIV (fifo_abs c) \<and> set ms = ff_cancelled mk UNIV (fifo_abs c) \<and> bounded_ok bound c')"
proof -
  have "bounded_ok n (cache_new (Some n))" and "ff_queue (fifo_abs (cache_new (Some n))) = []"
    using cache_ok_new [of "Some n"] by (simp_all add: bounded_ok_def) (simp_all add: cache_new_def fifo_of_def)
  moreover have "cache_len c \<le> bound"
    using bounded_store [OF assms] by (simp add: cache_len_def store_ok_def)
  moreover have "case get_or_fetch mk k fetch (c, s) of (r, (c', s')) \<Rightarrow>
      ff_fetch bound k fetch (fifo_abs c, s) = (r, (fifo_abs c', s')) \<and> bounded_ok bound c'"
    if "ff_get (fifo_abs c) k \<noteq> None \<or> ff_waiting (fifo_abs c) k = None"
  proof -
    have "cache_get c k \<noteq> None \<or> hm_get (ca_in_flight c) k = None"
      using that by (simp add: abs_get [OF assms])
    from fetch_refines [where mk = mk and fetch = fetch and s = s, OF assms this] show ?thesis by (auto split: prod.split)
  qed
  moreover note join_refines [where k = k and ch = ch, OF assms surjective_pairing]
    invalidate_refines [where mk = mk and key = k, OF assms surjective_pairing]
    invalidate_matching_refines [where mk = mk and P = P, OF assms surjective_pairing]
    clear_refines [where mk = mk, OF assms surjective_pairing]
    insert_if_current_refines [where k = k and v = v and revision = revision, OF assms]
  ultimately show ?thesis
    unfolding abs_get [OF assms] abs_len [OF assms] case_prod_beta by simp
qed

text \<open>Two entries at most: the third displaces the first; a prefix of the values is then invalidated.\<close>

definition demo_fifo :: "(nat, nat) cache" where
  "demo_fifo =
     \<lparr>ca_store = \<lparr>st_entries = [(2, 20), (1, 10)], st_order = [1, 2]\<rparr>, ca_max_entries = Some 2,
      ca_next_token = 3, ca_generation = 4, ca_in_flight = [(9, \<lparr>if_token = 3, if_waiters = [5, 6]\<rparr>)]\<rparr>"

theorem cache_implements_fifo_witness:
  "ff_queue (fifo_abs (insert_if_current 3 30 4 demo_fifo)) = [(2, 20), (3, 30)] \<and>
   ff_queue (fifo_abs (fst (snd (get_or_fetch (\<lambda>_. Network ''x'') 3 (\<lambda>s. (Inr 30, Suc s)) (demo_fifo, 0 :: nat))))) =
     [(2, 20), (3, 30)] \<and>
   set (fst (invalidate (\<lambda>_. Network ''x'') 9 demo_fifo)) = {(5, Inl (Network ''x'')), (6, Inl (Network ''x''))}"
proof -
  have ok: "bounded_ok 2 demo_fifo"
    by (auto simp: bounded_ok_def cache_ok_def store_ok_def demo_fifo_def dom_def split: if_splits)
  have q: "ff_queue (fifo_abs demo_fifo) = [(1, 10), (2, 20)]" "ff_revision (fifo_abs demo_fifo) = 4"
    "ff_waiting (fifo_abs demo_fifo) 9 = Some [5, 6]" "ff_waiting (fifo_abs demo_fifo) 3 = None"
    by (simp_all add: demo_fifo_def fifo_abs_def fifo_of_def)
  have put: "ff_queue (ff_put 2 3 30 (fifo_abs demo_fifo)) = [(2, 20), (3, 30)]"
    using q(1) by (simp add: ff_put_def ff_get_def del: fifo_abs_sel)
  have get: "ff_get (fifo_abs demo_fifo) 3 = None" using q(1) by (simp add: ff_get_def del: fifo_abs_sel)
  note spec = cache_implements_fifo [where mk = "\<lambda>_. Network ''x''" and s = "0 :: nat" and fetch = "\<lambda>s. (Inr 30, Suc s)",
      OF ok, unfolded case_prod_beta]
  have "fifo_abs (insert_if_current 3 30 4 demo_fifo) = ff_insert 2 3 30 4 (fifo_abs demo_fifo)"
    using spec [of _ 3 _ 30 4] by blast
  moreover have "ff_fetch 2 3 (\<lambda>s. (Inr 30, Suc s)) (fifo_abs demo_fifo, 0 :: nat) =
      (fst (get_or_fetch (\<lambda>_. Network ''x'') 3 (\<lambda>s. (Inr 30, Suc s)) (demo_fifo, 0)),
       (fifo_abs (fst (snd (get_or_fetch (\<lambda>_. Network ''x'') 3 (\<lambda>s. (Inr 30, Suc s)) (demo_fifo, 0)))),
        snd (snd (get_or_fetch (\<lambda>_. Network ''x'') 3 (\<lambda>s. (Inr 30, Suc s)) (demo_fifo, 0)))))"
    using spec [of _ 3] q(4) by blast
  moreover have "set (fst (invalidate (\<lambda>_. Network ''x'') 9 demo_fifo)) = ff_cancelled (\<lambda>_. Network ''x'') {9} (fifo_abs demo_fifo)"
    using spec [of _ 9] by blast
  moreover have "ff_cancelled (\<lambda>_. Network ''x'') {9} (fifo_abs demo_fifo) = {(5, Inl (Network ''x'')), (6, Inl (Network ''x''))}"
    using q(3) by (auto simp: ff_cancelled_def simp del: fifo_abs_sel)
  ultimately show ?thesis
    using put get q(2) by (simp add: ff_insert_def ff_fetch_def)
qed

end
