(* ===== verification/Cache_Refinement.thy ===== *)
theory Cache_Refinement
  imports Cache_Concurrency
begin

text \<open>
  The two models of \<open>src/cache_inner.rs\<close> agree: the operations of \<open>Cache_Inner\<close>, which the
  wrappers, encoders and decoders use, are exactly what a task of \<open>Cache_Concurrency\<close> does that
  runs a call from start to end with no other task in between.
\<close>

section \<open>The steps from each point of a call\<close>

lemma from_missed:
  assumes "step mk t s s'" and "sy_pc s t = Missed k" and "table s k = None"
  obtains (Present) v where "cache_get (sy_cache s) k = Some v" "s' = set_pc t (Done k (Inr v)) s"
  | (Lead) token c where "cache_get (sy_cache s) k = None" "join_or_lead k 0 (sy_cache s) = (Leader token, c)"
      "s' = set_pc t (Fetching k token) (set_cache c s)" "take_in_flight k token c = (Some [], c\<lparr>ca_in_flight := hm_del k (ca_in_flight c)\<rparr>)"
  using assms(1)
proof (cases rule: step.cases)
  case (present k' v c)
  then show thesis
    using assms(2) that(1) by (auto simp: sys_updates elim: join_or_lead_cases)
next
  case (lead k' token c)
  then have l: "join_or_lead k (sy_next_chan s) (sy_cache s) = (Leader token, c)" using assms(2) by simp
  from l show thesis
  proof (cases rule: join_or_lead_cases)
    case Leader
    then have "join_or_lead k 0 (sy_cache s) = (Leader token, c)"
      by (simp add: join_or_lead_def cache_get_def Let_def)
    with Leader lead assms(2) that(2) show thesis by (simp add: take_in_flight_def)
  qed simp_all
qed (use assms(2,3) in \<open>auto simp: table_def elim: join_or_lead_cases\<close>)

lemma from_fetching:
  assumes "step mk t s s'" and "sy_pc s t = Fetching k token" and "take_in_flight k token (sy_cache s) = (Some [], c)"
  obtains (Claim) r where "s' = set_pc t (Claimed k r (Some [])) (note_fetched k r (set_cache c s))"
  | (Dropped) "s' = set_pc t (Notifying [] None) (set_cache c s)"
  using assms(1)
  by (cases rule: step.cases) (use assms(2,3) that in \<open>auto simp: leader_guard_drop_def notify_cancelled_def\<close>)

lemma from_claimed:
  assumes "step mk t s s'" and "sy_pc s t = Claimed k r (Some [])"
  shows "s' = set_pc t (Notifying [] (Some (k, fst (store_fetched k r (Some []) (sy_cache s)))))
    (set_cache (snd (store_fetched k r (Some []) (sy_cache s))) s)"
  using assms(1)
  by (cases rule: step.cases) (use assms(2) in \<open>auto simp: outcome_messages_def\<close>)

lemma from_notified:
  assumes "step mk t s s'" and "sy_pc s t = Notifying [] ret"
  shows "s' = set_pc t (case ret of None \<Rightarrow> Idle | Some (k, out) \<Rightarrow> Done k out) s"
  using assms(1) by (cases rule: step.cases) (use assms(2) in auto)

lemma from_done: "step mk t s s' \<Longrightarrow> sy_pc s t = Done k r \<Longrightarrow> s' = set_pc t Idle s"
  by (cases rule: step.cases) auto

section \<open>A call of \<open>get_or_fetch\<close> on its own\<close>

text \<open>Steps of one task that stay inside a call.\<close>

inductive busy_steps :: "('k \<Rightarrow> sreg_error) \<Rightarrow> nat \<Rightarrow> ('k, 'v) sys \<Rightarrow> ('k, 'v) sys \<Rightarrow> bool"
  for mk :: "'k \<Rightarrow> sreg_error" and t :: nat where
  busy_refl [intro]: "busy_steps mk t s s"
| busy_step [intro]: "step mk t s s' \<Longrightarrow> sy_pc s' t \<noteq> Idle \<Longrightarrow> busy_steps mk t s' s'' \<Longrightarrow> busy_steps mk t s s''"

inductive_cases busyE: "busy_steps mk t s s'"

text \<open>From the fast path for key \<open>k\<close> to a state in which the call has returned.\<close>

definition solo_get_or_fetch :: "('k \<Rightarrow> sreg_error) \<Rightarrow> nat \<Rightarrow> 'k \<Rightarrow> ('k, 'v) sys \<Rightarrow> 'v res \<Rightarrow> ('k, 'v) sys \<Rightarrow> bool" where
  "solo_get_or_fetch mk t k s out s' \<longleftrightarrow>
     (\<exists>s1. step mk t s s1 \<and> (sy_pc s1 t = Missed k \<or> (\<exists>v. sy_pc s1 t = Done k (Inr v))) \<and>
       busy_steps mk t s1 s' \<and> sy_pc s' t = Done k out)"

lemma busy_done: "busy_steps mk t s s' \<Longrightarrow> sy_pc s t = Done k r \<Longrightarrow> s' = s"
  by (erule busyE) (auto dest: from_done)

lemma busy_notified:
  assumes "busy_steps mk t s s'" and "sy_pc s t = Notifying [] ret" and "sy_pc s' t = Done k out"
  shows "ret = Some (k, out) \<and> sy_cache s' = sy_cache s"
  using assms(1)
proof (cases rule: busy_steps.cases)
  case (busy_step s1)
  then have "s1 = set_pc t (case ret of None \<Rightarrow> Idle | Some (k, out) \<Rightarrow> Done k out) s"
    using from_notified assms(2) by blast
  moreover have "s' = s1" if "sy_pc s1 t = Done k' out'" for k' out'
    using busy_done [OF busy_step(3)] that by blast
  ultimately show ?thesis
    using busy_step(2) assms(3) by (cases ret) (auto simp: set_pc_def)
qed (use assms in simp)

lemma busy_claimed:
  assumes "busy_steps mk t s s'" and "sy_pc s t = Claimed k' r (Some [])" and "sy_pc s' t = Done k out"
  shows "k' = k \<and> store_fetched k r (Some []) (sy_cache s) = (out, sy_cache s')"
  using assms(1)
proof (cases rule: busy_steps.cases)
  case (busy_step s1)
  note s1 = from_claimed [OF busy_step(1) assms(2)]
  then have "sy_pc s1 t = Notifying [] (Some (k', fst (store_fetched k' r (Some []) (sy_cache s))))"
    and "sy_cache s1 = snd (store_fetched k' r (Some []) (sy_cache s))"
    by (simp_all add: sys_updates)
  with busy_notified [OF busy_step(3) _ assms(3)] show ?thesis by (auto simp: prod_eq_iff)
qed (use assms in simp)

lemma busy_fetching:
  assumes "busy_steps mk t s s'" and "sy_pc s t = Fetching k' token" and "sy_pc s' t = Done k out"
    and "take_in_flight k' token (sy_cache s) = (Some [], c)"
  shows "k' = k \<and> (\<exists>r. store_fetched k r (Some []) c = (out, sy_cache s'))"
  using assms(1)
proof (cases rule: busy_steps.cases)
  case (busy_step s1)
  from busy_step(1) assms(2,4) show ?thesis
  proof (cases rule: from_fetching)
    case (Claim r)
    then have "sy_pc s1 t = Claimed k' r (Some [])" "sy_cache s1 = c" by (simp_all add: sys_updates)
    with busy_claimed [OF busy_step(3) _ assms(3)] show ?thesis by auto
  next
    case Dropped
    then have "sy_pc s1 t = Notifying [] None" by simp
    with busy_notified [OF busy_step(3) _ assms(3)] show ?thesis by simp
  qed
qed (use assms in simp)

lemma busy_missed:
  assumes "busy_steps mk t s s'" and "sy_pc s t = Missed k" and "table s k = None" and "sy_pc s' t = Done k out"
  shows "(cache_get (sy_cache s) k = Some v \<longrightarrow> out = Inr v \<and> sy_cache s' = sy_cache s) \<and>
    (cache_get (sy_cache s) k = None \<longrightarrow>
      (\<exists>token c r. join_or_lead k 0 (sy_cache s) = (Leader token, c) \<and>
        take_in_flight k token c = (Some [], c\<lparr>ca_in_flight := hm_del k (ca_in_flight c)\<rparr>) \<and>
        store_fetched k r (Some []) (c\<lparr>ca_in_flight := hm_del k (ca_in_flight c)\<rparr>) = (out, sy_cache s')))"
  using assms(1)
proof (cases rule: busy_steps.cases)
  case (busy_step s1)
  from busy_step(1) assms(2,3) show ?thesis
  proof (cases rule: from_missed)
    case (Present w)
    then have "s' = s1" using busy_done [OF busy_step(3)] by simp
    with Present assms(4) show ?thesis by (auto simp: sys_updates)
  next
    case (Lead token c)
    then have "sy_pc s1 t = Fetching k token" "sy_cache s1 = c" by (simp_all add: sys_updates)
    with busy_fetching [OF busy_step(3) _ assms(4)] Lead show ?thesis by auto
  qed
qed (use assms in simp)

lemma get_or_fetch_Leader:
  assumes "cache_get c k = None" "join_or_lead k 0 c = (Leader token, c1)" "take_in_flight k token c1 = (Some [], c2)"
  shows "get_or_fetch mk k (\<lambda>w. (r, w)) (c, w) =
    (fst (store_fetched k r (Some []) c2), (snd (store_fetched k r (Some []) c2), w))"
  using assms by (simp add: get_or_fetch_def case_prod_beta)

lemma get_or_fetch_table:
  assumes "table s k = None" and "cache_get (sy_cache s) k = None"
  obtains token c where "join_or_lead k ch (sy_cache s) = (Leader token, c)"
    "take_in_flight k token c = (Some [], c\<lparr>ca_in_flight := hm_del k (ca_in_flight c)\<rparr>)"
  using assms by (simp add: table_def join_or_lead_def cache_get_def take_in_flight_def Let_def)

lemma solo_exists:
  assumes "sy_pc s t = Idle" and "table s k = None"
    and "get_or_fetch mk k (\<lambda>w. (r, w)) (sy_cache s, w) = (out, (c', w))"
  shows "\<exists>s'. solo_get_or_fetch mk t k s out s' \<and> sy_cache s' = c'"
proof (cases "cache_get (sy_cache s) k")
  case (Some v)
  let ?s1 = "set_pc t (Done k (Inr v)) s"
  have "step mk t s ?s1" by (rule fast_hit [OF assms(1) Some])
  moreover have "out = Inr v" "c' = sy_cache s" using assms(3) by (simp_all add: get_or_fetch_hit [OF Some])
  ultimately show ?thesis
    unfolding solo_get_or_fetch_def by (intro exI [of _ ?s1] conjI) (auto simp: sys_updates)
next
  case None
  obtain token c where lead: "join_or_lead k (sy_next_chan s) (sy_cache s) = (Leader token, c)"
    and take: "take_in_flight k token c = (Some [], c\<lparr>ca_in_flight := hm_del k (ca_in_flight c)\<rparr>)"
    using get_or_fetch_table [OF assms(2) None] by blast
  have lead0: "join_or_lead k 0 (sy_cache s) = (Leader token, c)"
    using lead assms(2) None by (auto simp: join_or_lead_def cache_get_def table_def Let_def)
  let ?c2 = "c\<lparr>ca_in_flight := hm_del k (ca_in_flight c)\<rparr>"
  have fetched: "store_fetched k r (Some []) ?c2 = (out, c')"
    using assms(3) by (simp add: get_or_fetch_Leader [OF None lead0 take] prod_eq_iff)
  let ?s1 = "set_pc t (Missed k) s"
  let ?s2 = "set_pc t (Fetching k token) (set_cache c ?s1)"
  let ?s3 = "set_pc t (Claimed k r (Some [])) (note_fetched k r (set_cache ?c2 ?s2))"
  let ?s4 = "set_pc t (Notifying (outcome_messages (Some []) out) (Some (k, out))) (set_cache c' ?s3)"
  let ?s5 = "set_pc t (Done k out) ?s4"
  have st1: "step mk t s ?s1" by (rule fast_miss [OF assms(1) None])
  have st2: "step mk t ?s1 ?s2" by (rule step.lead) (use lead in \<open>simp_all add: sys_updates\<close>)
  have st3: "step mk t ?s2 ?s3" by (rule claim) (use take in \<open>simp_all add: sys_updates\<close>)
  have st4: "step mk t ?s3 ?s4" by (rule store) (use fetched in \<open>simp_all add: sys_updates\<close>)
  have st5: "step mk t ?s4 ?s5" by (rule sent_result) (simp add: outcome_messages_def)
  have "busy_steps mk t ?s1 ?s5"
    by (rule busy_step [OF st2 _ busy_step [OF st3 _ busy_step [OF st4 _ busy_step [OF st5 _ busy_refl]]]]) simp_all
  with st1 show ?thesis
    unfolding solo_get_or_fetch_def by (intro exI [of _ ?s5] conjI exI [of _ ?s1]) (simp_all add: sys_updates)
qed

lemma solo_is_get_or_fetch:
  assumes "sy_pc s t = Idle" and "table s k = None" and "solo_get_or_fetch mk t k s out s'"
  shows "\<exists>r. get_or_fetch mk k (\<lambda>w. (r, w)) (sy_cache s, w) = (out, (sy_cache s', w))"
proof -
  obtain s1 where s1: "step mk t s s1" "sy_pc s1 t = Missed k \<or> (\<exists>v. sy_pc s1 t = Done k (Inr v))"
      "busy_steps mk t s1 s'" "sy_pc s' t = Done k out"
    using assms(3) unfolding solo_get_or_fetch_def by blast
  from s1(2) show ?thesis
  proof
    assume m: "sy_pc s1 t = Missed k"
    with s1(1) assms(1) have same: "sy_cache s1 = sy_cache s" and none: "cache_get (sy_cache s) k = None"
      by (auto elim!: step.cases simp: sys_updates)
    then have "table s1 k = None" using assms(2) by (simp add: table_def)
    from busy_missed [OF s1(3) m this s1(4)] none show ?thesis
      unfolding same using get_or_fetch_Leader by (metis fst_conv snd_conv)
  next
    assume "\<exists>v. sy_pc s1 t = Done k (Inr v)"
    then obtain v where d: "sy_pc s1 t = Done k (Inr v)" by blast
    with s1(1) assms(1) have "sy_cache s1 = sy_cache s" and hit: "cache_get (sy_cache s) k = Some v"
      by (auto elim!: step.cases simp: sys_updates)
    with busy_done [OF s1(3) d] d s1(4) show ?thesis by (simp add: get_or_fetch_hit [OF hit])
  qed
qed

section \<open>Invalidations on their own\<close>

text \<open>Sending, one message after the other.\<close>

definition deliver_all :: "(nat \<times> 'v res) list \<Rightarrow> (nat \<Rightarrow> 'v res option) \<Rightarrow> nat \<Rightarrow> 'v res option" where
  "deliver_all ms chan = fold (\<lambda>(ch, m) f. f(ch \<mapsto> m)) ms chan"

lemma task_steps_step: "task_steps mk t s s' \<Longrightarrow> step mk t s' s'' \<Longrightarrow> task_steps mk t s s''"
  by (induction rule: task_steps.induct) (auto intro: task_steps.intros)

lemma send_all:
  assumes "sy_pc s t = Notifying ms None"
  shows "\<exists>s'. task_steps mk t s s' \<and> sy_pc s' t = Idle \<and> sy_cache s' = sy_cache s \<and>
    sy_chan s' = deliver_all ms (sy_chan s)"
  using assms
proof (induction ms arbitrary: s)
  case Nil
  then have "step mk t s (set_pc t Idle s)" by (rule sent)
  then show ?case
    by (intro exI [of _ "set_pc t Idle s"]) (auto simp: deliver_all_def set_pc_def intro: task_steps.intros)
next
  case (Cons msg ms)
  obtain ch m where msg: "msg = (ch, m)" by fastforce
  let ?s = "set_pc t (Notifying ms None) (deliver ch m s)"
  have "step mk t s ?s" using Cons.prems unfolding msg by (rule send)
  moreover obtain s' where "task_steps mk t ?s s'" "sy_pc s' t = Idle" "sy_cache s' = sy_cache ?s"
      "sy_chan s' = deliver_all ms (sy_chan ?s)"
    using Cons.IH [of ?s] by auto
  ultimately show ?case
    by (intro exI [of _ s']) (auto simp: deliver_all_def msg sys_updates intro: task_step)
qed

lemma solo_notifies:
  assumes "task_steps mk t s s1" and "sy_pc s1 t = Notifying ms None" and "sy_cache s1 = c" and "sy_chan s1 = sy_chan s"
  shows "\<exists>s'. task_steps mk t s s' \<and> sy_pc s' t = Idle \<and> sy_cache s' = c \<and> sy_chan s' = deliver_all ms (sy_chan s)"
proof -
  obtain s' where "task_steps mk t s1 s'" "sy_pc s' t = Idle" "sy_cache s' = c" "sy_chan s' = deliver_all ms (sy_chan s)"
    using send_all [OF assms(2)] assms(3,4) by metis
  moreover have "task_steps mk t s s'" using assms(1) calculation(1)
    by (induction rule: task_steps.induct) (auto intro: task_step)
  ultimately show ?thesis by blast
qed

lemma solo_invalidate:
  assumes "sy_pc s t = Idle"
  shows "\<exists>s'. task_steps mk t s s' \<and> sy_pc s' t = Idle \<and> sy_cache s' = snd (invalidate mk k (sy_cache s)) \<and>
    sy_chan s' = deliver_all (fst (invalidate mk k (sy_cache s))) (sy_chan s)"
proof -
  obtain ws c where rm: "remove_in_flight k (bump_generation (sy_cache s)) = (ws, c)" by fastforce
  let ?s1 = "set_pc t (Invalidating k) (set_cache (bump_generation (sy_cache s)) s)"
  let ?s2 = "set_pc t (Slot_Removed k ws) (set_cache c ?s1)"
  let ?s3 = "set_pc t (Notifying (notify_cancelled mk k ws) None) (set_store (store_remove k (ca_store (sy_cache ?s2))) ?s2)"
  have "step mk t s ?s1" by (rule inv_bump [OF assms])
  moreover have "step mk t ?s1 ?s2" by (rule inv_slot) (use rm in \<open>simp_all add: sys_updates\<close>)
  moreover have "step mk t ?s2 ?s3" by (rule inv_store) simp
  ultimately have "task_steps mk t s ?s3" by (meson task_refl task_step)
  then show ?thesis
    by (rule solo_notifies) (simp_all add: sys_updates invalidate_def rm)
qed

lemma solo_clear:
  assumes "sy_pc s t = Idle"
  shows "\<exists>s'. task_steps mk t s s' \<and> sy_pc s' t = Idle \<and> sy_cache s' = snd (clear mk (sy_cache s)) \<and>
    sy_chan s' = deliver_all (fst (clear mk (sy_cache s))) (sy_chan s)"
proof -
  obtain kws c where dr: "drain_in_flight (bump_generation (sy_cache s)) = (kws, c)" by fastforce
  let ?s1 = "set_pc t Clearing (set_cache (bump_generation (sy_cache s)) s)"
  let ?s2 = "set_pc t (Slots_Drained kws) (set_cache c ?s1)"
  let ?s3 = "set_pc t (Notifying (notify_all_cancelled mk kws) None) (set_store (store_clear (ca_store (sy_cache ?s2))) ?s2)"
  have "step mk t s ?s1" by (rule clr_bump [OF assms])
  moreover have "step mk t ?s1 ?s2" by (rule clr_slots) (use dr in \<open>simp_all add: sys_updates\<close>)
  moreover have "step mk t ?s2 ?s3" by (rule clr_store) simp
  ultimately have "task_steps mk t s ?s3" by (meson task_refl task_step)
  then show ?thesis
    by (rule solo_notifies) (simp_all add: sys_updates clear_def dr)
qed

lemma solo_invalidate_matching:
  assumes "sy_pc s t = Idle"
  shows "\<exists>s'. task_steps mk t s s' \<and> sy_pc s' t = Idle \<and> sy_cache s' = snd (invalidate_matching mk P (sy_cache s)) \<and>
    sy_chan s' = deliver_all (fst (invalidate_matching mk P (sy_cache s))) (sy_chan s)"
proof -
  let ?c1 = "bump_generation (sy_cache s)"
  let ?s1 = "set_pc t (Matching P) (set_cache ?c1 s)"
  have s1: "step mk t s ?s1" by (rule mat_bump [OF assms])
  show ?thesis
  proof (cases "doomed_keys P (ca_store ?c1) = []")
    case True
    then have "step mk t ?s1 (set_pc t Idle ?s1)" by (intro mat_none) (simp_all add: sys_updates)
    with s1 have "task_steps mk t s (set_pc t Idle ?s1)" by (meson task_refl task_step)
    then show ?thesis
      using True by (intro exI [of _ "set_pc t Idle ?s1"]) (simp add: sys_updates invalidate_matching_def deliver_all_def)
  next
    case False
    let ?ks = "doomed_keys P (ca_store ?c1)"
    let ?c2 = "?c1\<lparr>ca_store := remove_doomed ?ks (ca_store ?c1)\<rparr>"
    obtain kws c where rm: "remove_all_in_flight ?ks ?c2 = (kws, c)" by fastforce
    let ?s2 = "set_pc t (Matched ?ks) (set_store (remove_doomed ?ks (ca_store (sy_cache ?s1))) ?s1)"
    let ?s3 = "set_pc t (Notifying (notify_all_cancelled mk kws) None) (set_cache c ?s2)"
    have "step mk t ?s1 ?s2" by (rule mat_store) (use False in \<open>simp_all add: sys_updates\<close>)
    moreover have "step mk t ?s2 ?s3" by (rule mat_slots) (use rm in \<open>simp_all add: sys_updates\<close>)
    ultimately have "task_steps mk t s ?s3" using s1 by (meson task_refl task_step)
    then show ?thesis
      by (rule solo_notifies) (simp_all add: sys_updates invalidate_matching_def rm False Let_def)
  qed
qed

section \<open>Properties\<close>

text \<open>
  The sequential operations are the concurrent ones without interference. For an idle task and
  a key that no one is fetching, the results and caches a solo call of \<open>get_or_fetch\<close> can end with
  are exactly those of the function, one for each answer of the backend; and every invalidation
  can be run by the task alone, to the cache and with the messages of its function.
\<close>

theorem sequential_operations_refined:
  assumes "sy_pc s t = Idle" and "table s k = None"
  shows "((\<exists>s'. solo_get_or_fetch mk t k s out s' \<and> sy_cache s' = c) \<longleftrightarrow>
      (\<exists>r. get_or_fetch mk k (\<lambda>w. (r, w)) (sy_cache s, w) = (out, (c, w)))) \<and>
    (\<forall>op \<in> {invalidate mk k', clear mk, invalidate_matching mk P}. \<exists>s'. task_steps mk t s s' \<and> sy_pc s' t = Idle \<and>
      sy_cache s' = snd (op (sy_cache s)) \<and> sy_chan s' = deliver_all (fst (op (sy_cache s))) (sy_chan s))"
proof (intro conjI)
  show "(\<exists>s'. solo_get_or_fetch mk t k s out s' \<and> sy_cache s' = c) \<longleftrightarrow>
      (\<exists>r. get_or_fetch mk k (\<lambda>w. (r, w)) (sy_cache s, w) = (out, (c, w)))"
    using solo_exists [OF assms] solo_is_get_or_fetch [OF assms] by metis
qed (use solo_invalidate [OF assms(1)] solo_clear [OF assms(1)] solo_invalidate_matching [OF assms(1)] in auto)

theorem sequential_operations_refined_witness:
  "(\<exists>s'. solo_get_or_fetch demo_error 1 7 (sys_init (Some 2)) (Inr (42 :: nat)) s' \<and> cache_get (sy_cache s') 7 = Some 42) \<and>
   \<not> (\<exists>s'. solo_get_or_fetch demo_error 1 7 (sys_init (Some 2)) (Inr (42 :: nat)) s' \<and> sy_cache s' = cache_new (Some 2))"
proof -
  let ?s = "sys_init (Some 2) :: (nat, nat) sys"
  have idle: "sy_pc ?s 1 = Idle" "table ?s 7 = None" by (simp_all add: sys_init_def table_def cache_new_def)
  define c where "c = fst (snd (get_or_fetch demo_error 7 (\<lambda>w. (Inr (42 :: nat), w)) (cache_new (Some 2), ())))"
  note eval = get_or_fetch_def cache_get_def join_or_lead_def take_in_flight_def store_fetched_def insert_locked_def
    cache_new_def Let_def
  have "get_or_fetch demo_error 7 (\<lambda>w. (Inr (42 :: nat), w)) (sy_cache ?s, ()) = (Inr 42, (c, ()))"
    and c: "cache_get c 7 = Some 42"
    by (simp_all add: c_def eval sys_init_def)
  moreover have "get_or_fetch demo_error 7 (\<lambda>w. (r, w)) (sy_cache ?s, ()) \<noteq> (Inr (42 :: nat), (cache_new (Some 2), ()))" for r
    by (cases r) (simp_all add: eval sys_init_def)
  ultimately show ?thesis
    using sequential_operations_refined [OF idle, of demo_error "Inr 42" c "()" 0 "\<lambda>_. True"]
      sequential_operations_refined [OF idle, of demo_error "Inr 42" "cache_new (Some 2)" "()" 0 "\<lambda>_. True"]
    by (metis c)
qed

end
