(* ===== verification/Managed_Cache.thy ===== *)
theory Managed_Cache
  imports Cached_Registry
begin

text \<open>
  The management interface of the two caching wrappers: the trait \<open>AnySchemaCache\<close>
  (\<open>src/traits.rs\<close>) as a record of its methods, its implementations in \<open>src/cache.rs\<close> and
  \<open>src/glue/mod.rs\<close>, and the locale \<open>managed_cache\<close>, which both interpret.
\<close>

section \<open>The rest of the wrappers' own methods\<close>

definition cached_invalidate_all :: "cached_registry \<Rightarrow> cached_registry" where
  "cached_invalidate_all c = clear_cache c"

definition glue_new :: glue_cache where
  "glue_new = glue_with_max_entries DEFAULT_MAX_GLUE_CACHE_ENTRIES"

definition glue_cache_len :: "glue_cache \<Rightarrow> nat" where
  "glue_cache_len c = cache_len c"

definition glue_cache_is_empty :: "glue_cache \<Rightarrow> bool" where
  "glue_cache_is_empty c \<longleftrightarrow> cache_is_empty c"

definition glue_invalidate_all :: "glue_cache \<Rightarrow> glue_cache" where
  "glue_invalidate_all c = snd (clear glue_schema_lookup_cancelled_error c)"

definition glue_any_cache_warm ::
    "(glue_version_id list \<Rightarrow> glue_version_id list) \<Rightarrow> 's glue_registry \<Rightarrow> glue_version_id list \<Rightarrow> (glue_cache \<times> 's, unit) io" where
  "glue_any_cache_warm hash_order inner ids cs =
     (case glue_warm_cache hash_order inner ids cs of
        (Inl failures, cs') \<Rightarrow> (Inl (InvalidState (Cancel (WarmCacheFailed (length failures)))), cs')
      | (Inr u, cs') \<Rightarrow> (Inr u, cs'))"

section \<open>The trait\<close>

record ('i, 'c, 's) any_schema_cache =
  as_cache_len :: "'c \<Rightarrow> nat"
  as_cache_is_empty :: "'c \<Rightarrow> bool"
  as_clear_cache :: "'c \<Rightarrow> 'c"
  as_invalidate :: "'i \<Rightarrow> 'c \<Rightarrow> 'c"
  as_invalidate_all :: "'c \<Rightarrow> 'c"
  as_warm_cache :: "'i list \<Rightarrow> ('c \<times> 's, unit) io"

definition cached_any_cache ::
    "(schema_id list \<Rightarrow> schema_id list) \<Rightarrow> 's registry \<Rightarrow> (schema_id, cached_registry, 's) any_schema_cache" where
  "cached_any_cache hash_order inner =
     \<lparr>as_cache_len = cached_len, as_cache_is_empty = cached_is_empty, as_clear_cache = clear_cache,
      as_invalidate = invalidate_id, as_invalidate_all = cached_invalidate_all,
      as_warm_cache = any_cache_warm hash_order inner\<rparr>"

definition glue_any_cache ::
    "(glue_version_id list \<Rightarrow> glue_version_id list) \<Rightarrow> 's glue_registry \<Rightarrow>
     (glue_version_id, glue_cache, 's) any_schema_cache" where
  "glue_any_cache hash_order inner =
     \<lparr>as_cache_len = glue_cache_len, as_cache_is_empty = glue_cache_is_empty, as_clear_cache = glue_clear_cache,
      as_invalidate = glue_invalidate, as_invalidate_all = glue_invalidate_all,
      as_warm_cache = glue_any_cache_warm hash_order inner\<rparr>"

section \<open>The contract\<close>

text \<open>
  \<open>look\<close> is what the cache holds, \<open>room\<close> its bound, \<open>valid\<close> the invariant of a cache no fetch
  is running in. The contract says what each method does to the entries.
\<close>

locale managed_cache =
  fixes cc :: "('i, 'c, 's) any_schema_cache"
    and look :: "'c \<Rightarrow> 'i \<Rightarrow> 'v option"
    and room :: "'c \<Rightarrow> nat"
    and valid :: "'c \<Rightarrow> bool"
  assumes clear: "valid c \<Longrightarrow> valid (as_clear_cache cc c) \<and> look (as_clear_cache cc c) = (\<lambda>_. None) \<and>
      room (as_clear_cache cc c) = room c"
    and invalidate_all: "as_invalidate_all cc c = as_clear_cache cc c"
    and invalidate: "valid c \<Longrightarrow> valid (as_invalidate cc i c) \<and> look (as_invalidate cc i c) = (look c)(i := None) \<and>
      room (as_invalidate cc i c) = room c"
    and len: "valid c \<Longrightarrow> as_cache_len cc c = card (dom (look c)) \<and> finite (dom (look c))"
    and empty: "valid c \<Longrightarrow> as_cache_is_empty cc c \<Longrightarrow> look c = (\<lambda>_. None)"
    and warm: "valid c \<Longrightarrow> as_cache_len cc c + card (set ids) \<le> room c \<Longrightarrow>
      as_warm_cache cc ids (c, s) = (Inr (), (c', s')) \<Longrightarrow>
      valid c' \<and> room c' = room c \<and> dom (look c') = dom (look c) \<union> set ids \<and> (\<forall>i. i \<notin> set ids \<longrightarrow> look c' i = look c i)"
begin

lemma clear_len: "valid c \<Longrightarrow> as_cache_len cc (as_clear_cache cc c) = 0"
  using clear [of c] len [of "as_clear_cache cc c"] by simp

lemma invalidate_len:
  assumes "valid c"
  shows "as_cache_len cc (as_invalidate cc i c) = as_cache_len cc c - (if look c i = None then 0 else 1)"
  using invalidate [OF assms, of i] len [OF assms] len [of "as_invalidate cc i c"] assms by (auto simp: domIff)

text \<open>A cleared cache that warms some identifiers without an error holds just those.\<close>

lemma session:
  assumes "valid c" and "card (set ids) \<le> room c"
    and "as_warm_cache cc ids (as_invalidate_all cc c, s) = (Inr (), (c', s'))" and "i \<in> set ids"
  shows "dom (look c') = set ids \<and> as_cache_len cc c' = card (set ids) \<and>
    dom (look (as_invalidate cc i c')) = set ids - {i} \<and>
    as_cache_len cc (as_invalidate cc i c') = card (set ids) - 1 \<and>
    (as_cache_is_empty cc (as_invalidate cc i c') \<longrightarrow> set ids = {i})"
proof -
  have cl: "valid (as_clear_cache cc c)" "look (as_clear_cache cc c) = (\<lambda>_. None)" "room (as_clear_cache cc c) = room c"
    using clear [OF assms(1)] by auto
  have w: "valid c'" "dom (look c') = set ids"
    using warm [OF cl(1) _ assms(3) [unfolded invalidate_all]] cl clear_len [OF assms(1)] assms(2) by auto
  note inv = invalidate [OF w(1), of i]
  have one: "dom (look (as_invalidate cc i c')) = set ids - {i}" using inv w(2) by auto
  moreover have "as_cache_len cc c' = card (set ids)" using len [OF w(1)] w(2) by simp
  moreover have "as_cache_len cc (as_invalidate cc i c') = card (set ids) - 1"
    using len [of "as_invalidate cc i c'"] inv one assms(4) by simp
  moreover have "set ids = {i}" if "as_cache_is_empty cc (as_invalidate cc i c')"
    using empty [of "as_invalidate cc i c'"] inv that one assms(4) by auto
  ultimately show ?thesis using w by blast
qed

end

section \<open>Both wrappers keep it\<close>

definition room_of :: "('k, 'v) cache \<Rightarrow> nat" where
  "room_of c = (case ca_max_entries c of Some mx \<Rightarrow> mx | None \<Rightarrow> 0)"

definition bounded_idle :: "('k, 'v) cache \<Rightarrow> bool" where
  "bounded_idle c \<longleftrightarrow> cache_idle c \<and> ca_max_entries c \<noteq> None"

text \<open>A hash set gives its elements in some order, each once.\<close>

definition hash_set_order :: "('k list \<Rightarrow> 'k list) \<Rightarrow> bool" where
  "hash_set_order hash_order \<longleftrightarrow> (\<forall>ks. distinct ks \<longrightarrow> set (hash_order ks) = set ks \<and> distinct (hash_order ks))"

lemma bounded_idle_clear:
  "bounded_idle c \<Longrightarrow> bounded_idle (snd (clear mk c)) \<and> cache_get (snd (clear mk c)) = (\<lambda>_. None) \<and>
     room_of (snd (clear mk c)) = room_of c"
  using idle_clear [of c mk]
  by (auto simp: bounded_idle_def room_of_def clear_get fun_eq_iff)
    (auto simp: clear_def drain_in_flight_def bump_generation_def Let_def)

lemma bounded_idle_invalidate:
  "bounded_idle c \<Longrightarrow> bounded_idle (snd (invalidate mk k c)) \<and>
     cache_get (snd (invalidate mk k c)) = (cache_get c)(k := None) \<and> room_of (snd (invalidate mk k c)) = room_of c"
  using idle_invalidate [of c mk k]
  by (auto simp: bounded_idle_def room_of_def invalidate_get fun_eq_iff)
    (auto simp: invalidate_def remove_in_flight_def bump_generation_def Let_def)

lemma cache_len_card: "cache_idle c \<Longrightarrow> cache_len c = card (dom (cache_get c)) \<and> finite (dom (cache_get c))"
proof -
  assume "cache_idle c"
  then have "hm_wf (st_entries (ca_store c))" by (simp add: cache_idle_def cache_ok_def store_ok_def)
  then have "cache_len c = card (dom (hm_get (st_entries (ca_store c))))" by (simp add: cache_len_def hm.len_keys)
  moreover have "cache_get c = hm_get (st_entries (ca_store c))" by (simp add: cache_get_def fun_eq_iff)
  ultimately show ?thesis using hm.finite_keys by simp
qed

lemma warm_each_idle:
  assumes "bounded_idle c" and "warm_each mk fetch ks (c, s) = (fs, (c', s'))"
  shows "bounded_idle c' \<and> room_of c' = room_of c"
  using assms
proof (induction ks arbitrary: c s fs)
  case (Cons k ks)
  obtain r c1 s1 where f: "get_or_fetch mk k (fetch k) (c, s) = (r, (c1, s1))" by (metis surj_pair)
  have "cache_idle c" using Cons.prems(1) by (simp add: bounded_idle_def)
  from this f have "cache_idle c1" by (cases rule: fc.fetch_cases) (simp_all add: \<open>cache_idle c\<close>)
  moreover have "ca_max_entries c1 = ca_max_entries c"
    using f by (auto simp: get_or_fetch_def join_or_lead_def take_in_flight_def store_fetched_def Let_def
        split: option.splits role.splits prod.splits sum.splits if_splits)
  ultimately have "bounded_idle c1" "room_of c1 = room_of c"
    using Cons.prems(1) by (simp_all add: bounded_idle_def room_of_def)
  moreover have "\<exists>fs'. warm_each mk fetch ks (c1, s1) = (fs', (c', s'))"
    using Cons.prems(2) f by (auto simp: case_prod_beta Let_def prod_eq_iff split: sum.splits)
  ultimately show ?case using Cons.IH by metis
qed simp

text \<open>A warm without a reported failure, over any cache with room.\<close>

lemma warm_all:
  assumes "bounded_idle c" and "cache_len c + length ks \<le> room_of c" and "distinct ks"
    and "warm_each mk fetch ks (c, s) = ([], (c', s'))"
  shows "bounded_idle c' \<and> room_of c' = room_of c \<and> dom (cache_get c') = dom (cache_get c) \<union> set ks \<and>
    (\<forall>k. k \<notin> set ks \<longrightarrow> cache_get c' k = cache_get c k)"
proof -
  obtain mx where mx: "ca_max_entries c = Some mx" "room_of c = mx"
    using assms(1) by (auto simp: bounded_idle_def room_of_def)
  have "cache_idle c" using assms(1) by (simp add: bounded_idle_def)
  from warm_each_complete [OF this mx(1) _ assms(3,4)] assms(2) mx(2)
  have "\<forall>k \<in> set ks. cache_get c' k \<noteq> None" "\<forall>k. k \<notin> set ks \<longrightarrow> cache_get c' k = cache_get c k" by auto
  then have "k \<in> dom (cache_get c') \<longleftrightarrow> k \<in> dom (cache_get c) \<union> set ks" for k by (cases "k \<in> set ks") auto
  with warm_each_idle [OF assms(1,4)] \<open>\<forall>k. k \<notin> set ks \<longrightarrow> cache_get c' k = cache_get c k\<close> show ?thesis by blast
qed

lemma hash_set_length:
  assumes "hash_set_order hash_order"
  shows "set (hash_order (remdups ks)) = set ks" "distinct (hash_order (remdups ks))"
    "length (hash_order (remdups ks)) = card (set ks)"
  using assms distinct_remdups [of ks] distinct_card [of "hash_order (remdups ks)"] by (auto simp: hash_set_order_def)

text \<open>An order that is made one of a hash set; those of hash sets are left as they are.\<close>

definition as_hash_order :: "('k list \<Rightarrow> 'k list) \<Rightarrow> 'k list \<Rightarrow> 'k list" where
  "as_hash_order ho ks = (if set (ho ks) = set ks \<and> distinct (ho ks) then ho ks else remdups ks)"

lemma as_hash_order [simp]: "hash_set_order (as_hash_order ho)"
  by (simp add: hash_set_order_def as_hash_order_def)

lemma as_hash_order_id: "hash_set_order ho \<Longrightarrow> as_hash_order ho (remdups ks) = ho (remdups ks)"
  by (simp add: hash_set_order_def as_hash_order_def)

interpretation glue_mc: managed_cache "glue_any_cache (as_hash_order ho) inner" cache_get room_of bounded_idle
  for ho :: "glue_version_id list \<Rightarrow> glue_version_id list" and inner :: "'s glue_registry"
proof unfold_locales
  fix c c' :: glue_cache and ids :: "glue_version_id list" and s s' :: 's
  assume valid: "bounded_idle c" and fits: "as_cache_len (glue_any_cache (as_hash_order ho) inner) c + card (set ids) \<le> room_of c"
    and w: "as_warm_cache (glue_any_cache (as_hash_order ho) inner) ids (c, s) = (Inr (), (c', s'))"
  let ?ks = "as_hash_order ho (remdups ids)"
  note ks = hash_set_length [OF as_hash_order, of ho ids]
  show "bounded_idle c' \<and> room_of c' = room_of c \<and> dom (cache_get c') = dom (cache_get c) \<union> set ids \<and>
      (\<forall>i. i \<notin> set ids \<longrightarrow> cache_get c' i = cache_get c i)"
  proof (cases "?ks = []")
    case True
    then show ?thesis using w valid ks(1)
      by (simp add: glue_any_cache_def glue_any_cache_warm_def glue_warm_cache_def Let_def)
  next
    case False
    then have "warm_each glue_schema_lookup_cancelled_error (gr_get_schema_by_version_id inner) ?ks (c, s) = ([], (c', s'))"
      using w by (auto simp: glue_any_cache_def glue_any_cache_warm_def glue_warm_cache_def Let_def
          split: prod.splits if_splits)
    from warm_all [OF valid _ ks(2) this] fits show ?thesis
      by (simp add: ks glue_any_cache_def glue_cache_len_def)
  qed
qed (simp_all add: glue_any_cache_def glue_clear_cache_def glue_invalidate_all_def glue_invalidate_def
    glue_cache_len_def glue_cache_is_empty_def bounded_idle_clear bounded_idle_invalidate fun_eq_iff,
   simp_all add: bounded_idle_def cache_len_card cache_is_empty_def cache_get_def)

definition id_look :: "cached_registry \<Rightarrow> schema_id \<Rightarrow> schema option" where
  "id_look c = cache_get (cr_cache c)"

definition id_room :: "cached_registry \<Rightarrow> nat" where
  "id_room c = room_of (cr_cache c)"

definition id_valid :: "cached_registry \<Rightarrow> bool" where
  "id_valid c \<longleftrightarrow> bounded_idle (cr_cache c)"

interpretation id_mc: managed_cache "cached_any_cache (as_hash_order ho) inner" id_look id_room id_valid
  for ho :: "schema_id list \<Rightarrow> schema_id list" and inner :: "'s registry"
proof unfold_locales
  fix c c' :: cached_registry and ids :: "schema_id list" and s s' :: 's
  assume valid: "id_valid c" and fits: "as_cache_len (cached_any_cache (as_hash_order ho) inner) c + card (set ids) \<le> id_room c"
    and w: "as_warm_cache (cached_any_cache (as_hash_order ho) inner) ids (c, s) = (Inr (), (c', s'))"
  let ?ks = "as_hash_order ho (remdups ids)"
  note ks = hash_set_length [OF as_hash_order, of ho ids]
  show "id_valid c' \<and> id_room c' = id_room c \<and> dom (id_look c') = dom (id_look c) \<union> set ids \<and>
      (\<forall>i. i \<notin> set ids \<longrightarrow> id_look c' i = id_look c i)"
  proof (cases "?ks = []")
    case True
    then show ?thesis using w valid ks(1)
      by (simp add: cached_any_cache_def any_cache_warm_def warm_cache_def Let_def)
  next
    case False
    then have "warm_each schema_lookup_cancelled_error (rg_get_schema_by_id inner) ?ks (cr_cache c, s) = ([], (cr_cache c', s'))"
      using w by (auto simp: cached_any_cache_def any_cache_warm_def warm_cache_def Let_def
          split: prod.splits if_splits)
    from warm_all [OF _ _ ks(2) this] fits valid show ?thesis
      by (simp add: ks cached_any_cache_def cached_len_def id_look_def id_room_def id_valid_def)
  qed
qed (simp_all add: cached_any_cache_def cached_invalidate_all_def clear_cache_def invalidate_id_def id_look_def
    id_room_def id_valid_def cached_len_def cached_is_empty_def bounded_idle_clear bounded_idle_invalidate fun_eq_iff,
   simp_all add: bounded_idle_def cache_len_card cache_is_empty_def cache_get_def)

lemma any_cache_warm_order:
  "hash_set_order ho \<Longrightarrow> any_cache_warm (as_hash_order ho) inner ids = any_cache_warm ho inner ids"
  "hash_set_order ho' \<Longrightarrow> glue_any_cache_warm (as_hash_order ho') inner' ids' = glue_any_cache_warm ho' inner' ids'"
  by (simp_all add: any_cache_warm_def warm_cache_def glue_any_cache_warm_def glue_warm_cache_def as_hash_order_id fun_eq_iff)

section \<open>Properties\<close>

text \<open>
  Managing a cache. Invalidating everything and then warming identifiers that fit, without a
  reported failure and in any order of the hash set, leaves exactly those identifiers in the
  cache, each counted once; invalidating one of them then leaves exactly the others.
\<close>

theorem warmed_cache_session:
  assumes "hash_set_order ho" and "id_valid c" and "card (set ids) \<le> id_room c"
    and "any_cache_warm ho inner ids (cached_invalidate_all c, s) = (Inr (), (c', s'))" and "i \<in> set ids"
  shows "dom (id_look c') = set ids \<and> cached_len c' = card (set ids) \<and>
    dom (id_look (invalidate_id i c')) = set ids - {i} \<and> cached_len (invalidate_id i c') = card (set ids) - 1 \<and>
    (\<not> cached_is_empty (invalidate_id i c') \<or> set ids = {i})"
proof -
  have "as_warm_cache (cached_any_cache (as_hash_order ho) inner) ids
      (as_invalidate_all (cached_any_cache (as_hash_order ho) inner) c, s) = (Inr (), (c', s'))"
    using assms(4) by (simp add: cached_any_cache_def any_cache_warm_order(1) [OF assms(1)])
  from id_mc.session [OF assms(2,3) this assms(5)] show ?thesis
    by (auto simp: cached_any_cache_def)
qed

theorem warmed_cache_session_witness:
  "\<exists>c'. fst (any_cache_warm rev one_registry [SchemaId 1, SchemaId 1] (cached_invalidate_all (with_max_entries 2), 0)) = Inr () \<and>
    dom (id_look c') = {SchemaId 1} \<and> cached_len (invalidate_id (SchemaId 1) c') = 0"
proof -
  let ?w = "any_cache_warm rev one_registry [SchemaId 1, SchemaId 1] (cached_invalidate_all (with_max_entries 2), 0)"
  have ok: "fst ?w = Inr ()"
    by (simp add: any_cache_warm_def cache_eval one_registry_def trait_defaults_def Let_def cached_invalidate_all_def
        clear_cache_def clear_def drain_in_flight_def bump_generation_def store_clear_def)
  have room: "id_valid (with_max_entries 2)" "id_room (with_max_entries 2) = 2"
    using idle_with_max_entries [of 2]
    by (simp_all add: id_valid_def id_room_def bounded_idle_def room_of_def idle_def)
      (simp_all add: with_max_entries_def cache_new_def)
  have "hash_set_order rev" by (simp add: hash_set_order_def)
  from warmed_cache_session [OF this room(1), of "[SchemaId 1, SchemaId 1]" one_registry 0 "fst (snd ?w)" "snd (snd ?w)" "SchemaId 1"]
    ok room(2) show ?thesis by (intro exI [of _ "fst (snd ?w)"]) (simp add: prod_eq_iff)
qed

text \<open>The same of the Glue wrapper.\<close>

theorem warmed_glue_cache_session:
  assumes "hash_set_order ho" and "bounded_idle c" and "card (set ids) \<le> room_of c"
    and "glue_any_cache_warm ho inner ids (glue_invalidate_all c, s) = (Inr (), (c', s'))" and "i \<in> set ids"
  shows "dom (cache_get c') = set ids \<and> glue_cache_len c' = card (set ids) \<and>
    dom (cache_get (glue_invalidate i c')) = set ids - {i} \<and> glue_cache_len (glue_invalidate i c') = card (set ids) - 1"
proof -
  have "as_warm_cache (glue_any_cache (as_hash_order ho) inner) ids
      (as_invalidate_all (glue_any_cache (as_hash_order ho) inner) c, s) = (Inr (), (c', s'))"
    using assms(4) by (simp add: glue_any_cache_def any_cache_warm_order(2) [OF assms(1)])
  from glue_mc.session [OF assms(2,3) this assms(5)] show ?thesis
    by (auto simp: glue_any_cache_def)
qed

text \<open>
  A length of 0 does not mean that the cache is empty: a schema that was looked up by its GUID
  and was reported without a numeric identifier is in the cache and not counted.
\<close>

definition guid_only_registry :: "nat registry" where
  "guid_only_registry = one_registry\<lparr>rg_get_schema_by_guid := \<lambda>_. io_return (one_schema\<lparr>sch_id := None\<rparr>)\<rparr>"

theorem length_zero_not_empty:
  "let c = fst (snd (rg_get_schema_by_guid (cached_client (\<lambda>c. c) guid_only_registry) (SchemaGuid 7) (with_max_entries 1, 0)));
       cc = cached_any_cache (\<lambda>ks. ks) guid_only_registry
   in as_cache_len cc c = 0 \<and> \<not> as_cache_is_empty cc c \<and> guid_cache_len c = 1"
  by (simp add: cached_client_def cached_get_schema_by_guid_def guid_only_registry_def cached_any_cache_def cached_is_empty_def
      cache_is_empty_def guid_cache_len_def index_by_id_def cache_eval Let_def)

end
