(* ===== verification/Warm_Concurrency.thy ===== *)
theory Warm_Concurrency
  imports Cache_Concurrency Cached_Registry
begin

text \<open>
  Fetches that overlap, as those of \<open>warm_cache\<close> do (\<open>src/cache.rs\<close>, \<open>src/glue/mod.rs\<close>): any
  number of tasks run \<open>get_or_fetch\<close> on one cache, interleaved in any way, some of them dropped,
  while nobody invalidates. \<open>Cached_Registry\<close> runs the fetches in turn; here it is shown that
  what loaded is cached at the end in any case.
\<close>

section \<open>Systems in which tasks only fetch\<close>

text \<open>A cache with no fetch in flight, and no task running yet.\<close>

definition sys_over :: "('k, 'v) cache \<Rightarrow> ('k, 'v) sys" where
  "sys_over c =
     \<lparr>sy_cache = c, sy_pc = (\<lambda>_. Idle), sy_chan = (\<lambda>_. None), sy_next_chan = 0, sy_owner = (\<lambda>_. undefined),
      sy_fetched = {(k, v). cache_get c k = Some v}\<rparr>"

text \<open>The points of \<open>get_or_fetch\<close> for a key of \<open>K\<close>, and of its drop guard.\<close>

fun fetch_only :: "'k set \<Rightarrow> ('k, 'v) pc \<Rightarrow> bool" where
  "fetch_only K Idle \<longleftrightarrow> True"
| "fetch_only K (Missed k) \<longleftrightarrow> k \<in> K"
| "fetch_only K (Waiting k ch) \<longleftrightarrow> k \<in> K"
| "fetch_only K (Fetching k token) \<longleftrightarrow> k \<in> K"
| "fetch_only K (Claimed k r ws) \<longleftrightarrow> k \<in> K"
| "fetch_only K (Notifying ms ret) \<longleftrightarrow> (\<forall>k r. ret = Some (k, r) \<longrightarrow> k \<in> K)"
| "fetch_only K (Done k r) \<longleftrightarrow> k \<in> K"
| "fetch_only K _ \<longleftrightarrow> False"

inductive warming :: "('k \<Rightarrow> sreg_error) \<Rightarrow> 'k set \<Rightarrow> ('k, 'v) cache \<Rightarrow> nat \<Rightarrow> ('k, 'v) sys \<Rightarrow> bool"
  for mk :: "'k \<Rightarrow> sreg_error" and K :: "'k set" and c :: "('k, 'v) cache" where
  warming_start: "warming mk K c 0 (sys_over c)"
| warming_step: "warming mk K c n s \<Longrightarrow> step mk t s s' \<Longrightarrow> fetch_only K (sy_pc s' t) \<Longrightarrow> warming mk K c (Suc n) s'"

section \<open>The invariant\<close>

definition present :: "('k, 'v) sys \<Rightarrow> 'k \<Rightarrow> bool" where
  "present s k \<longleftrightarrow> cache_get (sy_cache s) k \<noteq> None"

definition about_to_store :: "('k, 'v) sys \<Rightarrow> 'k \<Rightarrow> bool" where
  "about_to_store s k \<longleftrightarrow> (\<exists>t v ws. sy_pc s t = Claimed k (Inr v) (Some ws))"

definition roomy :: "'k set \<Rightarrow> ('k, 'v) cache \<Rightarrow> bool" where
  "roomy K c \<longleftrightarrow> cache_ok c \<and> finite K \<and> dom (cache_get c) \<subseteq> K \<and>
     (case ca_max_entries c of Some mx \<Rightarrow> card K \<le> mx | None \<Rightarrow> True)"

definition warm_ok :: "'k set \<Rightarrow> ('k, 'v) cache \<Rightarrow> ('k, 'v) sys \<Rightarrow> bool" where
  "warm_ok K c s \<longleftrightarrow>
     roomy K (sy_cache s) \<and> ca_max_entries (sy_cache s) = ca_max_entries c \<and>
     cache_get c \<subseteq>\<^sub>m cache_get (sy_cache s) \<and>
     (\<forall>t. fetch_only K (sy_pc s t)) \<and>
     (\<forall>t k token. sy_pc s t = Fetching k token \<longrightarrow> registered (sy_cache s) k token) \<and>
     (\<forall>t k r ws. sy_pc s t = Claimed k r ws \<longrightarrow> ws \<noteq> None) \<and>
     (\<forall>k v. (k, v) \<in> sy_fetched s \<longrightarrow> present s k \<or> about_to_store s k)"

text \<open>Storing a key of \<open>K\<close> evicts nothing.\<close>

lemma insert_unbounded:
  "hm_get (st_entries (insert_locked None k v st)) = (hm_get (st_entries st))(k \<mapsto> v)"
  by (simp add: insert_locked_def Let_def fun_eq_iff)

lemma roomy_insert:
  assumes "roomy K c" and "k \<in> K" and "cache_get c k = None"
    and "c' = c\<lparr>ca_store := insert_locked (ca_max_entries c) k v (ca_store c)\<rparr>"
  shows "cache_get c' = (cache_get c)(k \<mapsto> v) \<and> roomy K c'"
proof -
  have ok: "store_ok (ca_max_entries c) (ca_store c)" "cache_ok c'"
    using assms(1,4) by (auto simp: roomy_def cache_ok_def store_ok_insert)
  have get: "cache_get d = hm_get (st_entries (ca_store d))" for d :: "('a, 'b) cache"
    by (simp add: cache_get_def fun_eq_iff)
  have "hm_get (st_entries (insert_locked (ca_max_entries c) k v (ca_store c))) = (hm_get (st_entries (ca_store c)))(k \<mapsto> v)"
  proof (cases "ca_max_entries c")
    case None
    then show ?thesis by (simp add: insert_unbounded)
  next
    case (Some mx)
    have "dom (cache_get c) \<subset> K" using assms(1-3) by (auto simp: roomy_def)
    then have "card (dom (cache_get c)) < card K" using assms(1) by (intro psubset_card_mono) (auto simp: roomy_def)
    then have "hm_len (st_entries (ca_store c)) < mx"
      using ok(1) assms(1) Some hm.len_keys [of "st_entries (ca_store c)"] by (simp add: roomy_def get store_ok_def)
    with ok(1) Some show ?thesis using insert_locked_roomy by metis
  qed
  then have "cache_get c' = (cache_get c)(k \<mapsto> v)" unfolding get by (simp add: assms(4))
  with assms(1,2,4) ok(2) show ?thesis by (auto simp: roomy_def)
qed

text \<open>What a step of a fetching task does to the entries.\<close>

lemma fetch_step_get:
  assumes step: "step mk t s s'" and q: "fetch_only K (sy_pc s t)" "fetch_only K (sy_pc s' t)"
    and room: "roomy K (sy_cache s)" and cl: "\<forall>k r ws. sy_pc s t = Claimed k r ws \<longrightarrow> ws \<noteq> None"
  shows "(roomy K (sy_cache s') \<and> cache_get (sy_cache s') = cache_get (sy_cache s) \<and>
      (\<forall>k v ws. sy_pc s t = Claimed k (Inr v) ws \<longrightarrow> present s' k)) \<or>
    (\<exists>k v ws. sy_pc s t = Claimed k (Inr v) ws \<and> roomy K (sy_cache s') \<and>
      cache_get (sy_cache s') = (cache_get (sy_cache s))(k \<mapsto> v) \<and> cache_get (sy_cache s) k = None)"
proof -
  have same: ?thesis if "cache_get (sy_cache s') = cache_get (sy_cache s)"
    "\<And>k v ws. sy_pc s t = Claimed k (Inr v) ws \<Longrightarrow> present s' k"
  proof -
    have "roomy K (sy_cache s')"
      using room that(1) step_cache_ok [OF step] step_max_entries [OF step] by (simp add: roomy_def)
    with that show ?thesis by blast
  qed
  from step show ?thesis
  proof (cases rule: step.cases)
    case (store k r ws out c)
    have k: "k \<in> K" and ws: "ws \<noteq> None" using q(1) store(2) cl by auto
    have c: "sy_cache s' = c" by (simp add: store(1) sys_updates)
    show ?thesis
    proof (cases "\<exists>v. r = Inr v \<and> cache_get (sy_cache s) k = None")
      case True
      then obtain v where v: "r = Inr v" "cache_get (sy_cache s) k = None" by blast
      then have "c = (sy_cache s)\<lparr>ca_store := insert_locked (ca_max_entries (sy_cache s)) k v (ca_store (sy_cache s))\<rparr>"
        using store(3) ws by (auto simp: store_fetched_def cache_get_def)
      from roomy_insert [OF room k v(2) this] v store(2) show ?thesis by (auto simp: c)
    next
      case False
      then have "c = sy_cache s" using store(3) ws by (auto simp: store_fetched_def cache_get_def split: sum.splits option.splits)
      with False store(2) show ?thesis by (intro same) (auto simp: c present_def)
    qed
  next
    case (present k v c)
    then show ?thesis by (intro same) (auto elim!: join_or_lead_cases simp: sys_updates)
  next
    case (wait k c)
    then show ?thesis by (intro same) (auto elim!: join_or_lead_cases simp: sys_updates cache_get_def fun_eq_iff)
  next
    case (lead k token c)
    then show ?thesis by (intro same) (auto elim!: join_or_lead_cases simp: sys_updates cache_get_def fun_eq_iff)
  next
    case (claim k token ws c r)
    then show ?thesis by (intro same) (auto elim!: take_in_flight_cases simp: sys_updates cache_get_def fun_eq_iff)
  next
    case (drop_leader k token ms c)
    then show ?thesis by (intro same) (auto elim!: leader_guard_cases simp: sys_updates cache_get_def fun_eq_iff)
  qed (use q room in \<open>auto simp: sys_updates\<close>)
qed

text \<open>The leaders stay registered: only the leader of a key takes its entry out.\<close>

lemma registered_fetch_step:
  assumes step: "step mk t s s'" and q: "fetch_only K (sy_pc s t)" "fetch_only K (sy_pc s' t)"
    and inv: "\<And>t k token. sy_pc s t = Fetching k token \<Longrightarrow> registered (sy_cache s) k token"
    and leaders: "leaders_ok n s" and f: "sy_pc s' x = Fetching k token"
  shows "registered (sy_cache s') k token"
  using step
proof (cases rule: step_table_cases)
  case Quiet
  then have "sy_pc s x = Fetching k token" using f still_fetching [OF step] by blast
  from inv [OF this] Quiet show ?thesis by (simp add: registered_table)
next
  case (Join k' e ch)
  then have "sy_pc s x = Fetching k token" using f still_fetching [OF step] by blast
  from inv [OF this] Join show ?thesis by (auto simp: registered_table)
next
  case (Lead k')
  show ?thesis
  proof (cases "x = t")
    case True
    then show ?thesis using Lead f by (simp add: registered_table)
  next
    case False
    then have "registered (sy_cache s) k token" using f step_other [OF step] inv by metis
    with Lead show ?thesis by (auto simp: registered_table)
  qed
next
  case (Finish k' token')
  then have x: "sy_pc s x = Fetching k token" using f still_fetching [OF step] by blast
  have "k' \<noteq> k"
  proof
    assume "k' = k"
    with inv [OF x] inv [OF Finish(1)] have "token' = token" by (auto simp: registered_def)
    with x Finish(1) have "x = t" using leaders_okD(4) [OF leaders] by metis
    with f Finish(2) show False by simp
  qed
  with inv [OF x] Finish(3) show ?thesis by (auto simp: registered_table)
next
  case (Remove K')
  have reg: "registered (sy_cache s) k token" using inv f still_fetching [OF step Remove(2)] by blast
  from step show ?thesis
  proof (cases rule: step.cases)
    case (present k' v c)
    then show ?thesis using reg by (auto elim!: join_or_lead_cases simp: sys_updates)
  next
    case (wait k' c)
    then show ?thesis using reg by (auto elim!: join_or_lead_cases simp: sys_updates registered_def)
  next
    case (store k' r ws out c)
    then show ?thesis using reg by (simp add: sys_updates registered_def section_table(4) [OF store(3)])
  qed (use q reg Remove(1,2) in \<open>auto simp: sys_updates\<close>)
qed

lemma claimed_fetch_step:
  assumes "step mk t s s'" and "\<And>t k token. sy_pc s t = Fetching k token \<Longrightarrow> registered (sy_cache s) k token"
    and "\<And>t k r ws. sy_pc s t = Claimed k r ws \<Longrightarrow> ws \<noteq> None" and "sy_pc s' x = Claimed k r ws"
  shows "ws \<noteq> None"
proof (cases "x = t")
  case True
  from assms(1) show ?thesis
  proof (cases rule: step.cases)
    case (claim k' token ws' c r')
    then show ?thesis using assms(2) [OF claim(2)] assms(4) True
      by (auto elim!: take_in_flight_cases)
  qed (use assms(4) True in auto)
next
  case False
  then show ?thesis using assms(3,4) step_other [OF assms(1)] by metis
qed

lemma fetched_fetch_step:
  assumes "step mk t s s'" and "fetch_only K (sy_pc s t)" and "(k, v) \<in> sy_fetched s'"
  shows "(k, v) \<in> sy_fetched s \<or> (\<exists>ws. sy_pc s' t = Claimed k (Inr v) ws)"
  using assms(1)
proof (cases rule: step.cases)
  case (claim k' token ws c r)
  then show ?thesis using assms(3) by (auto simp: sys_updates split: sum.splits)
qed (use assms in \<open>auto simp: sys_updates\<close>)

lemma warm_ok_step:
  assumes inv: "warm_ok K c s" and step: "step mk t s s'" and q: "fetch_only K (sy_pc s' t)" and leaders: "leaders_ok n s"
  shows "warm_ok K c s'"
proof -
  have pc: "fetch_only K (sy_pc s x)" and reg: "sy_pc s x = Fetching k token \<Longrightarrow> registered (sy_cache s) k token"
    and cl: "sy_pc s x = Claimed k r ws \<Longrightarrow> ws \<noteq> None"
    and fe: "(k, v) \<in> sy_fetched s \<Longrightarrow> present s k \<or> about_to_store s k" for x k token r ws v
    using inv unfolding warm_ok_def by blast+
  have room: "roomy K (sy_cache s)" and sub: "cache_get c \<subseteq>\<^sub>m cache_get (sy_cache s)"
    and mx: "ca_max_entries (sy_cache s') = ca_max_entries c"
    using inv step_max_entries [OF step] by (simp_all add: warm_ok_def)
  have "\<forall>k r ws. sy_pc s t = Claimed k r ws \<longrightarrow> ws \<noteq> None" using cl by blast
  note get = fetch_step_get [OF step pc q room this]
  have room': "roomy K (sy_cache s')" and le: "cache_get (sy_cache s) \<subseteq>\<^sub>m cache_get (sy_cache s')"
    using get by (auto simp: map_le_def)
  have cl': "sy_pc s' x = Claimed k r ws \<Longrightarrow> ws \<noteq> None" for x k r ws
    using claimed_fetch_step [OF step] reg cl by blast
  have mono: "present s k \<Longrightarrow> present s' k" for k using le by (auto simp: present_def map_le_def dom_def)
  have "present s' k \<or> about_to_store s' k" if "(k, v) \<in> sy_fetched s'" for k v
    using fetched_fetch_step [OF step pc that]
  proof
    assume "\<exists>ws. sy_pc s' t = Claimed k (Inr v) ws"
    then show ?thesis using cl' unfolding about_to_store_def by blast
  next
    assume "(k, v) \<in> sy_fetched s"
    from fe [OF this] show ?thesis
    proof
      assume "about_to_store s k"
      then obtain x w ws where x: "sy_pc s x = Claimed k (Inr w) (Some ws)" unfolding about_to_store_def by blast
      show ?thesis
      proof (cases "x = t")
        case True
        with x get show ?thesis by (auto simp: present_def)
      next
        case False
        then show ?thesis using x step_other [OF step False] unfolding about_to_store_def by metis
      qed
    qed (use mono in blast)
  qed
  moreover have "fetch_only K (sy_pc s' x)" for x using pc q step_other [OF step, of x] by (cases "x = t") auto
  moreover have "registered (sy_cache s') k token" if "sy_pc s' x = Fetching k token" for x k token
    by (rule registered_fetch_step [OF step pc q reg leaders that])
  ultimately show ?thesis using room' mx cl' map_le_trans [OF sub le] unfolding warm_ok_def by blast
qed

lemma warming_invariant:
  assumes "warming mk K c n s" and "cache_idle c" and "roomy K c" and "unat (ca_next_token c) + n < 2 ^ 64"
  shows "warm_ok K c s \<and> leaders_ok (unat (ca_next_token c) + n) s \<and> provenance s"
  using assms
proof (induction rule: warming.induct)
  case warming_start
  have "warm_ok K c (sys_over c)"
    using warming_start by (auto simp: warm_ok_def sys_over_def present_def)
  moreover have "leaders_ok (unat (ca_next_token c) + 0) (sys_over c)"
    using warming_start by (intro leaders_okI) (simp_all add: sys_over_def table_def cache_idle_def)
  moreover have "provenance (sys_over c)"
    using warming_start by (simp add: provenance_def sys_over_def table_def cache_idle_def)
  ultimately show ?case by blast
next
  case (warming_step n s t s')
  then have inv: "warm_ok K c s" "leaders_ok (unat (ca_next_token c) + n) s" "provenance s" by simp_all
  then have "cache_ok (sy_cache s)" by (simp add: warm_ok_def roomy_def)
  then show ?case
    using warm_ok_step [OF inv(1) warming_step.hyps(2,3) inv(2)] provenance_step [OF warming_step.hyps(2) _ inv(3)]
      leaders_ok_step [OF warming_step.hyps(2) inv(2)] warming_step.prems(3) by simp
qed

section \<open>Properties\<close>

text \<open>
  C11. Overlapping fetches are all cached. Let any number of tasks look up keys through one cache,
  interleaved in any way, callers giving up included, with room for all keys and nobody
  invalidating. When no task is between claiming its slot and storing, every key that some
  task was given a value for is in the cache, every earlier entry still is, unchanged, and nothing was
  evicted; the values are those the backend gave for the key.
\<close>

theorem overlapping_fetches_cached:
  assumes "warming mk K c n s" and "cache_idle c" and "roomy K c" and "unat (ca_next_token c) + n < 2 ^ 64"
    and "\<forall>t k r ws. sy_pc s t \<noteq> Claimed k r ws"
  shows "(\<forall>t k v. sy_pc s t = Done k (Inr v) \<longrightarrow> cache_get (sy_cache s) k \<noteq> None) \<and>
    (\<forall>k v. cache_get c k = Some v \<longrightarrow> cache_get (sy_cache s) k = Some v) \<and>
    (\<forall>k. (\<exists>v. (k, v) \<in> sy_fetched s) = (cache_get (sy_cache s) k \<noteq> None)) \<and>
    (\<forall>k v. cache_get (sy_cache s) k = Some v \<longrightarrow> (k, v) \<in> sy_fetched s)"
proof -
  have inv: "warm_ok K c s" "provenance s" using warming_invariant [OF assms(1-4)] by auto
  have fe: "(k, v) \<in> sy_fetched s \<Longrightarrow> cache_get (sy_cache s) k \<noteq> None" for k v
    using inv(1) assms(5) unfolding warm_ok_def present_def about_to_store_def by blast
  have "pc_ok s (sy_pc s t)" for t using inv(2) unfolding provenance_def by blast
  then have "(k, v) \<in> sy_fetched s" if "sy_pc s t = Done k (Inr v)" for t k v
    using that by (metis came_from_simps(1) pc_ok.simps(6))
  moreover have "cache_get (sy_cache s) k = Some v" if "cache_get c k = Some v" for k v
    using that inv(1) by (auto simp: warm_ok_def map_le_def dom_def)
  moreover have "cache_get (sy_cache s) k = Some v \<Longrightarrow> (k, v) \<in> sy_fetched s" for k v
    using inv(2) by (simp add: provenance_def)
  ultimately show ?thesis using fe by blast
qed

theorem overlapping_fetches_cached_witness:
  "\<exists>s :: (nat, nat) sys. sy_pc s 2 = Done 7 (Inr 42) \<and> sy_chan s 0 = Some (Inr 42) \<and>
    cache_get (sy_cache s) 7 = Some 42"
proof -
  let ?c = "cache_new (Some 1) :: (nat, nat) cache"
  let ?s0 = "sys_over ?c"
  let ?s1 = "set_pc 1 (Missed 7) ?s0"
  let ?s2 = "set_pc 1 (Fetching 7 1) (set_cache (snd (join_or_lead 7 0 (sy_cache ?s1))) ?s1)"
  let ?s3 = "set_pc 2 (Missed 7) ?s2"
  let ?s4 = "set_pc 2 (Waiting 7 0) (new_channel 7 (set_cache (snd (join_or_lead 7 0 (sy_cache ?s3))) ?s3))"
  let ?s5 = "set_pc 1 (Claimed 7 (Inr 42) (Some [0]))
    (note_fetched 7 (Inr 42) (set_cache (snd (take_in_flight 7 1 (sy_cache ?s4))) ?s4))"
  let ?s6 = "set_pc 1 (Notifying [(0, Inr 42)] (Some (7, Inr 42)))
    (set_cache (snd (store_fetched 7 (Inr 42) (Some [0]) (sy_cache ?s5))) ?s5)"
  let ?s7 = "set_pc 1 (Notifying [] (Some (7, Inr 42))) (deliver 0 (Inr 42) ?s6)"
  let ?s8 = "set_pc 2 (Done 7 (Inr 42)) ?s7"
  note ev = sys_updates sys_over_def cache_new_def cache_get_def join_or_lead_def take_in_flight_def store_fetched_def
    outcome_messages_def Let_def
  have r0: "warming demo_error {7} ?c 0 ?s0" by (rule warming_start)
  have r1: "warming demo_error {7} ?c (Suc 0) ?s1"
    by (rule warming_step [OF r0 fast_miss]) (simp_all add: ev)
  have r2: "warming demo_error {7} ?c (Suc (Suc 0)) ?s2"
    by (rule warming_step [OF r1 lead]) (simp_all add: ev)
  have r3: "warming demo_error {7} ?c (Suc (Suc (Suc 0))) ?s3"
    by (rule warming_step [OF r2 fast_miss]) (simp_all add: ev)
  have "step demo_error 2 ?s3 ?s4"
    using wait [of ?s3 2 7 "snd (join_or_lead 7 0 (sy_cache ?s3))" demo_error] by (simp add: ev)
  then have r4: "warming demo_error {7} ?c (Suc (Suc (Suc (Suc 0)))) ?s4"
    by (rule warming_step [OF r3]) simp
  have r5: "warming demo_error {7} ?c (Suc (Suc (Suc (Suc (Suc 0))))) ?s5"
    by (rule warming_step [OF r4 claim [of _ _ _ 1]]) (simp_all add: ev)
  have "step demo_error 1 ?s5 ?s6"
    using store [of ?s5 1 7 "Inr 42" "Some [0]" "Inr 42" "snd (store_fetched 7 (Inr 42) (Some [0]) (sy_cache ?s5))" demo_error]
    by (simp add: ev)
  then have r6: "warming demo_error {7} ?c (Suc (Suc (Suc (Suc (Suc (Suc 0)))))) ?s6"
    by (rule warming_step [OF r5]) simp
  have r7: "warming demo_error {7} ?c (Suc (Suc (Suc (Suc (Suc (Suc (Suc 0))))))) ?s7"
    by (rule warming_step [OF r6 send]) simp_all
  have r8: "warming demo_error {7} ?c (Suc (Suc (Suc (Suc (Suc (Suc (Suc (Suc 0)))))))) ?s8"
    by (rule warming_step [OF r7 receive [of _ _ _ 0]]) (simp_all add: sys_updates)
  have "cache_ok ?c" by (rule cache_ok_new)
  moreover have "cache_get ?c = (\<lambda>_. None)" "ca_max_entries ?c = Some 1" "ca_in_flight ?c = []"
    by (simp_all add: cache_new_def cache_get_def fun_eq_iff)
  ultimately have over: "cache_idle ?c" "roomy {7} ?c" by (simp_all add: cache_idle_def roomy_def)
  have r: "warming demo_error {7} ?c 8 ?s8" using r8 by (simp add: numeral_eq_Suc)
  have tokens: "unat (ca_next_token ?c) + 8 < 2 ^ 64" by (simp add: cache_new_def)
  have settled: "\<forall>t k r ws. sy_pc ?s8 t \<noteq> Claimed k r ws" by (simp add: sys_updates sys_over_def)
  note cached = overlapping_fetches_cached [OF r over tokens settled]
  have "cache_get (sy_cache ?s8) 7 \<noteq> None" using cached set_pc_same(1) by blast
  moreover have "cache_get (sy_cache ?s8) 7 = Some v \<Longrightarrow> (7, v) \<in> sy_fetched ?s8" for v using cached by blast
  moreover have "sy_fetched ?s8 = {(7, 42)}" by (simp add: ev)
  ultimately show ?thesis by (intro exI [of _ ?s8]) (auto simp: set_pc_def deliver_def)
qed

end
