(* ===== verification/Glue_Pipeline.thy ===== *)
theory Glue_Pipeline
  imports Decoder Glue_Client Cached_Registry
begin

text \<open>
  A producer and a consumer over AWS Glue, put together from \<open>src/glue/client.rs\<close>,
  \<open>src/glue/mod.rs\<close> and \<open>src/decoder.rs\<close>: the producer registers its schema and frames with the
  version it was given, the consumer decodes through a cache over another client.
\<close>

section \<open>A truthful service\<close>

text \<open>What the service holds under the identifier of a version.\<close>

record glue_entry =
  ge_name :: string
  ge_format :: glue_data_format
  ge_definition :: string

type_synonym 'w glue_content = "'w \<Rightarrow> string \<Rightarrow> glue_entry option"

definition grown :: "'w glue_content \<Rightarrow> 'w \<Rightarrow> 'w \<Rightarrow> bool" where
  "grown held w w' \<longleftrightarrow> held w \<subseteq>\<^sub>m held w'"

definition held_as :: "'w glue_content \<Rightarrow> 'w \<Rightarrow> string \<Rightarrow> string \<Rightarrow> string \<Rightarrow> bool" where
  "held_as held w s name sch \<longleftrightarrow> (\<exists>e. held w s = Some e \<and> ge_name e = name \<and> ge_definition e = sch)"

text \<open>
  What AWS documents: versions do not change and are not dropped while they are used, a version that
  a call reports holds the definition it was asked about, a version is described by what
  it holds, and the identifier of a version is a UUID in any of its spellings.
\<close>

definition truthful_glue :: "'w glue_sdk \<Rightarrow> 'w glue_content \<Rightarrow> bool" where
  "truthful_glue sdk held \<longleftrightarrow>
     (\<forall>s w. grown held w (snd (gk_get_schema_version sdk s w))) \<and>
     (\<forall>d w. grown held w (gk_sleep sdk d w)) \<and>
     (\<forall>s w e out w'. held w s = Some e \<longrightarrow> gk_get_schema_version sdk s w = (Inr out, w') \<longrightarrow>
        vo_data_format out = Some (to_sdk_data_format (ge_format e)) \<and> vo_definition out = Some (ge_definition e)) \<and>
     (\<forall>reg name sch w out w' s. gk_get_schema_by_definition sdk reg name sch w = (Inr out, w') \<longrightarrow>
        vo_version_id out = Some s \<longrightarrow> held_as held w' s name sch) \<and>
     (\<forall>reg name sch w s w'. gk_register_schema_version sdk reg name sch w = (Inr (Some s), w') \<longrightarrow> held_as held w' s name sch) \<and>
     (\<forall>reg name f sch w s w'. gk_create_schema sdk reg name f sch w = (Inr (Some s), w') \<longrightarrow> held_as held w' s name sch) \<and>
     (\<forall>s u w. gk_parse_uuid sdk s = Inr u \<longrightarrow> held w (gk_uuid_text sdk u) = held w s)"

lemma grown_refl [simp]: "grown held w w"
  by (simp add: grown_def)

lemma grown_trans [trans]: "grown held a b \<Longrightarrow> grown held b c \<Longrightarrow> grown held a c"
  unfolding grown_def by (rule map_le_trans)

lemma grownD: "grown held w w' \<Longrightarrow> held w s = Some e \<Longrightarrow> held w' s = Some e"
  unfolding grown_def map_le_def by (metis domI)

lemma truthful_calls:
  assumes "truthful_glue sdk held"
  shows "grown held w (snd (gk_get_schema_version sdk s w))"
    and "grown held w (gk_sleep sdk d w)"
    and "held w s = Some e \<Longrightarrow> gk_get_schema_version sdk s w = (Inr out, w') \<Longrightarrow>
      vo_data_format out = Some (to_sdk_data_format (ge_format e)) \<and> vo_definition out = Some (ge_definition e)"
    and "gk_get_schema_by_definition sdk reg name sch w = (Inr out, w') \<Longrightarrow> vo_version_id out = Some s \<Longrightarrow>
      held_as held w' s name sch"
    and "gk_register_schema_version sdk reg name sch w = (Inr (Some s), w') \<Longrightarrow> held_as held w' s name sch"
    and "gk_create_schema sdk reg name f sch w = (Inr (Some s), w') \<Longrightarrow> held_as held w' s name sch"
    and "gk_parse_uuid sdk s = Inr u \<Longrightarrow> held w (gk_uuid_text sdk u) = held w s"
proof -
  note laws = assms [unfolded truthful_glue_def]
  show "grown held w (snd (gk_get_schema_version sdk s w))" using laws [THEN conjunct1] by simp
  note laws = laws [THEN conjunct2]
  show "grown held w (gk_sleep sdk d w)" using laws [THEN conjunct1] by simp
  note laws = laws [THEN conjunct2]
  show "held w s = Some e \<Longrightarrow> gk_get_schema_version sdk s w = (Inr out, w') \<Longrightarrow>
      vo_data_format out = Some (to_sdk_data_format (ge_format e)) \<and> vo_definition out = Some (ge_definition e)"
    using laws [THEN conjunct1] by metis
  note laws = laws [THEN conjunct2]
  show "gk_get_schema_by_definition sdk reg name sch w = (Inr out, w') \<Longrightarrow> vo_version_id out = Some s \<Longrightarrow>
      held_as held w' s name sch"
    using laws [THEN conjunct1] by metis
  note laws = laws [THEN conjunct2]
  show "gk_register_schema_version sdk reg name sch w = (Inr (Some s), w') \<Longrightarrow> held_as held w' s name sch"
    using laws [THEN conjunct1] by metis
  note laws = laws [THEN conjunct2]
  show "gk_create_schema sdk reg name f sch w = (Inr (Some s), w') \<Longrightarrow> held_as held w' s name sch"
    using laws [THEN conjunct1] by metis
  show "gk_parse_uuid sdk s = Inr u \<Longrightarrow> held w (gk_uuid_text sdk u) = held w s"
    using laws [THEN conjunct2] by metis
qed

section \<open>The producer\<close>

lemma wait_loop_grown:
  assumes "truthful_glue sdk held"
  shows "wait_loop sdk c s a n w = (r, w') \<Longrightarrow> grown held w w'"
proof (induction n arbitrary: a w)
  case (Suc n)
  obtain q w1 where q: "gk_get_schema_version sdk s w = (q, w1)" by fastforce
  have w1: "grown held w w1" using truthful_calls(1) [OF assms, of w s] q by simp
  have "grown held w (gk_sleep sdk (gc_poll_interval c) w1)" by (rule grown_trans [OF w1 truthful_calls(2) [OF assms]])
  then have "grown held w (poll_at sdk c s w 1)" by (simp add: q)
  then have next_turn: "grown held w (if a + 1 < gc_poll_max_attempts c then poll_at sdk c s w 1 else snd (gk_get_schema_version sdk s w))"
    using w1 q by simp
  show ?case
  proof (cases "verdict (fst (gk_get_schema_version sdk s w))")
    case None
    with Suc.prems have "wait_loop sdk c s (Suc a) n
        (if a + 1 < gc_poll_max_attempts c then poll_at sdk c s w 1 else snd (gk_get_schema_version sdk s w)) = (r, w')"
      by (simp add: wait_loop_turn)
    from grown_trans [OF next_turn Suc.IH [OF this]] show ?thesis .
  next
    case (Some r')
    with Suc.prems q w1 show ?thesis by (simp add: wait_loop_turn)
  qed
qed simp

lemma parse_version_id_Inr:
  assumes "truthful_glue sdk held" and "parse_version_id sdk s = Inr v"
  shows "held w (gk_uuid_text sdk (version_uuid v)) = held w s"
proof -
  obtain u where "gk_parse_uuid sdk s = Inr u" "v = GlueVersionId u"
    using assms(2) by (auto simp: parse_version_id_def version_from_str_def split: sum.splits)
  with truthful_calls(7) [OF assms(1)] show ?thesis by simp
qed

lemma await_holds:
  assumes "truthful_glue sdk held" and "await_reported sdk c what version_id w = (Inr v, w')"
    and "\<And>s. version_id = Some s \<Longrightarrow> held_as held w s name sch"
  shows "held_as held w' (gk_uuid_text sdk (version_uuid v)) name sch"
proof -
  obtain s out where s: "version_id = Some s" "wait_for_available sdk c s w = (Inr out, w')" "parse_version_id sdk s = Inr v"
    using assms(2) by (auto simp: await_reported_def wait_and_parse_version_id_def io_bind_Inr_iff)
  then obtain e where "held w s = Some e" "ge_name e = name" "ge_definition e = sch" using assms(3) unfolding held_as_def by blast
  moreover have "grown held w w'"
    using s(2) unfolding wait_for_available_def by (rule wait_loop_grown [OF assms(1)])
  ultimately show ?thesis
    using parse_version_id_Inr [OF assms(1) s(3)] grownD unfolding held_as_def by metis
qed

lemma register_holds:
  assumes t: "truthful_glue sdk held" and "aws_register_schema sdk c name sch fmt w = (Inr v, w')"
  shows "held_as held w' (gk_uuid_text sdk (version_uuid v)) name sch"
proof -
  obtain existing w1 where ex: "gk_get_schema_by_definition sdk (gc_registry_name c) name sch w = (existing, w1)" by fastforce
  obtain registered w2 where reg: "gk_register_schema_version sdk (gc_registry_name c) name sch w1 = (registered, w2)" by fastforce
  obtain created w3 where cr: "gk_create_schema sdk (gc_registry_name c) name (to_sdk_data_format fmt) sch w2 = (created, w3)"
    by fastforce
  obtain again w4 where ag: "gk_register_schema_version sdk (gc_registry_name c) name sch w3 = (again, w4)" by fastforce
  note held = truthful_calls [OF t]
  consider (Existing) out s where "existing = Inr out" "vo_version_id out = Some s" "parse_version_id sdk s = Inr v" "w' = w1"
    | (Registered) version_id where "registered = Inr version_id"
        "await_reported sdk c ''register response'' version_id w2 = (Inr v, w')"
    | (Created) version_id where "created = Inr version_id"
        "await_reported sdk c ''create schema response'' version_id w3 = (Inr v, w')"
    | (Again) version_id where "again = Inr version_id"
        "await_reported sdk c ''register response'' version_id w4 = (Inr v, w')"
    using assms(2) ex reg cr ag
    by (auto simp: aws_register_schema_def Let_def split: sum.splits option.splits if_splits)
  then show ?thesis
  proof cases
    case Existing
    with held(4) ex parse_version_id_Inr [OF t Existing(3)] show ?thesis unfolding held_as_def by metis
  next
    case Registered
    show ?thesis by (rule await_holds [OF t Registered(2)]) (use held(5) reg Registered(1) in blast)
  next
    case Created
    show ?thesis by (rule await_holds [OF t Created(2)]) (use held(6) cr Created(1) in blast)
  next
    case Again
    show ?thesis by (rule await_holds [OF t Again(2)]) (use held(5) ag Again(1) in blast)
  qed
qed

section \<open>The consumer\<close>

text \<open>A schema that says what the service holds under its version.\<close>

definition describes_version :: "'w glue_sdk \<Rightarrow> 'w glue_content \<Rightarrow> 'w \<Rightarrow> glue_version_id \<Rightarrow> glue_schema \<Rightarrow> bool" where
  "describes_version sdk held w v x \<longleftrightarrow>
     (\<forall>e. held w (gk_uuid_text sdk (version_uuid v)) = Some e \<longrightarrow>
        gs_definition x = ge_definition e \<and> gs_format x = ge_format e)"

lemma convert_to_sdk [simp]: "convert_data_format (to_sdk_data_format f) = Inr f"
  by (cases f) simp_all

lemma fetched_describes:
  assumes "truthful_glue sdk held" and "aws_get_schema_by_version_id sdk c v w = (Inr x, w')"
  shows "describes_version sdk held w v x"
  unfolding describes_version_def
proof (intro allI impI)
  fix e
  assume held: "held w (gk_uuid_text sdk (version_uuid v)) = Some e"
  obtain out where out: "gk_get_schema_version sdk (gk_uuid_text sdk (version_uuid v)) w = (Inr out, w')"
    using assms(2) by (auto simp: aws_get_schema_by_version_id_def split: prod.splits sum.splits)
  from truthful_calls(3) [OF assms(1) held out] assms(2) out
  show "gs_definition x = ge_definition e \<and> gs_format x = ge_format e"
    by (auto simp: aws_get_schema_by_version_id_def Let_def glue_schema_new_def with_metadata_def
        split: option.splits)
qed

lemma cached_describes:
  assumes "truthful_glue sdk held" and "entries_ok (describes_version sdk held w) ca"
    and "gr_get_schema_by_version_id (cached_glue_client (aws_glue_registry sdk c)) v (ca, w) = (r, s')"
  shows "case r of
      Inl e \<Rightarrow> cache_get ca v = None \<and> fst (aws_get_schema_by_version_id sdk c v w) = Inl e
    | Inr x \<Rightarrow> describes_version sdk held w v x"
proof -
  have g: "get_or_fetch glue_schema_lookup_cancelled_error v (aws_get_schema_by_version_id sdk c v) (ca, w) = (r, (fst s', snd s'))"
    using assms(3) by (simp add: cached_glue_client_def glue_get_schema_by_version_id_def aws_glue_registry_def)
  have idle: "cache_idle ca" using assms(2) by (simp add: entries_ok_def)
  have "describes_version sdk held w v x" if "r = Inr x" for x
    using entries_ok_fetch [OF assms(2) _ g] fetched_describes [OF assms(1)] that by blast
  moreover have "cache_get ca v = None \<and> fst (aws_get_schema_by_version_id sdk c v w) = Inl e" if "r = Inl e" for e
    using fc.fetch_cases [OF idle g] that by fastforce
  ultimately show ?thesis by (cases r) simp_all
qed

section \<open>Properties\<close>

definition steady_sdk :: "unit glue_sdk" where
  "steady_sdk =
     (let out = \<lparr>vo_version_id = Some ''v'', vo_status = Some Available, vo_data_format = Some SdkJson,
        vo_definition = Some ''{}'', vo_arn = None, vo_version_number = None\<rparr>
      in \<lparr>gk_get_schema_version = (\<lambda>_ w. (Inr out, w)),
          gk_get_schema_by_definition = (\<lambda>_ name sch w.
            (if name = ''n'' \<and> sch = ''{}'' then Inr out else Inl (TimeoutError ''''), w)),
          gk_register_schema_version = (\<lambda>_ _ _ w. (Inl (TimeoutError ''''), w)),
          gk_create_schema = (\<lambda>_ _ _ _ w. (Inl (TimeoutError ''''), w)),
          gk_get_registry = (\<lambda>_ w. (Inr (), w)), gk_sleep = (\<lambda>_ w. w),
          gk_parse_uuid = (\<lambda>s. if s = ''v'' then Inr 7 else Inl ''''), gk_uuid_text = (\<lambda>_. ''v'')\<rparr>)"

definition steady_content :: "unit glue_content" where
  "steady_content = (\<lambda>_. [''v'' \<mapsto> \<lparr>ge_name = ''n'', ge_format = GlueJson, ge_definition = ''{}''\<rparr>])"

lemma steady_truthful: "truthful_glue steady_sdk steady_content"
  by (auto simp: truthful_glue_def grown_def held_as_def steady_sdk_def steady_content_def Let_def split: if_splits)

text \<open>
  C4. A producer and a consumer over AWS Glue. Let the service never change or drop a version, and say of
  every version what it holds. A producer registers a schema, whichever of the four ways
  the registration takes, and frames a payload, compressed or not, with the version it was given. A
  consumer with a client of its own behind a cache decodes the frame at any later time: it gets the payload, the
  definition that was registered and the format the service holds the version in, or it fails with the
  error of the lookup, which only happens when the version was not in the cache.
\<close>

theorem glue_full_stack:
  assumes "truthful_glue sdk held"
    and "gr_register_schema (aws_glue_registry sdk producer) name sch fmt w = (Inr v, w1)"
    and "encode_glue_wire_format z v payload compression = Inr data"
    and "compression = Zlib \<Longrightarrow> \<exists>zl raw. z = Some zl \<and> zl_deflate zl payload = Inr raw \<and>
      zl_inflate zl raw = (payload, None) \<and> length payload \<le> MAX_DECOMPRESSED_SIZE"
    and "grown held w1 w2"
    and "wd_glue d = Some (cached_glue_client (aws_glue_registry sdk consumer))"
    and "entries_ok (describes_version sdk held w2) ca"
  shows "case fst (decode True z d data (ca, w2)) of
      Inl e \<Rightarrow> cache_get ca v = None \<and> fst (aws_get_schema_by_version_id sdk consumer v w2) = Inl e
    | Inr m \<Rightarrow> dm_payload m = payload \<and>
        (\<exists>x e. dm_metadata m = Some (GlueMeta x) \<and> dm_format m = format_of_glue (gs_format x) \<and>
           held w2 (gk_uuid_text sdk (version_uuid v)) = Some e \<and> ge_name e = name \<and>
           gs_definition x = sch \<and> gs_format x = ge_format e)"
proof -
  obtain e where e: "held w1 (gk_uuid_text sdk (version_uuid v)) = Some e" "ge_name e = name" "ge_definition e = sch"
    using register_holds [OF assms(1)] assms(2) unfolding held_as_def aws_glue_registry_def by fastforce
  then have later: "held w2 (gk_uuid_text sdk (version_uuid v)) = Some e" using grownD [OF assms(5)] by blast
  obtain r s' where r: "gr_get_schema_by_version_id (cached_glue_client (aws_glue_registry sdk consumer)) v (ca, w2) = (r, s')"
    by (metis surj_pair)
  from cached_describes [OF assms(1,7) r] decode_glue_frame [OF assms(3,4,6), of "(ca, w2)"] r e later
  show ?thesis by (cases r) (simp_all add: io_bind_def describes_version_def)
qed

theorem glue_full_stack_witness:
  "\<exists>m x. fst (decode True None (with_glue (cached_glue_client (aws_glue_registry steady_sdk glue_client_from_config)) decoder_new)
       (glue_header GLUE_COMPRESSION_NONE_BYTE (GlueVersionId 7) @ [0x7b]) (cache_new (Some 1), ())) = Inr m \<and>
     dm_payload m = [0x7b] \<and> dm_metadata m = Some (GlueMeta x) \<and> gs_definition x = ''{}'' \<and> gs_format x = GlueJson"
proof -
  let ?d = "with_glue (cached_glue_client (aws_glue_registry steady_sdk glue_client_from_config)) decoder_new"
  let ?data = "glue_header GLUE_COMPRESSION_NONE_BYTE (GlueVersionId 7) @ [0x7b]"
  have reg: "gr_register_schema (aws_glue_registry steady_sdk glue_client_from_config) ''n'' ''{}'' GlueJson () = (Inr (GlueVersionId 7), ())"
    by (simp add: aws_glue_registry_def aws_register_schema_def steady_sdk_def Let_def parse_version_id_def version_from_str_def)
  have framed: "encode_glue_wire_format None (GlueVersionId 7) [0x7b] NoCompression = Inr ?data"
    by (simp add: encode_glue_wire_format_def)
  have backend: "wd_glue ?d = Some (cached_glue_client (aws_glue_registry steady_sdk glue_client_from_config))"
    by (simp add: with_glue_def)
  have answer: "\<exists>x. fst (aws_get_schema_by_version_id steady_sdk glue_client_from_config (GlueVersionId 7) ()) = Inr x"
    by (simp add: aws_get_schema_by_version_id_def steady_sdk_def Let_def)
  have fresh: "entries_ok (describes_version steady_sdk steady_content ()) (cache_new (Some 1))"
    by (rule entries_ok_new) simp
  from glue_full_stack [OF steady_truthful reg framed _ grown_refl backend fresh] answer
  show ?thesis by (auto simp: steady_content_def steady_sdk_def Let_def split: sum.splits)
qed

end
