(* ===== verification/Apicurio_Pipeline.thy ===== *)
theory Apicurio_Pipeline
  imports Pipelines Apicurio_Client
begin

text \<open>
  A producer and a consumer over Apicurio, put together from \<open>src/apicurio/mod.rs\<close>,
  \<open>src/confluent/encoder.rs\<close>, \<open>src/cache.rs\<close> and \<open>src/decoder.rs\<close>; and what two requests for
  one version do when another version is registered between them.
\<close>

section \<open>A truthful registry\<close>

text \<open>
  Apicurio names schemas by global identifiers only. What it holds under one is what was registered; the
  client that looks one up does not ask for the references to be written into the text.
\<close>

definition global_id_url :: "apicurio_client \<Rightarrow> schema_id \<Rightarrow> string" where
  "global_id_url c i =
     api_url c (''/ids/globalIds/'' @ dec_nat (unat (as_u32 i)) @ ''?returnArtifactType=true'' @ dereference_param c CHR ''&'')"

definition holds_text :: "content \<Rightarrow> schema_id \<Rightarrow> schema_type \<Rightarrow> string \<Rightarrow> bool" where
  "holds_text S i ty sch \<longleftrightarrow> (\<exists>links. S (Id i) = Some (ty, sch, links))"

definition reads_truly :: "content \<Rightarrow> 'w apicurio_env \<Rightarrow> apicurio_client \<Rightarrow> bool" where
  "reads_truly S env c \<longleftrightarrow>
     (\<forall>i. answers (get_content env c (global_id_url c i)) (\<lambda>resp.
        \<forall>sch. content_as_utf8 resp = Inr sch \<longrightarrow> holds_text S i (artifact_type_from_headers resp) sch))"

definition registers_truly :: "content \<Rightarrow> 'w apicurio_env \<Rightarrow> apicurio_client \<Rightarrow> bool" where
  "registers_truly S env c \<longleftrightarrow>
     (\<forall>g. S (Guid g) = None) \<and>
     (\<forall>url a sch ty links body.
        ap_create_body env \<lparr>cq_artifact_id = a, cq_artifact_type = Some (schema_type_str ty),
          cq_first_version = version_content sch ty links\<rparr> = Inr body \<longrightarrow>
        answers (post_json env c (ap_create_response env) url body)
          (\<lambda>g. \<forall>i. global_id_to_schema_id g = Inr i \<longrightarrow> S (Id i) = Some (ty, sch, links)))"

lemma apicurio_by_id_call:
  "rg_get_schema_by_id (apicurio_registry env c) i =
     io_bind (get_content env c (global_id_url c i)) (\<lambda>resp. io_lift (schema_from_global_id_response resp i))"
  by (simp add: apicurio_registry_def trait_defaults_def apicurio_get_schema_by_id_def global_id_url_def)

lemma apicurio_by_id_holds:
  assumes "reads_truly S env c" "rg_get_schema_by_id (apicurio_registry env c) i w = (Inr x, w')"
  shows "holds_text S i (sch_type x) (sch_text x) \<and> sch_guid x = None"
proof -
  obtain resp where "get_content env c (global_id_url c i) w = (Inr resp, w')" "schema_from_global_id_response resp i = Inr x"
    using assms(2) by (auto simp: apicurio_by_id_call io_bind_Inr_iff)
  moreover then obtain sch where "content_as_utf8 resp = Inr sch" "sch_text x = sch" "sch_guid x = None"
    "sch_type x = artifact_type_from_headers resp"
    by (auto simp: schema_from_global_id_response_def Let_def)
  moreover have "answers (get_content env c (global_id_url c i)) (\<lambda>resp.
      \<forall>sch. content_as_utf8 resp = Inr sch \<longrightarrow> holds_text S i (artifact_type_from_headers resp) sch)"
    using assms(1) by (simp add: reads_truly_def)
  ultimately show ?thesis using answersD by fastforce
qed

lemma ap_serialised_Inr: "ap_serialised what r w = (Inr b, w') \<longleftrightarrow> r = Inr b \<and> w' = w"
  by (cases r) (auto simp: ap_serialised_def)

lemma apicurio_register_means:
  assumes "registers_truly S env c" "rg_register_schema (apicurio_registry env c) subject sch ty links w = (Inr i, w')"
  shows "S (Id i) = Some (ty, sch, links)"
proof -
  obtain a :: artifact_id and body g where body: "ap_create_body env \<lparr>cq_artifact_id = art_name a, cq_artifact_type = Some (schema_type_str ty),
      cq_first_version = version_content sch ty links\<rparr> = Inr body"
    and post: "post_json env c (ap_create_response env) (api_url c (''/groups/'' @ percent_encode (ap_percent_encode env) (art_group a) @
      ''/artifacts?ifExists=FIND_OR_CREATE_VERSION'')) body w = (Inr g, w')" and "global_id_to_schema_id g = Inr i"
    using assms(2)
    by (auto simp: apicurio_registry_def trait_defaults_def apicurio_register_schema_def io_bind_Inr_iff ap_serialised_Inr)
  moreover have "answers (post_json env c (ap_create_response env) url body)
      (\<lambda>g. \<forall>i. global_id_to_schema_id g = Inr i \<longrightarrow> S (Id i) = Some (ty, sch, links))" for url
    using assms(1) body unfolding registers_truly_def by blast
  ultimately show ?thesis using answersD by fastforce
qed

section \<open>The producer\<close>

lemma apicurio_auto_register_means:
  assumes "registers_truly S env c" "reads_truly S env c"
    and "resolve_schema_key (apicurio_registry env c) AutoRegister f subject sch ty links s = (Inr key, t)"
  shows "S key = Some (ty, sch, links)"
  using assms(3)
proof (cases rule: resolve_InrE)
  case (Direct r)
  then obtain i where "rg_register_schema (apicurio_registry env c) subject sch ty links s = (Inr i, t)"
    "r = \<lparr>ri_id = Some i, ri_guid = None\<rparr>"
    by (auto simp: resolve_identity_def io_bind_Inr_iff)
  with Direct(2) apicurio_register_means [OF assms(1)] show ?thesis
    by (auto simp: select_Inr split: schema_key.splits)
next
  case (By_Id r i x s')
  then show ?thesis using apicurio_by_id_holds [OF assms(2), of i s' x t] by simp
qed

lemma apicurio_key_true:
  assumes "registers_truly S env c" "reads_truly S env c" "en_registry en = apicurio_registry env c"
    and "en_resolution en = AutoRegister" "keys_true S en kc" "resolve_key en subject (kc, s) = (Inr key, (kc', s'))"
  shows "keys_true S en kc' \<and> (\<exists>i. key = Id i \<and> S (Id i) = Some (en_schema_type en, en_schema en, en_references en))"
proof -
  have "keys_true S en kc' \<and> S key = Some (en_schema_type en, en_schema en, en_references en)"
    using fc.entry [where P = "\<lambda>_ key. S key = Some (en_schema_type en, en_schema en, en_references en)",
        OF _ _ _ assms(6) [unfolded resolve_key_def]]
      apicurio_auto_register_means [OF assms(1,2)] assms(3-5)
    by (simp add: keys_true_def)
  with assms(1) show ?thesis by (cases key) (auto simp: registers_truly_def)
qed

section \<open>The consumer\<close>

definition cache_holds :: "content \<Rightarrow> cached_registry \<Rightarrow> bool" where
  "cache_holds S c \<longleftrightarrow> entries_ok (\<lambda>i x. holds_text S i (sch_type x) (sch_text x)) (cr_cache c)"

lemma cached_apicurio_holds:
  assumes "reads_truly S env cl" "cache_holds S c"
    and "get_schema_by_key (cached_client during (apicurio_registry env cl)) (Id i) (c, w) = (Inr x, t)"
  shows "holds_text S i (sch_type x) (sch_text x)"
proof -
  obtain q ca v where g: "get_or_fetch schema_lookup_cancelled_error i (rg_get_schema_by_id (apicurio_registry env cl) i)
      (cr_cache c, w) = (q, (ca, v))"
    by (metis surj_pair)
  with assms(3) have q: "q = Inr x"
    by (auto simp: get_schema_by_key_def cached_client_def cached_get_schema_by_id_def Let_def split: sum.splits)
  show ?thesis
    using entries_ok_fetch [OF assms(2) [unfolded cache_holds_def] _ g] apicurio_by_id_holds [OF assms(1)] q by blast
qed

section \<open>Two registries\<close>

text \<open>
  Registries whose responses are one digit, a function of the URL and the number of the request; as
  metadata the digit is a global identifier, as content it is a text. A registration
  of the text \<open>1\<close> gets the identifier 1.
\<close>

definition digit_env :: "(string \<Rightarrow> nat \<Rightarrow> 8 word) \<Rightarrow> nat apicurio_env" where
  "digit_env digit =
     demo_apicurio_env\<lparr>ap_http := (ap_http demo_apicurio_env)\<lparr>he_send := (\<lambda>rq n.
         (Inr \<lparr>rr_status = 200, rr_headers = [], rr_content_length = None, rr_chunks = [Inr [digit (hq_url rq) n]]\<rparr>, n + 1))\<rparr>,
       ap_version_meta := (\<lambda>b. Inr \<lparr>vm_global_id = (if b = [0x31] then 1 else 2), vm_version = None, vm_artifact_type = None,
         vm_group_id = None, vm_artifact_id = None\<rparr>),
       ap_create_body := (\<lambda>rq. if cq_artifact_type rq = Some ''AVRO'' \<and> vc_content (cq_first_version rq) = ''1'' \<and>
         vc_references (cq_first_version rq) = [] then Inr [] else Inl ''refused''),
       ap_create_response := (\<lambda>_. Inr 1)\<rparr>"

text \<open>
  One that always says \<open>1\<close>; and one that holds \<open>1\<close> under identifier 1 and \<open>2\<close> under
  identifier 2, where the second version is registered after the first request.
\<close>

definition steady_env :: "nat apicurio_env" where
  "steady_env = digit_env (\<lambda>_ _. 0x31)"

definition steady_texts :: content where
  "steady_texts key = (case key of Id _ \<Rightarrow> Some (Avro, ''1'', []) | Guid _ \<Rightarrow> None)"

definition growing_digit :: "string \<Rightarrow> nat \<Rightarrow> 8 word" where
  "growing_digit url n =
     (if url = global_id_url demo_apicurio_client (SchemaId 1) then 0x31
      else if url = global_id_url demo_apicurio_client (SchemaId 2) then 0x32
      else if n = 0 then 0x31 else 0x32)"

definition growing_env :: "nat apicurio_env" where
  "growing_env = digit_env growing_digit"

abbreviation digit_response :: "8 word \<Rightarrow> http_response" where
  "digit_response b \<equiv> \<lparr>hr_status = 200, hr_content_type = None, hr_body = [b], hr_retry_after_ms = None, hr_headers = []\<rparr>"

lemma digit_calls:
  "get_json (digit_env digit) demo_apicurio_client q url w =
     (case q [digit url w] of
        Inl e \<Rightarrow> Inl (InvalidState (Http_Msg (ApicurioParseFailed e))) | Inr a \<Rightarrow> Inr a, w + 1)"
  "post_json (digit_env digit) demo_apicurio_client q url [] w =
     (case q [digit url w] of
        Inl e \<Rightarrow> Inl (InvalidState (Http_Msg (ApicurioParseFailed e))) | Inr a \<Rightarrow> Inr a, w + 1)"
  "get_content (digit_env digit) demo_apicurio_client url w = (Inr (digit_response (digit url w)), w + 1)"
  by (simp_all add: get_json_def post_json_def get_content_def ap_call_def request_def request_loop.simps [where attempt = 0]
      request_once_def io_bind_def digit_env_def demo_apicurio_env_def demo_apicurio_client_def receive_response_def
      header_get_def content_type_of_def collect_headers_def handle_json_response_def content_response_def
      is_retryable_status_def MAX_BODY_BYTES_def MAX_REQUEST_BODY_BYTES_def split: sum.split)

lemma digit_fields:
  "ap_version_meta (digit_env digit) b = Inr \<lparr>vm_global_id = (if b = [0x31] then 1 else 2), vm_version = None,
     vm_artifact_type = None, vm_group_id = None, vm_artifact_id = None\<rparr>"
  "ap_create_response (digit_env digit) b = Inr 1"
  "ap_create_body (digit_env digit) rq = Inr body \<longleftrightarrow> body = [] \<and> cq_artifact_type rq = Some ''AVRO'' \<and>
     vc_content (cq_first_version rq) = ''1'' \<and> vc_references (cq_first_version rq) = []"
  by (auto simp: digit_env_def)

lemma digit_text:
  "content_as_utf8 (digit_response 0x31) = Inr ''1''"
  "content_as_utf8 (digit_response 0x32) = Inr ''2''"
proof -
  have "from_utf8 [49] = Inr ''1''" "from_utf8 [50] = Inr ''2''" by code_simp+
  then show "content_as_utf8 (digit_response 0x31) = Inr ''1''" "content_as_utf8 (digit_response 0x32) = Inr ''2''"
    by (simp_all add: content_as_utf8_def)
qed

lemma digit_parsed: "parse_artifact_id (digit_env digit) ''orders'' = Inr (artifact_from_subject ''orders'')"
  using demo_parsed by (simp add: parse_artifact_id_def digit_env_def)

lemma steady_truths:
  "reads_truly steady_texts steady_env demo_apicurio_client" "registers_truly steady_texts steady_env demo_apicurio_client"
proof -
  show "reads_truly steady_texts steady_env demo_apicurio_client"
    by (simp add: reads_truly_def answers_def steady_env_def digit_calls digit_text holds_text_def steady_texts_def
        artifact_type_from_headers_def)
  have "ty = Avro" if "schema_type_str ty = ''AVRO''" for ty using that by (cases ty) simp_all
  then show "registers_truly steady_texts steady_env demo_apicurio_client"
    by (auto simp: registers_truly_def answers_def steady_env_def digit_calls digit_fields steady_texts_def version_content_def
        to_reference_json_def)
qed

definition steady_producer :: "nat confluent_encoder" where
  "steady_producer =
     \<lparr>en_registry = apicurio_registry steady_env demo_apicurio_client, en_schema = ''1'', en_schema_type = Avro,
      en_strategy = TopicName, en_references = [], en_indexes = [], en_resolution = AutoRegister,
      en_framing = FramingSchemaId\<rparr>"

lemma steady_produce:
  "\<exists>framed kc. Confluent_Encoder.encode steady_producer [9] ''orders'' None Value (cache_new (Some 1), 0) = (Inr framed, (kc, 1))"
proof -
  have parsed: "parse_artifact_id steady_env ''orders-value'' = Inr (artifact_from_subject ''orders-value'')"
    by (simp add: steady_env_def digit_env_def parse_artifact_id_def demo_apicurio_env_def validate_subject_iff no_dot_segments_iff
        is_slash_def artifact_from_subject_def Let_def)
  have "ap_create_body steady_env \<lparr>cq_artifact_id = a, cq_artifact_type = Some ''AVRO'',
      cq_first_version = version_content ''1'' Avro []\<rparr> = Inr []" for a
    by (simp add: steady_env_def digit_fields version_content_def to_reference_json_def)
  moreover have "post_json steady_env demo_apicurio_client (ap_create_response steady_env) url [] 0 = (Inr 1, 1)" for url
    by (simp add: steady_env_def digit_calls digit_fields)
  ultimately have "resolve_schema_key (en_registry steady_producer) AutoRegister FramingSchemaId ''orders-value'' ''1'' Avro [] 0 =
      (Inr (Id (SchemaId 1)), 1)"
    using parsed
    by (simp add: steady_producer_def resolve_schema_key_def resolve_identity_def learn_guid_def apicurio_registry_def
        trait_defaults_def apicurio_register_schema_def io_bind_def ap_serialised_def global_id_to_schema_id_def)
  from get_or_fetch_ok [where mk = subject_resolution_cancelled and c = "cache_new (Some 1)" and key = "''orders-value''" and
      fetch = "resolve_schema_key (en_registry steady_producer) AutoRegister FramingSchemaId ''orders-value'' ''1'' Avro []",
      OF idle_new _ this]
  show ?thesis
    by (simp add: Confluent_Encoder.encode_def subject_for_def resolve_key_def io_bind_def)
      (simp add: steady_producer_def cache_new_def cache_get_def io_bind_def)
qed

section \<open>Properties\<close>

text \<open>
  C5. A producer and a consumer over Apicurio. Let the registry hold under an identifier what was registered
  as it. A producer that registers its schema frames a payload with the identifier it got. A consumer with
  a client and a cache of its own gets the payload, the message path of a Protobuf payload, and the type and
  text that were registered, or fails with the error of the lookup. The frame always carries a
  numeric identifier, also after a cached resolution, because Apicurio has no GUIDs.
\<close>

theorem apicurio_full_stack:
  assumes "registers_truly S penv pcl" "reads_truly S penv pcl" "en_registry en = apicurio_registry penv pcl"
    and "en_resolution en = AutoRegister" "length (en_indexes en) \<le> 512" "keys_true S en kc"
    and "Confluent_Encoder.encode en payload topic rn target (kc, p) = (Inr framed, (kc', p'))"
    and "reads_truly S env cl" "cache_holds S c"
  shows "keys_true S en kc' \<and>
    (\<exists>i. let consumer = cached_client during (apicurio_registry env cl);
             decoded = decode glue z (with_confluent consumer decoder_new) framed (c, w)
       in framed = frame en (Id i) payload \<and>
          (case rg_get_schema_by_id consumer i (c, w) of
             (Inl e, t) \<Rightarrow> decoded = (Inl e, t)
           | (Inr x, t) \<Rightarrow>
               sch_type x = en_schema_type en \<and> sch_text x = en_schema en \<and>
               decoded =
                 (Inr \<lparr>dm_format = format_of_type (en_schema_type en), dm_payload = payload,
                    dm_metadata = Some (ConfluentMeta x),
                    dm_indexes = (if en_schema_type en = Protobuf
                      then Some (if en_indexes en = [] then [0] else en_indexes en) else None)\<rparr>, t)))"
proof -
  let ?rg = "cached_client during (apicurio_registry env cl)"
  let ?d = "with_confluent ?rg decoder_new"
  have d: "wd_confluent ?d = Some ?rg" by (simp add: with_confluent_def)
  from assms(7) obtain subject key where r: "resolve_key en subject (kc, p) = (Inr key, (kc', p'))"
    "framed = frame en key payload"
    by (rule encode_InrE)
  from apicurio_key_true [OF assms(1-4,6) r(1)] obtain i where
    key: "keys_true S en kc'" "key = Id i" "S (Id i) = Some (en_schema_type en, en_schema en, en_references en)"
    by blast
  obtain q t where look: "get_schema_by_key ?rg (Id i) (c, w) = (q, t)" by (metis surj_pair)
  then have by_id: "rg_get_schema_by_id ?rg i (c, w) = (q, t)" by (simp add: get_schema_by_key_def)
  have "case q of Inl e \<Rightarrow> decode glue z ?d framed (c, w) = (Inl e, t)
      | Inr x \<Rightarrow> sch_type x = en_schema_type en \<and> sch_text x = en_schema en \<and>
          decode glue z ?d framed (c, w) =
            (Inr \<lparr>dm_format = format_of_type (en_schema_type en), dm_payload = payload,
               dm_metadata = Some (ConfluentMeta x),
               dm_indexes = (if en_schema_type en = Protobuf
                 then Some (if en_indexes en = [] then [0] else en_indexes en) else None)\<rparr>, t)"
  proof (cases q)
    case (Inl e)
    with look decode_frame_lookup_fails [OF d] r(2) key(2) show ?thesis by simp
  next
    case (Inr x)
    with look cached_apicurio_holds [OF assms(8,9), of during i w x t] key(3)
    have x: "sch_type x = en_schema_type en" "sch_text x = en_schema en" by (auto simp: holds_text_def)
    with look Inr decode_own_frame [OF d assms(5)] r(2) key(2) show ?thesis by simp
  qed
  with key(1,2) r(2) by_id show ?thesis by (auto simp: Let_def intro!: exI [of _ i] split: sum.splits)
qed

theorem apicurio_full_stack_witness:
  "\<exists>framed m. fst (Confluent_Encoder.encode steady_producer [9] ''orders'' None Value (cache_new (Some 1), 0)) = Inr framed \<and>
     fst (decode True None (with_confluent (cached_client (\<lambda>c. c) (apicurio_registry steady_env demo_apicurio_client))
       decoder_new) framed (with_max_entries 1, 5)) = Inr m \<and> dm_payload m = [9]"
proof -
  let ?rg = "cached_client (\<lambda>c. c) (apicurio_registry steady_env demo_apicurio_client)"
  obtain framed kc where e: "Confluent_Encoder.encode steady_producer [9] ''orders'' None Value (cache_new (Some 1), 0) = (Inr framed, (kc, 1))"
    using steady_produce by blast
  have fresh: "keys_true steady_texts steady_producer (cache_new (Some 1))" "cache_holds steady_texts (with_max_entries 1)"
    by (simp_all add: keys_true_def idle_new cache_holds_def with_max_entries_def entries_ok_new Let_def)
      (simp add: cache_new_def cache_get_def)
  have settings: "en_registry steady_producer = apicurio_registry steady_env demo_apicurio_client"
    "en_resolution steady_producer = AutoRegister" "length (en_indexes steady_producer) \<le> 512"
    by (simp_all add: steady_producer_def)
  have "\<exists>x t. rg_get_schema_by_id ?rg i (with_max_entries 1, 5) = (Inr x, t)" for i
  proof -
    have "\<exists>x. rg_get_schema_by_id (apicurio_registry steady_env demo_apicurio_client) i 5 = (Inr x, 6)"
      by (simp add: apicurio_by_id_call io_bind_def steady_env_def digit_calls digit_text schema_from_global_id_response_def Let_def)
    then show ?thesis
      by (auto simp: cached_client_def cached_get_schema_by_id_def with_max_entries_def cache_new_def get_or_fetch_def
          cache_get_def join_or_lead_def take_in_flight_def store_fetched_def Let_def)
  qed
  note looked_up = this
  note stack = apicurio_full_stack [where z = None and glue = True and w = 5 and during = "\<lambda>c. c",
      OF steady_truths(2,1) settings fresh(1) e steady_truths(1) fresh(2), unfolded Let_def, THEN conjunct2]
  have "\<exists>m. fst (decode True None (with_confluent ?rg decoder_new) framed (with_max_entries 1, 5)) = Inr m \<and> dm_payload m = [9]"
    using stack
  proof (rule exE, goal_cases)
    case (1 i)
    moreover obtain x t where "rg_get_schema_by_id ?rg i (with_max_entries 1, 5) = (Inr x, t)" using looked_up by blast
    ultimately show ?case by auto
  qed
  with e show ?thesis by auto
qed

text \<open>
  The registry holds \<open>1\<close> under identifier 1. The latest schema, asked for while a second version
  is registered, is the text of the second under the identifier of the first, and the
  cache serves it for that identifier from then on.
\<close>

theorem latest_schema_torn:
  "let registry = apicurio_registry growing_env demo_apicurio_client; cached = cached_client (\<lambda>c. c) registry
   in \<exists>x c y. rg_get_latest_schema cached ''orders'' (with_max_entries 8, 0) = (Inr x, (c, 2)) \<and>
        sch_id x = Some (SchemaId 1) \<and> sch_text x = ''2'' \<and>
        local_answer (rg_get_schema_by_id cached (SchemaId 1)) c x \<and>
        rg_get_schema_by_id registry (SchemaId 1) 2 = (Inr y, 3) \<and> sch_text y = ''1''"
proof -
  let ?registry = "apicurio_registry growing_env demo_apicurio_client"
  let ?a = "artifact_from_subject ''orders''"
  have parsed: "parse_artifact_id growing_env ''orders'' = Inr ?a"
    using demo_parsed by (simp add: parse_artifact_id_def growing_env_def digit_env_def)
  have urls: "api_url demo_apicurio_client (artifact_path env ?a @ rest) \<noteq> global_id_url demo_apicurio_client i"
    for env :: "nat apicurio_env" and rest i
    by (simp add: global_id_url_def api_url_def artifact_path_def)
  obtain x where x: "rg_get_latest_schema ?registry ''orders'' 0 = (Inr x, 2)"
    "sch_id x = Some (SchemaId 1)" "sch_text x = ''2''"
    using parsed digit_text
    by (simp add: apicurio_registry_def trait_defaults_def apicurio_get_latest_schema_def version_schema_def io_bind_def
        growing_env_def digit_calls digit_fields growing_digit_def urls reported_type_def identified_schema_def global_id_to_schema_id_def)
  obtain y where y: "rg_get_schema_by_id ?registry (SchemaId 1) 2 = (Inr y, 3)" "sch_text y = ''1''"
    using digit_text
    by (simp add: apicurio_by_id_call io_bind_def growing_env_def digit_calls growing_digit_def schema_from_global_id_response_def)
  obtain c where c: "rg_get_latest_schema (cached_client (\<lambda>c. c) ?registry) ''orders'' (with_max_entries 8, 0) = (Inr x, (c, 2))"
    using x(1) by (simp add: cached_client_def fetch_and_populate_def Let_def)
  with populate_get [OF idle_with_max_entries] x(1,2)
  have "local_answer (rg_get_schema_by_id (cached_client (\<lambda>c. c) ?registry) (SchemaId 1)) c x"
    by (auto simp: cached_client_def fetch_and_populate_def Let_def intro!: local_by_id [unfolded cached_client_sel])
  with c x y show ?thesis unfolding Let_def by blast
qed

end
