(* ===== verification/Json_Pipeline.thy ===== *)
theory Json_Pipeline
  imports Json_Codec
begin

text \<open>
  A JSON producer and a validating consumer made by their builders (\<open>src/json/mod.rs\<close>): the producer
  gets the documents its schema refers to as pairs, the consumer collects them from the registry.
\<close>

section \<open>What a compiled schema depends on\<close>

lemma ref_set_is_empty_get: "ref_set_is_empty refs \<longleftrightarrow> hm_get refs = Map.empty"
  by (cases refs) (auto simp: ref_set_is_empty_def fun_eq_iff)

text \<open>Only what the documents answer matters, not the order they were inserted in.\<close>

lemma compile_schema_answers:
  assumes "hm_get refs = hm_get refs'"
  shows "compile_schema_with_refs api sch refs = compile_schema_with_refs api sch refs'"
proof -
  have "ref_set_retrieve refs = ref_set_retrieve refs'" "ref_set_is_empty refs = ref_set_is_empty refs'"
    unfolding ref_set_retrieve_def ref_set_lookup_def ref_set_is_empty_get assms by (rule refl)+
  then show ?thesis by (simp add: compile_schema_with_refs_def split: sum.split)
qed

lemma json_encoder_build_Inr:
  assumes "json_encoder_build api b = Inr (en, kc)"
  obtains refs where "reference_set_from_pairs api (jeb_dependencies b) = Inr refs"
    and "compile_schema_with_refs api (je_schema_str en) refs = Inr (je_validator en)"
    and "je_validate_on_encode en = jeb_validate_on_encode b" "cache_idle kc" "json_entries en kc"
proof -
  from assms obtain registry sch refs validator where r: "jeb_schema b = Some sch"
      "reference_set_from_pairs api (jeb_dependencies b) = Inr refs" "compile_schema_with_refs api sch refs = Inr validator"
      "je_schema_str en = sch" "je_validator en = validator" "je_validate_on_encode en = jeb_validate_on_encode b"
      "kc = cache_new (Some (max (jeb_max_entries b) 1))"
    by (auto simp: json_encoder_build_def)
  have "cache_idle kc" "json_entries en kc"
    using r(7) by (simp_all add: idle_new json_entries_def) (simp add: cache_new_def cache_get_def)
  with r that show thesis by blast
qed

lemma json_encode_Inr:
  assumes "json_encode api en v topic target (c, s) = (Inr framed, (c', s'))" "cache_idle c" "json_entries en c"
  obtains subject key raw where "subject_name (je_strategy en) topic (je_record_name en) target = Inr subject"
    and "json_cached_schema_key c' subject = Some key" "js_to_vec api v = Inr raw" "framed = encode_wire_format key raw"
    and "\<not> je_validate_on_encode en \<or> js_errors api (je_validator en) v = []"
proof -
  from assms(1) obtain subject entry raw where r:
    "subject_name (je_strategy en) topic (je_record_name en) target = Inr subject"
    "json_resolve_subject en subject (c, s) = (Inr entry, (c', s'))"
    "\<not> je_validate_on_encode en \<or> js_errors api (snd entry) v = []"
    "js_to_vec api v = Inr raw" "framed = encode_wire_format (fst entry) raw"
    by (auto simp: json_encode_def json_serialise_def io_bind_Inr_iff json_validate_def split: if_splits sum.splits)
  from json_resolve_entry [OF assms(2,3) r(2)] r(3) that [OF r(1) _ r(4,5)] show thesis
    by (simp add: json_cached_schema_key_def)
qed

section \<open>Properties\<close>

text \<open>
  C3. A validating JSON consumer accepts what a validating producer encodes. A producer is built from a
  schema and the documents it refers to, and encodes a value with validation; a consumer is built
  with validation and a cache of any size. When the consumer's registry has the producer's text
  under the identifier of the frame, and the documents its closure of the references collects
  answer as the producer's do, in whatever order they were found, the consumer compiles the
  same validator and returns the value, if the parser reads what the serialiser wrote.
\<close>

theorem json_end_to_end:
  assumes "json_encoder_build api b = Inr (en, kc)" "jeb_validate_on_encode b"
    and "json_encode api en v topic target (kc, p) = (Inr framed, (kc', p'))"
    and "\<forall>bs. js_to_vec api v = Inr bs \<longrightarrow> js_from_slice api bs = Inr v"
    and "(d, dc) = json_decoder_build rg True max_entries"
  shows "\<exists>subject key refs. subject_name (je_strategy en) topic (je_record_name en) target = Inr subject \<and>
    json_cached_schema_key kc' subject = Some key \<and>
    reference_set_from_pairs api (jeb_dependencies b) = Inr refs \<and>
    (\<forall>t x t1 visited found t2. get_schema_by_key rg key t = (Inr x, t1) \<longrightarrow> sch_text x = je_schema_str en \<longrightarrow>
       json_closure api rg (sch_references x) 0 ([], []) t1 = (Inr (visited, found), t2) \<longrightarrow>
       hm_get found = hm_get refs \<longrightarrow>
       (\<exists>dc'. json_decode api d framed (dc, t) = (Inr v, (dc', t2))))"
proof -
  from assms(1) obtain refs where refs: "reference_set_from_pairs api (jeb_dependencies b) = Inr refs"
    "compile_schema_with_refs api (je_schema_str en) refs = Inr (je_validator en)"
    "je_validate_on_encode en = jeb_validate_on_encode b" "cache_idle kc" "json_entries en kc"
    by (rule json_encoder_build_Inr)
  from assms(3) refs(4,5) obtain subject key raw where enc:
    "subject_name (je_strategy en) topic (je_record_name en) target = Inr subject"
    "json_cached_schema_key kc' subject = Some key" "js_to_vec api v = Inr raw" "framed = encode_wire_format key raw"
    "\<not> je_validate_on_encode en \<or> js_errors api (je_validator en) v = []"
    by (rule json_encode_Inr)
  have d: "jd_registry d = rg" "jd_validate_on_decode d" "cache_idle dc" "cache_get dc key = None"
    using assms(5) by (simp_all add: json_decoder_build_def idle_new) (simp add: cache_new_def cache_get_def)
  have "\<exists>dc'. json_decode api d framed (dc, t) = (Inr v, (dc', t2))"
    if "get_schema_by_key rg key t = (Inr x, t1)" "sch_text x = je_schema_str en"
      "json_closure api rg (sch_references x) 0 ([], []) t1 = (Inr (visited, found), t2)" "hm_get found = hm_get refs"
    for t x t1 visited found t2
  proof -
    have "fetch_validator api rg key t = (Inr (je_validator en), t2)"
      using that refs(2) compile_schema_answers [OF that(4), of api] by (simp add: fetch_validator_def io_bind_def)
    from get_or_fetch_ok [where mk = json_validator_lookup_cancelled and fetch = "fetch_validator api rg key", OF d(3,4) this]
    obtain dc' where "get_validator api d key (dc, t) = (Inr (je_validator en), (dc', t2))"
      using d(1) by (auto simp: get_validator_def)
    with enc assms(2,4) refs(3) d(2) show ?thesis
      by (simp add: json_decode_def decode_framed_bytes io_bind_def json_validate_def)
  qed
  with enc(1,2) refs(1) show ?thesis by blast
qed

text \<open>
  A schema that is a reference to a document, compiled to that document; a registry that has
  both; a validator that accepts 7 for the document \<open>seven\<close>.
\<close>

definition linking_api :: "json json_api" where
  "linking_api =
     demo_json_api\<lparr>js_build := (\<lambda>retrieve _. retrieve ''d.json''),
       js_errors := (\<lambda>w v. if w = JString ''seven'' \<and> v = JNumber (JInt 7) then [] else [''rejected''])\<rparr>"

definition linked_registry :: "nat registry" where
  "linked_registry =
     trait_defaults
       (\<lambda>_ n. (Inr (with_references [named_ref ''d.json'' ''d''] (schema_new (Id (SchemaId 1)) Json ''link'')), n + 1))
       (\<lambda>_. not_supported []) (\<lambda>_ _ n. (Inr (schema_new (Id (SchemaId 2)) Json ''seven''), n + 1))
       (\<lambda>_ _ _ _. io_return (SchemaId 1))"

definition linked_builder :: "nat json_encoder_builder" where
  "linked_builder =
     json_encoder_set_dependencies [(''d.json'', ''seven'')]
       (json_encoder_set_schema ''link'' (json_encoder_set_registry linked_registry json_encoder_builder_new))"

definition linked_encoder :: "(nat, json) json_encoder" where
  "linked_encoder =
     \<lparr>je_registry = linked_registry, je_schema_str = ''link'', je_validator = JString ''seven'', je_record_name = None,
      je_strategy = TopicName, je_references = [], je_validate_on_encode = True, je_resolution = AutoRegister,
      je_framing = FramingSchemaId\<rparr>"

lemma linked_refs: "reference_set_from_pairs linking_api [(''d.json'', ''seven'')] = Inr [(''d.json'', JString ''seven'')]"
  by code_simp

lemma linked_compile:
  "compile_schema_with_refs linking_api ''link'' [(''d.json'', JString ''seven'')] = Inr (JString ''seven'')"
  by code_simp

lemma linked_build: "json_encoder_build linking_api linked_builder = Inr (linked_encoder, cache_new (Some 1000))"
  by (simp add: json_encoder_build_def linked_builder_def json_encoder_set_dependencies_def json_encoder_set_schema_def
      json_encoder_set_registry_def json_encoder_builder_new_def linked_refs linked_compile linked_encoder_def
      DEFAULT_MAX_SUBJECT_CACHE_ENTRIES_def)

lemma linked_encode:
  "\<exists>framed kc. json_encode linking_api linked_encoder (JNumber (JInt 7)) ''orders'' Value (cache_new (Some 1000), 0) =
     (Inr framed, (kc, 0)) \<and> json_cached_schema_key kc ''orders-value'' = Some (Id (SchemaId 1))"
proof -
  let ?fetch = "io_bind (resolve_schema_key linked_registry AutoRegister FramingSchemaId ''orders-value'' ''link'' Json [])
      (\<lambda>key. io_return (key, JString ''seven''))"
  have "?fetch 0 = (Inr (Id (SchemaId 1), JString ''seven''), 0)"
    by (simp add: resolve_schema_key_def resolve_identity_def learn_guid_def io_bind_def linked_registry_def trait_defaults_def)
  from get_or_fetch_ok [where mk = subject_resolution_cancelled and c = "cache_new (Some 1000)" and fetch = ?fetch
      and key = "''orders-value''", OF idle_new _ this]
  obtain kc where k: "json_resolve_subject linked_encoder ''orders-value'' (cache_new (Some 1000), 0) =
      (Inr (Id (SchemaId 1), JString ''seven''), (kc, 0))"
    by (simp add: json_resolve_subject_def linked_encoder_def cache_new_def cache_get_def)
  have "json_entries linked_encoder (cache_new (Some 1000))" by (simp add: json_entries_def cache_new_def cache_get_def)
  from json_resolve_entry [OF idle_new this k] have "json_cached_schema_key kc ''orders-value'' = Some (Id (SchemaId 1))"
    by (simp add: json_cached_schema_key_def)
  moreover have "subject_name (je_strategy linked_encoder) ''orders'' (je_record_name linked_encoder) Value = Inr ''orders-value''"
    by (simp add: linked_encoder_def)
  moreover have "json_validate linking_api (JString ''seven'') (JNumber (JInt 7)) = Inr ()" "js_to_vec linking_api (JNumber (JInt 7)) = Inr [7]"
    by (simp_all add: json_validate_def linking_api_def demo_json_api_def)
  ultimately show ?thesis using k by (simp add: json_encode_def json_serialise_def io_bind_def)
qed

theorem json_end_to_end_witness:
  "\<exists>framed dc. json_decode linking_api \<lparr>jd_registry = linked_registry, jd_validate_on_decode = True\<rparr> framed
     (cache_new (Some 5), 0) = (Inr (JNumber (JInt 7)), (dc, 2))"
proof -
  obtain framed kc where e: "json_encode linking_api linked_encoder (JNumber (JInt 7)) ''orders'' Value (cache_new (Some 1000), 0) =
      (Inr framed, (kc, 0))" "json_cached_schema_key kc ''orders-value'' = Some (Id (SchemaId 1))"
    using linked_encode by blast
  have codec: "\<forall>bs. js_to_vec linking_api (JNumber (JInt 7)) = Inr bs \<longrightarrow> js_from_slice linking_api bs = Inr (JNumber (JInt 7))"
    by (simp add: linking_api_def demo_json_api_def)
  have built: "(\<lparr>jd_registry = linked_registry, jd_validate_on_decode = True\<rparr>, cache_new (Some 5)) = json_decoder_build linked_registry True 5"
    by (simp add: json_decoder_build_def)
  have asked: "jeb_validate_on_encode linked_builder"
    by (simp add: linked_builder_def json_encoder_set_dependencies_def json_encoder_set_schema_def json_encoder_set_registry_def
        json_encoder_builder_new_def)
  have "get_schema_by_key linked_registry (Id (SchemaId 1)) 0 =
      (Inr (with_references [named_ref ''d.json'' ''d''] (schema_new (Id (SchemaId 1)) Json ''link'')), 1)"
    by (simp add: get_schema_by_key_def linked_registry_def trait_defaults_def)
  moreover have "json_closure linking_api linked_registry [named_ref ''d.json'' ''d''] 0 ([], []) 1 =
      (Inr ([(''d'', 1)], [(''d.json'', JString ''seven'')]), 2)"
    by code_simp
  moreover have names: "subject_name (je_strategy linked_encoder) ''orders'' (je_record_name linked_encoder) Value = Inr ''orders-value''"
    "reference_set_from_pairs linking_api (jeb_dependencies linked_builder) = Inr [(''d.json'', JString ''seven'')]"
    using linked_refs
    by (simp_all add: linked_encoder_def linked_builder_def json_encoder_set_dependencies_def)
  moreover have "sch_text (with_references rs (schema_new k Json ''link'')) = je_schema_str linked_encoder"
    "sch_references (with_references rs (schema_new k Json ''link'')) = rs" for rs k
    by (cases k; simp add: linked_encoder_def schema_new_def with_references_def)+
  moreover obtain subject key refs where run:
    "subject_name (je_strategy linked_encoder) ''orders'' (je_record_name linked_encoder) Value = Inr subject"
    "json_cached_schema_key kc subject = Some key" "reference_set_from_pairs linking_api (jeb_dependencies linked_builder) = Inr refs"
    "\<forall>t x t1 visited found t2. get_schema_by_key linked_registry key t = (Inr x, t1) \<longrightarrow> sch_text x = je_schema_str linked_encoder \<longrightarrow>
       json_closure linking_api linked_registry (sch_references x) 0 ([], []) t1 = (Inr (visited, found), t2) \<longrightarrow>
       hm_get found = hm_get refs \<longrightarrow>
       (\<exists>dc'. json_decode linking_api \<lparr>jd_registry = linked_registry, jd_validate_on_decode = True\<rparr> framed
          (cache_new (Some 5), t) = (Inr (JNumber (JInt 7)), (dc', t2)))"
    using json_end_to_end [OF linked_build asked e(1) codec built] by blast
  moreover have "key = Id (SchemaId 1)" "refs = [(''d.json'', JString ''seven'')]"
    using run(1-3) names e(2) by auto
  ultimately show ?thesis by metis
qed

end
