(* ===== verification/Populate_Concurrency.thy ===== *)
theory Populate_Concurrency
  imports Cache_Concurrency
begin

text \<open>
  The other way into the cache (\<open>insert_if_current\<close> in \<open>src/cache_inner.rs\<close>, used by
  \<open>src/cache.rs\<close> for schemas that were not fetched by key): the generation is sampled before
  the backend is asked, and compared under the write lock. Here it runs among any other tasks.
\<close>

section \<open>The generation counts invalidations\<close>

fun invalidating :: "('k, 'v) pc \<Rightarrow> bool" where
  "invalidating (Invalidating k) = True"
| "invalidating Clearing = True"
| "invalidating (Matching P) = True"
| "invalidating _ = False"

lemma section_generation:
  "take_in_flight k token c = (ws, c') \<Longrightarrow> ca_generation c' = ca_generation c"
  "leader_guard_drop mk k token c = (ms, c') \<Longrightarrow> ca_generation c' = ca_generation c"
  "join_or_lead k ch c = (r, c') \<Longrightarrow> ca_generation c' = ca_generation c"
  "store_fetched k res ws' c = (out, c') \<Longrightarrow> ca_generation c' = ca_generation c"
  "remove_in_flight k c = (wl, c') \<Longrightarrow> ca_generation c' = ca_generation c"
  "drain_in_flight c = (kws, c') \<Longrightarrow> ca_generation c' = ca_generation c"
  by (auto simp: remove_in_flight_def drain_in_flight_def elim: take_in_flight_cases leader_guard_cases
      join_or_lead_cases store_fetched_cases)

lemma remove_all_generation: "remove_all_in_flight ks c = (kws, c') \<Longrightarrow> ca_generation c' = ca_generation c"
  by (induction ks c arbitrary: kws c' rule: remove_all_in_flight.induct)
    (auto simp: Let_def split: option.splits prod.splits)

text \<open>A step that starts an invalidation adds one; no other step changes the generation.\<close>

lemma step_generation:
  assumes "step mk t s s'"
  shows "ca_generation (sy_cache s') =
    ca_generation (sy_cache s) + (if sy_pc s t = Idle \<and> invalidating (sy_pc s' t) then 1 else 0)"
  using assms
  by (cases rule: step.cases)
    (simp_all add: sys_updates bump_generation_def insert_if_current_def section_generation remove_all_generation)

text \<open>A task that samples, samples the current generation.\<close>

lemma step_sampled:
  assumes "step mk t s s'" "sy_pc s' x = Sampled k g"
  shows "sy_pc s x = Sampled k g \<or> g = ca_generation (sy_cache s) \<and> ca_generation (sy_cache s') = g"
proof (cases "x = t")
  case True
  with assms show ?thesis by (cases rule: step.cases) (auto simp: sys_updates)
next
  case False
  with assms step_other show ?thesis by metis
qed

section \<open>Samples are never from the future\<close>

definition samples_ok :: "nat \<Rightarrow> ('k, 'v) sys \<Rightarrow> bool" where
  "samples_ok n s \<longleftrightarrow>
     unat (ca_generation (sy_cache s)) \<le> n \<and>
     (\<forall>t k g. sy_pc s t = Sampled k g \<longrightarrow> unat g \<le> unat (ca_generation (sy_cache s)))"

lemma generation_grows:
  assumes "step mk t s s'" "samples_ok n s" "Suc n < 2 ^ 64"
  shows "unat (ca_generation (sy_cache s')) =
    unat (ca_generation (sy_cache s)) + (if sy_pc s t = Idle \<and> invalidating (sy_pc s' t) then 1 else 0)"
  using step_generation [OF assms(1)] assms(2,3) unat_next [of "ca_generation (sy_cache s)" n]
  by (simp add: samples_ok_def)

lemma samples_ok_step [inv_intros]:
  assumes "step mk t s s'" "samples_ok n s" "Suc n < 2 ^ 64"
  shows "samples_ok (Suc n) s'"
proof -
  note grows = generation_grows [OF assms]
  have "unat g \<le> unat (ca_generation (sy_cache s'))" if "sy_pc s' x = Sampled k g" for x k g
    using step_sampled [OF assms(1) that]
  proof
    assume "sy_pc s x = Sampled k g"
    then have "unat g \<le> unat (ca_generation (sy_cache s))" using assms(2) unfolding samples_ok_def by blast
    with grows show ?thesis by (simp split: if_splits)
  qed simp
  with grows assms(2) show ?thesis by (simp add: samples_ok_def)
qed

lemma reach_samples_ok: "reach mk m n s \<Longrightarrow> n < 2 ^ 64 \<Longrightarrow> samples_ok n s"
proof (induction rule: reach.induct)
  case reach_init
  show ?case by (simp add: samples_ok_def sys_init_def cache_new_def)
next
  case (reach_step n s t s')
  then show ?case using samples_ok_step by simp
qed

text \<open>A generation that was passed stays passed.\<close>

lemma runs_generation:
  assumes "runs mk j s s'" "samples_ok n s" "n + j < 2 ^ 64"
  shows "samples_ok (n + j) s' \<and> unat (ca_generation (sy_cache s)) \<le> unat (ca_generation (sy_cache s'))"
  using assms
proof (induction rule: runs.induct)
  case (runs_step j s s' t s'')
  then have IH: "samples_ok (n + j) s'" "unat (ca_generation (sy_cache s)) \<le> unat (ca_generation (sy_cache s'))"
    by simp_all
  have "Suc (n + j) < 2 ^ 64" using runs_step.prems(2) by simp
  with samples_ok_step [OF runs_step.hyps(2) IH(1)] generation_grows [OF runs_step.hyps(2) IH(1)] IH(2)
  show ?case by simp
qed simp

section \<open>Properties\<close>

text \<open>
  C13. What was read before an invalidation is never stored after it. Take a task that sampled the
  generation and is asking the backend, and any other task that starts an invalidation, of a
  key, of matching entries or of everything. Whatever else runs afterwards, if the
  first task then gets its answer, it returns the answer to its caller and the cache stays as it is.
\<close>

theorem populate_respects_invalidation:
  assumes "reach mk m n s" "n + 1 + j < 2 ^ 64"
    and "sy_pc s t = Sampled k g"
    and "sy_pc s u = Idle" "step mk u s s1" "invalidating (sy_pc s1 u)"
    and "runs mk j s1 s2" "sy_pc s2 t = Sampled k g" "step mk t s2 s3"
  shows "sy_cache s3 = sy_cache s2 \<and> (\<exists>r. sy_pc s3 t = Done k r)"
proof -
  have ok: "samples_ok n s" by (rule reach_samples_ok [OF assms(1)]) (use assms(2) in simp)
  have room: "Suc n < 2 ^ 64" using assms(2) by simp
  have "unat g \<le> unat (ca_generation (sy_cache s))" using ok assms(3) unfolding samples_ok_def by blast
  then have "unat g < unat (ca_generation (sy_cache s1))"
    using generation_grows [OF assms(5) ok room] assms(4,6) by simp
  also have "\<dots> \<le> unat (ca_generation (sy_cache s2))"
    using runs_generation [OF assms(7) samples_ok_step [OF assms(5) ok room]] assms(2) by simp
  finally have "ca_generation (sy_cache s2) \<noteq> g" by auto
  with assms(8) show ?thesis
    using assms(9) by - (erule step.cases, auto simp: sys_updates insert_if_current_def)
qed

text \<open>Task 1 samples, task 2 starts to clear the cache, and task 1 gets its answer.\<close>

theorem populate_respects_invalidation_witness:
  "\<exists>s2 s3 :: (nat, nat) sys. sy_pc s2 1 = Sampled 7 0 \<and> step demo_error 1 s2 s3 \<and> sy_pc s3 1 = Done 7 (Inr 42) \<and>
     cache_get (sy_cache s3) 7 = None"
proof -
  let ?s0 = "sys_init (Some 2) :: (nat, nat) sys"
  let ?s1 = "set_pc 1 (Sampled 7 0) ?s0"
  let ?s2 = "set_pc 2 Clearing (set_cache (bump_generation (sy_cache ?s1)) ?s1)"
  let ?s3 = "set_pc 1 (Done 7 (Inr 42)) (note_fetched 7 (Inr 42) (set_cache (insert_if_current 7 42 0 (sy_cache ?s2)) ?s2))"
  note ev = sys_updates sys_init_def cache_new_def cache_get_def bump_generation_def
  have r1: "reach demo_error (Some 2) (Suc 0) ?s1"
    using reach_step [OF reach_init sample [of "sys_init (Some 2)" 1 demo_error 7]] by (simp add: ev)
  have c: "step demo_error 2 ?s1 ?s2" by (rule clr_bump) (simp add: ev)
  have i: "step demo_error 1 ?s2 ?s3" by (rule insert_current) (simp add: ev)
  have "sy_cache ?s3 = sy_cache ?s2"
    using populate_respects_invalidation [OF r1 _ _ _ c _ runs_refl _ i, of 7 0] by (simp add: ev)
  then have "cache_get (sy_cache ?s3) 7 = None" by (simp only:) (simp add: ev)
  moreover have "sy_pc ?s2 1 = Sampled 7 0" "sy_pc ?s3 1 = Done 7 (Inr 42)" by (simp_all add: ev)
  ultimately show ?thesis using i by blast
qed

end
