(* ===== verification/Request_Budget.thy ===== *)
theory Request_Budget
  imports Http
begin

text \<open>
  What one call of \<open>request\<close> (\<open>src/http.rs\<close>) can cost: requests on the wire and time spent in back-off,
  whatever the server answers.
\<close>

section \<open>A world that counts\<close>

text \<open>
  \<open>slept\<close> reads the nanoseconds of all sleeps from the world, \<open>sent\<close> the requests that reached a
  server. One \<open>send\<close> of a \<open>reqwest\<close> client is the request and the redirects it follows, of which
  \<open>Policy::limited(n)\<close> allows \<open>n\<close>; the last such option of the builder counts, and a client built without
  one follows ten, the documented default. (A request that the package sends again on a new connection because
  the server did not accept it counts once.)
\<close>

definition redirect_limit :: "('c, 'i) transport_option list \<Rightarrow> nat" where
  "redirect_limit options = fold (\<lambda>opt n. case opt of RedirectLimit k \<Rightarrow> k | _ \<Rightarrow> n) options 10"

definition metered :: "nat \<Rightarrow> 'w http_env \<Rightarrow> ('w \<Rightarrow> nat) \<Rightarrow> ('w \<Rightarrow> nat) \<Rightarrow> bool" where
  "metered redirects env slept sent \<longleftrightarrow>
     (\<forall>d w. slept (he_sleep env d w) = slept w + d \<and> sent (he_sleep env d w) = sent w) \<and>
     (\<forall>rq w. slept (snd (he_send env rq w)) = slept w \<and> sent (snd (he_send env rq w)) \<le> sent w + (1 + redirects)) \<and>
     (\<forall>w. slept (snd (he_acquire env w)) = slept w \<and> sent (snd (he_acquire env w)) = sent w) \<and>
     (\<forall>w. slept (he_release env w) = slept w \<and> sent (he_release env w) = sent w)"

text \<open>The limit among the options that the code sets.\<close>

lemma redirect_limit_other:
  "(\<And>opt k. opt \<in> set options \<Longrightarrow> opt \<noteq> RedirectLimit k) \<Longrightarrow>
   fold (\<lambda>opt n. case opt of RedirectLimit k \<Rightarrow> k | _ \<Rightarrow> n) options n = n"
proof (induction options)
  case (Cons opt options)
  then have "(case opt of RedirectLimit k \<Rightarrow> k | _ \<Rightarrow> n) = n" by (cases opt) auto
  with Cons show ?case by simp
qed simp

lemma redirect_limit_set: "redirect_limit (transport_options config) = 3"
proof -
  define others where "others = drop 2 (transport_options config)"
  have split: "transport_options config = [UserAgent USER_AGENT, RedirectLimit MAX_REDIRECTS] @ others"
    by (simp add: transport_options_def others_def)
  have "opt \<noteq> RedirectLimit k" if "opt \<in> set others" for opt k
    using that by (auto simp: others_def transport_options_def split: option.splits)
  then show ?thesis
    unfolding split redirect_limit_def fold_append by (simp add: redirect_limit_other MAX_REDIRECTS_def)
qed

lemma metered_sleep:
  "metered redirects env slept sent \<Longrightarrow> slept (he_sleep env d w) = slept w + d"
  "metered redirects env slept sent \<Longrightarrow> sent (he_sleep env d w) = sent w"
  by (simp_all add: metered_def)

lemma metered_limiter:
  "metered redirects env slept sent \<Longrightarrow> he_acquire env w = (b, w') \<Longrightarrow> slept w' = slept w \<and> sent w' = sent w"
  "metered redirects env slept sent \<Longrightarrow> slept (he_release env w) = slept w \<and> sent (he_release env w) = sent w"
  unfolding metered_def by (metis snd_conv)+

lemma metered_once:
  assumes "metered redirects env slept sent"
  shows "slept (snd (request_once env rq w)) = slept w \<and> sent (snd (request_once env rq w)) \<le> sent w + (1 + redirects)"
proof -
  have "slept (snd (he_send env rq w)) = slept w" "sent (snd (he_send env rq w)) \<le> sent w + (1 + redirects)"
    using assms by (simp_all add: metered_def)
  then show ?thesis by (auto simp: request_once_def split: prod.splits sum.splits)
qed

section \<open>The cap on one delay\<close>

lemma from_as_millis: "from_millis (as_millis_u64 d) \<le> d"
proof -
  have "from_millis (as_millis_u64 d) \<le> d div 1000000 * 1000000" by (simp add: from_millis_def as_millis_u64_def)
  also have "\<dots> \<le> d" by (rule div_times_less_eq_dividend)
  finally show ?thesis .
qed

lemma delay_for_capped: "delay_for seed p n after \<le> rp_max_backoff p"
proof -
  let ?mx = "as_millis_u64 (rp_max_backoff p)"
  have below: "from_millis a \<le> rp_max_backoff p" if "a \<le> ?mx" for a
    using that from_as_millis [of "rp_max_backoff p"] by (simp add: from_millis_def)
  have half: "c div 2 + random_u64_below seed (min (c div 2 + 1) U64_MAX) \<le> ?mx" if "c \<le> ?mx" for c
    using half_plus_random [of c seed] as_millis_bound [of "rp_max_backoff p"] that by simp
  define c where "c = min (saturating_mul (as_millis_u64 (rp_base_backoff p))
      (case checked_shl_one n of Some k \<Rightarrow> k | None \<Rightarrow> U64_MAX)) ?mx"
  have "delay_for seed p n after = (case (if rp_honor_retry_after p then after else None) of
      Some ms \<Rightarrow> from_millis (min ms ?mx)
    | None \<Rightarrow> from_millis (if \<not> rp_jitter p \<or> c = 0 then c
        else c div 2 + random_u64_below seed (min (c div 2 + 1) U64_MAX)))"
    unfolding delay_for_def Let_def c_def [symmetric] if_distrib [of from_millis] by (rule refl)
  also have "\<dots> \<le> rp_max_backoff p"
    using half [of c] by (auto simp: c_def split: option.split intro!: below)
  finally show ?thesis .
qed

lemma world_at_budget:
  assumes "metered redirects env slept sent"
  shows "slept (world_at env p rq a w k) \<le> slept w + k * rp_max_backoff p \<and>
    sent (world_at env p rq a w k) \<le> sent w + k * (1 + redirects)"
proof (induction k)
  case (Suc k)
  let ?v = "world_at env p rq a w k"
  obtain r v where once: "request_once env rq ?v = (r, v)" by fastforce
  have "slept v = slept ?v" "sent v \<le> sent ?v + (1 + redirects)" using metered_once [OF assms, of rq ?v] once by simp_all
  moreover have "delay_for (he_seed env v) p (a + k) (server_delay r) \<le> rp_max_backoff p" by (rule delay_for_capped)
  ultimately show ?case using Suc once metered_sleep [OF assms] by simp
qed simp

lemma request_loop_budget:
  assumes "metered redirects env slept sent" "request_loop env p rq 0 w = (r, w')"
  shows "slept w' \<le> slept w + rp_max_retries p * rp_max_backoff p \<and> sent w' \<le> sent w + (rp_max_retries p + 1) * (1 + redirects)"
proof -
  obtain k where k: "k \<le> rp_max_retries p" "request_loop env p rq 0 w = request_once env rq (world_at env p rq 0 w k)"
    using request_loop_attempts [of 0 p env rq w] by auto
  then have last: "snd (request_once env rq (world_at env p rq 0 w k)) = w'" using assms(2) by (metis snd_conv)
  have le: "k * rp_max_backoff p \<le> rp_max_retries p * rp_max_backoff p" using k(1) by (rule mult_le_mono1)
  have le': "k * (1 + redirects) \<le> rp_max_retries p * (1 + redirects)" using k(1) by (rule mult_le_mono1)
  note before = world_at_budget [OF assms(1), of p rq 0 w k]
    and after = metered_once [OF assms(1), of rq "world_at env p rq 0 w k", unfolded last]
  show ?thesis
  proof
    show "slept w' \<le> slept w + rp_max_retries p * rp_max_backoff p"
      using before [THEN conjunct1] after [THEN conjunct1] le by linarith
    have "(rp_max_retries p + 1) * (1 + redirects) = rp_max_retries p * (1 + redirects) + (1 + redirects)" by simp
    then show "sent w' \<le> sent w + (rp_max_retries p + 1) * (1 + redirects)"
      using before [THEN conjunct2] after [THEN conjunct2] le' by linarith
  qed
qed

section \<open>Properties\<close>

lemma request_metered:
  assumes "metered redirects env slept sent" "request env cl rq w = (r, w')"
  shows "slept w' \<le> slept w + rp_max_retries (hc_retry_policy cl) * rp_max_backoff (hc_retry_policy cl) \<and>
    sent w' \<le> sent w + (rp_max_retries (hc_retry_policy cl) + 1) * (1 + redirects)"
proof (cases "hc_concurrency cl")
  case None
  with assms(2) request_loop_budget [OF assms(1)] show ?thesis by (simp add: request_def)
next
  case (Some limit)
  obtain b v where a: "he_acquire env w = (b, v)" by fastforce
  obtain q u where loop: "request_loop env (hc_retry_policy cl) rq 0 v = (q, u)" by fastforce
  have "w' = v \<or> w' = he_release env u" using assms(2) Some a loop by (auto simp: request_def split: bool.splits)
  with metered_limiter(1) [OF assms(1) a] metered_limiter(2) [OF assms(1), of u] request_loop_budget [OF assms(1) loop]
  show ?thesis by auto
qed

text \<open>
  C29. The price of a request. A client built by \<open>with_config\<close> has the retry policy of its
  configuration and a redirect limit of three. So whatever the server answers, redirects
  included, and whatever it asks for in \<open>Retry-After\<close>, one call makes at most
  \<open>max_retries + 1\<close> attempts of at most four requests each and sleeps at most \<open>max_retries\<close>
  times \<open>max_backoff\<close>, with and without a limit on concurrent requests, jittered or not.
\<close>

theorem request_budget:
  assumes "with_config finish config = Inr cl"
    and "metered (redirect_limit (transport_options config)) env slept sent"
    and "request env cl rq w = (r, w')"
  shows "slept w' \<le> slept w + rp_max_retries (cf_retry_policy config) * rp_max_backoff (cf_retry_policy config) \<and>
    sent w' \<le> sent w + (rp_max_retries (cf_retry_policy config) + 1) * 4"
proof -
  have "hc_retry_policy cl = cf_retry_policy config" using assms(1) by (auto simp: with_config_def split: sum.splits)
  with request_metered [OF assms(2,3)] show ?thesis by (simp add: redirect_limit_set)
qed

text \<open>A server that sends every request around three redirects, then answers 429 and asks for an hour.\<close>

definition greedy_env :: "(nat \<times> nat) http_env" where
  "greedy_env =
     demo_env\<lparr>he_send := (\<lambda>_ (n, s). (Inr \<lparr>rr_status = 429, rr_headers = [(''retry-after'', Some ''3600'')],
        rr_content_length = None, rr_chunks = []\<rparr>, (n + 4, s)))\<rparr>"

definition greedy_config :: "(unit, unit) http_client_config" where
  "greedy_config = config_default\<lparr>cf_max_concurrent_requests := Some 1\<rparr>"

theorem request_budget_witness:
  "fst (snd (request greedy_env \<lparr>hc_retry_policy = policy_default, hc_concurrency = Some 1\<rparr> demo_request (0, 0))) \<le> 16 \<and>
   snd (snd (request greedy_env \<lparr>hc_retry_policy = policy_default, hc_concurrency = Some 1\<rparr> demo_request (0, 0))) \<le> from_millis 180000"
proof -
  have built: "with_config (\<lambda>_. Inr ()) greedy_config = Inr \<lparr>hc_retry_policy = policy_default, hc_concurrency = Some 1\<rparr>"
    by (simp add: with_config_def greedy_config_def config_default_def)
  have "metered (redirect_limit (transport_options greedy_config)) greedy_env snd fst"
    by (auto simp: metered_def greedy_env_def demo_env_def redirect_limit_set)
  from request_budget [OF built this surjective_pairing, of demo_request "(0, 0)"]
  show ?thesis
    by (simp add: greedy_config_def config_default_def policy_default_def DEFAULT_MAX_RETRIES_def
        DEFAULT_MAX_BACKOFF_def from_millis_def)
qed

end
