(* ===== verification/Spec2Isabelle.thy ===== *)
theory Spec2Isabelle
  imports Glue_Wire Cache_Concurrency Resolver Cached_Registry Confluent_Encoder Decoder
    Avro_Order Avro_Codec Json_Codec Protobuf_Codec Confluent_Client Apicurio_Client Glue_Client
    Debug_Output Pipelines Identities Cache_Fifo Cache_Refinement Managed_Cache Warm_Concurrency
    Glue_Pipeline Apicurio_Pipeline Json_Pipeline
    Populate_Concurrency Request_Budget
begin

text \<open>
  A model of \<open>schemreg\<close>, a client library for schema registries: it frames Kafka payloads with the
  identifier of their schema, resolves identifiers with Confluent, Apicurio and AWS Glue registries,
  caches what they answer, and encodes and decodes Avro, JSON and Protobuf values.

  \<^bold>\<open>Parts and theories.\<close> Every theory names the file under \<open>src/src\<close> it models; definitions keep the
  source's names, with a prefix where two files use one name.

  \<^item> \<open>Prelude\<close>, \<open>Rust_Std\<close>: results, the effect type \<open>('s, 'a) io\<close>, and what the code uses of the
    standard library (hash maps, strings as UTF-8 bytes, decimal text, saturating arithmetic).
  \<^item> \<open>Errors\<close> (\<open>error.rs\<close>), \<open>Schema_Types\<close> (\<open>types.rs\<close>), \<open>Glue_Types\<close> and \<open>Glue_Wire\<close>
    (\<open>glue/mod.rs\<close>): errors with their predicates, identifiers, enums and schema records.
  \<^item> \<open>Byte_Codec\<close>, \<open>Wire\<close> (\<open>wire.rs\<close>): prefixes, varints, message-index arrays, header framing, detection.
  \<^item> \<open>Identities\<close> (\<open>types.rs\<close>, \<open>glue/mod.rs\<close>): conversions, comparisons, orders and text of identifiers.
  \<^item> \<open>Cache_Inner\<close>, \<open>Cache_Concurrency\<close> (\<open>cache_inner.rs\<close>): the bounded store with fetch coalescing, as
    functions, and its tasks as a step relation whose interleavings are arbitrary;
    \<open>Cache_Fifo\<close> is the abstract machine the functions implement, a bounded queue of entries with the
    channels that wait for each key;
    \<open>Cache_Refinement\<close> shows that the functions are the runs of one task on its own, and
    \<open>Warm_Concurrency\<close> that overlapping fetches end with everything cached that loaded,
    \<open>Populate_Concurrency\<close> that what was read before an invalidation is not inserted after it.
  \<^item> \<open>Retry\<close> (\<open>retry.rs\<close>), \<open>Calendar\<close>, \<open>Url_Guard\<close>, \<open>Utf8\<close>, \<open>Http\<close> (\<open>http.rs\<close>): back-off,
    \<open>Retry-After\<close>, URL and subject checks, the request loop and its limits; \<open>Calendar\<close> computes in
    \<open>i64\<close> with wrap-around and is the calendar for years below 25 * 10^15; \<open>Request_Budget\<close> bounds
    what one call can cost, in back-off and in requests with the redirects they are sent around.
  \<^item> \<open>Registry\<close> (\<open>traits.rs\<close>), \<open>Cached_Registry\<close> (\<open>cache.rs\<close>, \<open>glue/mod.rs\<close>): a client is a record of
    its calls; the wrapper turns one into another whose world also holds the caches.
    \<open>Managed_Cache\<close> is the management interface of both wrappers.
  \<^item> \<open>Subject\<close> (\<open>subject.rs\<close>), \<open>Resolver\<close> (\<open>resolver.rs\<close>), \<open>Confluent_Encoder\<close>
    (\<open>confluent/encoder.rs\<close>), \<open>Decoder\<close> (\<open>decoder.rs\<close>): the way of a payload to a frame and back.
  \<^item> \<open>Confluent_Client\<close> (\<open>confluent/mod.rs\<close>), \<open>Apicurio_Client\<close> (\<open>apicurio/mod.rs\<close>), \<open>Glue_Client\<close>
    (\<open>glue/client.rs\<close>, \<open>glue/error.rs\<close>): the three backends.
  \<^item> \<open>Topo_Order\<close>, \<open>Serde_Json\<close>, \<open>Avro_Set\<close>, \<open>Avro_Order\<close> (\<open>avro/schema_set.rs\<close>),
    \<open>Reference_Closure\<close>, \<open>Avro_Codec\<close> (\<open>avro/mod.rs\<close>), \<open>Json_Codec\<close> (\<open>json/mod.rs\<close>),
    \<open>Protobuf_Codec\<close> (\<open>protobuf/mod.rs\<close>): the codecs and the closures of references they need.
  \<^item> \<open>Debug_Output\<close>: what the hand-written \<open>Debug\<close> implementations of all these types show.
  \<^item> \<open>Pipelines\<close>, \<open>Glue_Pipeline\<close>, \<open>Apicurio_Pipeline\<close>: a producer and a consumer over a
    registry of each kind, put together from the parts above; \<open>Pipelines\<close> also has those of Avro values,
    \<open>Json_Pipeline\<close> those of JSON values.

  \<^bold>\<open>State and effects.\<close> An object with interior mutability is a value passed in and out: a
  \<open>cache\<close> is the store behind its lock with the table of fetches in flight, an encoder is a record
  of its settings beside the \<open>key_cache\<close> of its subjects, a decoder beside its schema cache. The outside world is
  the type variable \<^typ>\<open>'s\<close> of \<open>io\<close>, and every call that reaches it returns it. In a sequential operation no other task
  runs, except where the code awaits between reading and writing a shared cache: there the
  argument \<open>during\<close> stands for anything the others do. \<open>Cache_Concurrency\<close> has no such
  restriction. Every \<open>Err\<close>, early return and panic is a value; numbers keep their width where it can
  be exceeded (\<open>u8\<close>, \<open>u32\<close>, \<open>u64\<close>, \<open>u128\<close> are words), \<open>usize\<close> is \<^typ>\<open>nat\<close>, \<open>i32\<close> is \<^typ>\<open>int\<close>
  with the conversions written out, \<open>i64\<close> is \<^typ>\<open>int\<close> with the wrap-around written out.

  \<^bold>\<open>Code outside the crate\<close> is an argument: \<open>reqwest\<close>, the clock, the random seed and the semaphore
  (\<open>http_env\<close>), \<open>serde_json\<close>, \<open>base64\<close>, \<open>uuid\<close> and percent coding (\<open>confluent_env\<close>, \<open>apicurio_env\<close>),
  the AWS SDK (\<open>glue_sdk\<close>), \<open>flate2\<close> (\<open>zlib\<close>), \<open>apache_avro\<close> (\<open>avro_api\<close>), \<open>jsonschema\<close> and
  \<open>prost\<close>. What a theorem needs of them is a hypothesis of it: that the codec reads what it
  wrote, that percent coding has the documented output, that a registry is truthful.

  \<^bold>\<open>What the lemmas show.\<close>

  \<^item> Wire formats: every encoder has an exact inverse, detection and decoding agree, lengths and
    decoded arrays are bounded (the interpretations of \<open>byte_codec\<close> and \<open>exact_codec\<close>).
  \<^item> The coalescing cache: invariants of all reachable states by rule induction, one leader per key,
    every caller that misses meanwhile joins its slot, no waiter is left parked, invalidation revokes fetches; the
    sequential operations implement the queue of \<open>Cache_Fifo\<close>; \<open>fetch_cache\<close> is the interface the
    wrappers and encoders use, with \<open>fc\<close> its interpretation on the code's \<open>get_or_fetch\<close>.
  \<^item> Caching refines the inner registry: \<open>sound_registry\<close> is the contract, \<open>coherent\<close> the invariant;
    \<open>managed_cache\<close> is the contract of managing a cache, with one interpretation per wrapper.
  \<^item> HTTP: number and spacing of attempts, body limits, Gregorian dates, the host a URL check
    looks at, requests that stay below the base URL, one path segment per subject.
  \<^item> Avro sets: the order that Kahn's algorithm gives puts definitions first (\<open>prerequisite_graph\<close>),
    a set that parses is one the codec can resolve, and one that is refused is refused for a reason that is
    there, a cycle with the names of exactly the schemas it blocks; closures reach every reference exactly once
    (\<open>reference_collector\<close>, \<open>bounded_collector\<close>).
  \<^item> Composition: resolved identifiers are those the registry reported, what a producer encodes a consumer
    decodes, through builders, caches and clients of all three backends; Apicurio's latest version is read in
    two requests, which \<open>latest_schema_torn\<close> shows to disagree when a version is registered between them.

  \<^bold>\<open>Bounds and termination.\<close> The request loop is measured by the attempts left, polling by its
  count, the closure by the depth limit of 32, Kahn's queue by the remaining prerequisites; the
  paginated listings of Apicurio, which a server can prolong for ever, are partial functions in
  the option monad, and \<open>apicurio_listing_complete\<close> shows for a finite server that they return. No
  definition uses fuel.

  \<^bold>\<open>Not modelled.\<close> \<open>lib.rs\<close> (re-exports, feature gates); what \<open>reqwest\<close> does with
  the options handed to it (timeouts, TLS, pool, redirects: \<open>request_budget\<close> takes the documented meaning of
  the redirect limit as a hypothesis); \<open>serde\<close> implementations and \<open>tracing\<close> output; the memory layout of \<open>Bytes\<close> and \<open>Arc\<close>,
  which values do not show; tests, benches and examples.
\<close>

section \<open>From producer to consumer\<close>

text \<open>
  C6. What a producer encodes, a consumer decodes. If an encoder frames a payload, under any
  resolution and framing, and the consumer's registry knows the identifier the encoder resolved
  as a schema of the encoder's type, then decoding the frame gives back the payload, the
  message path of a Protobuf payload, and that schema, with one lookup.
\<close>

theorem producer_consumer_round_trip:
  assumes "cache_idle c" and "Confluent_Encoder.encode en payload topic rn target (c, s) = (Inr out, (c', s'))"
    and "subject_name (en_strategy en) topic rn target = Inr subject"
    and "cached_schema_key c' subject = Some key"
    and "length (en_indexes en) \<le> 512"
    and "get_schema_by_key rg key t = (Inr x, t')" and "sch_type x = en_schema_type en"
  shows "decode glue z (with_confluent rg decoder_new) out t =
    (Inr \<lparr>dm_format = format_of_type (sch_type x), dm_payload = payload, dm_metadata = Some (ConfluentMeta x),
       dm_indexes = (if sch_type x = Protobuf
         then Some (if en_indexes en = [] then [0] else en_indexes en) else None)\<rparr>, t')"
proof -
  have out: "out = frame en key payload"
  proof (rule encode_InrE [OF assms(2)])
    fix subject' key'
    assume k: "subject_name (en_strategy en) topic rn target = Inr subject'"
      and r: "resolve_key en subject' (c, s) = (Inr key', (c', s'))" and o: "out = frame en key' payload"
    have "cache_get c' subject' = Some key'"
      using assms(1) r unfolding resolve_key_def by (cases rule: fc.fetch_cases) auto
    with k o assms(3,4) show ?thesis by (simp add: cached_schema_key_def)
  qed
  have d: "wd_confluent (with_confluent rg decoder_new) = Some rg" by (simp add: with_confluent_def)
  show ?thesis unfolding out by (rule decode_own_frame [OF d assms(5-7)])
qed

theorem producer_consumer_round_trip_witness:
  "\<exists>frame. fst (Confluent_Encoder.encode demo_encoder [9] ''orders'' None Value (cache_new (Some 1), 0)) = Inr frame \<and>
   decode True None (with_confluent (one_registry\<lparr>rg_get_schema_by_guid := \<lambda>_. io_return (one_schema\<lparr>sch_type := Protobuf\<rparr>)\<rparr>) decoder_new)
     frame 0 =
   (Inr \<lparr>dm_format = FmtProtobuf, dm_payload = [9], dm_metadata = Some (ConfluentMeta (one_schema\<lparr>sch_type := Protobuf\<rparr>)),
      dm_indexes = Some [1, 0]\<rparr>, 0)"
proof -
  let ?c = "cache_new (Some 1)\<lparr>ca_next_token := 1,
        ca_store := insert_locked (Some 1) ''orders-value'' (Guid (SchemaGuid 7)) \<lparr>st_entries = [], st_order = []\<rparr>\<rparr>"
  let ?rg = "one_registry\<lparr>rg_get_schema_by_guid := \<lambda>_. io_return (one_schema\<lparr>sch_type := Protobuf\<rparr>)\<rparr>"
  have e: "Confluent_Encoder.encode demo_encoder [9] ''orders'' None Value (cache_new (Some 1), 0) =
      (Inr (frame demo_encoder (Guid (SchemaGuid 7)) [9]), (?c, 1))"
    using demo_resolve [of "''orders-value''"]
    by (simp add: Confluent_Encoder.encode_def subject_for_def io_bind_def demo_encoder_def)
  have "decode True None (with_confluent ?rg decoder_new) (frame demo_encoder (Guid (SchemaGuid 7)) [9]) 0 =
      (Inr \<lparr>dm_format = FmtProtobuf, dm_payload = [9], dm_metadata = Some (ConfluentMeta (one_schema\<lparr>sch_type := Protobuf\<rparr>)),
         dm_indexes = Some [1, 0]\<rparr>, 0)"
    using producer_consumer_round_trip [OF _ e, of "''orders-value''" "Guid (SchemaGuid 7)" ?rg 0
        "one_schema\<lparr>sch_type := Protobuf\<rparr>" 0 True None] idle_new [of 1]
    by (simp add: demo_encoder_def cached_schema_key_def cache_get_def insert_locked_def get_schema_by_key_def
        del: One_nat_def)
  with e show ?thesis by simp
qed

end
